(* ===== verification/Prelude.thy ===== *)
theory Prelude
  imports
    Main
    "HOL-Library.Word"
    "HOL-Library.AList"
    "HOL-Library.Monad_Syntax"
begin

text \<open>
  Shared vocabulary of the development: the machine integers the crates use, the
  model of \<open>std::collections::HashMap\<close> (an association list without repeated keys,
  whose order is the iteration order the program must not depend on), vectors
  with the operations the code uses, and the interface of a consecutive-failure
  counter, which four subsystems share.
\<close>

section \<open>Machine integers\<close>

type_synonym u8 = "8 word"
type_synonym u32 = "32 word"
type_synonym u64 = "64 word"

text \<open>
  The release profile of the workspace leaves overflow checks off, so \<open>+=\<close> on a
  counter wraps: word addition is the code's addition. Lengths and indices
  (\<open>usize\<close>) are natural numbers, bounded by the address space.
\<close>

lemma unat_add_one_no_wrap [simp]:
  "unat x + 1 < 2 ^ LENGTH('a) \<Longrightarrow> unat (x + 1 :: 'a::len word) = unat x + 1"
  by (simp add: unat_word_ariths)

lemma unat_u32_less: "unat (x :: u32) < 2 ^ 32"
  using unsigned_less [of x] by simp

lemma unat_u64_less: "unat (x :: u64) < 2 ^ 64"
  using unsigned_less [of x] by simp

section \<open>Lists\<close>

text \<open>\<open>filter_map\<close> is \<^const>\<open>List.map_filter\<close>.\<close>

lemma set_map_filter_iff [simp]: "y \<in> set (List.map_filter f xs) \<longleftrightarrow> (\<exists>x \<in> set xs. f x = Some y)"
  by (force simp: List.map_filter_def)

lemma find_Some_mem: "List.find P xs = Some x \<Longrightarrow> x \<in> set xs \<and> P x"
  by (auto simp: find_Some_iff)

lemma map_upt_update: "(map f [0..<n])[j := v] = map (\<lambda>i. if i = j then v else f i) [0..<n]"
proof (rule nth_equalityI)
  fix i
  assume "i < length ((map f [0..<n])[j := v])"
  then show "(map f [0..<n])[j := v] ! i = map (\<lambda>i. if i = j then v else f i) [0..<n] ! i"
    by (cases "i = j") simp_all
qed simp

text \<open>\<open>iter_mut().find(..)\<close> and an assignment through the reference.\<close>

fun update_first :: "('a \<Rightarrow> bool) \<Rightarrow> ('a \<Rightarrow> 'a) \<Rightarrow> 'a list \<Rightarrow> 'a list" where
  "update_first P f [] = []"
| "update_first P f (x # xs) = (if P x then f x # xs else x # update_first P f xs)"

lemma set_update_first: "set (update_first P f xs) \<subseteq> set xs \<union> f ` {x \<in> set xs. P x}"
  by (induction xs) auto

lemma length_update_first [simp]: "length (update_first P f xs) = length xs"
  by (induction xs) auto

lemma list_all_update_first: "list_all Q xs \<Longrightarrow> (\<And>x. Q x \<Longrightarrow> Q (f x)) \<Longrightarrow> list_all Q (update_first P f xs)"
  by (induction xs) auto

text \<open>A stable sort commutes with a mapping.\<close>

lemma insort_key_map: "insort_key f (g x) (map g xs) = map g (insort_key (\<lambda>x. f (g x)) x xs)"
  by (induction xs) simp_all

lemma sort_key_map: "sort_key f (map g xs) = map g (sort_key (\<lambda>x. f (g x)) xs)"
  by (induction xs) (simp_all add: insort_key_map)

section \<open>Hash maps\<close>

named_theorems hm_lemmas \<open>facts about the hash map model\<close>

type_synonym ('k, 'v) hmap = "('k \<times> 'v) list"

definition hm_ok :: "('k, 'v) hmap \<Rightarrow> bool" where
  "hm_ok m \<longleftrightarrow> distinct (map fst m)"

definition hm_get :: "('k, 'v) hmap \<Rightarrow> 'k \<Rightarrow> 'v option" where
  "hm_get m k = map_of m k"

definition hm_insert :: "'k \<Rightarrow> 'v \<Rightarrow> ('k, 'v) hmap \<Rightarrow> ('k, 'v) hmap" where
  "hm_insert k v m = AList.update k v m"

definition hm_remove :: "'k \<Rightarrow> ('k, 'v) hmap \<Rightarrow> ('k, 'v) hmap" where
  "hm_remove k m = AList.delete k m"

definition hm_keys :: "('k, 'v) hmap \<Rightarrow> 'k list" where
  "hm_keys m = map fst m"

definition hm_values :: "('k, 'v) hmap \<Rightarrow> 'v list" where
  "hm_values m = map snd m"

text \<open>\<open>iter.map(|x| (key(x), x)).collect()\<close>: a later entry replaces an earlier one.\<close>

definition hm_collect :: "('a \<Rightarrow> 'k) \<Rightarrow> 'a list \<Rightarrow> ('k, 'a) hmap" where
  "hm_collect key xs = foldl (\<lambda>m x. hm_insert (key x) x m) [] xs"

lemma hm_ok_Nil [simp, hm_lemmas]: "hm_ok []"
  by (simp add: hm_ok_def)

lemma hm_ok_insert [simp, hm_lemmas]: "hm_ok m \<Longrightarrow> hm_ok (hm_insert k v m)"
  by (simp add: hm_ok_def hm_insert_def distinct_update)

lemma hm_ok_remove [simp, hm_lemmas]: "hm_ok m \<Longrightarrow> hm_ok (hm_remove k m)"
  by (simp add: hm_ok_def hm_remove_def distinct_delete)

lemma hm_get_Nil [simp, hm_lemmas]: "hm_get [] k = None"
  by (simp add: hm_get_def)

lemma hm_get_Cons [hm_lemmas]: "hm_get (p # m) k = (if fst p = k then Some (snd p) else hm_get m k)"
  by (cases p) (auto simp: hm_get_def)

lemma hm_get_insert [simp, hm_lemmas]:
  "hm_get (hm_insert k v m) k' = (if k = k' then Some v else hm_get m k')"
  by (auto simp: hm_get_def hm_insert_def update_conv')

lemma hm_get_remove [simp, hm_lemmas]:
  "hm_get (hm_remove k m) k' = (if k = k' then None else hm_get m k')"
  by (auto simp: hm_get_def hm_remove_def delete_conv')

lemma hm_keys_insert [hm_lemmas]: "set (hm_keys (hm_insert k v m)) = insert k (set (hm_keys m))"
  by (simp add: hm_keys_def hm_insert_def dom_update)

lemma hm_keys_remove [hm_lemmas]: "set (hm_keys (hm_remove k m)) = set (hm_keys m) - {k}"
  by (simp add: hm_keys_def hm_remove_def delete_keys)

lemma hm_get_None_iff [hm_lemmas]: "hm_get m k = None \<longleftrightarrow> k \<notin> set (hm_keys m)"
  by (simp add: hm_get_def hm_keys_def map_of_eq_None_iff)

lemma hm_get_Some_iff [hm_lemmas]: "hm_ok m \<Longrightarrow> hm_get m k = Some v \<longleftrightarrow> (k, v) \<in> set m"
  by (simp add: hm_get_def hm_ok_def)

lemma hm_get_SomeD: "hm_get m k = Some v \<Longrightarrow> (k, v) \<in> set m"
  by (auto simp: hm_get_def dest: map_of_SomeD)

lemma hm_ok_keys: "hm_ok m \<longleftrightarrow> distinct (hm_keys m)"
  by (simp add: hm_ok_def hm_keys_def)

lemma hm_length_remove:
  assumes "hm_ok m"
  shows "length (hm_remove k m) = (if k \<in> set (hm_keys m) then length m - 1 else length m)"
proof -
  have "length (hm_remove k m) = card (set (hm_keys (hm_remove k m)))"
    using hm_ok_remove [OF assms, of k]
    by (metis distinct_card hm_keys_def hm_ok_keys length_map)
  moreover have "length m = card (set (hm_keys m))"
    using assms by (metis distinct_card hm_keys_def hm_ok_keys length_map)
  ultimately show ?thesis
    by (auto simp: hm_keys_remove)
qed

lemma hm_length_insert:
  assumes "hm_ok m"
  shows "length (hm_insert k v m) = (if k \<in> set (hm_keys m) then length m else Suc (length m))"
proof -
  have "length (hm_insert k v m) = card (set (hm_keys (hm_insert k v m)))"
    using hm_ok_insert [OF assms, of k v]
    by (metis distinct_card hm_keys_def hm_ok_keys length_map)
  moreover have "length m = card (set (hm_keys m))"
    using assms by (metis distinct_card hm_keys_def hm_ok_keys length_map)
  ultimately show ?thesis
    by (auto simp: hm_keys_insert insert_absorb)
qed

lemma hm_ok_foldl_insert: "hm_ok m \<Longrightarrow> hm_ok (foldl (\<lambda>m x. hm_insert (key x) x m) m xs)"
  by (induction xs arbitrary: m) auto

lemma hm_ok_collect [simp, hm_lemmas]: "hm_ok (hm_collect key xs)"
  by (simp add: hm_collect_def hm_ok_foldl_insert)

lemma hm_keys_foldl_insert:
  "set (hm_keys (foldl (\<lambda>m x. hm_insert (key x) x m) m xs)) = set (hm_keys m) \<union> key ` set xs"
  by (induction xs arbitrary: m) (auto simp: hm_keys_insert)

lemma hm_keys_collect [hm_lemmas]: "set (hm_keys (hm_collect key xs)) = key ` set xs"
  using hm_keys_foldl_insert [of key "[]" xs]
  by (simp add: hm_collect_def hm_keys_def)

lemma set_hm_insert: "set (hm_insert k v m) \<subseteq> insert (k, v) (set m)"
  unfolding hm_insert_def by (induction m) auto

lemma hm_collect_key: "(k, x) \<in> set (hm_collect key xs) \<Longrightarrow> x \<in> set xs \<and> k = key x"
proof -
  have "set (foldl (\<lambda>m x. hm_insert (key x) x m) m xs) \<subseteq> set m \<union> (\<lambda>x. (key x, x)) ` set xs" for m
  proof (induction xs arbitrary: m)
    case (Cons y ys)
    then show ?case using set_hm_insert [of "key y" y m] by fastforce
  qed simp
  from this [of "[]"] show "(k, x) \<in> set (hm_collect key xs) \<Longrightarrow> x \<in> set xs \<and> k = key x"
    by (auto simp: hm_collect_def)
qed

section \<open>Consecutive-failure counters\<close>

text \<open>
  Several subsystems count consecutive failures, reset the count on a success and
  act once a threshold is reached. The interface: \<open>count\<close> reads the counter,
  \<open>fail\<close> and \<open>succeed\<close> are the two reports, \<open>tripped\<close> is the decision. \<open>room\<close>
  bounds the counter below the width it is stored in.
\<close>

locale failure_counter =
  fixes count :: "'s \<Rightarrow> nat"
    and fail :: "'s \<Rightarrow> 's"
    and succeed :: "'s \<Rightarrow> 's"
    and tripped :: "'s \<Rightarrow> bool"
    and threshold :: "'s \<Rightarrow> nat"
    and room :: "nat"
  assumes count_fail: "count s + 1 < room \<Longrightarrow> count (fail s) = count s + 1"
    and count_succeed: "count (succeed s) = 0"
    and threshold_fail: "threshold (fail s) = threshold s"
    and threshold_succeed: "threshold (succeed s) = threshold s"
    and tripped_iff: "0 < count s \<Longrightarrow> tripped s \<longleftrightarrow> threshold s \<le> count s"
begin

lemma count_fails: "count s + n < room \<Longrightarrow> count ((fail ^^ n) s) = count s + n"
  by (induction n) (auto simp: count_fail)

lemma threshold_fails: "threshold ((fail ^^ n) s) = threshold s"
  by (induction n) (auto simp: threshold_fail)

lemma tripped_after_fails:
  assumes "0 < n" "n < room"
  shows "tripped ((fail ^^ n) (succeed s)) \<longleftrightarrow> threshold s \<le> n"
  using assms count_fails [of "succeed s" n] tripped_iff [of "(fail ^^ n) (succeed s)"]
  by (simp add: count_succeed threshold_fails threshold_succeed)

end

end
