(* ===== verification/Circuit_Breaker.thy ===== *)
theory Circuit_Breaker
  imports Prelude "HOL-Library.Signed_Division"
begin

text \<open>
  The circuit breaker for provider calls (\<open>skyclaw-agent/src/circuit_breaker.rs\<close>): its
  state, the operations \<open>can_execute\<close>, \<open>record_success\<close> and \<open>record_failure\<close>, and the
  retry backoff. Instants and durations are nanoseconds; an operation takes the instant
  it runs at. \<open>record_failure\<close> also says whether it panicked: doubling a timeout beyond
  \<open>Duration::MAX\<close> unwinds after the state was stored.
\<close>

section \<open>State\<close>

type_synonym duration = nat
type_synonym instant = nat

definition secs :: "nat \<Rightarrow> duration" where
  "secs n = n * 1000000000"

definition MAX_RECOVERY_TIMEOUT :: duration where
  "MAX_RECOVERY_TIMEOUT = secs 300"

text \<open>In milliseconds, as the code reads it.\<close>

definition MAX_BACKOFF_MS :: nat where
  "MAX_BACKOFF_MS = 30 * 1000"

definition DURATION_MAX :: duration where
  "DURATION_MAX = secs (2 ^ 64 - 1) + 999999999"

datatype circuit_state = Closed | Open | HalfOpen

definition circuit_of_u8 :: "u8 \<Rightarrow> circuit_state" where
  "circuit_of_u8 v =
     (if v = 0 then Closed else if v = 1 then Open else if v = 2 then HalfOpen else Closed)"

primrec u8_of_circuit :: "circuit_state \<Rightarrow> u8" where
  "u8_of_circuit Closed = 0"
| "u8_of_circuit Open = 1"
| "u8_of_circuit HalfOpen = 2"

lemma circuit_of_u8_simps [simp]:
  "circuit_of_u8 0 = Closed" "circuit_of_u8 1 = Open" "circuit_of_u8 2 = HalfOpen"
  by (simp_all add: circuit_of_u8_def)

lemma circuit_u8_roundtrip [simp]: "circuit_of_u8 (u8_of_circuit s) = s"
  by (cases s) simp_all

record circuit_breaker =
  cb_state :: u8
  cb_consecutive_failures :: u64
  cb_failure_threshold :: u64
  cb_base_recovery_timeout :: duration
  cb_opened_at :: "instant option"
  cb_current_recovery_timeout :: duration

definition cb_new :: "u64 \<Rightarrow> duration \<Rightarrow> circuit_breaker" where
  "cb_new failure_threshold base_recovery_timeout =
     \<lparr>cb_state = u8_of_circuit Closed, cb_consecutive_failures = 0,
      cb_failure_threshold = failure_threshold, cb_base_recovery_timeout = base_recovery_timeout,
      cb_opened_at = None, cb_current_recovery_timeout = base_recovery_timeout\<rparr>"

definition cb_default :: circuit_breaker where
  "cb_default = cb_new 5 (secs 30)"

section \<open>Operations\<close>

definition elapsed :: "instant \<Rightarrow> instant \<Rightarrow> duration" where
  "elapsed now at = now - at"

definition cb_can_execute :: "instant \<Rightarrow> circuit_breaker \<Rightarrow> bool \<times> circuit_breaker" where
  "cb_can_execute now cb =
     (case circuit_of_u8 (cb_state cb) of
        Closed \<Rightarrow> (True, cb)
      | Open \<Rightarrow>
          let timeout = cb_current_recovery_timeout cb;
              should_try = (case cb_opened_at cb of
                  Some at \<Rightarrow> timeout \<le> elapsed now at
                | None \<Rightarrow> True)
          in if should_try then (True, cb\<lparr>cb_state := u8_of_circuit HalfOpen\<rparr>) else (False, cb)
      | HalfOpen \<Rightarrow> (True, cb))"

definition cb_record_success :: "circuit_breaker \<Rightarrow> circuit_breaker" where
  "cb_record_success cb =
     cb\<lparr>cb_state := u8_of_circuit Closed, cb_consecutive_failures := 0,
        cb_current_recovery_timeout := cb_base_recovery_timeout cb\<rparr>"

definition cb_record_failure :: "instant \<Rightarrow> circuit_breaker \<Rightarrow> bool \<times> circuit_breaker" where
  "cb_record_failure now cb0 =
     (let failures = cb_consecutive_failures cb0 + 1;
          cb = cb0\<lparr>cb_consecutive_failures := failures\<rparr>
      in case circuit_of_u8 (cb_state cb) of
           Closed \<Rightarrow>
             if cb_failure_threshold cb \<le> failures
             then (False, cb\<lparr>cb_state := u8_of_circuit Open, cb_opened_at := Some now\<rparr>)
             else (False, cb)
         | HalfOpen \<Rightarrow>
             let cb' = cb\<lparr>cb_state := u8_of_circuit Open, cb_opened_at := Some now\<rparr>;
                 doubled = cb_current_recovery_timeout cb' * 2
             in if DURATION_MAX < doubled then (True, cb')
                else (False, cb'\<lparr>cb_current_recovery_timeout := min doubled MAX_RECOVERY_TIMEOUT\<rparr>)
         | Open \<Rightarrow> (False, cb))"

definition cb_current :: "circuit_breaker \<Rightarrow> circuit_state" where
  "cb_current cb = circuit_of_u8 (cb_state cb)"

text \<open>
  \<open>backoff_duration\<close>: \<open>checked_shl\<close> fails from 64 on, \<open>saturating_mul\<close> stops at
  \<open>u64::MAX\<close>, and the division of \<open>i64\<close> truncates.
\<close>

definition jitter_pattern :: "int list" where
  "jitter_pattern = [-25, 15, -10, 20, -5, 25, -20, 10]"

definition backoff_ms :: "u32 \<Rightarrow> nat" where
  "backoff_ms attempt =
     (let shifted = (if unat attempt < 64 then 2 ^ unat attempt else 2 ^ 64 - 1);
          base_ms = min (1000 * shifted) (2 ^ 64 - 1);
          capped_ms = min base_ms MAX_BACKOFF_MS;
          jitter_pct = jitter_pattern ! (unat attempt mod length jitter_pattern);
          jitter_ms = (int capped_ms * jitter_pct) sdiv 100
      in nat (max (int capped_ms + jitter_ms) 1))"

section \<open>The breaker as a state machine\<close>

datatype cb_event = CanExecute | Success | Failure | Tick duration

inductive cb_step :: "instant \<times> circuit_breaker \<Rightarrow> cb_event \<Rightarrow> instant \<times> circuit_breaker \<Rightarrow> bool" where
  can_execute: "cb_can_execute now cb = (ok, cb') \<Longrightarrow> cb_step (now, cb) CanExecute (now, cb')"
| success: "cb_step (now, cb) Success (now, cb_record_success cb)"
| failure: "cb_record_failure now cb = (panicked, cb') \<Longrightarrow> cb_step (now, cb) Failure (now, cb')"
| tick: "cb_step (now, cb) (Tick d) (now + d, cb)"

inductive_cases cb_step_cases: "cb_step s e s'"

inductive cb_reachable :: "u64 \<Rightarrow> duration \<Rightarrow> instant \<times> circuit_breaker \<Rightarrow> bool" for th base where
  init: "cb_reachable th base (now, cb_new th base)"
| step: "cb_reachable th base s \<Longrightarrow> cb_step s e s' \<Longrightarrow> cb_reachable th base s'"

definition cb_inv :: "u64 \<Rightarrow> duration \<Rightarrow> instant \<times> circuit_breaker \<Rightarrow> bool" where
  "cb_inv th base s = (case s of (now, cb) \<Rightarrow>
     cb_failure_threshold cb = th \<and> cb_base_recovery_timeout cb = base
     \<and> cb_state cb = u8_of_circuit (cb_current cb)
     \<and> (cb_current cb \<noteq> Closed \<longrightarrow> (\<exists>at \<le> now. cb_opened_at cb = Some at))
     \<and> (cb_current cb = Closed \<longrightarrow> cb_current_recovery_timeout cb = base)
     \<and> min base MAX_RECOVERY_TIMEOUT \<le> cb_current_recovery_timeout cb
     \<and> cb_current_recovery_timeout cb \<le> max base MAX_RECOVERY_TIMEOUT)"

lemmas cb_defs = cb_can_execute_def cb_record_success_def cb_record_failure_def cb_current_def

lemma cb_inv_new: "cb_inv th base (now, cb_new th base)"
  by (simp add: cb_inv_def cb_new_def cb_current_def)

lemma cb_inv_can_execute:
  "cb_inv th base (now, cb) \<Longrightarrow> cb_inv th base (now, snd (cb_can_execute now cb))"
  by (auto simp: cb_inv_def cb_defs Let_def split: circuit_state.splits)

lemma cb_inv_success: "cb_inv th base (now, cb) \<Longrightarrow> cb_inv th base (now, cb_record_success cb)"
  by (auto simp: cb_inv_def cb_defs)

lemma cb_inv_failure:
  "cb_inv th base (now, cb) \<Longrightarrow> cb_inv th base (now, snd (cb_record_failure now cb))"
  by (cases "circuit_of_u8 (cb_state cb)") (auto simp: cb_inv_def cb_defs Let_def)

lemma cb_inv_step: "cb_step s e s' \<Longrightarrow> cb_inv th base s \<Longrightarrow> cb_inv th base s'"
proof (induction rule: cb_step.induct)
  case (can_execute now cb ok cb')
  then show ?case using cb_inv_can_execute [of th base now cb] by simp
next
  case (failure now cb panicked cb')
  then show ?case using cb_inv_failure [of th base now cb] by simp
next
  case (tick now cb d)
  then show ?case by (force simp: cb_inv_def intro: trans_le_add1)
qed (rule cb_inv_success)

text \<open>Runs of the machine, for statements about histories.\<close>

fun cb_run :: "instant \<times> circuit_breaker \<Rightarrow> cb_event list \<Rightarrow> instant \<times> circuit_breaker" where
  "cb_run s [] = s"
| "cb_run (now, cb) (CanExecute # es) = cb_run (now, snd (cb_can_execute now cb)) es"
| "cb_run (now, cb) (Success # es) = cb_run (now, cb_record_success cb) es"
| "cb_run (now, cb) (Failure # es) = cb_run (now, snd (cb_record_failure now cb)) es"
| "cb_run (now, cb) (Tick d # es) = cb_run (now + d, cb) es"

fun cb_waited :: "cb_event list \<Rightarrow> duration" where
  "cb_waited [] = 0"
| "cb_waited (Tick d # es) = d + cb_waited es"
| "cb_waited (_ # es) = cb_waited es"

lemma cb_step_can_execute: "cb_step (now, cb) CanExecute (now, snd (cb_can_execute now cb))"
  by (rule cb_step.can_execute [of _ _ "fst (cb_can_execute now cb)"]) simp

lemma cb_step_failure: "cb_step (now, cb) Failure (now, snd (cb_record_failure now cb))"
  by (rule cb_step.failure [of _ _ "fst (cb_record_failure now cb)"]) simp

lemma cb_reachable_run:
  "cb_reachable th base s \<Longrightarrow> cb_reachable th base (cb_run s es)"
proof (induction s es rule: cb_run.induct)
  case (2 now cb es)
  then show ?case using cb_reachable.step [OF _ cb_step_can_execute] by simp
next
  case (4 now cb es)
  then show ?case using cb_reachable.step [OF _ cb_step_failure] by simp
qed (auto intro: cb_reachable.step cb_step.intros)

text \<open>Retries from an open breaker: a test request at each instant, each of which fails.\<close>

fun cb_failed_retries :: "instant list \<Rightarrow> circuit_breaker \<Rightarrow> circuit_breaker option" where
  "cb_failed_retries [] cb = Some cb"
| "cb_failed_retries (t # ts) cb =
     (case cb_can_execute t cb of
        (True, cb1) \<Rightarrow> (case cb_record_failure t cb1 of
            (False, cb2) \<Rightarrow> cb_failed_retries ts cb2
          | (True, _) \<Rightarrow> None)
      | (False, _) \<Rightarrow> None)"

lemma cb_failed_retry_step:
  assumes "cb_current cb = Open" "cb_failed_retries (t # ts) cb = Some cb'"
  obtains cb2 where "cb_current cb2 = Open"
    "cb_current_recovery_timeout cb2 = min (cb_current_recovery_timeout cb * 2) MAX_RECOVERY_TIMEOUT"
    "cb_failed_retries ts cb2 = Some cb'"
proof (rule that)
  let ?cb2 = "snd (cb_record_failure t (snd (cb_can_execute t cb)))"
  show "cb_current ?cb2 = Open"
    "cb_current_recovery_timeout ?cb2 = min (cb_current_recovery_timeout cb * 2) MAX_RECOVERY_TIMEOUT"
    "cb_failed_retries ts ?cb2 = Some cb'"
    using assms by (auto simp: cb_defs Let_def split: if_splits option.splits)
qed

lemma min_double_pow: "min (min (a * 2) m * 2 ^ n) m = min (a * 2 ^ Suc n) (m :: nat)"
proof (cases "a * 2 \<le> m")
  case False
  have "m * 1 \<le> m * 2 ^ n" "(a * 2) * 1 \<le> (a * 2) * 2 ^ n"
    by (rule mult_le_mono2, simp)+
  with False show ?thesis by (simp add: ac_simps)
qed (simp add: ac_simps)

lemma jitter_mem: "jitter_pattern ! (n mod length jitter_pattern) \<in> {-25, 15, -10, 20, -5, 25, -20, 10}"
  using nth_mem [of "n mod length jitter_pattern" jitter_pattern] by (auto simp: jitter_pattern_def)

lemma backoff_capped:
  "min (min (1000 * (if n < 64 then 2 ^ n else 2 ^ 64 - 1)) (2 ^ 64 - 1)) MAX_BACKOFF_MS
   \<in> {1000, 2000, 4000, 8000, 16000, 30000 :: nat}"
proof (cases "n < 5")
  case True
  then have "n \<in> {0, 1, 2, 3, 4}" by auto
  then show ?thesis by (auto simp: MAX_BACKOFF_MS_def)
next
  case False
  then have "(2::nat) ^ 5 \<le> 2 ^ n" by (intro power_increasing) auto
  then have "32 \<le> (if n < 64 then 2 ^ n else 2 ^ 64 - 1 :: nat)" by simp
  then show ?thesis by (simp add: MAX_BACKOFF_MS_def min_def)
qed

text \<open>A breaker that has just opened, for the witnesses.\<close>

definition cb_example :: circuit_breaker where
  "cb_example = snd (cb_record_failure 0 (cb_new 1 (secs 30)))"

lemma cb_example_simps [simp]:
  "cb_current cb_example = Open" "cb_opened_at cb_example = Some 0"
  "cb_current_recovery_timeout cb_example = 30000000000"
  by (simp_all add: cb_example_def cb_defs cb_new_def Let_def secs_def)

text \<open>A half-open breaker admits every request, not one test request.\<close>

lemma cb_half_open_admits_all: "cb_current cb = HalfOpen \<Longrightarrow> cb_can_execute now cb = (True, cb)"
  by (simp add: cb_defs)

section \<open>Properties\<close>

text \<open>In every reachable state the breaker's fields agree: a breaker that is not closed
  knows when it opened, a closed one has its base timeout, and the timeout stays between
  the smaller and the larger of the base and five minutes.\<close>

theorem cb_reachable_inv: "cb_reachable th base s \<Longrightarrow> cb_inv th base s"
  by (induction rule: cb_reachable.induct) (auto intro: cb_inv_new cb_inv_step)

theorem cb_reachable_inv_witness:
  "cb_inv 1 (secs 30) (cb_run (0, cb_new 1 (secs 30)) [Failure, Tick (secs 30), CanExecute, Failure])"
  by (rule cb_reachable_inv, rule cb_reachable_run, rule cb_reachable.init)

text \<open>C23: An open breaker rejects every request, whatever failures and attempts happen,
  until its recovery timeout has passed since it opened.\<close>

theorem cb_open_until_timeout:
  assumes "cb_current cb = Open" "cb_opened_at cb = Some at" "Success \<notin> set es"
    and "now + cb_waited es < at + cb_current_recovery_timeout cb" "at \<le> now"
    and "cb_run (now, cb) es = (now', cb')"
  shows "cb_current cb' = Open \<and> fst (cb_can_execute now' cb') = False"
  using assms
proof (induction "(now, cb)" es arbitrary: now cb rule: cb_run.induct)
  case (2 now cb es)
  have "\<not> cb_current_recovery_timeout cb \<le> now - at"
    using "2.prems" by simp
  then have "cb_can_execute now cb = (False, cb)"
    using "2.prems" by (simp add: cb_defs elapsed_def Let_def)
  then show ?case using "2.hyps" "2.prems" by simp
next
  case (4 now cb es)
  have "cb_record_failure now cb = (False, cb\<lparr>cb_consecutive_failures := cb_consecutive_failures cb + 1\<rparr>)"
    using "4.prems" by (simp add: cb_defs Let_def)
  then show ?case using "4.hyps" "4.prems" by (simp add: cb_current_def)
qed (auto simp: cb_defs elapsed_def)

theorem cb_open_until_timeout_witness:
  "cb_current (snd (cb_run (0, cb_example) [Tick 5, CanExecute, Failure])) = Open
   \<and> fst (cb_can_execute 5 (snd (cb_run (0, cb_example) [Tick 5, CanExecute, Failure]))) = False"
proof -
  have "fst (cb_run (0, cb_example) [Tick 5, CanExecute, Failure]) = 5" by simp
  then have "cb_run (0, cb_example) [Tick 5, CanExecute, Failure] =
      (5, snd (cb_run (0, cb_example) [Tick 5, CanExecute, Failure]))"
    by (metis prod.collapse)
  from cb_open_until_timeout [OF _ _ _ _ _ this, of 0] show ?thesis by simp
qed

text \<open>Once the timeout has passed an open breaker lets a test request through, and a
  success then closes it with a zero failure count and the base timeout.\<close>

theorem cb_recovers:
  assumes "cb_current cb = Open" "cb_opened_at cb = Some at"
    and "at + cb_current_recovery_timeout cb \<le> now"
  shows "\<exists>cb1. cb_can_execute now cb = (True, cb1) \<and> cb_current cb1 = HalfOpen
    \<and> cb_current (cb_record_success cb1) = Closed
    \<and> cb_consecutive_failures (cb_record_success cb1) = 0
    \<and> cb_current_recovery_timeout (cb_record_success cb1) = cb_base_recovery_timeout cb"
  using assms by (auto simp: cb_defs elapsed_def)

theorem cb_recovers_witness:
  "fst (cb_can_execute 30000000000 cb_example)
   \<and> cb_current (cb_record_success (snd (cb_can_execute 30000000000 cb_example))) = Closed"
  using cb_recovers [of cb_example 0 30000000000] by auto

lemma cb_failures_closed:
  assumes "cb_current cb = Closed" "unat (cb_consecutive_failures cb) + length ts < 2 ^ 64"
    "unat (cb_consecutive_failures cb) < unat (cb_failure_threshold cb) \<or> cb_consecutive_failures cb = 0"
    "ts \<noteq> []"
  shows "cb_current (foldl (\<lambda>cb t. snd (cb_record_failure t cb)) cb ts) =
    (if unat (cb_failure_threshold cb) \<le> unat (cb_consecutive_failures cb) + length ts then Open else Closed)"
  using assms
proof (induction ts arbitrary: cb)
  case (Cons t ts)
  have stay_open: "cb_current c = Open \<Longrightarrow> cb_current (foldl (\<lambda>cb t. snd (cb_record_failure t cb)) c us) = Open"
    for c us by (induction us arbitrary: c) (simp_all add: cb_defs Let_def)
  have n: "unat (cb_consecutive_failures cb + 1) = unat (cb_consecutive_failures cb) + 1"
    using Cons.prems(2) by (intro unat_add_one_no_wrap) simp
  show ?case
  proof (cases "cb_failure_threshold cb \<le> cb_consecutive_failures cb + 1")
    case True
    then have "cb_current (snd (cb_record_failure t cb)) = Open"
      using Cons.prems(1) by (simp add: cb_defs Let_def)
    then show ?thesis using True n stay_open by (simp add: word_le_nat_alt)
  next
    case False
    let ?cb = "snd (cb_record_failure t cb)"
    have cb: "cb_current ?cb = Closed" "cb_consecutive_failures ?cb = cb_consecutive_failures cb + 1"
      "cb_failure_threshold ?cb = cb_failure_threshold cb"
      using False Cons.prems(1) by (simp_all add: cb_defs Let_def)
    have lt: "unat (cb_consecutive_failures cb) + 1 < unat (cb_failure_threshold cb)"
      using False n by (simp add: word_le_nat_alt)
    show ?thesis
    proof (cases "ts = []")
      case True
      then show ?thesis using cb lt by simp
    next
      case False
      then show ?thesis using Cons.IH [of ?cb] Cons.prems(2) cb n lt by simp
    qed
  qed
qed simp

text \<open>From a closed breaker with no failures, a run of consecutive failures opens it
  exactly when the threshold is reached, and never earlier.\<close>

theorem cb_opens_at_threshold:
  assumes "ts \<noteq> []" "length ts < 2 ^ 64"
  shows "cb_current (foldl (\<lambda>cb t. snd (cb_record_failure t cb)) (cb_new th base) ts) =
    (if unat th \<le> length ts then Open else Closed)"
  using cb_failures_closed [of "cb_new th base" ts] assms
  by (simp add: cb_new_def cb_current_def)

theorem cb_opens_at_threshold_witness:
  "cb_current (foldl (\<lambda>cb t. snd (cb_record_failure t cb)) (cb_new 5 (secs 30)) [1, 2, 3, 4]) = Closed
   \<and> cb_current (foldl (\<lambda>cb t. snd (cb_record_failure t cb)) (cb_new 5 (secs 30)) [1, 2, 3, 4, 5]) = Open"
  using cb_opens_at_threshold [of "[1, 2, 3, 4]" 5 "secs 30"]
    cb_opens_at_threshold [of "[1, 2, 3, 4, 5]" 5 "secs 30"] by simp

text \<open>Each failed test request doubles the recovery timeout, up to five minutes.\<close>

theorem cb_timeout_doubles:
  assumes "cb_current cb = Open" "ts \<noteq> []" "cb_failed_retries ts cb = Some cb'"
  shows "cb_current_recovery_timeout cb' =
    min (cb_current_recovery_timeout cb * 2 ^ length ts) MAX_RECOVERY_TIMEOUT"
  using assms
proof (induction ts arbitrary: cb)
  case (Cons t ts)
  obtain cb2 where cb2: "cb_current cb2 = Open"
    "cb_current_recovery_timeout cb2 = min (cb_current_recovery_timeout cb * 2) MAX_RECOVERY_TIMEOUT"
    "cb_failed_retries ts cb2 = Some cb'"
    using cb_failed_retry_step [OF Cons.prems(1,3)] by metis
  show ?case
  proof (cases "ts = []")
    case True
    then show ?thesis using cb2 by simp
  next
    case False
    show ?thesis using Cons.IH [OF cb2(1) False cb2(3)] cb2(2) min_double_pow by simp
  qed
qed simp

theorem cb_timeout_doubles_witness:
  "map_option cb_current_recovery_timeout
     (cb_failed_retries [30000000000, 90000000000] cb_example) = Some 120000000000"
proof -
  have "\<exists>cb'. cb_failed_retries [30000000000, 90000000000] cb_example = Some cb'"
    by (simp add: cb_example_def cb_defs cb_new_def Let_def secs_def elapsed_def
        DURATION_MAX_def MAX_RECOVERY_TIMEOUT_def)
  then obtain cb' where "cb_failed_retries [30000000000, 90000000000] cb_example = Some cb'" ..
  with cb_timeout_doubles [OF _ _ this] show ?thesis
    by (simp add: MAX_RECOVERY_TIMEOUT_def secs_def)
qed

lemma jittered_delay_bounds:
  "\<forall>c \<in> {1000, 2000, 4000, 8000, 16000, 30000 :: nat}. \<forall>j \<in> {-25, 15, -10, 20, -5, 25, -20, 10}.
     750 \<le> nat (max (int c + (int c * j) sdiv 100) 1) \<and> nat (max (int c + (int c * j) sdiv 100) 1) \<le> 37500"
  by (simp add: signed_divide_int_def)

text \<open>The retry delay is always at least 750 ms and at most 37.5 s, a quarter above
  the nominal 30 s cap.\<close>

theorem backoff_bounds: "750 \<le> backoff_ms attempt \<and> backoff_ms attempt \<le> 37500"
  using bspec [OF bspec [OF jittered_delay_bounds backoff_capped [of "unat attempt"]] jitter_mem [of "unat attempt"]]
  unfolding backoff_ms_def Let_def .

end
