(* ===== verification/Rust_Str.thy ===== *)
theory Rust_Str
  imports Prelude "HOL-Library.Sublist" "HOL-Library.Char_ord" "HOL-Library.List_Lexorder"
begin

text \<open>
  The part of Rust's \<open>str\<close> the crates use. A string is its UTF-8 bytes, one \<^typ>\<open>char\<close>
  per byte, so \<open>len()\<close> is \<^const>\<open>length\<close>, slices are \<^const>\<open>take\<close> and
  \<^const>\<open>drop\<close> guarded by \<open>is_char_boundary\<close>, and \<open>char_indices\<close> are the
  positions that do not hold a continuation byte. \<open>trim\<close> and \<open>split_whitespace\<close> know
  every Unicode white-space character in its UTF-8 form. \<open>to_lowercase\<close> folds the
  ASCII letters and leaves every other byte alone: on text outside ASCII the program's
  Unicode case mapping is not modelled.
\<close>

section \<open>UTF-8\<close>

named_theorems str_lemmas \<open>facts about the string model\<close>

definition byte :: "char \<Rightarrow> nat" where
  "byte c = of_char c"

definition is_cont :: "char \<Rightarrow> bool" where
  "is_cont c \<longleftrightarrow> 128 \<le> byte c \<and> byte c < 192"

definition utf8_len :: "char \<Rightarrow> nat" where
  "utf8_len c = (let b = byte c in
     if b < 128 then 1 else if b < 194 then 0 else if b < 224 then 2
     else if b < 240 then 3 else if b < 245 then 4 else 0)"

text \<open>The restriction on the second byte (no overlong forms, no surrogates).\<close>

definition utf8_second_ok :: "char \<Rightarrow> string \<Rightarrow> bool" where
  "utf8_second_ok a s = (case s of [] \<Rightarrow> True | c # _ \<Rightarrow>
     (byte a = 224 \<longrightarrow> 160 \<le> byte c) \<and> (byte a = 237 \<longrightarrow> byte c < 160)
     \<and> (byte a = 240 \<longrightarrow> 144 \<le> byte c) \<and> (byte a = 244 \<longrightarrow> byte c < 144))"

function utf8_valid :: "string \<Rightarrow> bool" where
  "utf8_valid [] = True"
| "utf8_valid (a # s) = (let k = utf8_len a in
     k \<noteq> 0 \<and> k - 1 \<le> length s \<and> list_all is_cont (take (k - 1) s)
     \<and> (1 < k \<longrightarrow> utf8_second_ok a s) \<and> utf8_valid (drop (k - 1) s))"
  by pat_completeness auto
termination by (relation "measure length") auto

definition is_char_boundary :: "string \<Rightarrow> nat \<Rightarrow> bool" where
  "is_char_boundary s i \<longleftrightarrow>
     i = 0 \<or> i = length s \<or> (i < length s \<and> \<not> is_cont (s ! i))"

text \<open>\<open>&s[..i]\<close> and \<open>&s[i..]\<close>: a panic, here \<^const>\<open>None\<close>, off a boundary.\<close>

definition slice_to :: "string \<Rightarrow> nat \<Rightarrow> string option" where
  "slice_to s i = (if is_char_boundary s i then Some (take i s) else None)"

definition slice_from :: "string \<Rightarrow> nat \<Rightarrow> string option" where
  "slice_from s i = (if is_char_boundary s i then Some (drop i s) else None)"

definition char_starts :: "string \<Rightarrow> nat list" where
  "char_starts s = filter (\<lambda>i. \<not> is_cont (s ! i)) [0..<length s]"

text \<open>
  \<open>s.char_indices().map(|(i, _)| i).take_while(|&i| i <= n).last().unwrap_or(0)\<close>,
  the idiom the crates use to cut a text near \<open>n\<close> bytes.
\<close>

definition last_start_upto :: "nat \<Rightarrow> string \<Rightarrow> nat" where
  "last_start_upto n s =
     (let xs = takeWhile (\<lambda>i. i \<le> n) (char_starts s) in if xs = [] then 0 else last xs)"

lemma utf8_valid_head: "utf8_valid (c # s) \<Longrightarrow> \<not> is_cont c"
  by (auto simp: is_cont_def utf8_len_def Let_def split: if_splits)

lemma is_char_boundary_0 [simp]: "is_char_boundary s 0"
  by (simp add: is_char_boundary_def)

lemma is_char_boundary_length [simp]: "is_char_boundary s (length s)"
  by (simp add: is_char_boundary_def)

lemma is_char_boundary_le: "is_char_boundary s i \<Longrightarrow> i \<le> length s"
  by (auto simp: is_char_boundary_def)

lemma last_takeWhile_mem: "takeWhile P xs \<noteq> [] \<Longrightarrow> last (takeWhile P xs) \<in> set xs \<and> P (last (takeWhile P xs))"
  using last_in_set set_takeWhileD by metis

lemma last_start_upto_boundary [simp, str_lemmas]: "is_char_boundary s (last_start_upto n s)"
  using last_takeWhile_mem [of "\<lambda>i. i \<le> n" "char_starts s"]
  by (auto simp: last_start_upto_def Let_def is_char_boundary_def char_starts_def)

lemma last_start_upto_le [simp, str_lemmas]: "last_start_upto n s \<le> n"
  using last_takeWhile_mem [of "\<lambda>i. i \<le> n" "char_starts s"]
  by (auto simp: last_start_upto_def Let_def)

lemma last_start_upto_len: "last_start_upto n s \<le> length s"
  using last_start_upto_boundary [of s n] by (rule is_char_boundary_le)

lemma sorted_takeWhile_filter:
  "sorted xs \<Longrightarrow> takeWhile (\<lambda>i. i \<le> (n::nat)) xs = filter (\<lambda>i. i \<le> n) xs"
proof (induction xs)
  case (Cons a xs)
  have "filter (\<lambda>i. i \<le> n) xs = []" if "\<not> a \<le> n"
    using Cons.prems that by (auto simp: filter_empty_conv)
  then show ?case using Cons by auto
qed simp

lemma sorted_le_last: "sorted xs \<Longrightarrow> x \<in> set xs \<Longrightarrow> (x::nat) \<le> last xs"
  by (induction xs) auto

lemma sorted_last_takeWhile:
  assumes "sorted xs" "x \<in> set xs" "x \<le> (n::nat)"
  shows "takeWhile (\<lambda>i. i \<le> n) xs \<noteq> [] \<and> x \<le> last (takeWhile (\<lambda>i. i \<le> n) xs)"
  using assms sorted_le_last [of "filter (\<lambda>i. i \<le> n) xs" x]
  by (auto simp: sorted_takeWhile_filter sorted_wrt_filter filter_empty_conv)

text \<open>No later start fits: the cut is the best one.\<close>

lemma last_start_upto_max:
  assumes "i < length s" "\<not> is_cont (s ! i)" "i \<le> n"
  shows "i \<le> last_start_upto n s"
  using sorted_last_takeWhile [of "char_starts s" i n] assms
  by (auto simp: last_start_upto_def Let_def char_starts_def sorted_wrt_filter)

lemma drop_Cons_take_nth:
  "k - 1 \<le> length s \<Longrightarrow> 0 < k \<Longrightarrow> i < k \<Longrightarrow> 0 < i \<Longrightarrow> (a # s) ! i = take (k - 1) s ! (i - 1)"
  by (cases i) auto

lemma utf8_boundary_dense:
  "utf8_valid s \<Longrightarrow> i < length s \<Longrightarrow> \<exists>j\<le>i. i < j + 4 \<and> \<not> is_cont (s ! j)"
proof (induction s arbitrary: i rule: utf8_valid.induct)
  case (2 a s)
  define k where "k = utf8_len a"
  have k: "k \<noteq> 0" "k \<le> 4" "k - 1 \<le> length s" "utf8_valid (drop (k - 1) s)"
    using "2.prems" by (auto simp: k_def Let_def utf8_len_def split: if_splits)
  have a: "\<not> is_cont a"
    using k by (auto simp: k_def utf8_len_def is_cont_def Let_def split: if_splits)
  show ?case
  proof (cases "i < k")
    case True
    then show ?thesis using a k by (intro exI [of _ 0]) auto
  next
    case False
    have "i - k < length (drop (k - 1) s)" using False "2.prems" k by auto
    with "2.IH" [OF k_def k(4)] obtain j where
      j: "j \<le> i - k" "i - k < j + 4" "\<not> is_cont (drop (k - 1) s ! j)" by blast
    have "(a # s) ! (j + k) = drop (k - 1) s ! j"
      using k j False "2.prems" by (cases k) (auto simp: add.commute)
    then show ?thesis using j False by (intro exI [of _ "j + k"]) auto
  qed
qed simp

text \<open>A text that does not fit is cut at most three bytes before the limit.\<close>

lemma last_start_upto_close:
  assumes "utf8_valid s" "n < length s"
  shows "n < last_start_upto n s + 4"
proof -
  obtain j where "j \<le> n" "n < j + 4" "\<not> is_cont (s ! j)"
    using utf8_boundary_dense [OF assms] by blast
  then show ?thesis using last_start_upto_max [of j s n] assms by linarith
qed

section \<open>Searching\<close>

fun str_contains :: "string \<Rightarrow> string \<Rightarrow> bool" where
  "str_contains p [] = (p = [])"
| "str_contains p (c # cs) = (prefix p (c # cs) \<or> str_contains p cs)"

definition starts_with :: "string \<Rightarrow> string \<Rightarrow> bool" where
  "starts_with p s = prefix p s"

definition ends_with :: "string \<Rightarrow> string \<Rightarrow> bool" where
  "ends_with p s = suffix p s"

fun str_find :: "string \<Rightarrow> string \<Rightarrow> nat option" where
  "str_find p [] = (if p = [] then Some 0 else None)"
| "str_find p (c # cs) =
     (if prefix p (c # cs) then Some 0 else map_option Suc (str_find p cs))"

lemma str_contains_sublist [str_lemmas]: "str_contains p s \<longleftrightarrow> sublist p s"
  by (induction s) (auto simp: sublist_Cons_right)

lemma str_find_None: "str_find p s = None \<longleftrightarrow> \<not> str_contains p s"
  by (induction s) auto

lemma str_find_Some:
  "str_find p s = Some i \<Longrightarrow> i + length p \<le> length s \<and> take (length p) (drop i s) = p"
proof (induction s arbitrary: i)
  case (Cons c cs)
  show ?case
  proof (cases "prefix p (c # cs)")
    case True
    then show ?thesis using Cons.prems prefix_length_le [OF True]
      by (auto simp: prefix_def append_eq_conv_conj)
  next
    case False
    then show ?thesis using Cons by (auto split: if_splits)
  qed
qed (auto split: if_splits)

lemma str_find_first:
  "str_find p s = Some i \<Longrightarrow> j < i \<Longrightarrow> \<not> prefix p (drop j s)"
proof (induction s arbitrary: i j)
  case (Cons c cs)
  then show ?case
    by (cases j) (auto split: if_splits)
qed (auto split: if_splits)

text \<open>Where a text is found that occurs, and does not occur earlier.\<close>

lemma str_find_split:
  assumes "s = a @ p @ b" "p \<noteq> []" "\<not> str_contains p (a @ butlast p)"
  shows "str_find p s = Some (length a)"
proof -
  have "str_contains p s" using assms(1) by (simp add: str_contains_sublist)
  then obtain i where i: "str_find p s = Some i" using str_find_None by (cases "str_find p s") auto
  have "prefix p (drop (length a) s)" using assms(1) by simp
  then have "i \<le> length a" using str_find_first [OF i] by (meson not_le)
  moreover have False if less: "i < length a"
  proof -
    obtain q c where p: "p = q @ [c]" using assms(2) by (cases p rule: rev_cases) auto
    have "take (length p) (drop i (a @ butlast p)) = take (length p) (drop i s)"
      using less by (simp add: assms(1) p)
    then have "take (length p) (drop i (a @ butlast p)) = p" using str_find_Some [OF i] by simp
    then have "sublist p (a @ butlast p)" by (metis sublist_drop sublist_take sublist_order.order.trans)
    then show False using assms(3) by (simp add: str_contains_sublist)
  qed
  ultimately show ?thesis using i by fastforce
qed

definition strip_prefix :: "string \<Rightarrow> string \<Rightarrow> string option" where
  "strip_prefix p s = (if prefix p s then Some (drop (length p) s) else None)"

definition strip_suffix_char :: "char \<Rightarrow> string \<Rightarrow> string option" where
  "strip_suffix_char c s = (if s \<noteq> [] \<and> last s = c then Some (butlast s) else None)"

lemma strip_prefix_Some [simp]: "strip_prefix p s = Some r \<longleftrightarrow> s = p @ r"
  by (auto simp: strip_prefix_def prefix_def)

text \<open>\<open>split_once\<close> on a character.\<close>

fun split_once :: "char \<Rightarrow> string \<Rightarrow> (string \<times> string) option" where
  "split_once d [] = None"
| "split_once d (c # cs) =
     (if c = d then Some ([], cs) else map_option (\<lambda>(a, b). (c # a, b)) (split_once d cs))"

lemma split_once_Some: "split_once d s = Some (a, b) \<longleftrightarrow> s = a @ d # b \<and> d \<notin> set a"
proof (induction s arbitrary: a)
  case (Cons c cs)
  then show ?case by (cases a) auto
qed simp

section \<open>White space and lines\<close>

text \<open>The length of the white-space character a text starts with, 0 if there is none.\<close>

fun ws_len :: "string \<Rightarrow> nat" where
  "ws_len (a # b # c # s) =
     (if byte a = 32 \<or> 9 \<le> byte a \<and> byte a \<le> 13 then 1
      else if byte a = 194 \<and> (byte b = 133 \<or> byte b = 160) then 2
      else if byte a = 225 \<and> byte b = 154 \<and> byte c = 128 then 3
      else if byte a = 226 \<and> byte b = 128 \<and>
        (128 \<le> byte c \<and> byte c \<le> 138 \<or> byte c = 168 \<or> byte c = 169 \<or> byte c = 175) then 3
      else if byte a = 226 \<and> byte b = 129 \<and> byte c = 159 then 3
      else if byte a = 227 \<and> byte b = 128 \<and> byte c = 128 then 3
      else 0)"
| "ws_len [a, b] =
     (if byte a = 32 \<or> 9 \<le> byte a \<and> byte a \<le> 13 then 1
      else if byte a = 194 \<and> (byte b = 133 \<or> byte b = 160) then 2 else 0)"
| "ws_len [a] = (if byte a = 32 \<or> 9 \<le> byte a \<and> byte a \<le> 13 then 1 else 0)"
| "ws_len [] = 0"

text \<open>The same at the end of a text, given reversed.\<close>

definition ws_len_rev :: "string \<Rightarrow> nat" where
  "ws_len_rev r =
     (if ws_len (rev (take 1 r)) = 1 then 1
      else if ws_len (rev (take 2 r)) = 2 then 2
      else if ws_len (rev (take 3 r)) = 3 then 3 else 0)"

lemma ws_len_le: "ws_len s \<le> length s"
  by (induction s rule: ws_len.induct) auto

lemma ws_len_rev_le: "ws_len_rev r \<le> length r"
  using ws_len_le [of "rev (take 1 r)"] ws_len_le [of "rev (take 2 r)"] ws_len_le [of "rev (take 3 r)"]
  by (auto simp: ws_len_rev_def split: if_splits)

function trim_start :: "string \<Rightarrow> string" where
  "trim_start s = (if ws_len s = 0 then s else trim_start (drop (ws_len s) s))"
  by pat_completeness auto
termination
proof (relation "measure length", goal_cases)
  case (2 s)
  then show ?case using ws_len_le [of s] by simp
qed simp

function trim_end_rev :: "string \<Rightarrow> string" where
  "trim_end_rev r = (if ws_len_rev r = 0 then r else trim_end_rev (drop (ws_len_rev r) r))"
  by pat_completeness auto
termination
proof (relation "measure length", goal_cases)
  case (2 r)
  then show ?case using ws_len_rev_le [of r] by simp
qed simp

declare trim_start.simps [simp del] trim_end_rev.simps [simp del]

definition trim_end :: "string \<Rightarrow> string" where
  "trim_end s = rev (trim_end_rev (rev s))"

definition trim :: "string \<Rightarrow> string" where
  "trim s = trim_end (trim_start s)"

lemma suffix_drop_trans: "suffix t (drop n s) \<Longrightarrow> suffix t s"
  by (meson suffix_drop suffix_def suffixE suffix_order.trans)

lemma trim_start_suffix: "suffix (trim_start s) s"
proof (induction s rule: trim_start.induct)
  case (1 s)
  then show ?case by (subst trim_start.simps) (auto intro: suffix_drop_trans)
qed

lemma trim_end_rev_suffix: "suffix (trim_end_rev s) s"
proof (induction s rule: trim_end_rev.induct)
  case (1 s)
  then show ?case by (subst trim_end_rev.simps) (auto intro: suffix_drop_trans)
qed

lemma trim_end_prefix: "prefix (trim_end s) s"
  using trim_end_rev_suffix [of "rev s"] by (simp add: trim_end_def suffix_to_prefix)

lemma trim_sublist: "sublist (trim s) s"
  unfolding trim_def
  using trim_end_prefix [of "trim_start s"] trim_start_suffix [of s]
  by (metis prefix_imp_sublist suffix_imp_sublist sublist_order.order.trans)

lemma length_trim_le: "length (trim s) \<le> length s"
  using trim_sublist by (rule sublist_length_le)

fun lines_acc :: "string \<Rightarrow> string \<Rightarrow> string list" where
  "lines_acc acc [] = (if acc = [] then [] else [rev acc])"
| "lines_acc acc (c # cs) =
     (if byte c = 10
      then rev (case acc of [] \<Rightarrow> [] | d # r \<Rightarrow> if byte d = 13 then r else acc) # lines_acc [] cs
      else lines_acc (c # acc) cs)"

definition str_lines :: "string \<Rightarrow> string list" where
  "str_lines s = lines_acc [] s"

lemma lines_acc_nonl:
  "\<forall>d \<in> set acc. byte d \<noteq> 10 \<Longrightarrow> l \<in> set (lines_acc acc s) \<Longrightarrow> \<forall>d \<in> set l. byte d \<noteq> 10"
proof (induction acc s rule: lines_acc.induct)
  case (2 acc c cs)
  show ?case
  proof (cases "byte c = 10")
    case True
    then have "l \<in> set (lines_acc [] cs) \<or> set l \<subseteq> set acc"
      using "2.prems"(2) by (auto split: list.splits if_splits)
    then show ?thesis using "2.IH"(1) [OF True] "2.prems"(1) by auto
  next
    case False
    then have "\<forall>d \<in> set (c # acc). byte d \<noteq> 10" "l \<in> set (lines_acc (c # acc) cs)"
      using "2.prems" by simp_all
    then show ?thesis by (rule "2.IH"(2) [OF False])
  qed
qed (auto split: if_splits)

lemma str_lines_nonl: "l \<in> set (str_lines s) \<Longrightarrow> \<forall>d \<in> set l. byte d \<noteq> 10"
  unfolding str_lines_def by (rule lines_acc_nonl [of "[]"]) auto

text \<open>\<open>split(pred)\<close> on characters, and \<open>split_whitespace\<close>.\<close>

fun split_on :: "(char \<Rightarrow> bool) \<Rightarrow> string \<Rightarrow> string list" where
  "split_on P [] = [[]]"
| "split_on P (c # cs) = (case split_on P cs of
      [] \<Rightarrow> [[c]]
    | w # ws \<Rightarrow> if P c then [] # w # ws else (c # w) # ws)"

fun word_len :: "string \<Rightarrow> nat" where
  "word_len [] = 0"
| "word_len (c # cs) = (if ws_len (c # cs) \<noteq> 0 then 0 else Suc (word_len cs))"

definition first_word :: "string \<Rightarrow> string option" where
  "first_word s = (let t = trim_start s in if t = [] then None else Some (take (word_len t) t))"

section \<open>Case, numbers, joining\<close>

definition ascii_lower :: "char \<Rightarrow> char" where
  "ascii_lower c = (if 65 \<le> byte c \<and> byte c \<le> 90 then char_of (byte c + 32) else c)"

definition to_lowercase :: "string \<Rightarrow> string" where
  "to_lowercase s = map ascii_lower s"

definition is_ascii_digit :: "char \<Rightarrow> bool" where
  "is_ascii_digit c \<longleftrightarrow> 48 \<le> byte c \<and> byte c \<le> 57"

definition is_ascii_alphanumeric :: "char \<Rightarrow> bool" where
  "is_ascii_alphanumeric c \<longleftrightarrow> is_ascii_digit c \<or> 65 \<le> byte c \<and> byte c \<le> 90 \<or> 97 \<le> byte c \<and> byte c \<le> 122"

text \<open>\<open>char::is_ascii_whitespace\<close>: space, tab, line feed, form feed, carriage return.\<close>

definition is_ascii_whitespace :: "char \<Rightarrow> bool" where
  "is_ascii_whitespace c \<longleftrightarrow> byte c \<in> {32, 9, 10, 12, 13}"

lemma byte_less [simp]: "byte c < 256"
  by (simp add: byte_def)

lemma byte_char_of [simp]: "byte (char_of n) = n mod 256"
  by (simp add: byte_def)

lemma byte_inj: "byte c = byte d \<longleftrightarrow> c = d"
  by (simp add: byte_def)

lemma length_to_lowercase [simp]: "length (to_lowercase s) = length s"
  by (simp add: to_lowercase_def)

lemma ascii_lower_idem [simp]: "ascii_lower (ascii_lower c) = ascii_lower c"
  by (auto simp: ascii_lower_def)

lemma to_lowercase_idem [simp]: "to_lowercase (to_lowercase s) = to_lowercase s"
  by (simp add: to_lowercase_def)

function nat_str_acc :: "nat \<Rightarrow> string \<Rightarrow> string" where
  "nat_str_acc n acc =
     (if n < 10 then char_of (48 + n) # acc else nat_str_acc (n div 10) (char_of (48 + n mod 10) # acc))"
  by pat_completeness auto
termination by (relation "measure fst") auto

declare nat_str_acc.simps [simp del]

definition nat_str :: "nat \<Rightarrow> string" where
  "nat_str n = nat_str_acc n []"

fun digits_val :: "nat \<Rightarrow> string \<Rightarrow> nat option" where
  "digits_val v [] = Some v"
| "digits_val v (c # cs) = (if is_ascii_digit c then digits_val (10 * v + (byte c - 48)) cs else None)"

text \<open>
  \<open>str::parse\<close> for an unsigned type of \<open>w\<close> bits: an optional plus sign, at least one
  digit, only digits, and a value that fits.
\<close>

definition parse_uint :: "nat \<Rightarrow> string \<Rightarrow> nat option" where
  "parse_uint w s =
     (let t = (case s of [] \<Rightarrow> [] | c # cs \<Rightarrow> if c = CHR ''+'' \<and> cs \<noteq> [] then cs else s)
      in if t = [] then None
         else case digits_val 0 t of None \<Rightarrow> None | Some v \<Rightarrow> if v < 2 ^ w then Some v else None)"

lemma parse_uint_bound: "parse_uint w s = Some v \<Longrightarrow> v < 2 ^ w"
  by (auto simp: parse_uint_def Let_def split: option.splits if_splits)

lemma digits_val_append:
  "digits_val v (xs @ ys) = Option.bind (digits_val v xs) (\<lambda>u. digits_val u ys)"
  by (induction xs arbitrary: v) auto

lemma is_ascii_digit_char_of [simp]: "(d::nat) < 10 \<Longrightarrow> is_ascii_digit (char_of (48 + d))"
  by (simp add: is_ascii_digit_def)

lemma digits_val_nat_str_acc: "digits_val 0 (nat_str_acc n acc) = digits_val n acc"
proof (induction n acc rule: nat_str_acc.induct)
  case (1 n acc)
  show ?case
    using 1 by (subst nat_str_acc.simps) auto
qed

lemma nat_str_acc_digits: "\<exists>d ds. nat_str_acc n acc = d # ds @ acc \<and> is_ascii_digit d \<and> list_all is_ascii_digit ds"
proof (induction n acc rule: nat_str_acc.induct)
  case (1 n acc)
  show ?case
  proof (cases "n < 10")
    case True
    then show ?thesis by (subst nat_str_acc.simps) auto
  next
    case False
    then show ?thesis using "1.IH" by (subst nat_str_acc.simps) fastforce
  qed
qed

lemma nat_str_digits: "nat_str n \<noteq> [] \<and> list_all is_ascii_digit (nat_str n)"
  using nat_str_acc_digits [of n "[]"] by (auto simp: nat_str_def)

lemma not_digit_plus [simp]: "\<not> is_ascii_digit CHR ''+''"
  by (simp add: is_ascii_digit_def byte_def)

text \<open>Printing and parsing back.\<close>

lemma parse_nat_str: "n < 2 ^ w \<Longrightarrow> parse_uint w (nat_str n) = Some n"
  using nat_str_digits [of n] digits_val_nat_str_acc [of n "[]"]
  by (auto simp: parse_uint_def nat_str_def Let_def split: list.splits)

lemma nat_str_inj [simp]: "nat_str m = nat_str n \<longleftrightarrow> m = n"
proof
  assume "nat_str m = nat_str n"
  then have "digits_val 0 (nat_str m) = digits_val 0 (nat_str n)" by simp
  then show "m = n" by (simp add: nat_str_def digits_val_nat_str_acc)
qed simp

fun join :: "string \<Rightarrow> string list \<Rightarrow> string" where
  "join sep [] = []"
| "join sep [x] = x"
| "join sep (x # y # xs) = x @ sep @ join sep (y # xs)"

text \<open>The newline and the em dash of the program's texts.\<close>

abbreviation nl :: string where
  "nl \<equiv> [CHR 0x0A]"

abbreviation em_dash :: string where
  "em_dash \<equiv> [CHR 0xE2, CHR 0x80, CHR 0x94]"

text \<open>A text in single quotes, as the messages print it.\<close>

definition quoted :: "string \<Rightarrow> string" where
  "quoted s = [CHR 0x27] @ s @ [CHR 0x27]"

text \<open>A line quoted in a text: the text contains it.\<close>

lemma sublist_concat: "x \<in> set xs \<Longrightarrow> sublist x (concat xs)"
  by (induction xs) (auto intro: sublist_appendI sublist_order.order.trans)

lemma sublist_join: "x \<in> set xs \<Longrightarrow> sublist x (join sep xs)"
proof (induction sep xs rule: join.induct)
  case (3 sep x' y xs)
  show ?case
  proof (cases "x = x'")
    case False
    then have "sublist x (join sep (y # xs))" using 3 by auto
    then have "sublist x ((x' @ sep) @ join sep (y # xs) @ [])"
      by (rule sublist_order.order.trans [OF _ sublist_appendI])
    then show ?thesis by simp
  qed simp
qed auto

section \<open>Cutting a text near a length\<close>

lemma slice_last_start [simp, str_lemmas]:
  "slice_to s (last_start_upto n s) = Some (take (last_start_upto n s) s)"
  by (simp add: slice_to_def)

lemma length_cut_le: "length (take (last_start_upto n s) s) \<le> n"
  using last_start_upto_le [of n s] by (simp add: min.coboundedI2)

text \<open>Running a fallible conversion over a vector.\<close>

lemma those_map_Some [simp]: "those (map (\<lambda>x. Some (f x)) xs) = Some (map f xs)"
  by (induction xs) auto

section \<open>Trimming plain text\<close>

text \<open>A printable ASCII character is not white space, nor the end of a multi-byte one.\<close>

definition printable :: "char \<Rightarrow> bool" where
  "printable c \<longleftrightarrow> 33 \<le> byte c \<and> byte c < 127"

lemma ws_len_printable [simp]: "printable c \<Longrightarrow> ws_len (c # s) = 0"
  by (cases "c # s" rule: ws_len.cases) (auto simp: printable_def)

lemma ws_len_rev_printable [simp]: "printable c \<Longrightarrow> ws_len_rev (c # r) = 0"
proof -
  assume c: "printable c"
  have two: "ws_len [b, c] \<noteq> 2" for b using c by (auto simp: printable_def)
  have three: "ws_len [b', b, c] \<noteq> 3" for b b' using c by (auto simp: printable_def)
  have one: "ws_len [c] \<noteq> 1" "ws_len [c] \<noteq> 2" "ws_len [c] \<noteq> 3" "ws_len [b, c] \<noteq> 3" for b
    using c by (auto simp: printable_def)
  show ?thesis
  proof (cases r)
    case Nil
    then show ?thesis using one by (simp add: ws_len_rev_def del: ws_len.simps ws_len_printable)
  next
    case (Cons b r')
    then show ?thesis using one two three
      by (cases r') (simp_all add: ws_len_rev_def numeral_2_eq_2 numeral_3_eq_3 del: ws_len.simps ws_len_printable)
  qed
qed

lemma ws_len_blank [simp]: "ws_len (CHR '' '' # s) = 1"
  by (cases "CHR '' '' # s" rule: ws_len.cases) (auto simp: byte_def)

lemma ws_len_rev_blank [simp]: "ws_len_rev (CHR '' '' # r) = 1"
  by (simp add: ws_len_rev_def byte_def)

lemma trim_start_printable [simp]: "printable c \<Longrightarrow> trim_start (c # s) = c # s"
  by (subst trim_start.simps) simp

lemma trim_end_rev_printable [simp]: "printable c \<Longrightarrow> trim_end_rev (c # s) = c # s"
  by (subst trim_end_rev.simps) simp

lemma trim_start_blanks [simp]: "trim_start (replicate n (CHR '' '') @ s) = trim_start s"
proof (induction n)
  case (Suc n)
  then show ?case by (subst trim_start.simps) simp
qed simp

lemma trim_end_rev_blanks [simp]: "trim_end_rev (replicate n (CHR '' '') @ s) = trim_end_rev s"
proof (induction n)
  case (Suc n)
  then show ?case by (subst trim_end_rev.simps) simp
qed simp

lemma trim_end_blanks:
  assumes "s \<noteq> []" "printable (last s)"
  shows "trim_end (s @ replicate n (CHR '' '')) = s"
proof -
  obtain t c where "s = t @ [c]" "printable c" using assms by (cases s rule: rev_cases) auto
  then show ?thesis by (simp add: trim_end_def)
qed

lemma trim_blanks [str_lemmas]:
  assumes "s \<noteq> []" "printable (hd s)" "printable (last s)"
  shows "trim (replicate m (CHR '' '') @ s @ replicate n (CHR '' '')) = s"
proof -
  obtain c t where s: "s = c # t" using assms(1) by (cases s) auto
  then have "trim_start (s @ replicate n (CHR '' '')) = s @ replicate n (CHR '' '')" using assms(2) by simp
  then show ?thesis using trim_end_blanks [OF assms(1,3)] by (simp add: trim_def)
qed

lemma trim_printable:
  assumes "s \<noteq> []" "printable (hd s)" "printable (last s)"
  shows "trim s = s"
  using trim_blanks [OF assms, of 0 0] by simp

lemma digit_printable [simp]: "is_ascii_digit c \<Longrightarrow> printable c"
  by (simp add: is_ascii_digit_def printable_def)

section \<open>Words\<close>

lemma trim_start_no_ws: "ws_len (trim_start s) = 0"
proof (induction s rule: trim_start.induct)
  case (1 s)
  then show ?case by (subst trim_start.simps) simp
qed

lemma word_len_pos: "ws_len t = 0 \<Longrightarrow> t \<noteq> [] \<Longrightarrow> 0 < word_len t"
  by (cases t) simp_all

text \<open>\<open>split_whitespace\<close>.\<close>

function split_whitespace :: "string \<Rightarrow> string list" where
  "split_whitespace s =
     (let t = trim_start s in
      if t = [] then [] else take (word_len t) t # split_whitespace (drop (word_len t) t))"
  by pat_completeness auto
termination
proof (relation "measure length", goal_cases)
  case (2 s t)
  then have "0 < word_len t" using word_len_pos [OF trim_start_no_ws [of s]] by simp
  moreover have "length t \<le> length s" using trim_start_suffix [of s] 2 by (simp add: suffix_length_le)
  moreover have "0 < length t" using 2 by simp
  ultimately have "length t - word_len t < length s" by linarith
  then show ?case by simp
qed simp

declare split_whitespace.simps [simp del]

section \<open>Replacing\<close>

text \<open>\<open>str::replace\<close> with a pattern that is not empty.\<close>

function str_replace :: "string \<Rightarrow> string \<Rightarrow> string \<Rightarrow> string" where
  "str_replace p r s = (if p = [] then s else
     (case str_find p s of
        None \<Rightarrow> s
      | Some i \<Rightarrow> take i s @ r @ str_replace p r (drop (i + length p) s)))"
  by auto
termination
  by (relation "measure (\<lambda>(p, r, s). length s)") (auto dest!: str_find_Some simp flip: length_greater_0_conv)

declare str_replace.simps [simp del]

section \<open>Building valid texts\<close>

lemma utf8_valid_append: "utf8_valid s \<Longrightarrow> utf8_valid t \<Longrightarrow> utf8_valid (s @ t)"
proof (induction s rule: utf8_valid.induct)
  case (2 a s)
  have second: "utf8_second_ok a s \<Longrightarrow> s \<noteq> [] \<Longrightarrow> utf8_second_ok a (s @ t)"
    by (auto simp: utf8_second_ok_def split: list.splits)
  define k where "k = utf8_len a"
  have k: "k \<noteq> 0" "k - 1 \<le> length s" "list_all is_cont (take (k - 1) s)" "1 < k \<longrightarrow> utf8_second_ok a s"
    "utf8_valid (drop (k - 1) s)"
    using "2.prems"(1) by (auto simp: k_def Let_def)
  have "utf8_valid (drop (k - 1) s @ t)" using "2.IH" [of k] k "2.prems"(2) by (simp add: k_def)
  moreover have "1 < k \<longrightarrow> utf8_second_ok a (s @ t)" using k(2,4) second by fastforce
  ultimately show ?case using k(1-3) by (simp add: Let_def flip: k_def)
qed simp

lemma utf8_valid_low: "\<forall>d \<in> set w. byte d < 128 \<Longrightarrow> utf8_valid w"
  by (induction w) (simp_all add: utf8_len_def)

lemma utf8_valid_printable: "list_all printable w \<Longrightarrow> utf8_valid w"
  by (rule utf8_valid_low) (auto simp: list_all_iff printable_def)

lemma utf8_valid_nl: "utf8_valid nl"
  by (rule utf8_valid_low) (simp add: byte_def)

text \<open>A text without line ends is a line.\<close>

definition one_line :: "string \<Rightarrow> bool" where
  "one_line d \<longleftrightarrow> list_all (\<lambda>c. byte c \<noteq> 10 \<and> byte c \<noteq> 13) d"

lemma lines_acc_line:
  "one_line s \<Longrightarrow> lines_acc acc (s @ nl @ t) =
     rev (case rev s @ acc of [] \<Rightarrow> [] | d # r \<Rightarrow> if byte d = 13 then r else rev s @ acc) # lines_acc [] t"
  by (induction s arbitrary: acc) (auto simp: one_line_def byte_def split: list.split)

lemma str_lines_line:
  assumes "one_line s"
  shows "str_lines (s @ nl @ t) = s # str_lines t"
proof -
  have "rev (case rev s of [] \<Rightarrow> [] | d # r \<Rightarrow> if byte d = 13 then r else rev s) = s"
  proof (cases "rev s")
    case (Cons d r)
    then have "d \<in> set s" by (metis list.set_intros(1) set_rev)
    then show ?thesis using assms Cons by (auto simp: one_line_def list_all_iff)
  qed simp
  then show ?thesis using lines_acc_line [OF assms, of "[]" t] unfolding append_Nil2 by (simp add: str_lines_def)
qed

end
