(* ===== verification/Skyclaw_Types.thy ===== *)
theory Skyclaw_Types
  imports Rust_Str
begin

text \<open>
  The data the crates exchange: the error enumeration and the message, session and
  tool types of \<open>skyclaw-core\<close>, and JSON values. An operation that returns
  \<open>Result<T, SkyclawError>\<close> returns \<^typ>\<open>'a + 'b\<close> with the error on the left.
\<close>

section \<open>Errors\<close>

text \<open>\<open>Serialization\<close> and \<open>Io\<close> wrap an error of another crate; here, its text.\<close>

datatype skyclaw_error =
    Config string | Provider string | Channel string | Memory string | Vault string
  | Tool string | FileTransfer string | Auth string | PermissionDenied string
  | SandboxViolation string | RateLimited string | NotFound string | Skill string
  | Serialization string | Io string | Internal string

text \<open>\<open>Display\<close>, from the \<open>error\<close> attributes.\<close>

fun show_error :: "skyclaw_error \<Rightarrow> string" where
  "show_error (Config s) = ''Configuration error: '' @ s"
| "show_error (Provider s) = ''Provider error: '' @ s"
| "show_error (Channel s) = ''Channel error: '' @ s"
| "show_error (Memory s) = ''Memory error: '' @ s"
| "show_error (Vault s) = ''Vault error: '' @ s"
| "show_error (Tool s) = ''Tool execution error: '' @ s"
| "show_error (FileTransfer s) = ''File transfer error: '' @ s"
| "show_error (Auth s) = ''Authentication error: '' @ s"
| "show_error (PermissionDenied s) = ''Permission denied: '' @ s"
| "show_error (SandboxViolation s) = ''Sandbox violation: '' @ s"
| "show_error (RateLimited s) = ''Rate limited: '' @ s"
| "show_error (NotFound s) = ''Not found: '' @ s"
| "show_error (Skill s) = ''Skill error: '' @ s"
| "show_error (Serialization s) = ''Serialization error: '' @ s"
| "show_error (Io s) = ''IO error: '' @ s"
| "show_error (Internal s) = ''Internal error: '' @ s"

type_synonym 'a result = "skyclaw_error + 'a"

text \<open>The \<open>?\<close> operator.\<close>

definition bind_result :: "'e + 'a \<Rightarrow> ('a \<Rightarrow> 'e + 'b) \<Rightarrow> 'e + 'b" where
  "bind_result r f = (case r of Inl e \<Rightarrow> Inl e | Inr x \<Rightarrow> f x)"

lemma bind_result_simps [simp]:
  "bind_result (Inl e) f = Inl e"
  "bind_result (Inr x) f = f x"
  by (simp_all add: bind_result_def)

lemma bind_result_Inr: "bind_result r f = Inr y \<longleftrightarrow> (\<exists>x. r = Inr x \<and> f x = Inr y)"
  by (cases r) auto

text \<open>\<open>map_err\<close>.\<close>

definition map_error :: "('e \<Rightarrow> 'f) \<Rightarrow> 'e + 'a \<Rightarrow> 'f + 'a" where
  "map_error f r = (case r of Inl e \<Rightarrow> Inl (f e) | Inr x \<Rightarrow> Inr x)"

lemma map_error_simps [simp]:
  "map_error f (Inl e) = Inl (f e)"
  "map_error f (Inr x) = Inr x"
  by (simp_all add: map_error_def)

text \<open>\<open>iter.collect::<Result<Vec<_>, _>>()\<close>: the first error wins.\<close>

fun collect_results :: "('e + 'a) list \<Rightarrow> 'e + 'a list" where
  "collect_results [] = Inr []"
| "collect_results (r # rs) = bind_result r (\<lambda>x. bind_result (collect_results rs) (\<lambda>xs. Inr (x # xs)))"

lemma collect_results_Inr: "collect_results rs = Inr xs \<longleftrightarrow> rs = map Inr xs"
  by (induction rs arbitrary: xs) (auto simp: bind_result_Inr)

lemma map_Inr_transfer:
  "map Inr es = map f rs \<Longrightarrow> (\<And>r e. f r = Inr e \<Longrightarrow> g e = h r) \<Longrightarrow> map g es = map h rs"
proof (induction rs arbitrary: es)
  case (Cons r rs)
  then obtain e es' where "es = e # es'" by (cases es) auto
  moreover from this have "map g es' = map h rs" using Cons.IH [of es'] Cons.prems by simp
  ultimately show ?case using Cons.prems(1) Cons.prems(2) [of r e] by simp
qed simp

lemma map_Inr_mem: "map Inr es = map f rs \<Longrightarrow> e \<in> set es \<longleftrightarrow> (\<exists>r \<in> set rs. f r = Inr e)"
proof (induction rs arbitrary: es)
  case (Cons r rs)
  then obtain e' es' where es: "es = e' # es'" by (cases es) auto
  then have "f r = Inr e'" using Cons.prems by simp
  then show ?case using Cons.IH [of es'] Cons.prems es by auto
qed simp

section \<open>JSON\<close>

text \<open>
  \<open>serde_json::Value\<close>. A number is kept as its decimal text: no modelled code computes
  with one. An object is a map from keys to values.
\<close>

datatype json =
    JNull | JBool bool | JNumber string | JString string
  | JArray "json list" | JObject "(string \<times> json) list"

fun json_get :: "json \<Rightarrow> string \<Rightarrow> json option" where
  "json_get (JObject m) k = hm_get m k"
| "json_get _ _ = None"

fun json_str :: "json \<Rightarrow> string option" where
  "json_str (JString s) = Some s"
| "json_str _ = None"

fun json_bool :: "json \<Rightarrow> bool option" where
  "json_bool (JBool b) = Some b"
| "json_bool _ = None"

section \<open>Messages\<close>

datatype role = System | User | Assistant | RoleTool

datatype content_part =
    PText string
  | ToolUse string string json
  | ToolResult string string bool "string option"
  | Image string string

datatype message_content = Text string | Parts "content_part list"

record chat_message =
  msg_role :: role
  msg_content :: message_content

datatype parse_mode = Markdown | Html | Plain

record outbound_message =
  out_chat_id :: string
  out_text :: string
  out_reply_to :: "string option"
  out_parse_mode :: "parse_mode option"

record received_file =
  rf_name :: string
  rf_mime_type :: string
  rf_size :: nat
  rf_data :: string

text \<open>\<open>format_number\<close>: a comma before every group of three digits from the right.\<close>

fun group3 :: "nat \<Rightarrow> string \<Rightarrow> string" where
  "group3 i [] = []"
| "group3 i (c # cs) =
     (if 0 < i \<and> i mod 3 = 0 then CHR '','' # c # group3 (i + 1) cs else c # group3 (i + 1) cs)"

definition format_number :: "u32 \<Rightarrow> string" where
  "format_number n = rev (group3 0 (rev (nat_str (unat n))))"

definition combined_tokens :: "u32 \<Rightarrow> u32 \<Rightarrow> u32" where
  "combined_tokens input_tokens output_tokens = input_tokens + output_tokens"

lemma group3_filter: "CHR '','' \<notin> set s \<Longrightarrow> filter (\<lambda>c. c \<noteq> CHR '','') (group3 i s) = s"
  by (induction i s rule: group3.induct) auto

lemma comma_not_digit: "list_all is_ascii_digit s \<Longrightarrow> CHR '','' \<notin> set s"
  by (auto simp: list_all_iff is_ascii_digit_def byte_def)

lemma format_number_digits: "filter (\<lambda>c. c \<noteq> CHR '','') (format_number n) = nat_str (unat n)"
  using nat_str_digits [of "unat n"]
  by (simp add: format_number_def flip: rev_filter) (simp add: group3_filter comma_not_digit)

section \<open>Sessions and tools\<close>

record session_context =
  session_id :: string
  sess_channel :: string
  sess_chat_id :: string
  sess_user_id :: string
  sess_history :: "chat_message list"
  workspace_path :: string

datatype path_access = Read string | Write string | ReadWrite string

record tool_declarations =
  file_access :: "path_access list"
  network_access :: "string list"
  shell_access :: bool

record tool_output =
  to_content :: string
  to_is_error :: bool

record tool_context =
  tc_workspace_path :: string
  tc_session_id :: string
  tc_chat_id :: string

record tool_input =
  ti_name :: string
  ti_arguments :: json

end
