(* ===== verification/Kahn.thy ===== *)
theory Kahn
  imports Rust_Str "HOL-Library.Multiset"
begin

text \<open>
  Kahn's algorithm as \<open>detect_cycle\<close> and \<open>topological_sort\<close> of
  \<open>skyclaw-agent/src/task_decomposition.rs\<close> run it, over the node names \<open>ids\<close> and the
  edges \<open>(dependency, dependent)\<close>, and its correctness: it never panics, it needs no
  more than one step per node, the nodes it visits respect every edge, and it visits all
  nodes exactly when the edges have no cycle.
\<close>

section \<open>The algorithm\<close>

definition or_insert :: "'k \<Rightarrow> 'v \<Rightarrow> ('k, 'v) hmap \<Rightarrow> ('k, 'v) hmap" where
  "or_insert k v m = (case hm_get m k of None \<Rightarrow> hm_insert k v m | Some _ \<Rightarrow> m)"

definition get_or :: "'v \<Rightarrow> ('k, 'v) hmap \<Rightarrow> 'k \<Rightarrow> 'v" where
  "get_or d m k = (case hm_get m k of None \<Rightarrow> d | Some v \<Rightarrow> v)"

type_synonym degrees = "(string, nat) hmap"
type_synonym adjacency = "(string, string list) hmap"

definition kahn_init :: "string list \<Rightarrow> degrees \<times> adjacency" where
  "kahn_init ids = foldl (\<lambda>(deg, adj) i. (or_insert i 0 deg, or_insert i [] adj)) ([], []) ids"

definition kahn_edge :: "degrees \<times> adjacency \<Rightarrow> string \<times> string \<Rightarrow> degrees \<times> adjacency" where
  "kahn_edge da e = (case da of (deg, adj) \<Rightarrow> case e of (d, t) \<Rightarrow>
     (hm_insert t (get_or 0 deg t + 1) deg, hm_insert d (get_or [] adj d @ [t]) adj))"

definition kahn_build :: "string list \<Rightarrow> (string \<times> string) list \<Rightarrow> degrees \<times> adjacency" where
  "kahn_build ids edges = foldl kahn_edge (kahn_init ids) edges"

text \<open>
  The inner loop: decrement each neighbour, collect those that reach zero. Below zero
  the subtraction would panic: \<^const>\<open>None\<close>.
\<close>

fun kahn_relax :: "string list \<Rightarrow> degrees \<Rightarrow> (degrees \<times> string list) option" where
  "kahn_relax [] deg = Some (deg, [])"
| "kahn_relax (n # ns) deg =
     (case hm_get deg n of
        None \<Rightarrow> kahn_relax ns deg
      | Some d \<Rightarrow>
          if d = 0 then None
          else case kahn_relax ns (hm_insert n (d - 1) deg) of
              None \<Rightarrow> None
            | Some (deg', nexts) \<Rightarrow> Some (deg', if d - 1 = 0 then n # nexts else nexts))"

text \<open>
  The queue loop, with fuel; \<^const>\<open>None\<close> is a panic or no fuel left. \<open>arrange\<close> is
  what the caller does with the nodes that become free: nothing, or sort.
\<close>

fun kahn_loop :: "(string list \<Rightarrow> string list) \<Rightarrow> adjacency \<Rightarrow> nat \<Rightarrow> degrees \<Rightarrow>
    string list \<Rightarrow> string list \<Rightarrow> string list option" where
  "kahn_loop arrange adj 0 deg queue visited = None"
| "kahn_loop arrange adj (Suc fuel) deg [] visited = Some visited"
| "kahn_loop arrange adj (Suc fuel) deg (node # queue) visited =
     (case hm_get adj node of
        None \<Rightarrow> kahn_loop arrange adj fuel deg queue (visited @ [node])
      | Some neighbors \<Rightarrow> (case kahn_relax neighbors deg of
            None \<Rightarrow> None
          | Some (deg', nexts) \<Rightarrow>
              kahn_loop arrange adj fuel deg' (queue @ arrange nexts) (visited @ [node])))"

definition zero_degree :: "degrees \<Rightarrow> string list" where
  "zero_degree deg = map fst (filter (\<lambda>(_, d). d = 0) deg)"

definition kahn :: "(string list \<Rightarrow> string list) \<Rightarrow> (string list \<Rightarrow> string list) \<Rightarrow>
    string list \<Rightarrow> (string \<times> string) list \<Rightarrow> string list option" where
  "kahn first arrange ids edges =
     (case kahn_build ids edges of (deg, adj) \<Rightarrow>
        kahn_loop arrange adj (Suc (length ids)) deg (first (zero_degree deg)) [])"


section \<open>Correctness\<close>

text \<open>A caller's arrangement of nodes: any reordering.\<close>

definition reorders :: "(string list \<Rightarrow> string list) \<Rightarrow> bool" where
  "reorders f \<longleftrightarrow> (\<forall>xs. mset (f xs) = mset xs)"

lemma reorders_set [simp]: "reorders f \<Longrightarrow> set (f xs) = set xs"
  by (metis reorders_def set_mset_mset)

lemma reorders_distinct [simp]: "reorders f \<Longrightarrow> distinct (f xs) = distinct xs"
  by (metis reorders_def mset_eq_imp_distinct_iff)

lemma reorders_Nil [simp]: "reorders f \<Longrightarrow> f [] = []"
  by (metis reorders_def mset_zero_iff)

lemma reorders_id [simp]: "reorders (\<lambda>xs. xs)"
  by (simp add: reorders_def)

lemma reorders_sort [simp]: "reorders sort"
  by (simp add: reorders_def)

lemma hm_get_or_insert:
  "hm_get (or_insert k v m) k' = (case hm_get m k' of None \<Rightarrow> if k = k' then Some v else None | Some w \<Rightarrow> Some w)"
  by (auto simp: or_insert_def split: option.splits)

lemma hm_ok_or_insert [simp]: "hm_ok m \<Longrightarrow> hm_ok (or_insert k v m)"
  by (simp add: or_insert_def split: option.splits)

lemma get_or_insert: "get_or d (hm_insert k v m) k' = (if k = k' then v else get_or d m k')"
  by (simp add: get_or_def)

lemma kahn_init_fold:
  "foldl (\<lambda>(deg, adj) i. (or_insert i 0 deg, or_insert i [] adj)) (deg, adj) ids = (deg', adj') \<Longrightarrow>
   hm_ok deg \<Longrightarrow>
   hm_ok deg' \<and> get_or 0 deg' = get_or 0 deg \<and> get_or [] adj' = get_or [] adj
   \<and> (\<forall>k. hm_get deg' k \<noteq> None \<longleftrightarrow> hm_get deg k \<noteq> None \<or> k \<in> set ids)"
proof (induction ids arbitrary: deg adj)
  case (Cons i ids)
  have "get_or 0 (or_insert i 0 deg) = get_or 0 deg" "get_or [] (or_insert i [] adj) = get_or [] adj"
    by (auto simp: get_or_def fun_eq_iff hm_get_or_insert split: option.splits)
  moreover have "hm_get (or_insert i 0 deg) k \<noteq> None \<longleftrightarrow> hm_get deg k \<noteq> None \<or> k = i" for k
    by (auto simp: hm_get_or_insert split: option.splits)
  ultimately show ?case
    using Cons.IH [of "or_insert i 0 deg" "or_insert i [] adj"] Cons.prems by auto
qed auto

lemma kahn_edge_pair:
  "kahn_edge (deg, adj) (d, t) =
     (hm_insert t (get_or 0 deg t + 1) deg, hm_insert d (get_or [] adj d @ [t]) adj)"
  by (simp add: kahn_edge_def)

lemma kahn_edge_fold:
  "foldl kahn_edge (deg, adj) es = (deg', adj') \<Longrightarrow> hm_ok deg \<Longrightarrow>
   hm_ok deg' \<and> (\<forall>t. get_or 0 deg' t = get_or 0 deg t + length (filter (\<lambda>e. snd e = t) es))
   \<and> (\<forall>d. get_or [] adj' d = get_or [] adj d @ map snd (filter (\<lambda>e. fst e = d) es))
   \<and> (\<forall>k. hm_get deg' k \<noteq> None \<longleftrightarrow> hm_get deg k \<noteq> None \<or> k \<in> snd ` set es)"
proof (induction es arbitrary: deg adj)
  case (Cons e es)
  obtain d t where e: "e = (d, t)" by (cases e)
  let ?deg = "hm_insert t (get_or 0 deg t + 1) deg" and ?adj = "hm_insert d (get_or [] adj d @ [t]) adj"
  from Cons.prems have "foldl kahn_edge (?deg, ?adj) es = (deg', adj')"
    by (simp add: e kahn_edge_pair)
  from Cons.IH [OF this] Cons.prems(2) show ?case by (auto simp: e get_or_insert)
qed auto

text \<open>The edges into a node from nodes not yet visited.\<close>

definition indegree :: "(string \<times> string) list \<Rightarrow> string list \<Rightarrow> string \<Rightarrow> nat" where
  "indegree es vis t = length (filter (\<lambda>e. snd e = t \<and> fst e \<notin> set vis) es)"

definition nexts_of :: "(string \<times> string) list \<Rightarrow> string \<Rightarrow> string list" where
  "nexts_of es d = map snd (filter (\<lambda>e. fst e = d) es)"

definition topo :: "(string \<times> string) list \<Rightarrow> string list \<Rightarrow> bool" where
  "topo es vis \<longleftrightarrow> (\<forall>i < length vis. \<forall>e \<in> set es. snd e = vis ! i \<longrightarrow> fst e \<in> set (take i vis))"

lemma kahn_build_correct:
  assumes "kahn_build ids es = (deg, adj)" "snd ` set es \<subseteq> set ids"
  shows "hm_ok deg" "hm_get deg t = (if t \<in> set ids then Some (indegree es [] t) else None)"
    "get_or [] adj d = nexts_of es d"
proof -
  obtain deg0 adj0 where i: "kahn_init ids = (deg0, adj0)" by (cases "kahn_init ids")
  have 0: "hm_ok deg0" "\<And>k. get_or 0 deg0 k = 0" "\<And>k. get_or [] adj0 k = []"
    "\<And>k. hm_get deg0 k \<noteq> None \<longleftrightarrow> k \<in> set ids"
  proof -
    have k: "hm_ok deg0" "get_or 0 deg0 = get_or 0 []" "get_or [] adj0 = get_or [] []"
      "\<forall>k. hm_get deg0 k \<noteq> None \<longleftrightarrow> hm_get ([] :: degrees) k \<noteq> None \<or> k \<in> set ids"
      using kahn_init_fold [OF i [unfolded kahn_init_def] hm_ok_Nil] by blast+
    show "hm_ok deg0" by (rule k(1))
    show "get_or 0 deg0 k = 0" "get_or [] adj0 k = []" for k
      unfolding k(2,3) by (simp_all add: get_or_def)
    show "hm_get deg0 k \<noteq> None \<longleftrightarrow> k \<in> set ids" for k
      using k(4) by simp
  qed
  have 1: "hm_ok deg" "\<And>t. get_or 0 deg t = get_or 0 deg0 t + length (filter (\<lambda>e. snd e = t) es)"
    "\<And>d. get_or [] adj d = get_or [] adj0 d @ map snd (filter (\<lambda>e. fst e = d) es)"
    "\<And>k. hm_get deg k \<noteq> None \<longleftrightarrow> hm_get deg0 k \<noteq> None \<or> k \<in> snd ` set es"
    using kahn_edge_fold [OF assms(1) [unfolded kahn_build_def i] 0(1)] by blast+
  show "hm_ok deg" by (rule 1(1))
  show "get_or [] adj d = nexts_of es d" unfolding 1(3) 0(3) by (simp add: nexts_of_def)
  have dom: "hm_get deg t \<noteq> None \<longleftrightarrow> t \<in> set ids"
    unfolding 1(4) 0(4) using assms(2) by blast
  have "get_or 0 deg t = indegree es [] t"
    unfolding 1(2) 0(2) by (simp add: indegree_def)
  then show "hm_get deg t = (if t \<in> set ids then Some (indegree es [] t) else None)"
    using dom unfolding get_or_def by (cases "hm_get deg t") simp_all
qed

lemma kahn_relax_correct:
  assumes "\<And>n. n \<in> set ns \<Longrightarrow> \<exists>d. hm_get deg n = Some d \<and> count_list ns n \<le> d"
  shows "\<exists>deg' nexts. kahn_relax ns deg = Some (deg', nexts)
    \<and> (\<forall>n. hm_get deg' n = map_option (\<lambda>d. d - count_list ns n) (hm_get deg n))
    \<and> distinct nexts \<and> set nexts = {n \<in> set ns. hm_get deg n = Some (count_list ns n)}"
  using assms
proof (induction ns arbitrary: deg)
  case Nil
  then show ?case by (simp add: option.map_ident)
next
  case (Cons n ns)
  obtain d where d: "hm_get deg n = Some d" "1 + count_list ns n \<le> d"
    using Cons.prems [of n] by auto
  let ?deg = "hm_insert n (d - 1) deg"
  have "\<exists>d. hm_get ?deg m = Some d \<and> count_list ns m \<le> d" if "m \<in> set ns" for m
    using Cons.prems [of m] that d by (auto split: if_splits)
  from Cons.IH [OF this] obtain deg' nexts where
    r: "kahn_relax ns ?deg = Some (deg', nexts)"
      "\<And>m. hm_get deg' m = map_option (\<lambda>d. d - count_list ns m) (hm_get ?deg m)"
      "distinct nexts" "set nexts = {m \<in> set ns. hm_get ?deg m = Some (count_list ns m)}" by blast
  have cnt: "m \<in> set ns \<Longrightarrow> 0 < count_list ns m" for m
    by (metis count_list_0_iff gr0I)
  have "kahn_relax (n # ns) deg = Some (deg', if d - 1 = 0 then n # nexts else nexts)"
    using d r(1) by simp
  moreover have "hm_get deg' m = map_option (\<lambda>d. d - count_list (n # ns) m) (hm_get deg m)" for m
    using r(2) d by (cases "m = n") (auto simp: option.map_comp o_def)
  moreover have "distinct (if d - 1 = 0 then n # nexts else nexts)"
    using r(3,4) d cnt [of n] by auto
  moreover have "set (if d - 1 = 0 then n # nexts else nexts) =
      {m \<in> set (n # ns). hm_get deg m = Some (count_list (n # ns) m)}"
    using r(4) d cnt by (auto simp: count_list_0_iff)
  ultimately show ?case by blast
qed

lemma indegree_visit:
  "node \<notin> set vis \<Longrightarrow> indegree es vis t = indegree es (vis @ [node]) t + count_list (nexts_of es node) t"
  by (induction es) (auto simp: indegree_def nexts_of_def)

lemma count_nexts_le: "node \<notin> set vis \<Longrightarrow> count_list (nexts_of es node) t \<le> indegree es vis t"
  using indegree_visit [of node vis es t] by simp

lemma indegree_0_iff: "indegree es vis t = 0 \<longleftrightarrow> (\<forall>e \<in> set es. snd e = t \<longrightarrow> fst e \<in> set vis)"
  by (auto simp: indegree_def filter_empty_conv)

text \<open>
  The invariant of the queue loop: degrees count the edges from nodes not yet visited,
  and the nodes visited or queued, each once, are the ones whose degree is zero.
\<close>

definition kahn_inv :: "string list \<Rightarrow> (string \<times> string) list \<Rightarrow> degrees \<Rightarrow> string list \<Rightarrow> string list \<Rightarrow> bool" where
  "kahn_inv ids es deg queue vis \<longleftrightarrow>
     (\<forall>t. hm_get deg t = (if t \<in> set ids then Some (indegree es vis t) else None))
     \<and> distinct (vis @ queue)
     \<and> set vis \<union> set queue = {t \<in> set ids. indegree es vis t = 0}
     \<and> topo es vis"

lemma topo_snoc: "topo es vis \<Longrightarrow> indegree es vis node = 0 \<Longrightarrow> topo es (vis @ [node])"
  by (auto simp: topo_def nth_append indegree_0_iff less_Suc_eq)

lemma kahn_inv_step:
  assumes inv: "kahn_inv ids es deg (node # queue) vis"
    and ids: "snd ` set es \<subseteq> set ids" and arr: "reorders arrange"
  shows "\<exists>deg' nexts. kahn_relax (nexts_of es node) deg = Some (deg', nexts)
    \<and> kahn_inv ids es deg' (queue @ arrange nexts) (vis @ [node])"
proof -
  let ?ns = "nexts_of es node"
  have deg: "hm_get deg t = (if t \<in> set ids then Some (indegree es vis t) else None)" for t
    using inv by (simp add: kahn_inv_def)
  have dist: "distinct (vis @ node # queue)" and topo: "topo es vis"
    and seen: "set vis \<union> set (node # queue) = {t \<in> set ids. indegree es vis t = 0}"
    using inv by (simp_all only: kahn_inv_def)
  have new: "node \<notin> set vis" using dist by simp
  have sub: "set ?ns \<subseteq> set ids" using ids by (auto simp: nexts_of_def)
  have "\<exists>d. hm_get deg n = Some d \<and> count_list ?ns n \<le> d" if "n \<in> set ?ns" for n
    using that sub deg [of n] count_nexts_le [OF new, of es n] by auto
  from kahn_relax_correct [of ?ns deg, OF this] obtain deg' nexts where
    r: "kahn_relax ?ns deg = Some (deg', nexts)"
      "\<And>n. hm_get deg' n = map_option (\<lambda>d. d - count_list ?ns n) (hm_get deg n)"
      "distinct nexts" "set nexts = {n \<in> set ?ns. hm_get deg n = Some (count_list ?ns n)}" by blast
  have vis': "indegree es vis t = indegree es (vis @ [node]) t + count_list ?ns t" for t
    by (rule indegree_visit [OF new])
  have cnt: "m \<in> set ?ns \<Longrightarrow> 0 < count_list ?ns m" for m
    by (metis count_list_0_iff gr0I)
  have nexts: "set nexts = {t \<in> set ids. 0 < indegree es vis t \<and> indegree es (vis @ [node]) t = 0}"
  proof -
    have "t \<in> set nexts \<longleftrightarrow> t \<in> set ids \<and> 0 < indegree es vis t \<and> indegree es (vis @ [node]) t = 0" for t
    proof (cases "t \<in> set ?ns")
      case True
      then have "t \<in> set ids" using sub by blast
      moreover have "t \<in> set nexts \<longleftrightarrow> hm_get deg t = Some (count_list ?ns t)"
        using r(4) True by simp
      ultimately show ?thesis using deg [of t] vis' [of t] cnt [OF True] by auto
    next
      case False
      then have "count_list ?ns t = 0" by (simp add: count_list_0_iff)
      then show ?thesis using False r(4) vis' [of t] by auto
    qed
    then show ?thesis by blast
  qed
  have "hm_get deg' t = (if t \<in> set ids then Some (indegree es (vis @ [node]) t) else None)" for t
    using r(2) [of t] deg [of t] vis' [of t] by auto
  moreover have "distinct ((vis @ [node]) @ queue @ arrange nexts)"
  proof -
    have "set nexts \<inter> (set vis \<union> set (node # queue)) = {}"
      using nexts seen by auto
    then show ?thesis using dist r(3) arr by auto
  qed
  moreover have "set (vis @ [node]) \<union> set (queue @ arrange nexts) =
      {t \<in> set ids. indegree es (vis @ [node]) t = 0}"
  proof -
    have "set (vis @ [node]) \<union> set (queue @ arrange nexts) =
        {t \<in> set ids. indegree es vis t = 0} \<union> set nexts"
      using seen arr by auto
    also have "\<dots> = {t \<in> set ids. indegree es (vis @ [node]) t = 0}"
      using nexts vis' by auto
    finally show ?thesis .
  qed
  moreover have "topo es (vis @ [node])"
    using topo seen by (intro topo_snoc) auto
  ultimately show ?thesis using r(1) by (auto simp: kahn_inv_def)
qed

lemma kahn_loop_correct:
  assumes "kahn_inv ids es deg queue vis" "card (set ids) < fuel + length vis"
    "snd ` set es \<subseteq> set ids" "reorders arrange" "\<And>d. get_or [] adj d = nexts_of es d"
  shows "\<exists>vis' deg'. kahn_loop arrange adj fuel deg queue vis = Some vis' \<and> kahn_inv ids es deg' [] vis'"
  using assms
proof (induction fuel arbitrary: deg queue vis)
  case 0
  have "length vis \<le> card (set ids)"
    using 0(1) by (metis (no_types, lifting) List.finite_set Un_subset_iff card_mono
        distinct_append distinct_card kahn_inv_def mem_Collect_eq subsetI subset_refl subset_iff)
  then show ?case using 0(2) by simp
next
  case (Suc fuel)
  show ?case
  proof (cases queue)
    case Nil
    then show ?thesis using Suc.prems(1) by auto
  next
    case (Cons node queue')
    obtain deg' nexts where
      r: "kahn_relax (nexts_of es node) deg = Some (deg', nexts)"
        "kahn_inv ids es deg' (queue' @ arrange nexts) (vis @ [node])"
      using kahn_inv_step [OF Suc.prems(1) [unfolded Cons] Suc.prems(3,4)] by blast
    have "kahn_loop arrange adj (Suc fuel) deg queue vis =
        kahn_loop arrange adj fuel deg' (queue' @ arrange nexts) (vis @ [node])"
    proof (cases "hm_get adj node")
      case None
      then have "nexts_of es node = []"
        using Suc.prems(5) [of node] by (simp add: get_or_def)
      then show ?thesis using None r(1) Cons Suc.prems(4) by simp
    next
      case (Some ns)
      then have "ns = nexts_of es node"
        using Suc.prems(5) [of node] by (simp add: get_or_def)
      then show ?thesis using Some r(1) Cons by simp
    qed
    then show ?thesis using Suc.IH [OF r(2) _ Suc.prems(3,4,5)] Suc.prems(2) by simp
  qed
qed

lemma zero_degree_correct:
  assumes "hm_ok deg"
  shows "distinct (zero_degree deg)" "set (zero_degree deg) = {t. hm_get deg t = Some 0}"
proof -
  show "distinct (zero_degree deg)"
    using assms unfolding zero_degree_def hm_ok_def by (rule distinct_map_filter)
  show "set (zero_degree deg) = {t. hm_get deg t = Some 0}"
    using assms by (force simp: zero_degree_def hm_get_Some_iff)
qed

lemma kahn_correct:
  assumes "distinct ids" "snd ` set es \<subseteq> set ids" "reorders first" "reorders arrange"
  shows "\<exists>vis. kahn first arrange ids es = Some vis \<and> distinct vis \<and> topo es vis
    \<and> set vis = {t \<in> set ids. \<forall>e \<in> set es. snd e = t \<longrightarrow> fst e \<in> set vis}"
proof -
  obtain deg adj where b: "kahn_build ids es = (deg, adj)" by (cases "kahn_build ids es")
  note build = kahn_build_correct [OF b assms(2)]
  have "kahn_inv ids es deg (first (zero_degree deg)) []"
    using zero_degree_correct [OF build(1)] build(2) assms(3)
    by (auto simp: kahn_inv_def topo_def split: if_splits)
  from kahn_loop_correct [OF this _ assms(2,4) build(3), of "Suc (length ids)"]
  obtain vis deg' where "kahn first arrange ids es = Some vis" and inv: "kahn_inv ids es deg' [] vis"
    using assms(1) by (auto simp: kahn_def b distinct_card)
  moreover from inv have "set vis = {t \<in> set ids. \<forall>e \<in> set es. snd e = t \<longrightarrow> fst e \<in> set vis}"
    by (simp add: kahn_inv_def indegree_0_iff)
  ultimately show ?thesis by (auto simp: kahn_inv_def)
qed

lemma topo_all_acyclic:
  assumes "topo es vis" "snd ` set es \<subseteq> set vis"
  shows "acyclic (set es)"
proof -
  define pos where "pos t = (LEAST i. i < length vis \<and> vis ! i = t)" for t
  have pos: "pos t < length vis \<and> vis ! pos t = t" if "t \<in> set vis" for t
    unfolding pos_def by (rule LeastI_ex) (use that in \<open>auto simp: in_set_conv_nth\<close>)
  have "pos d < pos t" if e: "(d, t) \<in> set es" for d t
  proof -
    have t: "t \<in> set vis" using e assms(2) by force
    then have "d \<in> set (take (pos t) vis)"
      using e pos [OF t] assms(1) by (fastforce simp: topo_def)
    then obtain i where "i < pos t" "i < length vis" "vis ! i = d"
      by (auto simp: in_set_conv_nth)
    then have "pos d \<le> i" unfolding pos_def by (intro Least_le) simp
    then show ?thesis using \<open>i < pos t\<close> by simp
  qed
  then show ?thesis by (intro acyclicI_order [where f = "\<lambda>t. - int (pos t)"]) auto
qed

lemma acyclic_all_visited:
  assumes "acyclic (set es)" "fst ` set es \<subseteq> set ids"
    and vis: "set vis = {t \<in> set ids. \<forall>e \<in> set es. snd e = t \<longrightarrow> fst e \<in> set vis}"
  shows "set vis = set ids"
proof -
  have "wf (set es)" using assms(1) by (simp add: finite_acyclic_wf)
  then have "t \<in> set ids \<longrightarrow> t \<in> set vis" for t
  proof (induction t rule: wf_induct_rule)
    case (less t)
    show ?case
    proof
      assume t: "t \<in> set ids"
      have "\<forall>e \<in> set es. snd e = t \<longrightarrow> fst e \<in> set vis"
        using less assms(2) by (metis image_subset_iff prod.collapse)
      with t vis show "t \<in> set vis" by blast
    qed
  qed
  then show ?thesis using vis by blast
qed

end
