(* ===== verification/Task_Graph.thy ===== *)
theory Task_Graph
  imports Skyclaw_Types Kahn
begin

text \<open>
  Task decomposition (\<open>skyclaw-agent/src/task_decomposition.rs\<close>): sub-tasks and their
  graph, its validation by Kahn's algorithm, the topological order, the ready tasks the
  scheduler may start, the texts built from a graph and the parser of the model's
  numbered list. The task map is a hash map, so its list order is the iteration order;
  every theorem holds for any order. \<open>detect_cycle\<close> starts from the zero-degree nodes
  in the order of another hash map, the parameter \<open>iter\<close>.
\<close>

section \<open>Sub-tasks\<close>

datatype subtask_status = Pending | Running | Completed | Failed

primrec show_status :: "subtask_status \<Rightarrow> string" where
  "show_status Pending = ''pending''"
| "show_status Running = ''running''"
| "show_status Completed = ''completed''"
| "show_status Failed = ''failed''"

record subtask =
  st_id :: string
  st_description :: string
  st_dependencies :: "string list"
  st_status :: subtask_status
  st_result :: "string option"

definition subtask_new :: "string \<Rightarrow> string \<Rightarrow> subtask" where
  "subtask_new i description =
     \<lparr>st_id = i, st_description = description, st_dependencies = [],
      st_status = Pending, st_result = None\<rparr>"

definition with_dependency :: "string \<Rightarrow> subtask \<Rightarrow> subtask" where
  "with_dependency dep_id t = t\<lparr>st_dependencies := st_dependencies t @ [dep_id]\<rparr>"

definition with_dependencies :: "string list \<Rightarrow> subtask \<Rightarrow> subtask" where
  "with_dependencies dep_ids t = t\<lparr>st_dependencies := st_dependencies t @ dep_ids\<rparr>"

type_synonym task_map = "(string, subtask) hmap"

record task_graph =
  tg_goal :: string
  tg_tasks :: task_map
  tg_order :: "string list"

text \<open>The edges in the order the nested loop visits them: dependency, dependent.\<close>

definition task_edges :: "task_map \<Rightarrow> (string \<times> string) list" where
  "task_edges tasks = concat (map (\<lambda>t. map (\<lambda>d. (d, st_id t)) (st_dependencies t)) (hm_values tasks))"

section \<open>Validation and topological order\<close>

definition detect_cycle :: "(string list \<Rightarrow> string list) \<Rightarrow> task_map \<Rightarrow> unit result option" where
  "detect_cycle iter tasks =
     (case kahn iter (\<lambda>nexts. nexts) (hm_keys tasks) (task_edges tasks) of
        None \<Rightarrow> None
      | Some visited \<Rightarrow>
          if length visited \<noteq> length tasks
          then Some (Inl (Internal (''Task graph contains a dependency cycle '' @ em_dash @
                                    '' cannot create a valid execution order'')))
          else Some (Inr ()))"

definition topological_sort :: "task_map \<Rightarrow> (string list) result option" where
  "topological_sort tasks =
     (case kahn sort sort (hm_keys tasks) (task_edges tasks) of
        None \<Rightarrow> None
      | Some order \<Rightarrow>
          if length order \<noteq> length tasks
          then Some (Inl (Internal ''Task graph contains a dependency cycle''))
          else Some (Inr order))"

section \<open>The task graph\<close>

text \<open>The first dependency, in iteration order, that names no sub-task.\<close>

definition unknown_dependency :: "task_map \<Rightarrow> (string \<times> string) option" where
  "unknown_dependency tasks =
     List.find (\<lambda>(d, t). hm_get tasks d = None) (task_edges tasks)"

text \<open>\<open>hash\<close> is the iteration order of the new map.\<close>

definition task_graph_new ::
    "(task_map \<Rightarrow> task_map) \<Rightarrow> (string list \<Rightarrow> string list) \<Rightarrow> string \<Rightarrow> subtask list \<Rightarrow> task_graph result option" where
  "task_graph_new hash iter goal subtasks =
     (let order = map st_id subtasks;
          tasks = hash (hm_collect st_id subtasks)
      in case unknown_dependency tasks of
           Some (dep_id, task_id) \<Rightarrow>
             Some (Inl (Internal (''Sub-task '' @ quoted task_id @ '' depends on unknown sub-task '' @ quoted dep_id)))
         | None \<Rightarrow> (case detect_cycle iter tasks of
             None \<Rightarrow> None
           | Some (Inl e) \<Rightarrow> Some (Inl e)
           | Some (Inr _) \<Rightarrow> Some (Inr \<lparr>tg_goal = goal, tg_tasks = tasks, tg_order = order\<rparr>)))"

definition deps_met :: "task_map \<Rightarrow> subtask \<Rightarrow> bool" where
  "deps_met tasks t =
     list_all (\<lambda>dep_id. case hm_get tasks dep_id of
        None \<Rightarrow> False | Some d \<Rightarrow> st_status d = Completed) (st_dependencies t)"

definition ready_tasks :: "task_graph \<Rightarrow> subtask list" where
  "ready_tasks g = List.map_filter (\<lambda>i. case hm_get (tg_tasks g) i of
       None \<Rightarrow> None
     | Some t \<Rightarrow> if st_status t \<noteq> Pending then None
                 else if deps_met (tg_tasks g) t then Some t else None) (tg_order g)"

definition update_task :: "string \<Rightarrow> (subtask \<Rightarrow> subtask) \<Rightarrow> task_graph \<Rightarrow> task_graph result" where
  "update_task i f g = (case hm_get (tg_tasks g) i of
      None \<Rightarrow> Inl (NotFound (''Sub-task '' @ quoted i @ '' not found in graph''))
    | Some t \<Rightarrow> Inr (g\<lparr>tg_tasks := hm_insert i (f t) (tg_tasks g)\<rparr>))"

definition mark_running :: "string \<Rightarrow> task_graph \<Rightarrow> task_graph result" where
  "mark_running i g = update_task i (\<lambda>t. t\<lparr>st_status := Running\<rparr>) g"

definition mark_completed :: "string \<Rightarrow> string \<Rightarrow> task_graph \<Rightarrow> task_graph result" where
  "mark_completed i r g = update_task i (\<lambda>t. t\<lparr>st_status := Completed, st_result := Some r\<rparr>) g"

definition mark_failed :: "string \<Rightarrow> string \<Rightarrow> task_graph \<Rightarrow> task_graph result" where
  "mark_failed i err g = update_task i (\<lambda>t. t\<lparr>st_status := Failed, st_result := Some err\<rparr>) g"

definition is_complete :: "task_graph \<Rightarrow> bool" where
  "is_complete g \<longleftrightarrow> tg_tasks g \<noteq> [] \<and> list_all (\<lambda>t. st_status t = Completed) (hm_values (tg_tasks g))"

definition is_failed :: "task_graph \<Rightarrow> bool" where
  "is_failed g \<longleftrightarrow> list_ex (\<lambda>t. st_status t = Failed) (hm_values (tg_tasks g))"

definition count_status :: "subtask_status \<Rightarrow> task_graph \<Rightarrow> nat" where
  "count_status s g = length (filter (\<lambda>t. st_status t = s) (hm_values (tg_tasks g)))"

definition progress_summary :: "task_graph \<Rightarrow> string" where
  "progress_summary g =
     (let total = length (tg_tasks g);
          completed = count_status Completed g;
          failed = count_status Failed g;
          running = count_status Running g;
          base = nat_str completed @ ''/'' @ nat_str total @ '' subtasks complete''
      in if 0 < failed
         then base @ '' ('' @ nat_str failed @ '' failed, '' @ nat_str running @ '' running)''
         else if 0 < running then base @ '' ('' @ nat_str running @ '' running)''
         else base)"

definition topological_order :: "task_graph \<Rightarrow> (string list) result option" where
  "topological_order g = topological_sort (tg_tasks g)"

section \<open>Texts built from a graph\<close>

primrec status_icon :: "subtask_status \<Rightarrow> string" where
  "status_icon Pending = ''[ ]''"
| "status_icon Running = ''[~]''"
| "status_icon Completed = ''[x]''"
| "status_icon Failed = ''[!]''"

definition truncate_at :: "nat \<Rightarrow> string \<Rightarrow> string" where
  "truncate_at n r = (if n < length r then take (last_start_upto n r) r @ ''...'' else r)"

definition result_line :: "subtask \<Rightarrow> string" where
  "result_line t = (case st_result t of
      Some r \<Rightarrow> if st_status t = Completed then nl @ ''     Result: '' @ truncate_at 200 r
                else if st_status t = Failed then nl @ ''     Error: '' @ r
                else []
    | None \<Rightarrow> [])"

definition prompt_line :: "subtask \<Rightarrow> string" where
  "prompt_line t =
     (let deps_str = (if st_dependencies t = [] then []
                      else '' (depends on: '' @ join '', '' (st_dependencies t) @ '')'')
      in ''  '' @ status_icon (st_status t) @ '' '' @ st_id t @ '' '' @ em_dash @ '' ''
         @ st_description t @ deps_str @ result_line t)"

definition to_prompt :: "task_graph \<Rightarrow> string" where
  "to_prompt g =
     (let header = ''[TASK GRAPH] Goal: '' @ [CHR 0x22] @ tg_goal g @ [CHR 0x22] @ nl @ progress_summary g;
          body = List.map_filter (\<lambda>i. map_option prompt_line (hm_get (tg_tasks g) i)) (tg_order g);
          ready = ready_tasks g;
          footer = (if ready \<noteq> [] then [''Next to execute: '' @ join '', '' (map st_id ready)]
                    else if is_complete g then [''All subtasks complete.'']
                    else if is_failed g
                    then [''Task graph has failures '' @ em_dash @ '' cannot proceed.'']
                    else [])
      in join nl ([header, []] @ body @ [[]] @ footer))"

definition decompose_prompt :: "string \<Rightarrow> string" where
  "decompose_prompt goal =
     ''Break down the following compound task into sequential sub-tasks.'' @ nl @ nl
     @ ''Task: '' @ [CHR 0x22] @ goal @ [CHR 0x22] @ nl @ nl
     @ ''Respond with a numbered list of sub-tasks. Each sub-task should be a single, ''
     @ ''concrete action. If a sub-task depends on a previous one, note it with ''
     @ [CHR 0x22] @ ''(after N)'' @ [CHR 0x22] @ '' where N is the step number it depends on.'' @ nl @ nl
     @ ''Format:'' @ nl @ ''1. First action'' @ nl @ ''2. Second action (after 1)'' @ nl
     @ ''3. Third action (after 2)'' @ nl @ ''4. Fourth action (after 2)'' @ nl @ nl
     @ ''Keep it simple '' @ em_dash @ '' most tasks are linear chains. Only use parallel branching ''
     @ ''when steps are truly independent.'' @ nl @ nl
     @ ''Respond ONLY with the numbered list, no preamble or explanation.''"

section \<open>Parsing a decomposition\<close>

text \<open>
  One annotation pattern: the text after removal and the numbers found. An offset found
  in the lowered text is used on the text itself.
\<close>

definition annotation_numbers :: "string \<Rightarrow> nat list" where
  "annotation_numbers inner = List.map_filter (\<lambda>raw.
     let part = trim raw
     in if part = ''and'' \<or> part = ''step'' \<or> part = ''steps'' \<or> part = [] then None
        else parse_uint 32 part) (split_on (\<lambda>c. c = CHR '','' \<or> c = CHR '' '') inner)"

definition extract_annotation :: "string \<Rightarrow> string \<times> nat list \<Rightarrow> string \<times> nat list" where
  "extract_annotation pattern dd = (case dd of (description, deps) \<Rightarrow>
     (case str_find pattern (to_lowercase description) of
        None \<Rightarrow> (description, deps)
      | Some start \<Rightarrow> (case str_find '')'' (drop start description) of
            None \<Rightarrow> (description, deps)
          | Some e \<Rightarrow>
              let annotation = take (e + 1) (drop start description);
                  inner = drop (length pattern) (take (length annotation - 1) annotation)
              in (trim (trim (take start description) @ trim (drop (start + e + 1) description)),
                  deps @ annotation_numbers inner))))"

definition extract_dependencies :: "string \<Rightarrow> string \<times> nat list" where
  "extract_dependencies txt =
     extract_annotation ''(depends on '' (extract_annotation ''(after '' (txt, []))"

definition number_prefix :: "string \<Rightarrow> nat \<Rightarrow> (string \<times> string) option" where
  "number_prefix trimmed pos =
     (let candidate = take pos trimmed
      in if list_all is_ascii_digit candidate \<and> candidate \<noteq> []
         then Some (candidate, drop (pos + 2) trimmed) else None)"

definition parse_numbered_line :: "string \<Rightarrow> (nat \<times> string \<times> nat list) option" where
  "parse_numbered_line line =
     (let trimmed = trim (dropWhile (\<lambda>c. c = CHR ''-'') (trim line));
          split = (case str_find ''. '' trimmed of
              Some dot_pos \<Rightarrow> number_prefix trimmed dot_pos
            | None \<Rightarrow> (case str_find '') '' trimmed of
                Some paren_pos \<Rightarrow> number_prefix trimmed paren_pos
              | None \<Rightarrow> None))
      in case split of
           None \<Rightarrow> None
         | Some (num_str, rest) \<Rightarrow> (case parse_uint 32 num_str of
               None \<Rightarrow> None
             | Some number \<Rightarrow> (case extract_dependencies rest of
                 (description, deps) \<Rightarrow> Some (number, description, deps))))"

definition parse_task_line :: "string \<Rightarrow> subtask option" where
  "parse_task_line line =
     (let trimmed = trim line
      in if trimmed = [] then None
         else case parse_numbered_line trimmed of
             None \<Rightarrow> None
           | Some (number, description, deps) \<Rightarrow>
               Some ((subtask_new (nat_str number) description)\<lparr>st_dependencies := map nat_str deps\<rparr>))"

definition parse_decomposition :: "string \<Rightarrow> string \<Rightarrow> subtask list result" where
  "parse_decomposition llm_response goal =
     (let subtasks = List.map_filter parse_task_line (str_lines llm_response)
      in Inr (if subtasks = [] then [subtask_new ''1'' goal] else subtasks))"

definition chain_task :: "nat \<Rightarrow> string \<Rightarrow> subtask" where
  "chain_task i desc =
     (let t = subtask_new (nat_str (i + 1)) desc
      in if 0 < i then t\<lparr>st_dependencies := st_dependencies t @ [nat_str i]\<rparr> else t)"

definition create_linear_chain :: "string list \<Rightarrow> subtask list" where
  "create_linear_chain descriptions = map (\<lambda>(i, d). chain_task i d) (enumerate 0 descriptions)"

section \<open>Well-formed graphs\<close>

definition tasks_wf :: "task_map \<Rightarrow> bool" where
  "tasks_wf ts \<longleftrightarrow> hm_ok ts \<and> (\<forall>(k, t) \<in> set ts. st_id t = k)"

definition deps_known :: "task_map \<Rightarrow> bool" where
  "deps_known ts \<longleftrightarrow> (\<forall>t \<in> set (hm_values ts). set (st_dependencies t) \<subseteq> set (hm_keys ts))"

text \<open>The dependency graph of a task map has no cycle.\<close>

definition deps_acyclic :: "task_map \<Rightarrow> bool" where
  "deps_acyclic ts \<longleftrightarrow> acyclic {(d, st_id t) | d t. t \<in> set (hm_values ts) \<and> d \<in> set (st_dependencies t)}"

definition graph_inv :: "task_graph \<Rightarrow> bool" where
  "graph_inv g \<longleftrightarrow> tasks_wf (tg_tasks g) \<and> deps_known (tg_tasks g) \<and> deps_acyclic (tg_tasks g)
     \<and> set (tg_order g) = set (hm_keys (tg_tasks g))"

text \<open>The iteration order of a hash map: any order of its entries.\<close>

definition hash_order :: "(task_map \<Rightarrow> task_map) \<Rightarrow> bool" where
  "hash_order hash \<longleftrightarrow> (\<forall>m. mset (hash m) = mset m)"

lemma set_task_edges:
  "set (task_edges ts) = {(d, st_id t) | d t. t \<in> set (hm_values ts) \<and> d \<in> set (st_dependencies t)}"
  by (auto simp: task_edges_def)

lemma deps_acyclic_edges: "deps_acyclic ts \<longleftrightarrow> acyclic (set (task_edges ts))"
  by (simp add: deps_acyclic_def set_task_edges)

lemma tasks_wf_value: "tasks_wf ts \<Longrightarrow> t \<in> set (hm_values ts) \<longleftrightarrow> hm_get ts (st_id t) = Some t"
  by (force simp: tasks_wf_def hm_values_def hm_get_Some_iff)

lemma tasks_wf_get: "tasks_wf ts \<Longrightarrow> hm_get ts i = Some t \<Longrightarrow> st_id t = i \<and> t \<in> set (hm_values ts)"
  by (force simp: tasks_wf_def hm_values_def dest: hm_get_SomeD)

lemma edges_snd: "tasks_wf ts \<Longrightarrow> snd ` set (task_edges ts) \<subseteq> set (hm_keys ts)"
  by (auto simp: set_task_edges tasks_wf_value) (metis hm_get_None_iff option.distinct(1))

lemma edges_fst: "deps_known ts \<Longrightarrow> fst ` set (task_edges ts) \<subseteq> set (hm_keys ts)"
  unfolding set_task_edges deps_known_def by force

lemma unknown_dependency_None: "unknown_dependency ts = None \<longleftrightarrow> deps_known ts"
  by (auto simp: unknown_dependency_def find_None_iff set_task_edges deps_known_def hm_get_None_iff)

lemma kahn_tasks:
  assumes "tasks_wf ts" "reorders first" "reorders arrange"
  obtains vis where "kahn first arrange (hm_keys ts) (task_edges ts) = Some vis"
    "distinct vis" "topo (task_edges ts) vis" "set vis \<subseteq> set (hm_keys ts)"
    "length vis = length ts \<longleftrightarrow> set vis = set (hm_keys ts)"
    "deps_known ts \<Longrightarrow> length vis = length ts \<longleftrightarrow> deps_acyclic ts"
proof -
  have keys: "distinct (hm_keys ts)" using assms(1) by (simp add: tasks_wf_def hm_ok_keys)
  obtain vis where vis: "kahn first arrange (hm_keys ts) (task_edges ts) = Some vis"
    "distinct vis" "topo (task_edges ts) vis"
    and set_vis: "set vis = {t \<in> set (hm_keys ts). \<forall>e \<in> set (task_edges ts). snd e = t \<longrightarrow> fst e \<in> set vis}"
    using kahn_correct [OF keys edges_snd [OF assms(1)] assms(2,3)] by blast
  have sub: "set vis \<subseteq> set (hm_keys ts)" using set_vis by blast
  have len: "length ts = card (set (hm_keys ts))" "length vis = card (set vis)"
    using keys vis(2) by (metis distinct_card hm_keys_def length_map, metis distinct_card)
  have all: "length vis = length ts \<longleftrightarrow> set vis = set (hm_keys ts)"
    unfolding len using sub card_subset_eq [of "set (hm_keys ts)" "set vis"] by auto
  have "length vis = length ts \<longleftrightarrow> deps_acyclic ts" if "deps_known ts"
  proof
    assume "length vis = length ts"
    then show "deps_acyclic ts"
      using topo_all_acyclic [OF vis(3)] edges_snd [OF assms(1)] all by (simp add: deps_acyclic_edges)
  next
    assume "deps_acyclic ts"
    then show "length vis = length ts"
      using acyclic_all_visited [OF _ edges_fst [OF that] set_vis] all by (simp add: deps_acyclic_edges)
  qed
  with vis sub all that show ?thesis by blast
qed

lemma hash_order_wf:
  assumes "hash_order hash"
  shows "tasks_wf (hash (hm_collect st_id sts))"
    "set (hm_keys (hash (hm_collect st_id sts))) = st_id ` set sts"
proof -
  let ?m = "hm_collect st_id sts"
  have perm: "mset (hash ?m) = mset ?m" using assms by (simp add: hash_order_def)
  then have set: "set (hash ?m) = set ?m" by (metis set_mset_mset)
  have "distinct (map fst (hash ?m)) = distinct (map fst ?m)"
    using perm by (metis mset_eq_imp_distinct_iff mset_map)
  then show "tasks_wf (hash ?m)"
    using set hm_ok_collect [of st_id sts] by (auto simp: tasks_wf_def hm_ok_def dest: hm_collect_key)
  show "set (hm_keys (hash ?m)) = st_id ` set sts"
    using set hm_keys_collect [of st_id sts] by (simp add: hm_keys_def)
qed

lemma ready_tasks_iff:
  "t \<in> set (ready_tasks g) \<longleftrightarrow>
     (\<exists>i \<in> set (tg_order g). hm_get (tg_tasks g) i = Some t) \<and> st_status t = Pending \<and> deps_met (tg_tasks g) t"
  by (force simp: ready_tasks_def split: option.splits if_splits)

lemma deps_met_iff:
  "deps_met ts t \<longleftrightarrow> (\<forall>d \<in> set (st_dependencies t). \<exists>u. hm_get ts d = Some u \<and> st_status u = Completed)"
  by (auto simp: deps_met_def list_all_iff split: option.splits)

text \<open>Replacing a task's status and result keeps the graph well-formed.\<close>

lemma update_values:
  assumes "tasks_wf ts" "hm_get ts i = Some t" "st_id t' = i"
  shows "tasks_wf (hm_insert i t' ts)"
    "set (hm_keys (hm_insert i t' ts)) = set (hm_keys ts)"
    "x \<in> set (hm_values (hm_insert i t' ts)) \<longleftrightarrow> x = t' \<or> (x \<in> set (hm_values ts) \<and> st_id x \<noteq> i)"
proof -
  show wf: "tasks_wf (hm_insert i t' ts)"
    using assms set_hm_insert [of i t' ts] by (auto simp: tasks_wf_def)
  have "i \<in> set (hm_keys ts)" using assms(2) by (metis hm_get_None_iff option.distinct(1))
  then show "set (hm_keys (hm_insert i t' ts)) = set (hm_keys ts)" by (auto simp: hm_keys_insert)
  show "x \<in> set (hm_values (hm_insert i t' ts)) \<longleftrightarrow> x = t' \<or> (x \<in> set (hm_values ts) \<and> st_id x \<noteq> i)"
    using assms wf by (auto simp: tasks_wf_value split: if_splits)
qed

lemma graph_inv_update:
  assumes inv: "graph_inv g" and upd: "update_task i f g = Inr g'"
    and f: "\<And>t. st_id (f t) = st_id t" "\<And>t. st_dependencies (f t) = st_dependencies t"
  shows "graph_inv g'"
proof -
  obtain t where t: "hm_get (tg_tasks g) i = Some t" and g': "g' = g\<lparr>tg_tasks := hm_insert i (f t) (tg_tasks g)\<rparr>"
    using upd by (auto simp: update_task_def split: option.splits)
  have wf: "tasks_wf (tg_tasks g)" using inv by (simp add: graph_inv_def)
  have ti: "st_id t = i" "t \<in> set (hm_values (tg_tasks g))" using tasks_wf_get [OF wf t] by auto
  note upd = update_values [OF wf t, of "f t"]
  have ft: "st_id (f t) = i" using f(1) ti(1) by simp
  have same: "x \<in> set (hm_values (tg_tasks g)) \<Longrightarrow> st_id x = i \<Longrightarrow> x = t" for x
    using wf t by (simp add: tasks_wf_value)
  have vals: "x \<in> set (hm_values (tg_tasks g')) \<longleftrightarrow> x = f t \<or> (x \<in> set (hm_values (tg_tasks g)) \<and> st_id x \<noteq> i)" for x
    using upd(3) [OF ft] by (simp add: g')
  have edges: "{(d, st_id u) | d u. u \<in> set (hm_values (tg_tasks g')) \<and> d \<in> set (st_dependencies u)}
      = {(d, st_id u) | d u. u \<in> set (hm_values (tg_tasks g)) \<and> d \<in> set (st_dependencies u)}"
  proof -
    have iff: "(\<exists>u. u \<in> set (hm_values (tg_tasks g')) \<and> d \<in> set (st_dependencies u) \<and> st_id u = k) \<longleftrightarrow>
        (\<exists>u. u \<in> set (hm_values (tg_tasks g)) \<and> d \<in> set (st_dependencies u) \<and> st_id u = k)" (is "?L \<longleftrightarrow> ?R") for d k
    proof (cases "k = i")
      case True
      have "?L \<longleftrightarrow> d \<in> set (st_dependencies t)"
        unfolding vals using ft f(2) [of t] True by metis
      moreover have "?R \<longleftrightarrow> d \<in> set (st_dependencies t)"
        using same ti True by blast
      ultimately show ?thesis by blast
    next
      case False
      then show ?thesis unfolding vals using ft by metis
    qed
    show ?thesis (is "?A = ?B")
    proof (rule set_eqI)
      fix x :: "string \<times> string"
      obtain d k where x: "x = (d, k)" by (cases x)
      show "x \<in> ?A \<longleftrightarrow> x \<in> ?B" unfolding x using iff [of d k] by simp metis
    qed
  qed
  have "set (st_dependencies u) \<subseteq> set (hm_keys (tg_tasks g'))" if "u \<in> set (hm_values (tg_tasks g'))" for u
  proof -
    have "\<exists>v \<in> set (hm_values (tg_tasks g)). set (st_dependencies v) = set (st_dependencies u)"
      using that ti(2) f(2) [of t] unfolding vals by metis
    then show ?thesis using inv upd(2) [OF ft] by (auto simp: graph_inv_def deps_known_def g')
  qed
  then show ?thesis
    using inv upd(1,2) [OF ft] edges by (simp add: graph_inv_def deps_known_def deps_acyclic_def g')
qed

lemma dependency_known:
  assumes "graph_inv g" "t \<in> set (hm_values (tg_tasks g))" "d \<in> set (st_dependencies t)"
  obtains u where "hm_get (tg_tasks g) d = Some u" "st_id u = d" "u \<in> set (hm_values (tg_tasks g))"
proof -
  have "d \<in> set (hm_keys (tg_tasks g))" using assms by (auto simp: graph_inv_def deps_known_def)
  then obtain u where "hm_get (tg_tasks g) d = Some u" by (metis hm_get_None_iff not_None_eq)
  with that tasks_wf_get [of "tg_tasks g" d u] assms(1) show thesis by (auto simp: graph_inv_def)
qed

text \<open>A task that is not completed has a pending task below it that is ready.\<close>

lemma ready_below:
  assumes inv: "graph_inv g"
    and st: "\<forall>t \<in> set (hm_values (tg_tasks g)). st_status t = Pending \<or> st_status t = Completed"
    and t: "t \<in> set (hm_values (tg_tasks g))" "st_status t \<noteq> Completed"
  shows "ready_tasks g \<noteq> []"
proof -
  let ?E = "set (task_edges (tg_tasks g))"
  have wf: "tasks_wf (tg_tasks g)" using inv by (simp add: graph_inv_def)
  have "wf ?E" using inv by (simp add: graph_inv_def deps_acyclic_edges finite_acyclic_wf)
  then have "\<forall>t. st_id t = k \<longrightarrow> t \<in> set (hm_values (tg_tasks g)) \<longrightarrow> st_status t \<noteq> Completed \<longrightarrow> ready_tasks g \<noteq> []" for k
  proof (induction k rule: wf_induct_rule)
    case (less k)
    show ?case
    proof (intro allI impI)
      fix t assume k: "st_id t = k" and t: "t \<in> set (hm_values (tg_tasks g))" "st_status t \<noteq> Completed"
      show "ready_tasks g \<noteq> []"
      proof (cases "deps_met (tg_tasks g) t")
        case True
        have get: "hm_get (tg_tasks g) k = Some t" using wf t(1) k by (simp add: tasks_wf_value)
        then have "k \<in> set (tg_order g)"
          using inv by (metis graph_inv_def hm_get_None_iff option.distinct(1))
        then have "t \<in> set (ready_tasks g)" using True get st t by (auto simp: ready_tasks_iff)
        then show ?thesis by force
      next
        case False
        then obtain d where d: "d \<in> set (st_dependencies t)"
          "\<And>u. hm_get (tg_tasks g) d = Some u \<Longrightarrow> st_status u \<noteq> Completed"
          by (auto simp: deps_met_iff)
        obtain u where u: "hm_get (tg_tasks g) d = Some u" "st_id u = d" "u \<in> set (hm_values (tg_tasks g))"
          using dependency_known [OF inv t(1) d(1)] .
        have "(d, k) \<in> ?E" using d(1) t(1) k by (auto simp: set_task_edges)
        then show ?thesis using less u d(2) by blast
      qed
    qed
  qed
  then show ?thesis using t by blast
qed

text \<open>Completing the first ready task until none is left, at most \<open>n\<close> times.\<close>

fun complete_ready :: "nat \<Rightarrow> task_graph \<Rightarrow> task_graph" where
  "complete_ready 0 g = g"
| "complete_ready (Suc n) g = (case ready_tasks g of
      [] \<Rightarrow> g
    | t # _ \<Rightarrow> (case mark_completed (st_id t) [] g of Inl _ \<Rightarrow> g | Inr g' \<Rightarrow> complete_ready n g'))"

text \<open>What is still to do.\<close>

definition open_ids :: "task_graph \<Rightarrow> string set" where
  "open_ids g = {k. \<exists>t. hm_get (tg_tasks g) k = Some t \<and> st_status t \<noteq> Completed}"

lemma open_ids_empty: "graph_inv g \<Longrightarrow> open_ids g = {} \<longleftrightarrow> (\<forall>t \<in> set (hm_values (tg_tasks g)). st_status t = Completed)"
  by (auto simp: open_ids_def graph_inv_def tasks_wf_value dest: tasks_wf_get)

lemma finite_open_ids: "finite (open_ids g)"
proof (rule finite_subset)
  show "open_ids g \<subseteq> set (hm_keys (tg_tasks g))"
    by (auto simp: open_ids_def) (metis hm_get_None_iff option.distinct(1))
qed simp

lemma complete_one:
  assumes inv: "graph_inv g"
    and st: "\<forall>t \<in> set (hm_values (tg_tasks g)). st_status t = Pending \<or> st_status t = Completed"
    and ne: "open_ids g \<noteq> {}"
  obtains t ts g' where "ready_tasks g = t # ts" "mark_completed (st_id t) [] g = Inr g'" "graph_inv g'"
    "\<forall>t \<in> set (hm_values (tg_tasks g')). st_status t = Pending \<or> st_status t = Completed"
    "card (open_ids g') = card (open_ids g) - 1" "tg_tasks g' \<noteq> []"
proof -
  have wf: "tasks_wf (tg_tasks g)" using inv by (simp add: graph_inv_def)
  obtain t0 where "t0 \<in> set (hm_values (tg_tasks g))" "st_status t0 \<noteq> Completed"
    using ne open_ids_empty [OF inv] by blast
  then obtain t ts where r: "ready_tasks g = t # ts"
    using ready_below [OF inv st] by (cases "ready_tasks g") auto
  then have "t \<in> set (ready_tasks g)" by simp
  then obtain i where i: "hm_get (tg_tasks g) i = Some t" and pend: "st_status t = Pending"
    by (auto simp: ready_tasks_iff)
  have ti: "st_id t = i" using tasks_wf_get [OF wf i] by simp
  define t' where "t' = t\<lparr>st_status := Completed, st_result := Some []\<rparr>"
  define g' where "g' = g\<lparr>tg_tasks := hm_insert i t' (tg_tasks g)\<rparr>"
  have m: "mark_completed (st_id t) [] g = Inr g'"
    using i by (simp add: mark_completed_def update_task_def ti g'_def t'_def)
  have inv': "graph_inv g'"
    using graph_inv_update [OF inv m [unfolded mark_completed_def]] by simp
  have t'i: "st_id t' = i" using ti by (simp add: t'_def)
  note vals = update_values [OF wf i t'i]
  have st': "\<forall>t \<in> set (hm_values (tg_tasks g')). st_status t = Pending \<or> st_status t = Completed"
    using st vals(3) by (auto simp: g'_def t'_def)
  have "open_ids g' = open_ids g - {i}"
    using i by (auto simp: open_ids_def g'_def t'_def split: if_splits)
  moreover have "i \<in> open_ids g" using i pend by (auto simp: open_ids_def)
  ultimately have "card (open_ids g') = card (open_ids g) - 1" by simp
  moreover have "tg_tasks g' \<noteq> []" using vals(3) [of t'] by (auto simp: g'_def hm_values_def)
  ultimately show thesis using that r m inv' st' by blast
qed

lemma complete_ready_all:
  assumes "graph_inv g" "tg_tasks g \<noteq> []"
    "\<forall>t \<in> set (hm_values (tg_tasks g)). st_status t = Pending \<or> st_status t = Completed"
    "card (open_ids g) \<le> n"
  shows "is_complete (complete_ready n g)"
  using assms
proof (induction n arbitrary: g)
  case 0
  then show ?case using open_ids_empty finite_open_ids by (simp add: is_complete_def list_all_iff)
next
  case (Suc n)
  show ?case
  proof (cases "open_ids g = {}")
    case True
    then have all: "\<forall>t \<in> set (hm_values (tg_tasks g)). st_status t = Completed"
      using open_ids_empty Suc.prems(1) by blast
    moreover have "ready_tasks g = []"
    proof (rule ccontr)
      assume "ready_tasks g \<noteq> []"
      then obtain t where "t \<in> set (ready_tasks g)" by (cases "ready_tasks g") auto
      then obtain i where "hm_get (tg_tasks g) i = Some t" "st_status t = Pending"
        by (auto simp: ready_tasks_iff)
      then show False using all Suc.prems(1) tasks_wf_get [of "tg_tasks g" i t] by (auto simp: graph_inv_def)
    qed
    ultimately show ?thesis using Suc.prems(2) by (simp add: is_complete_def list_all_iff)
  next
    case False
    obtain t ts g' where r: "ready_tasks g = t # ts" "mark_completed (st_id t) [] g = Inr g'" "graph_inv g'"
      "\<forall>t \<in> set (hm_values (tg_tasks g')). st_status t = Pending \<or> st_status t = Completed"
      "card (open_ids g') = card (open_ids g) - 1" "tg_tasks g' \<noteq> []"
      using complete_one [OF Suc.prems(1,3) False] .
    then show ?thesis using Suc.IH [of g'] Suc.prems(4) by simp
  qed
qed

lemma card_open_ids: "card (open_ids g) \<le> length (tg_tasks g)"
proof -
  have "open_ids g \<subseteq> set (hm_keys (tg_tasks g))"
    by (auto simp: open_ids_def) (metis hm_get_None_iff option.distinct(1))
  then have "card (open_ids g) \<le> card (set (hm_keys (tg_tasks g)))" by (simp add: card_mono)
  also have "\<dots> \<le> length (hm_keys (tg_tasks g))" by (rule card_length)
  finally show ?thesis by (simp add: hm_keys_def)
qed

text \<open>Example data for the witnesses.\<close>

definition example_subtasks :: "subtask list" where
  "example_subtasks = [subtask_new ''1'' ''a'', with_dependency ''1'' (subtask_new ''2'' ''b'')]"

definition example_graph :: task_graph where
  "example_graph = \<lparr>tg_goal = ''g'', tg_tasks = hm_collect st_id example_subtasks, tg_order = [''1'', ''2'']\<rparr>"

lemma example_built: "task_graph_new (\<lambda>m. m) (\<lambda>xs. xs) ''g'' example_subtasks = Some (Inr example_graph)"
  by code_simp

lemma example_graph_inv: "graph_inv example_graph"
proof -
  have "set (task_edges (tg_tasks example_graph)) = {(''1'', ''2'')}" by code_simp
  then have "deps_acyclic (tg_tasks example_graph)" 
    by (simp add: deps_acyclic_edges acyclic_insert) (simp add: acyclic_def)
  moreover have "tasks_wf (tg_tasks example_graph)" by code_simp
  moreover have "deps_known (tg_tasks example_graph)" by code_simp
  moreover have "set (tg_order example_graph) = set (hm_keys (tg_tasks example_graph))" by code_simp
  ultimately show ?thesis by (simp add: graph_inv_def)
qed

text \<open>A linear chain has the edges from each step to the next.\<close>

lemma chain_ids: "st_id (chain_task i d) = nat_str (i + 1)"
  by (simp add: chain_task_def Let_def subtask_new_def)

lemma chain_deps: "st_dependencies (chain_task i d) = (if 0 < i then [nat_str i] else [])"
  by (simp add: chain_task_def Let_def subtask_new_def)

lemma chain_mem: "t \<in> set (create_linear_chain ds) \<longleftrightarrow> (\<exists>i < length ds. t = chain_task i (ds ! i))"
  by (force simp: create_linear_chain_def in_set_enumerate_eq)

lemma chain_id_mem: "k \<in> st_id ` set (create_linear_chain ds) \<longleftrightarrow> (\<exists>i < length ds. k = nat_str (i + 1))"
proof -
  have "k \<in> st_id ` set (create_linear_chain ds) \<longleftrightarrow> (\<exists>t. (\<exists>i < length ds. t = chain_task i (ds ! i)) \<and> k = st_id t)"
    by (simp add: image_iff Bex_def chain_mem)
  also have "\<dots> \<longleftrightarrow> (\<exists>i < length ds. k = st_id (chain_task i (ds ! i)))" by blast
  finally show ?thesis by (simp add: chain_ids)
qed

lemma chain_dep: "i < length ds \<Longrightarrow> d \<in> set (st_dependencies (chain_task i x)) \<Longrightarrow> d \<in> st_id ` set (create_linear_chain ds)"
  by (auto simp: chain_deps chain_id_mem split: if_splits intro!: exI [of _ "i - 1"])

lemma chain_values:
  assumes "hash_order hash" "t \<in> set (hm_values (hash (hm_collect st_id (create_linear_chain ds))))"
  shows "\<exists>i < length ds. t = chain_task i (ds ! i)"
proof -
  have "mset (hash (hm_collect st_id (create_linear_chain ds))) = mset (hm_collect st_id (create_linear_chain ds))"
    using assms(1) by (simp add: hash_order_def)
  then have "t \<in> set (hm_values (hm_collect st_id (create_linear_chain ds)))"
    using assms(2) by (metis hm_values_def mset_map set_mset_mset)
  then show ?thesis by (auto simp: hm_values_def chain_mem dest: hm_collect_key)
qed

lemma chain_known_acyclic:
  assumes "hash_order hash"
  shows "deps_known (hash (hm_collect st_id (create_linear_chain ds)))"
    "deps_acyclic (hash (hm_collect st_id (create_linear_chain ds)))"
proof -
  show "deps_known (hash (hm_collect st_id (create_linear_chain ds)))"
    unfolding deps_known_def
  proof (intro ballI subsetI)
    fix t d assume t: "t \<in> set (hm_values (hash (hm_collect st_id (create_linear_chain ds))))"
      and d: "d \<in> set (st_dependencies t)"
    obtain i where "i < length ds" "t = chain_task i (ds ! i)" using chain_values [OF assms t] by blast
    then show "d \<in> set (hm_keys (hash (hm_collect st_id (create_linear_chain ds))))"
      using chain_dep [of i ds d "ds ! i"] d hash_order_wf(2) [OF assms] by blast
  qed
  have val: "digits_val 0 (nat_str n) = Some n" for n
    using digits_val_nat_str_acc [of n "[]"] by (simp add: nat_str_def)
  have step: "\<exists>i. d = nat_str i \<and> k = nat_str (i + 1)"
    if dk: "(d, k) \<in> {(d, st_id t) | d t. t \<in> set (hm_values (hash (hm_collect st_id (create_linear_chain ds))))
      \<and> d \<in> set (st_dependencies t)}" for d k
  proof -
    obtain t where t: "t \<in> set (hm_values (hash (hm_collect st_id (create_linear_chain ds))))"
      "d \<in> set (st_dependencies t)" "k = st_id t" using dk by blast
    obtain i where "t = chain_task i (ds ! i)" using chain_values [OF assms t(1)] by blast
    with t(2,3) have "d = nat_str i" "k = nat_str (i + 1)"
      by (simp_all add: chain_ids chain_deps split: if_splits)
    then show ?thesis by blast
  qed
  show "deps_acyclic (hash (hm_collect st_id (create_linear_chain ds)))"
    unfolding deps_acyclic_def
  proof (rule acyclicI_order [where f = "\<lambda>s. - int (the (digits_val 0 s))"])
    fix d k assume "(d, k) \<in> {(d, st_id t) | d t. t \<in> set (hm_values (hash (hm_collect st_id (create_linear_chain ds))))
      \<and> d \<in> set (st_dependencies t)}"
    from step [OF this] obtain i where "d = nat_str i" "k = nat_str (i + 1)" by blast
    then show "- int (the (digits_val 0 k)) < - int (the (digits_val 0 d))" by (simp add: val)
  qed
qed

section \<open>Properties\<close>

text \<open>C20: Building a graph never panics; it succeeds exactly when every dependency names a
  sub-task and the dependencies have no cycle, whatever the hash maps' iteration orders,
  and then the graph is well-formed.\<close>

theorem task_graph_new_correct:
  assumes "hash_order hash" "reorders iter"
  shows "task_graph_new hash iter goal sts \<noteq> None
    \<and> ((\<exists>g. task_graph_new hash iter goal sts = Some (Inr g)) \<longleftrightarrow>
         deps_known (hash (hm_collect st_id sts)) \<and> deps_acyclic (hash (hm_collect st_id sts)))
    \<and> (\<forall>g. task_graph_new hash iter goal sts = Some (Inr g) \<longrightarrow> graph_inv g)"
proof -
  let ?ts = "hash (hm_collect st_id sts)"
  note wf = hash_order_wf [OF assms(1), of sts]
  obtain vis where k: "kahn iter (\<lambda>nexts. nexts) (hm_keys ?ts) (task_edges ?ts) = Some vis"
    and len: "deps_known ?ts \<Longrightarrow> length vis = length ?ts \<longleftrightarrow> deps_acyclic ?ts"
    using kahn_tasks [OF wf(1) assms(2) reorders_id] by metis
  show ?thesis
  proof (cases "deps_known ?ts")
    case True
    then have "unknown_dependency ?ts = None" by (simp add: unknown_dependency_None)
    then show ?thesis using k len [OF True] wf True
      by (auto simp: task_graph_new_def detect_cycle_def Let_def graph_inv_def)
  next
    case False
    then obtain d t where "unknown_dependency ?ts = Some (d, t)"
      using unknown_dependency_None by (metis not_None_eq surj_pair)
    then show ?thesis using False by (simp add: task_graph_new_def Let_def)
  qed
qed

theorem task_graph_new_correct_witness: "graph_inv example_graph"
  using task_graph_new_correct [of "\<lambda>m. m" "\<lambda>xs. xs" "''g''" example_subtasks] example_built
  by (simp add: hash_order_def)

text \<open>The topological order of a well-formed graph lists every sub-task once, each after
  all its dependencies.\<close>

theorem topological_order_correct:
  assumes "graph_inv g"
  shows "\<exists>order. topological_order g = Some (Inr order) \<and> distinct order
    \<and> set order = set (hm_keys (tg_tasks g))
    \<and> (\<forall>i < length order. \<forall>t. hm_get (tg_tasks g) (order ! i) = Some t
          \<longrightarrow> set (st_dependencies t) \<subseteq> set (take i order))"
proof -
  let ?ts = "tg_tasks g"
  have g: "tasks_wf ?ts" "deps_known ?ts" "deps_acyclic ?ts"
    using assms by (simp_all add: graph_inv_def)
  obtain vis where k: "kahn sort sort (hm_keys ?ts) (task_edges ?ts) = Some vis" "distinct vis"
      "topo (task_edges ?ts) vis" "length vis = length ?ts" "set vis = set (hm_keys ?ts)"
    using kahn_tasks [OF g(1) reorders_sort reorders_sort] g(2,3) by metis
  have "set (st_dependencies t) \<subseteq> set (take i vis)"
    if "i < length vis" "hm_get ?ts (vis ! i) = Some t" for i t
  proof
    fix d assume "d \<in> set (st_dependencies t)"
    with tasks_wf_get [OF g(1) that(2)] have "(d, vis ! i) \<in> set (task_edges ?ts)"
      unfolding set_task_edges using \<open>d \<in> set (st_dependencies t)\<close> by force
    with k(3) that(1) show "d \<in> set (take i vis)" by (fastforce simp: topo_def)
  qed
  with k show ?thesis by (auto simp: topological_order_def topological_sort_def)
qed

theorem topological_order_correct_witness:
  "\<exists>order. topological_order example_graph = Some (Inr order) \<and> set order = {''1'', ''2''}"
proof -
  have "set (hm_keys (tg_tasks example_graph)) = {''1'', ''2''}" by code_simp
  with topological_order_correct [OF example_graph_inv] show ?thesis by metis
qed

text \<open>Marking a sub-task running, completed or failed keeps a graph well-formed.\<close>

theorem mark_preserves_inv:
  assumes "graph_inv g"
    and "mark_running i g = Inr g' \<or> mark_completed i r g = Inr g' \<or> mark_failed i r g = Inr g'"
  shows "graph_inv g'"
  using assms(2) graph_inv_update [OF assms(1)]
  unfolding mark_running_def mark_completed_def mark_failed_def by (elim disjE) force+

theorem mark_preserves_inv_witness:
  "\<exists>g'. mark_running ''1'' example_graph = Inr g' \<and> graph_inv g'"
proof -
  have "\<exists>g'. mark_running ''1'' example_graph = Inr g'" by (rule exI) code_simp
  then obtain g' where "mark_running ''1'' example_graph = Inr g'" by blast
  with mark_preserves_inv [OF example_graph_inv, of "''1''" g'] show ?thesis by blast
qed

text \<open>No deadlock: in a well-formed graph where nothing runs and nothing failed, some
  sub-task is ready as long as one is not completed.\<close>

theorem ready_tasks_progress:
  assumes "graph_inv g"
    and "\<forall>t \<in> set (hm_values (tg_tasks g)). st_status t = Pending \<or> st_status t = Completed"
    and "tg_tasks g \<noteq> []" "\<not> is_complete g"
  shows "\<exists>t \<in> set (ready_tasks g). st_status t = Pending
    \<and> (\<forall>d \<in> set (st_dependencies t). \<exists>u. hm_get (tg_tasks g) d = Some u \<and> st_status u = Completed)"
proof -
  obtain t where "t \<in> set (hm_values (tg_tasks g))" "st_status t \<noteq> Completed"
    using assms(3,4) by (auto simp: is_complete_def list_all_iff)
  then have "ready_tasks g \<noteq> []" by (rule ready_below [OF assms(1,2)])
  then obtain u where "u \<in> set (ready_tasks g)" by (cases "ready_tasks g") auto
  then show ?thesis by (auto simp: ready_tasks_iff deps_met_iff)
qed

theorem ready_tasks_progress_witness: "ready_tasks example_graph \<noteq> []"
proof -
  have "\<forall>t \<in> set (hm_values (tg_tasks example_graph)). st_status t = Pending \<or> st_status t = Completed"
    by code_simp
  moreover have "tg_tasks example_graph \<noteq> []" "\<not> is_complete example_graph" by code_simp+
  ultimately show ?thesis using ready_tasks_progress [OF example_graph_inv] by fastforce
qed



text \<open>The linear chain of any descriptions is accepted as a task graph.\<close>

theorem linear_chain_accepted:
  assumes "hash_order hash" "reorders iter"
  shows "\<exists>g. task_graph_new hash iter goal (create_linear_chain ds) = Some (Inr g) \<and> graph_inv g"
proof -
  let ?ts = "hash (hm_collect st_id (create_linear_chain ds))"
  note ka = chain_known_acyclic [OF assms(1), of ds] and wf = hash_order_wf [OF assms(1)]
  obtain vis where "kahn iter (\<lambda>nexts. nexts) (hm_keys ?ts) (task_edges ?ts) = Some vis" "length vis = length ?ts"
    using kahn_tasks [OF wf(1) assms(2) reorders_id] ka by metis
  moreover have "unknown_dependency ?ts = None" using ka(1) by (simp add: unknown_dependency_None)
  ultimately show ?thesis using ka wf
    by (simp add: task_graph_new_def detect_cycle_def Let_def graph_inv_def)
qed

theorem linear_chain_accepted_witness:
  "\<exists>g. task_graph_new (\<lambda>m. m) (\<lambda>xs. xs) ''g'' (create_linear_chain [''a'', ''b'', ''c'']) = Some (Inr g) \<and> graph_inv g"
  by (rule linear_chain_accepted) (simp_all add: hash_order_def)

text \<open>Parsing always yields at least one sub-task; a response without a numbered line
  falls back to the goal itself.\<close>

theorem parse_decomposition_nonempty:
  "\<exists>ts. parse_decomposition response goal = Inr ts \<and> ts \<noteq> []
    \<and> ((\<forall>l \<in> set (str_lines response). parse_task_line l = None) \<longrightarrow> ts = [subtask_new ''1'' goal])"
  by (auto simp: parse_decomposition_def Let_def List.map_filter_def filter_empty_conv)

theorem parse_decomposition_nonempty_witness:
  "parse_decomposition ''hi'' ''goal'' = Inr [subtask_new ''1'' ''goal'']"
proof -
  have "\<forall>l \<in> set (str_lines ''hi''). parse_task_line l = None" by code_simp
  with parse_decomposition_nonempty [of "''hi''" "''goal''"] show ?thesis by blast
qed

end
