(* ===== verification/Paths.thy ===== *)
theory Paths
  imports Rust_Str
begin

text \<open>
  Unix paths as \<open>std::path\<close> sees them: a path is the list of its components. Repeated
  slashes and inner dots vanish, a leading dot stays. \<open>join\<close> replaces the base by an
  absolute path, and \<open>starts_with\<close> compares whole components.
\<close>

datatype path_component = RootDir | CurDir | ParentDir | Normal string

type_synonym path = "path_component list"

definition body_components :: "string list \<Rightarrow> path" where
  "body_components ps = List.map_filter (\<lambda>p.
     if p = ''.'' then None else if p = ''..'' then Some ParentDir else Some (Normal p)) ps"

definition components :: "string \<Rightarrow> path" where
  "components s =
     (let ps = filter (\<lambda>p. p \<noteq> []) (split_on (\<lambda>c. c = CHR ''/'') s)
      in if starts_with ''/'' s then RootDir # body_components ps
         else case ps of
             [] \<Rightarrow> []
           | q # qs \<Rightarrow> if q = ''.'' then CurDir # body_components qs else body_components ps)"

definition path_absolute :: "path \<Rightarrow> bool" where
  "path_absolute p \<longleftrightarrow> (case p of RootDir # _ \<Rightarrow> True | _ \<Rightarrow> False)"

definition path_join :: "path \<Rightarrow> path \<Rightarrow> path" where
  "path_join base p =
     (if path_absolute p then p else if base = [] then p
      else base @ filter (\<lambda>c. c \<noteq> CurDir) p)"

definition path_starts_with :: "path \<Rightarrow> path \<Rightarrow> bool" where
  "path_starts_with p base = prefix base p"

text \<open>
  The meaning of a path without symbolic links: the names walked down from the root.
  The parent of the root is the root.
\<close>

fun walk :: "string list \<Rightarrow> path \<Rightarrow> string list" where
  "walk at [] = at"
| "walk at (RootDir # p) = walk [] p"
| "walk at (CurDir # p) = walk at p"
| "walk at (ParentDir # p) = walk (butlast at) p"
| "walk at (Normal n # p) = walk (at @ [n]) p"

lemma walk_append: "walk at (p @ q) = walk (walk at p) q"
  by (induction at p rule: walk.induct) auto

lemma walk_normals: "walk at (map Normal ns) = at @ ns"
  by (induction ns arbitrary: "at") auto

lemma prefix_walk_normals: "(\<forall>c \<in> set p. \<exists>n. c = Normal n) \<Longrightarrow> prefix at (walk at p)"
proof (induction at p rule: walk.induct)
  case (5 "at" n p)
  then have "prefix (at @ [n]) (walk (at @ [n]) p)" by auto
  then show ?case by (auto dest: append_prefixD)
qed auto

end
