(* ===== verification/Union_Find.thy ===== *)
theory Union_Find
  imports Prelude "HOL-Library.Monad_Syntax"
begin

text \<open>
  The union-find that \<open>detect_dependencies\<close> of \<open>skyclaw-agent/src/executor.rs\<close> declares
  locally: a parent vector, \<open>find\<close> with path compression and \<open>union\<close>. \<open>find\<close> recurses
  along parent pointers, so it is a partial function: \<^const>\<open>None\<close> would be an endless
  recursion or an index out of range. On the vectors the code builds it always returns,
  and it computes the representative of the class.
\<close>

partial_function (option) uf_find :: "nat list \<Rightarrow> nat \<Rightarrow> (nat list \<times> nat) option" where
  "uf_find parent x =
     (if length parent \<le> x then None
      else if parent ! x \<noteq> x
      then do { (parent', r) \<leftarrow> uf_find parent (parent ! x); Some (parent'[x := r], r) }
      else Some (parent, x))"

declare uf_find.simps [code]

lemma uf_find_root: "x < length p \<Longrightarrow> p ! x = x \<Longrightarrow> uf_find p x = Some (p, x)"
  by (subst uf_find.simps) simp

lemma uf_find_step: "x < length p \<Longrightarrow> p ! x \<noteq> x \<Longrightarrow>
    uf_find p x = do { (p', r) \<leftarrow> uf_find p (p ! x); Some (p'[x := r], r) }"
  by (subst uf_find.simps) simp

definition uf_union :: "nat list \<Rightarrow> nat \<Rightarrow> nat \<Rightarrow> nat list option" where
  "uf_union parent a b = do {
     (parent, ra) \<leftarrow> uf_find parent a;
     (parent, rb) \<leftarrow> uf_find parent b;
     Some (if ra \<noteq> rb then parent[ra := rb] else parent) }"

section \<open>Representatives\<close>

inductive rep_of :: "nat list \<Rightarrow> nat \<Rightarrow> nat \<Rightarrow> bool" for p where
  root: "x < length p \<Longrightarrow> p ! x = x \<Longrightarrow> rep_of p x x"
| step: "x < length p \<Longrightarrow> p ! x \<noteq> x \<Longrightarrow> rep_of p (p ! x) r \<Longrightarrow> rep_of p x r"

inductive_cases rep_of_cases: "rep_of p x r"

lemma rep_of_rootD: "rep_of p x s \<Longrightarrow> p ! x = x \<Longrightarrow> s = x"
  by (erule rep_of_cases) auto

lemma rep_of_stepD: "rep_of p x s \<Longrightarrow> p ! x \<noteq> x \<Longrightarrow> rep_of p (p ! x) s"
  by (erule rep_of_cases) auto

text \<open>Every node has a representative: no cycle and no index out of range.\<close>

definition uf_ok :: "nat list \<Rightarrow> bool" where
  "uf_ok p \<longleftrightarrow> (\<forall>x < length p. \<exists>r. rep_of p x r)"

lemma rep_of_unique: "rep_of p x r \<Longrightarrow> rep_of p x s \<Longrightarrow> r = s"
proof (induction arbitrary: s rule: rep_of.induct)
  case (root x)
  then show ?case using rep_of_rootD by metis
next
  case (step x r)
  then show ?case using rep_of_stepD by metis
qed

lemma rep_of_bounds: "rep_of p x r \<Longrightarrow> x < length p \<and> r < length p \<and> p ! r = r"
  by (induction rule: rep_of.induct) auto

lemma rep_of_root: "rep_of p x r \<Longrightarrow> rep_of p r r"
  using rep_of_bounds rep_of.root by blast

lemma uf_ok_init: "uf_ok [0..<n]"
  unfolding uf_ok_def using rep_of.root [of _ "[0..<n]"] by auto

lemma rep_of_init: "rep_of [0..<n] x r \<longleftrightarrow> x = r \<and> x < n"
proof
  assume r: "rep_of [0..<n] x r"
  then have "x < n" using rep_of_bounds by fastforce
  then show "x = r \<and> x < n" using rep_of_rootD [OF r] by simp
qed (auto intro: rep_of.root)

text \<open>Pointing a node at its own representative changes no representative.\<close>

lemma rep_of_compress:
  assumes "rep_of p x r" "rep_of p y s"
  shows "rep_of (p[x := r]) y s"
  using assms(2)
proof (induction rule: rep_of.induct)
  case (root y)
  show ?case
  proof (cases "y = x")
    case True
    then have "r = y" using assms(1) root rep_of_unique rep_of.root by metis
    then show ?thesis using root True by (intro rep_of.root) auto
  next
    case False
    then show ?thesis using root by (intro rep_of.root) auto
  qed
next
  case (step y s)
  show ?case
  proof (cases "y = x")
    case True
    have "s = r" using assms(1) step True rep_of.step rep_of_unique by metis
    have r: "r < length p" "p ! r = r" using rep_of_bounds [OF assms(1)] by auto
    then have "r \<noteq> x" using step True by auto
    then have "rep_of (p[x := r]) r r" using r by (intro rep_of.root) auto
    then have "rep_of (p[x := r]) (p[x := r] ! x) r" using step True by simp
    then have "rep_of (p[x := r]) x r"
      by (rule rep_of.step [rotated 2]) (use step True \<open>r \<noteq> x\<close> in simp_all)
    then show ?thesis using True \<open>s = r\<close> by simp
  next
    case False
    then show ?thesis using step by (simp add: rep_of.step)
  qed
qed

lemma rep_of_compress_iff:
  assumes "uf_ok p" "rep_of p x r"
  shows "rep_of (p[x := r]) y s \<longleftrightarrow> rep_of p y s"
proof
  assume s: "rep_of (p[x := r]) y s"
  then have "y < length p" using rep_of_bounds by fastforce
  then obtain t where "rep_of p y t" using assms(1) unfolding uf_ok_def by blast
  with s show "rep_of p y s" using rep_of_compress [OF assms(2)] rep_of_unique by metis
qed (rule rep_of_compress [OF assms(2)])

lemma uf_ok_compress: "uf_ok p \<Longrightarrow> rep_of p x r \<Longrightarrow> uf_ok (p[x := r])"
  using rep_of_compress by (fastforce simp: uf_ok_def)

text \<open>\<open>find\<close> returns, with the representative, and keeps every class.\<close>

lemma uf_find_correct:
  assumes "uf_ok p" "rep_of p x r"
  shows "\<exists>p'. uf_find p x = Some (p', r) \<and> uf_ok p' \<and> length p' = length p
    \<and> (\<forall>y s. rep_of p' y s \<longleftrightarrow> rep_of p y s)"
  using assms(2)
proof (induction rule: rep_of.induct)
  case (root x)
  then show ?case using assms(1) by (subst uf_find.simps) auto
next
  case (step x r)
  then obtain p' where p': "uf_find p (p ! x) = Some (p', r)" "uf_ok p'" "length p' = length p"
    "\<And>y s. rep_of p' y s \<longleftrightarrow> rep_of p y s" by blast
  have "rep_of p' x r" using p'(4) step rep_of.step by metis
  then have "uf_ok (p'[x := r])" "\<And>y s. rep_of (p'[x := r]) y s \<longleftrightarrow> rep_of p y s"
    using uf_ok_compress [OF p'(2)] rep_of_compress_iff [OF p'(2)] p'(4) by blast+
  then show ?case using step p' by (subst uf_find.simps) auto
qed

text \<open>Joining two roots redirects one class to the other.\<close>

lemma rep_of_link:
  assumes "uf_ok p" "rep_of p a ra" "rep_of p b rb" "ra \<noteq> rb" "rep_of p y s"
  shows "rep_of (p[ra := rb]) y (if s = ra then rb else s)"
proof -
  have ra: "ra < length p" "p ! ra = ra" and rb: "rb < length p" "p ! rb = rb"
    using rep_of_bounds assms(2,3) by blast+
  have rb': "rep_of (p[ra := rb]) rb rb" using rb assms(4) by (intro rep_of.root) auto
  show ?thesis using assms(5)
  proof (induction rule: rep_of.induct)
    case (root y)
    show ?case
    proof (cases "y = ra")
      case True
      have "rep_of (p[ra := rb]) ra rb" by (rule rep_of.step) (use rb' assms(4) ra in simp_all)
      then show ?thesis using True by simp
    next
      case False
      then show ?thesis using root by (simp add: rep_of.root)
    qed
  next
    case (step y s)
    then have "y \<noteq> ra" using ra by auto
    then show ?case using step by (simp add: rep_of.step)
  qed
qed

lemma uf_union_correct:
  assumes "uf_ok p" "a < length p" "b < length p"
  shows "\<exists>p' ra rb. uf_union p a b = Some p' \<and> uf_ok p' \<and> length p' = length p
    \<and> rep_of p a ra \<and> rep_of p b rb
    \<and> (\<forall>y s. rep_of p y s \<longrightarrow> rep_of p' y (if s = ra then rb else s))"
proof -
  obtain ra rb where r: "rep_of p a ra" "rep_of p b rb" using assms unfolding uf_ok_def by blast
  obtain p1 where p1: "uf_find p a = Some (p1, ra)" "uf_ok p1" "length p1 = length p"
    "\<And>y s. rep_of p1 y s \<longleftrightarrow> rep_of p y s" using uf_find_correct [OF assms(1) r(1)] by blast
  have "rep_of p1 b rb" using r p1 by blast
  from uf_find_correct [OF p1(2) this] obtain p2 where p2: "uf_find p1 b = Some (p2, rb)" "uf_ok p2"
    "length p2 = length p" "\<And>y s. rep_of p2 y s \<longleftrightarrow> rep_of p y s" using p1 by auto
  show ?thesis
  proof (cases "ra = rb")
    case True
    then show ?thesis using p1 p2 r by (auto simp: uf_union_def)
  next
    case False
    have r2: "rep_of p2 a ra" "rep_of p2 b rb" using r p2(4) by auto
    note link = rep_of_link [OF p2(2) r2 False]
    have "uf_ok (p2[ra := rb])"
      using p2(2) link unfolding uf_ok_def by (metis length_list_update)
    moreover have "uf_union p a b = Some (p2[ra := rb])"
      using p1 p2 False by (simp add: uf_union_def)
    moreover have "rep_of (p2[ra := rb]) y (if s = ra then rb else s)" if "rep_of p y s" for y s
      using link p2(4) that by blast
    ultimately show ?thesis using p2(3) r by (metis length_list_update)
  qed
qed

section \<open>Classes\<close>

definition same_class :: "nat list \<Rightarrow> nat \<Rightarrow> nat \<Rightarrow> bool" where
  "same_class p x y \<longleftrightarrow> (\<exists>r. rep_of p x r \<and> rep_of p y r)"

lemma same_class_rep: "rep_of p x s \<Longrightarrow> rep_of p y t \<Longrightarrow> same_class p x y \<longleftrightarrow> s = t"
  unfolding same_class_def using rep_of_unique by blast

text \<open>A vector represents a relation: its classes are the connected components.\<close>

definition represents :: "nat list \<Rightarrow> (nat \<times> nat) set \<Rightarrow> bool" where
  "represents p R \<longleftrightarrow> uf_ok p
     \<and> (\<forall>x < length p. \<forall>y < length p. same_class p x y \<longleftrightarrow> (x, y) \<in> (R \<union> R\<inverse>)\<^sup>*)"

lemma represents_init: "represents [0..<n] {}"
  by (auto simp: represents_def uf_ok_init same_class_def rep_of_init)

lemma components_insert:
  "(x, y) \<in> (insert (a, b) R \<union> (insert (a, b) R)\<inverse>)\<^sup>* \<longleftrightarrow>
     (x, y) \<in> (R \<union> R\<inverse>)\<^sup>* \<or> (x, a) \<in> (R \<union> R\<inverse>)\<^sup>* \<and> (b, y) \<in> (R \<union> R\<inverse>)\<^sup>*
     \<or> (x, b) \<in> (R \<union> R\<inverse>)\<^sup>* \<and> (a, y) \<in> (R \<union> R\<inverse>)\<^sup>*" (is "_ \<longleftrightarrow> ?R")
proof
  let ?S = "R \<union> R\<inverse>" and ?T = "insert (a, b) R \<union> (insert (a, b) R)\<inverse>"
  have mono: "?S\<^sup>* \<subseteq> ?T\<^sup>*" by (rule rtrancl_mono) blast
  have ab: "(a, b) \<in> ?T\<^sup>*" "(b, a) \<in> ?T\<^sup>*" by (rule r_into_rtrancl, simp)+
  show "?R \<Longrightarrow> (x, y) \<in> ?T\<^sup>*"
    using mono ab by (meson rtrancl_trans subsetD)
  assume "(x, y) \<in> ?T\<^sup>*"
  then show ?R
  proof (induction rule: rtrancl_induct)
    case (step y z)
    then consider "(y, z) \<in> ?S" | "y = a" "z = b" | "y = b" "z = a" by auto
    then show ?case
      using step.IH by cases (meson rtrancl.rtrancl_into_rtrancl, auto)
  qed simp
qed

lemma represents_union:
  assumes "represents p R" "a < length p" "b < length p"
  shows "\<exists>p'. uf_union p a b = Some p' \<and> length p' = length p \<and> represents p' (insert (a, b) R)"
proof -
  have ok: "uf_ok p" using assms(1) by (simp add: represents_def)
  obtain p' ra rb where p': "uf_union p a b = Some p'" "uf_ok p'" "length p' = length p"
    and r: "rep_of p a ra" "rep_of p b rb"
    and link: "\<And>y s. rep_of p y s \<Longrightarrow> rep_of p' y (if s = ra then rb else s)"
    using uf_union_correct [OF ok assms(2,3)] by blast
  have "same_class p' x y \<longleftrightarrow> same_class p x y
      \<or> same_class p x a \<and> same_class p b y \<or> same_class p x b \<and> same_class p a y"
    if xy: "x < length p" "y < length p" for x y
  proof -
    obtain s t where st: "rep_of p x s" "rep_of p y t" using ok xy unfolding uf_ok_def by blast
    have "same_class p' x y \<longleftrightarrow> (if s = ra then rb else s) = (if t = ra then rb else t)"
      by (rule same_class_rep [OF link [OF st(1)] link [OF st(2)]])
    moreover note same_class_rep [OF st] same_class_rep [OF st(1) r(1)] same_class_rep [OF r(2) st(2)]
      same_class_rep [OF st(1) r(2)] same_class_rep [OF r(1) st(2)]
    ultimately show ?thesis by auto
  qed
  then have "represents p' (insert (a, b) R)"
    using assms p'(2,3) unfolding represents_def components_insert by simp
  then show ?thesis using p' by blast
qed

end
