(* ===== verification/Tool_Executor.thy ===== *)
theory Tool_Executor
  imports Skyclaw_Types Paths Union_Find "HOL-Library.Multiset"
begin

text \<open>
  The tool executor (\<open>skyclaw-agent/src/executor.rs\<close>): validation of a call's arguments
  and of a tool's declarations against the session's workspace, the detection of
  dependent calls, and the parallel execution of independent groups. The file system
  enters as \<open>canon\<close>, the function \<open>canonicalize\<close> computes in a state \<open>'w\<close> of the world:
  \<^const>\<open>None\<close> for a path it cannot resolve. A tool is its name, its declarations and what it
  returns and does to the world; \<^const>\<open>None\<close> for an output is a panic.
\<close>

section \<open>Calls and tools\<close>

record tool_call =
  call_id :: string
  call_name :: string
  call_arguments :: json

record tool_call_result =
  res_id :: string
  res_output :: "tool_output result"

type_synonym 'w effect = "'w \<Rightarrow> tool_output result option \<times> 'w"

record 'w tool =
  tool_name :: string
  tool_declarations_of :: tool_declarations
  tool_execute :: "tool_input \<Rightarrow> tool_context \<Rightarrow> 'w effect"

type_synonym canonicalize = "path \<Rightarrow> path option"

definition path_keys :: "string list" where
  "path_keys = [''path'', ''file'', ''file_path'', ''directory'', ''dir'', ''target'',
     ''destination'', ''src'', ''dest'']"

section \<open>Sandbox validation\<close>

text \<open>\<open>parts\<close> is kept with its last component first.\<close>

definition lexical_step :: "path \<Rightarrow> path_component \<Rightarrow> path" where
  "lexical_step parts c = (case c of
      ParentDir \<Rightarrow> (case parts of Normal _ # ps \<Rightarrow> ps | _ \<Rightarrow> ParentDir # parts)
    | CurDir \<Rightarrow> parts
    | _ \<Rightarrow> c # parts)"

definition lexical_normalize :: "path \<Rightarrow> path" where
  "lexical_normalize p = rev (foldl lexical_step [] p)"

definition workspace_canonical :: "canonicalize \<Rightarrow> session_context \<Rightarrow> path" where
  "workspace_canonical canon session =
     (let w = components (workspace_path session)
      in case canon w of Some c \<Rightarrow> c | None \<Rightarrow> w)"

definition abs_path :: "session_context \<Rightarrow> string \<Rightarrow> path" where
  "abs_path session path_str =
     (let p = components path_str
      in if path_absolute p then p else path_join (components (workspace_path session)) p)"

definition validate_path_in_workspace :: "canonicalize \<Rightarrow> string \<Rightarrow> string \<Rightarrow> session_context \<Rightarrow> unit result" where
  "validate_path_in_workspace canon name path_str session =
     (let ap = abs_path session path_str;
          w = workspace_canonical canon session
      in case canon ap of
           None \<Rightarrow>
             if \<not> path_starts_with (lexical_normalize ap) w
             then Inl (SandboxViolation (''Tool '' @ quoted name @ '' argument path '' @ quoted path_str
                    @ '' escapes workspace '' @ quoted (workspace_path session)))
             else Inr ()
         | Some p \<Rightarrow>
             if \<not> path_starts_with p w
             then Inl (SandboxViolation (''Tool '' @ quoted name @ '' argument path '' @ quoted path_str
                    @ '' is outside workspace '' @ quoted (workspace_path session)))
             else Inr ())"

definition blocked_shell_patterns :: "string list" where
  "blocked_shell_patterns = [''rm -rf /'', ''mkfs.'', ''dd if='', ''> /dev/sd'', ''chmod -R 777 /'',
     '':(){ :|:'', ''curl | sh'', ''curl | bash'', ''wget | sh'', ''wget | bash'']"

definition validate_shell_command :: "string \<Rightarrow> string \<Rightarrow> unit result" where
  "validate_shell_command name command =
     (let lower = to_lowercase command
      in case List.find (\<lambda>p. str_contains p lower) blocked_shell_patterns of
           Some p \<Rightarrow> Inl (SandboxViolation (''Tool '' @ quoted name @ '' command contains blocked pattern: '' @ quoted p))
         | None \<Rightarrow> Inr ())"

text \<open>Run a check for each element, stopping at the first error.\<close>

fun for_each :: "('a \<Rightarrow> unit result) \<Rightarrow> 'a list \<Rightarrow> unit result" where
  "for_each f [] = Inr ()"
| "for_each f (x # xs) = bind_result (f x) (\<lambda>_. for_each f xs)"

definition string_argument :: "json \<Rightarrow> string \<Rightarrow> string option" where
  "string_argument arguments key = Option.bind (json_get arguments key) json_str"

definition validate_arguments :: "canonicalize \<Rightarrow> string \<Rightarrow> json \<Rightarrow> session_context \<Rightarrow> unit result" where
  "validate_arguments canon name arguments session =
     bind_result (for_each (\<lambda>key. case string_argument arguments key of
          None \<Rightarrow> Inr ()
        | Some path_str \<Rightarrow> validate_path_in_workspace canon name path_str session) path_keys)
     (\<lambda>_. for_each (\<lambda>key. case string_argument arguments key of
          None \<Rightarrow> Inr ()
        | Some cmd \<Rightarrow> validate_shell_command name cmd) [''command'', ''cmd''])"

fun declared_path :: "path_access \<Rightarrow> string" where
  "declared_path (Read p) = p"
| "declared_path (Write p) = p"
| "declared_path (ReadWrite p) = p"

definition validate_sandbox :: "canonicalize \<Rightarrow> 'w tool \<Rightarrow> session_context \<Rightarrow> unit result" where
  "validate_sandbox canon t session =
     for_each (\<lambda>pa.
       let path_str = declared_path pa;
           ap = abs_path session path_str;
           p = (case canon ap of Some c \<Rightarrow> c | None \<Rightarrow> ap)
       in if \<not> path_starts_with p (workspace_canonical canon session)
          then Inl (SandboxViolation (''Tool '' @ quoted (tool_name t) @ '' declares access to '' @ quoted path_str
                 @ '' which is outside workspace '' @ quoted (workspace_path session)))
          else Inr ()) (file_access (tool_declarations_of t))"

definition execute_tool ::
    "('w \<Rightarrow> canonicalize) \<Rightarrow> string \<Rightarrow> json \<Rightarrow> 'w tool list \<Rightarrow> session_context \<Rightarrow> 'w effect" where
  "execute_tool canon name arguments tools session w =
     (case List.find (\<lambda>t. tool_name t = name) tools of
        None \<Rightarrow> (Some (Inl (Tool (''Unknown tool: '' @ name))), w)
      | Some t \<Rightarrow>
          (case validate_sandbox (canon w) t session of
             Inl e \<Rightarrow> (Some (Inl e), w)
           | Inr _ \<Rightarrow>
               (case validate_arguments (canon w) name arguments session of
                  Inl e \<Rightarrow> (Some (Inl e), w)
                | Inr _ \<Rightarrow>
                    tool_execute t \<lparr>ti_name = name, ti_arguments = arguments\<rparr>
                      \<lparr>tc_workspace_path = workspace_path session, tc_session_id = session_id session,
                       tc_chat_id = sess_chat_id session\<rparr> w)))"

section \<open>Dependency detection\<close>

definition extract_file_paths :: "json \<Rightarrow> string list" where
  "extract_file_paths arguments = List.map_filter (string_argument arguments) path_keys"

definition extract_write_paths :: "string \<Rightarrow> json \<Rightarrow> string list" where
  "extract_write_paths name arguments =
     (if name = ''file_read'' then [] else extract_file_paths arguments)"

definition is_read_only_tool :: "string \<Rightarrow> bool" where
  "is_read_only_tool name \<longleftrightarrow> name \<in> {''file_read'', ''file_list'', ''file_search'', ''browser''}"

definition are_dependent :: "tool_call \<Rightarrow> tool_call \<Rightarrow> bool" where
  "are_dependent a b =
     (if call_name a = ''shell'' \<and> call_name b = ''shell'' then True
      else
        let a_paths = extract_file_paths (call_arguments a);
            b_paths = extract_file_paths (call_arguments b)
        in if a_paths = [] \<and> b_paths = []
           then call_name a = call_name b \<and> \<not> is_read_only_tool (call_name a)
           else
             let a_writes = extract_write_paths (call_name a) (call_arguments a);
                 b_writes = extract_write_paths (call_name b) (call_arguments b);
                 overlapping = filter (\<lambda>p. p \<in> set b_paths) a_paths
             in list_ex (\<lambda>p. p \<in> set a_writes \<or> p \<in> set b_writes) overlapping)"

definition index_pairs :: "nat \<Rightarrow> (nat \<times> nat) list" where
  "index_pairs n = concat (map (\<lambda>i. map (\<lambda>j. (i, j)) [i + 1..<n]) [0..<n])"

fun union_dependent :: "tool_call list \<Rightarrow> (nat \<times> nat) list \<Rightarrow> nat list \<Rightarrow> nat list option" where
  "union_dependent calls [] parent = Some parent"
| "union_dependent calls ((i, j) # ps) parent =
     (if are_dependent (calls ! i) (calls ! j)
      then do { parent' \<leftarrow> uf_union parent i j; union_dependent calls ps parent' }
      else union_dependent calls ps parent)"

text \<open>\<open>BTreeMap\<close>: the groups by root, in the order of the roots.\<close>

fun push_group :: "nat \<Rightarrow> nat \<Rightarrow> (nat \<times> nat list) list \<Rightarrow> (nat \<times> nat list) list" where
  "push_group root i [] = [(root, [i])]"
| "push_group root i ((k, xs) # m) =
     (if root < k then (root, [i]) # (k, xs) # m
      else if root = k then (k, xs @ [i]) # m
      else (k, xs) # push_group root i m)"

fun collect_groups :: "nat list \<Rightarrow> nat list \<Rightarrow> (nat \<times> nat list) list \<Rightarrow> (nat \<times> nat list) list option" where
  "collect_groups [] parent m = Some m"
| "collect_groups (i # is) parent m = do {
     (parent', root) \<leftarrow> uf_find parent i;
     collect_groups is parent' (push_group root i m) }"

definition detect_dependencies :: "tool_call list \<Rightarrow> nat list list option" where
  "detect_dependencies calls =
     (if calls = [] then Some []
      else if length calls = 1 then Some [[0]]
      else do {
        let n = length calls;
        parent \<leftarrow> union_dependent calls (index_pairs n) [0..<n];
        m \<leftarrow> collect_groups [0..<n] parent [];
        Some (map snd m) })"

section \<open>Parallel execution\<close>

definition DEFAULT_MAX_CONCURRENT :: nat where
  "DEFAULT_MAX_CONCURRENT = 5"

text \<open>
  One task is spawned per group and runs the group's calls in order; \<open>Running rs\<close> holds the
  results it has pushed. A tool that panics unwinds the task, which loses the results of
  the whole group. \<open>group_turn\<close> is the next call of group \<open>g\<close>; a finished task has no turn left.
\<close>

definition run_call :: "('w \<Rightarrow> canonicalize) \<Rightarrow> 'w tool list \<Rightarrow> session_context \<Rightarrow> tool_call \<Rightarrow> 'w effect" where
  "run_call canon tools session c = execute_tool canon (call_name c) (call_arguments c) tools session"

datatype group_progress = Running "(nat \<times> tool_call_result) list" | Panicked

definition group_turn :: "(tool_call \<Rightarrow> 'w effect) \<Rightarrow> tool_call list \<Rightarrow> nat list list \<Rightarrow> nat \<Rightarrow>
    (nat \<Rightarrow> group_progress) \<times> 'w \<Rightarrow> (nat \<Rightarrow> group_progress) \<times> 'w" where
  "group_turn exec calls groups g st = (case st of (pr, w) \<Rightarrow>
     (case pr g of
        Panicked \<Rightarrow> (pr, w)
      | Running rs \<Rightarrow>
          if g < length groups \<and> length rs < length (groups ! g)
          then let i = groups ! g ! length rs
               in (case exec (calls ! i) w of
                     (None, w') \<Rightarrow> (pr(g := Panicked), w')
                   | (Some out, w') \<Rightarrow>
                       (pr(g := Running (rs @ [(i, \<lparr>res_id = call_id (calls ! i), res_output = out\<rparr>)])), w'))
          else (pr, w)))"

definition store_results :: "'a option list \<Rightarrow> (nat \<times> 'a) list \<Rightarrow> 'a option list" where
  "store_results results rs = foldl (\<lambda>results (i, r). results[i := Some r]) results rs"

fun joined :: "group_progress \<Rightarrow> (nat \<times> tool_call_result) list" where
  "joined (Running rs) = rs"
| "joined Panicked = []"

text \<open>
  \<open>turns\<close> is the order in which the tasks run their calls, \<open>completion\<close> the order in which
  their join handles complete. The semaphore admits a call while it has a permit; with
  none at all no call ever starts (\<^const>\<open>None\<close>).
\<close>

definition execute_tools_parallel ::
    "nat list \<Rightarrow> nat list \<Rightarrow> ('w \<Rightarrow> canonicalize) \<Rightarrow> tool_call list \<Rightarrow> 'w tool list \<Rightarrow> session_context \<Rightarrow>
     nat \<Rightarrow> 'w \<Rightarrow> (tool_call_result list \<times> 'w) option" where
  "execute_tools_parallel turns completion canon calls tools session max_concurrent w =
     (if calls = [] then Some ([], w)
      else do {
        let permits = (if max_concurrent = 0 then DEFAULT_MAX_CONCURRENT else max_concurrent);
        let exec = run_call canon tools session;
        groups \<leftarrow> detect_dependencies calls;
        if permits = 0 then None else do {
          let (pr, w') = foldl (\<lambda>st g. group_turn exec calls groups g st) (\<lambda>_. Running [], w) turns;
          let results = foldl store_results (replicate (length calls) None) (map (\<lambda>g. joined (pr g)) completion);
          Some (map (\<lambda>(i, opt). case opt of
               Some r \<Rightarrow> r
             | None \<Rightarrow> \<lparr>res_id = call_id (calls ! i),
                 res_output = Inl (Tool ''Tool execution task panicked'')\<rparr>) (enumerate 0 results), w') } })"

section \<open>What validation guarantees\<close>

lemma for_each_Inr: "for_each f xs = Inr u \<longleftrightarrow> (\<forall>x \<in> set xs. f x = Inr ())"
  by (induction xs) (auto simp: bind_result_Inr)

text \<open>The test a path argument has to pass.\<close>

definition path_accepted :: "canonicalize \<Rightarrow> session_context \<Rightarrow> string \<Rightarrow> bool" where
  "path_accepted canon session s \<longleftrightarrow>
     path_starts_with (case canon (abs_path session s) of Some p \<Rightarrow> p
        | None \<Rightarrow> lexical_normalize (abs_path session s)) (workspace_canonical canon session)"

lemma validate_path_Inr:
  "validate_path_in_workspace canon name s session = Inr u \<longleftrightarrow> path_accepted canon session s"
  by (auto simp: validate_path_in_workspace_def path_accepted_def Let_def split: option.splits)

lemma validate_shell_Inr:
  "validate_shell_command name cmd = Inr u
     \<longleftrightarrow> (\<forall>p \<in> set blocked_shell_patterns. \<not> str_contains p (to_lowercase cmd))"
proof -
  have "validate_shell_command name cmd = Inr u
      \<longleftrightarrow> List.find (\<lambda>p. str_contains p (to_lowercase cmd)) blocked_shell_patterns = None"
    by (simp add: validate_shell_command_def split: option.split)
  then show ?thesis by (auto simp: find_None_iff)
qed

lemma validate_arguments_Inr:
  "validate_arguments canon name args session = Inr u \<longleftrightarrow>
     (\<forall>key \<in> set path_keys. \<forall>s. string_argument args key = Some s \<longrightarrow> path_accepted canon session s) \<and>
     (\<forall>key \<in> {''command'', ''cmd''}. \<forall>cmd. string_argument args key = Some cmd \<longrightarrow>
        (\<forall>p \<in> set blocked_shell_patterns. \<not> str_contains p (to_lowercase cmd)))"
  unfolding validate_arguments_def bind_result_Inr for_each_Inr
  by (auto simp: validate_path_Inr validate_shell_Inr split: option.splits)

lemma validate_sandbox_Inr:
  "validate_sandbox canon t session = Inr u \<longleftrightarrow>
     (\<forall>pa \<in> set (file_access (tool_declarations_of t)).
        let ap = abs_path session (declared_path pa)
        in path_starts_with (case canon ap of Some c \<Rightarrow> c | None \<Rightarrow> ap) (workspace_canonical canon session))"
  by (simp add: validate_sandbox_def for_each_Inr Let_def)

lemma execute_tool_cases:
  obtains (unknown) "\<forall>t \<in> set tools. tool_name t \<noteq> name"
      "execute_tool canon name args tools session w = (Some (Inl (Tool (''Unknown tool: '' @ name))), w)"
  | (rejected) e where "execute_tool canon name args tools session w = (Some (Inl e), w)"
  | (run) t where "t \<in> set tools" "tool_name t = name"
      "validate_sandbox (canon w) t session = Inr ()"
      "validate_arguments (canon w) name args session = Inr ()"
      "execute_tool canon name args tools session w =
         tool_execute t \<lparr>ti_name = name, ti_arguments = args\<rparr>
           \<lparr>tc_workspace_path = workspace_path session, tc_session_id = session_id session,
            tc_chat_id = sess_chat_id session\<rparr> w"
proof (cases "List.find (\<lambda>t. tool_name t = name) tools")
  case None
  then have "\<forall>t \<in> set tools. tool_name t \<noteq> name" by (simp add: find_None_iff)
  then show ?thesis by (rule unknown) (simp add: execute_tool_def None)
next
  case (Some t)
  then have t: "t \<in> set tools" "tool_name t = name" using find_Some_mem [OF Some] by auto
  show ?thesis
  proof (cases "validate_sandbox (canon w) t session")
    case (Inl e)
    then show ?thesis using Some by (intro rejected) (simp add: execute_tool_def)
  next
    case sandbox: (Inr u)
    show ?thesis
    proof (cases "validate_arguments (canon w) name args session")
      case (Inl e)
      then show ?thesis using Some sandbox by (intro rejected) (simp add: execute_tool_def)
    next
      case (Inr v)
      then show ?thesis using Some sandbox t by (intro run [of t]) (simp_all add: execute_tool_def)
    qed
  qed
qed


section \<open>Lexical normalisation\<close>

text \<open>
  The stack of \<open>lexical_step\<close> under construction: names on top of parent steps on top of the
  root. Reversed, it walks to the same place as the components it has consumed.
\<close>

fun lexical_ok :: "path \<Rightarrow> bool" where
  "lexical_ok [] \<longleftrightarrow> False"
| "lexical_ok [c] \<longleftrightarrow> c = RootDir"
| "lexical_ok (Normal n # p) \<longleftrightarrow> lexical_ok p"
| "lexical_ok (ParentDir # p) \<longleftrightarrow> lexical_ok p \<and> (\<forall>c \<in> set p. c = ParentDir \<or> c = RootDir)"
| "lexical_ok (_ # p) \<longleftrightarrow> False"

lemma lexical_ok_rooted: "lexical_ok p \<Longrightarrow> p \<noteq> [] \<and> last p = RootDir"
  by (induction p rule: lexical_ok.induct) auto

lemma lexical_ok_above_name:
  "lexical_ok (q @ rev (map Normal names) @ [RootDir]) \<Longrightarrow> names \<noteq> [] \<Longrightarrow> \<forall>c \<in> set q. \<exists>n. c = Normal n"
proof (induction q)
  case (Cons c q)
  have ne: "q @ rev (map Normal names) @ [RootDir] \<noteq> []" by simp
  obtain n where n: "Normal n \<in> set (q @ rev (map Normal names) @ [RootDir])"
    using Cons.prems(2) by (cases names) auto
  then show ?case
    using Cons ne by (cases c; cases "q @ rev (map Normal names) @ [RootDir]") auto
qed simp

lemma walk_rev_parents:
  "lexical_ok p \<Longrightarrow> \<forall>c \<in> set p. c = ParentDir \<or> c = RootDir \<Longrightarrow> walk [] (rev p) = []"
  by (induction p rule: lexical_ok.induct) (auto simp: walk_append)

lemma lexical_step_ok:
  assumes "lexical_ok p" "c \<noteq> RootDir"
  shows "lexical_ok (lexical_step p c) \<and> walk [] (rev (lexical_step p c)) = walk [] (rev p @ [c])"
proof (cases c)
  case ParentDir
  show ?thesis
  proof (cases "\<exists>n q. p = Normal n # q")
    case True
    then obtain n q where p: "p = Normal n # q" by blast
    then have "q \<noteq> []" using assms(1) by (cases q) auto
    then have "lexical_ok q" using assms(1) p by (cases q) auto
    then show ?thesis using p ParentDir by (simp add: lexical_step_def walk_append)
  next
    case False
    then have step: "lexical_step p c = ParentDir # p"
      using ParentDir by (cases p) (auto simp: lexical_step_def split: path_component.splits)
    have "\<forall>c \<in> set p. c = ParentDir \<or> c = RootDir"
      using False assms(1) by (cases p rule: lexical_ok.cases) auto
    then show ?thesis
      using assms(1) step ParentDir lexical_ok_rooted [OF assms(1)]
      by (cases p) (auto simp: walk_append)
  qed
next
  case (Normal n)
  then show ?thesis
    using assms(1) lexical_ok_rooted [OF assms(1)] by (cases p) (auto simp: lexical_step_def walk_append)
qed (use assms in \<open>auto simp: lexical_step_def walk_append\<close>)

lemma lexical_fold_ok:
  "lexical_ok p \<Longrightarrow> RootDir \<notin> set q \<Longrightarrow>
     lexical_ok (foldl lexical_step p q) \<and> walk [] (rev (foldl lexical_step p q)) = walk [] (rev p @ q)"
proof (induction q arbitrary: p)
  case (Cons c q)
  then have step: "lexical_ok (lexical_step p c)" "walk [] (rev (lexical_step p c)) = walk [] (rev p @ [c])"
    using lexical_step_ok [of p c] by auto
  then have "walk [] (rev (foldl lexical_step (lexical_step p c) q)) = walk (walk [] (rev p @ [c])) q"
    using Cons by (simp add: walk_append)
  moreover have "walk (walk [] (rev p @ [c])) q = walk [] (rev p @ c # q)"
    using walk_append [of "[]" "rev p @ [c]" q] by simp
  ultimately show ?case using Cons step by simp
qed simp

text \<open>An absolute path as \<open>components\<close> yields it: one root, in front.\<close>

definition rooted :: "path \<Rightarrow> bool" where
  "rooted p \<longleftrightarrow> (\<exists>q. p = RootDir # q \<and> RootDir \<notin> set q)"

lemma body_components_no_root [simp]: "RootDir \<notin> set (body_components ps)"
  by (auto simp: body_components_def split: if_splits)

lemma components_rooted_or: "rooted (components s) \<or> RootDir \<notin> set (components s)"
proof (cases "starts_with ''/'' s")
  case True
  then show ?thesis by (simp add: components_def Let_def rooted_def)
next
  case False
  then show ?thesis by (simp add: components_def Let_def split: list.split)
qed

lemma components_rooted: "path_absolute (components s) \<Longrightarrow> rooted (components s)"
  using components_rooted_or [of s]
  by (auto simp: path_absolute_def split: list.splits path_component.splits)

lemma rooted_join:
  assumes "rooted w" "rooted p \<or> RootDir \<notin> set p"
  shows "rooted (path_join w p)"
  using assms by (auto simp: rooted_def path_join_def path_absolute_def split: list.splits path_component.splits)

text \<open>C38: Normalising an absolute path without touching the file system does not change where it
  leads: walking the result from the root passes the same names as walking the path. So a
  path argument that does not exist yet and is accepted leads, symbolic links aside, into
  the workspace.\<close>

theorem lexical_normalize_sound:
  assumes "path_absolute (components (workspace_path session))"
    and "canon (abs_path session s) = None"
    and "workspace_canonical canon session = RootDir # map Normal names"
    and "validate_path_in_workspace canon name s session = Inr ()"
  shows "walk [] (lexical_normalize (abs_path session s)) = walk [] (abs_path session s)
    \<and> prefix names (walk [] (abs_path session s))"
proof -
  have "rooted (abs_path session s)"
    using components_rooted [OF assms(1)] rooted_join components_rooted_or [of s]
    by (auto simp: abs_path_def Let_def components_rooted)
  then obtain q where q: "abs_path session s = RootDir # q" "RootDir \<notin> set q"
    by (auto simp: rooted_def)
  have norm: "lexical_normalize (abs_path session s) = rev (foldl lexical_step [RootDir] q)"
    using q by (simp add: lexical_normalize_def lexical_step_def)
  then have walk: "walk [] (lexical_normalize (abs_path session s)) = walk [] (abs_path session s)"
    using lexical_fold_ok [of "[RootDir]" q] q by simp
  have "prefix (RootDir # map Normal names) (lexical_normalize (abs_path session s))"
    using assms(2-4) by (simp add: validate_path_Inr path_accepted_def path_starts_with_def)
  then obtain r where r: "rev (foldl lexical_step [RootDir] q) = RootDir # map Normal names @ r"
    unfolding norm by (auto simp: prefix_def)
  have ok: "lexical_ok (rev r @ rev (map Normal names) @ [RootDir])"
    using lexical_fold_ok [of "[RootDir]" q] q(2) arg_cong [OF r, of rev] by simp
  have "prefix names (walk names r)"
  proof (cases "names = []")
    case False
    then have "\<forall>c \<in> set r. \<exists>n. c = Normal n"
      using lexical_ok_above_name [OF ok] by simp
    then show ?thesis by (rule prefix_walk_normals)
  qed simp
  then have "prefix names (walk [] (lexical_normalize (abs_path session s)))"
    using norm r by (simp add: walk_append walk_normals)
  then show ?thesis using walk by simp
qed

section \<open>What dependency detection guarantees\<close>

lemma are_dependent_sym: "are_dependent a b = are_dependent b a"
  by (auto simp: are_dependent_def Let_def list_ex_iff)

text \<open>Two pure reads never conflict, and two calls on disjoint paths do not either.\<close>

lemma file_reads_independent:
  "call_name a = ''file_read'' \<Longrightarrow> call_name b = ''file_read'' \<Longrightarrow> \<not> are_dependent a b"
  by (simp add: are_dependent_def extract_write_paths_def is_read_only_tool_def Let_def list_ex_iff)

text \<open>The calls of a batch that depend on each other directly.\<close>

definition dependence :: "tool_call list \<Rightarrow> (nat \<times> nat) set" where
  "dependence calls = {(i, j). i < length calls \<and> j < length calls \<and> i \<noteq> j
     \<and> are_dependent (calls ! i) (calls ! j)}"

lemma index_pairs_iff: "(i, j) \<in> set (index_pairs n) \<longleftrightarrow> i < j \<and> j < n"
proof
  assume "i < j \<and> j < n"
  then have "i \<in> {0..<n}" "(i, j) \<in> Pair i ` {Suc i..<n}" by auto
  then show "(i, j) \<in> set (index_pairs n)" unfolding index_pairs_def by auto
qed (auto simp: index_pairs_def)

lemma union_dependent_represents:
  "represents p R \<Longrightarrow> \<forall>(i, j) \<in> set ps. i < length p \<and> j < length p \<Longrightarrow>
     \<exists>p'. union_dependent calls ps p = Some p' \<and> length p' = length p
       \<and> represents p' (R \<union> {(i, j) \<in> set ps. are_dependent (calls ! i) (calls ! j)})"
proof (induction ps arbitrary: p R)
  case (Cons ij ps)
  obtain i j where ij: "ij = (i, j)" by fastforce
  show ?case
  proof (cases "are_dependent (calls ! i) (calls ! j)")
    case True
    from represents_union [OF Cons.prems(1), of i j] obtain q where
      q: "uf_union p i j = Some q" "length q = length p" "represents q (insert (i, j) R)"
      using Cons.prems(2) ij by auto
    have "insert (i, j) R \<union> {(i, j) \<in> set ps. are_dependent (calls ! i) (calls ! j)}
        = R \<union> {(i, j) \<in> set (ij # ps). are_dependent (calls ! i) (calls ! j)}"
      using True ij by auto
    then show ?thesis using Cons.IH [OF q(3)] q Cons.prems(2) ij True by simp
  next
    case False
    then have "{(i, j) \<in> set (ij # ps). are_dependent (calls ! i) (calls ! j)}
        = {(i, j) \<in> set ps. are_dependent (calls ! i) (calls ! j)}"
      using ij by auto
    then show ?thesis using Cons.IH [OF Cons.prems(1)] Cons.prems(2) ij False by simp
  qed
qed simp

lemma collect_groups_fold:
  "uf_ok p \<Longrightarrow> \<forall>i \<in> set is. rep_of p i (r i) \<Longrightarrow>
     collect_groups is p m = Some (foldl (\<lambda>m i. push_group (r i) i m) m is)"
proof (induction "is" arbitrary: p m)
  case (Cons i "is")
  then obtain p' where "uf_find p i = Some (p', r i)" "uf_ok p'" "\<forall>y s. rep_of p' y s \<longleftrightarrow> rep_of p y s"
    using uf_find_correct [of p i "r i"] by auto
  then show ?case using Cons by simp
qed simp

lemma push_group_keys: "set (map fst (push_group k i m)) = insert k (set (map fst m))"
  by (induction k i m rule: push_group.induct) auto

lemma push_group_sorted: "sorted_wrt (<) (map fst m) \<Longrightarrow> sorted_wrt (<) (map fst (push_group k i m))"
proof (induction k i m rule: push_group.induct)
  case (2 root i k xs m)
  then show ?case using push_group_keys [of root i m] by (auto simp: image_iff)
qed simp

lemma push_group_get:
  "sorted_wrt (<) (map fst m) \<Longrightarrow> map_of (push_group k i m) k' =
     (if k' = k then Some ((case map_of m k of None \<Rightarrow> [] | Some xs \<Rightarrow> xs) @ [i]) else map_of m k')"
proof (induction k i m rule: push_group.induct)
  case (2 root i k xs m)
  have "root < k \<Longrightarrow> map_of m root = None"
    using "2.prems" by (force simp: map_of_eq_None_iff)
  then show ?case using 2 by auto
qed simp

text \<open>After the loop each root maps to the indices it represents, in order.\<close>

lemma push_groups_result:
  assumes "m = foldl (\<lambda>m i. push_group (r i) i m) [] is"
  shows "sorted_wrt (<) (map fst m) \<and>
    (\<forall>k. map_of m k = (let g = filter (\<lambda>i. r i = k) is in if g = [] then None else Some g))"
  using assms
proof (induction "is" arbitrary: m rule: rev_induct)
  case (snoc i "is")
  define m0 where "m0 = foldl (\<lambda>m i. push_group (r i) i m) [] is"
  have m: "m = push_group (r i) i m0" using snoc.prems by (simp add: m0_def)
  note IH = snoc.IH [OF m0_def]
  have "map_of m k = (let g = filter (\<lambda>i. r i = k) (is @ [i]) in if g = [] then None else Some g)" for k
    using IH push_group_get [of m0 "r i" i k] by (simp add: m Let_def)
  then show ?case using IH push_group_sorted by (simp add: m)
qed simp

lemma push_groups_members:
  assumes "m = foldl (\<lambda>m i. push_group (r i) i m) [] is"
  shows "g \<in> set (map snd m) \<longleftrightarrow> (\<exists>k. g = filter (\<lambda>i. r i = k) is \<and> g \<noteq> [])"
    and "distinct (map snd m)"
proof -
  note res = push_groups_result [OF assms]
  have dist: "distinct (map fst m)" using res strict_sorted_iff by blast
  have get: "(k, g) \<in> set m \<longleftrightarrow> map_of m k = Some g" for k g
    by (rule map_of_eq_Some_iff [OF dist, symmetric])
  have mem: "(k, g) \<in> set m \<longleftrightarrow> g = filter (\<lambda>i. r i = k) is \<and> g \<noteq> []" for k g
  proof -
    define F where "F = filter (\<lambda>i. r i = k) is"
    have "map_of m k = (if F = [] then None else Some F)"
      using res unfolding Let_def F_def by blast
    then show ?thesis unfolding get F_def [symmetric] by (cases "F = []") auto
  qed
  have "g \<in> set (map snd m) \<longleftrightarrow> (\<exists>k. (k, g) \<in> set m)"
    by force
  then show "g \<in> set (map snd m) \<longleftrightarrow> (\<exists>k. g = filter (\<lambda>i. r i = k) is \<and> g \<noteq> [])"
    unfolding mem .
  have "k = k'" if asm: "(k, g) \<in> set m" "(k', g) \<in> set m" for k k' g
  proof -
    obtain i where i: "i \<in> set g" using asm(1) mem by (cases g) auto
    have "i \<in> set (filter (\<lambda>i. r i = k) is)" using asm(1) mem i by metis
    moreover have "i \<in> set (filter (\<lambda>i. r i = k') is)" using asm(2) mem i by metis
    ultimately show ?thesis by simp
  qed
  then have "inj_on snd (set m)" by (auto simp: inj_on_def)
  then show "distinct (map snd m)"
    using dist by (simp add: distinct_map)
qed

text \<open>The groups, for a batch of any length.\<close>

definition grouping :: "nat \<Rightarrow> (nat \<Rightarrow> nat) \<Rightarrow> nat list list \<Rightarrow> bool" where
  "grouping n r groups \<longleftrightarrow> distinct groups \<and>
     (\<forall>g. g \<in> set groups \<longleftrightarrow> (\<exists>k. g = filter (\<lambda>i. r i = k) [0..<n] \<and> g \<noteq> []))"

lemma detect_dependencies_grouping:
  "\<exists>groups r. detect_dependencies calls = Some groups \<and> grouping (length calls) r groups
     \<and> (\<forall>i < length calls. \<forall>j < length calls. r i = r j \<longleftrightarrow> (i, j) \<in> (dependence calls)\<^sup>*)"
proof -
  define n where "n = length calls"
  have dep0: "dependence calls = {}" if small: "n \<le> 1"
    using small by (auto simp: dependence_def n_def)
  consider "n = 0" | "n = 1" | "1 < n" by linarith
  then show ?thesis
  proof cases
    assume "n = 0"
    then show ?thesis
      by (intro exI [of _ "[]"] exI [of _ id]) (simp add: n_def detect_dependencies_def grouping_def)
  next
    assume n: "n = 1"
    then have "detect_dependencies calls = Some [[0]]" by (auto simp: n_def detect_dependencies_def)
    moreover have "grouping n id [[0]]" using n by (auto simp: grouping_def split: if_splits)
    ultimately show ?thesis using n dep0 by (fastforce simp: n_def)
  next
    assume n: "1 < n"
    define D where "D = {(i, j) \<in> set (index_pairs n). are_dependent (calls ! i) (calls ! j)}"
    have "\<forall>(i, j) \<in> set (index_pairs n). i < length [0..<n] \<and> j < length [0..<n]"
      by (auto simp: index_pairs_iff)
    from union_dependent_represents [OF represents_init this, of calls] obtain p where
      p: "union_dependent calls (index_pairs n) [0..<n] = Some p" "length p = n" "represents p D"
      by (auto simp: D_def)
    then have ok: "uf_ok p" by (simp add: represents_def)
    then obtain r where r: "\<forall>i < n. rep_of p i (r i)"
      using p(2) unfolding uf_ok_def by metis
    define m where "m = foldl (\<lambda>m i. push_group (r i) i m) [] [0..<n]"
    have "collect_groups [0..<n] p [] = Some m"
      using collect_groups_fold [OF ok] r by (simp add: m_def)
    then have "detect_dependencies calls = Some (map snd m)"
      using n p(1) by (simp add: detect_dependencies_def n_def) (auto simp: Let_def)
    moreover have "grouping n r (map snd m)"
      unfolding grouping_def using push_groups_members [OF m_def] by blast
    moreover have "D \<union> D\<inverse> = dependence calls"
      using are_dependent_sym by (fastforce simp: D_def dependence_def index_pairs_iff n_def)
    then have "r i = r j \<longleftrightarrow> (i, j) \<in> (dependence calls)\<^sup>*" if "i < n" "j < n" for i j
      using p(2,3) r same_class_rep [of p i "r i" j "r j"] that unfolding represents_def by auto
    ultimately show ?thesis unfolding n_def by blast
  qed
qed

lemma grouping_same:
  assumes "grouping n r groups" "i < n" "j < n"
  shows "(\<exists>g \<in> set groups. i \<in> set g \<and> j \<in> set g) \<longleftrightarrow> r i = r j"
proof
  assume "r i = r j"
  then have "i \<in> set (filter (\<lambda>x. r x = r i) [0..<n])" "j \<in> set (filter (\<lambda>x. r x = r i) [0..<n])"
    using assms by auto
  moreover have "filter (\<lambda>x. r x = r i) [0..<n] \<in> set groups"
    using assms(1) calculation(1) unfolding grouping_def by (metis emptyE list.set(1))
  ultimately show "\<exists>g \<in> set groups. i \<in> set g \<and> j \<in> set g" by blast
qed (use assms(1) in \<open>auto simp: grouping_def\<close>)

lemma grouping_unique:
  assumes "grouping n r groups" "i < n"
  shows "\<exists>!k. k < length groups \<and> i \<in> set (groups ! k)"
proof -
  obtain g where "g \<in> set groups" "i \<in> set g" using grouping_same [OF assms(1,2,2)] by auto
  then obtain k where k: "k < length groups" "i \<in> set (groups ! k)" by (metis in_set_conv_nth)
  have "l = k" if l: "l < length groups" "i \<in> set (groups ! l)" for l
  proof -
    have "groups ! l \<in> set groups" "groups ! k \<in> set groups" using k l by auto
    then have "groups ! l = groups ! k" using assms(1) k l unfolding grouping_def by auto
    then show ?thesis using assms(1) k l unfolding grouping_def by (metis nth_eq_iff_index_eq)
  qed
  with k show ?thesis by blast
qed

text \<open>C19: Detecting dependencies always succeeds. The groups are non-empty, keep the order of
  the calls, and put every call into exactly one group. Two calls share a group exactly when
  a chain of directly dependent calls joins them.\<close>

theorem detect_dependencies_correct:
  "\<exists>groups. detect_dependencies calls = Some groups
     \<and> (\<forall>g \<in> set groups. g \<noteq> [] \<and> sorted_wrt (<) g \<and> set g \<subseteq> {..<length calls})
     \<and> (\<forall>i < length calls. \<exists>!k. k < length groups \<and> i \<in> set (groups ! k))
     \<and> (\<forall>i < length calls. \<forall>j < length calls.
          (\<exists>g \<in> set groups. i \<in> set g \<and> j \<in> set g) \<longleftrightarrow> (i, j) \<in> (dependence calls)\<^sup>*)"
proof -
  obtain groups r where g: "detect_dependencies calls = Some groups" "grouping (length calls) r groups"
    and r: "\<And>i j. i < length calls \<Longrightarrow> j < length calls \<Longrightarrow> r i = r j \<longleftrightarrow> (i, j) \<in> (dependence calls)\<^sup>*"
    using detect_dependencies_grouping [of calls] by blast
  have shape: "\<forall>g \<in> set groups. g \<noteq> [] \<and> sorted_wrt (<) g \<and> set g \<subseteq> {..<length calls}"
    using g(2) by (auto simp: grouping_def sorted_wrt_filter)
  have one: "\<exists>!k. k < length groups \<and> i \<in> set (groups ! k)" if i: "i < length calls" for i
    by (rule grouping_unique [OF g(2) i])
  have same: "(\<exists>g \<in> set groups. i \<in> set g \<and> j \<in> set g) \<longleftrightarrow> r i = r j"
    if ij: "i < length calls" "j < length calls" for i j
    by (rule grouping_same [OF g(2) ij])
  have "(\<exists>g \<in> set groups. i \<in> set g \<and> j \<in> set g) \<longleftrightarrow> (i, j) \<in> (dependence calls)\<^sup>*"
    if ij: "i < length calls" "j < length calls" for i j
    using same [OF ij] r [OF ij] by (rule trans)
  with g(1) shape one show ?thesis by blast
qed


section \<open>What parallel execution guarantees\<close>

text \<open>The reference: the calls one after another, in the order the model made them.\<close>

fun run_in_order :: "(tool_call \<Rightarrow> 'w effect) \<Rightarrow> tool_call list \<Rightarrow> 'w \<Rightarrow> tool_call_result list \<times> 'w" where
  "run_in_order exec [] w = ([], w)"
| "run_in_order exec (c # cs) w =
     (let (out, w1) = exec c w; (rs, w2) = run_in_order exec cs w1
      in (\<lparr>res_id = call_id c, res_output = the out\<rparr> # rs, w2))"

text \<open>Two calls commute when neither sees what the other does and the order leaves no trace.\<close>

definition calls_commute :: "(tool_call \<Rightarrow> 'w effect) \<Rightarrow> tool_call \<Rightarrow> tool_call \<Rightarrow> bool" where
  "calls_commute exec a b \<longleftrightarrow> (\<forall>w.
     fst (exec a (snd (exec b w))) = fst (exec a w) \<and> fst (exec b (snd (exec a w))) = fst (exec b w)
     \<and> snd (exec a (snd (exec b w))) = snd (exec b (snd (exec a w))))"

text \<open>Every task gets as many turns as it has calls, and every join handle is awaited.\<close>

definition fair_schedule :: "tool_call list \<Rightarrow> nat list \<Rightarrow> nat list \<Rightarrow> bool" where
  "fair_schedule calls turns completion \<longleftrightarrow> (case detect_dependencies calls of
      None \<Rightarrow> False
    | Some groups \<Rightarrow> (\<forall>g \<in> {..<length groups}. length (groups ! g) \<le> count_list turns g)
        \<and> set completion = {..<length groups})"

lemma length_run_in_order [simp]: "length (fst (run_in_order exec cs w)) = length cs"
proof (induction cs arbitrary: w)
  case (Cons c cs)
  show ?case using Cons [of "snd (exec c w)"] by (simp add: Let_def case_prod_beta)
qed simp

lemma run_in_order_snoc:
  "run_in_order exec (cs @ [c]) w = (let (rs, w1) = run_in_order exec cs w; (out, w2) = exec c w1
     in (rs @ [\<lparr>res_id = call_id c, res_output = the out\<rparr>], w2))"
  by (induction cs arbitrary: w) (auto simp: Let_def split: prod.splits)

subsection \<open>Turns of different tasks commute\<close>

lemma group_turn_idle:
  "pr g = Panicked \<or> (\<exists>rs. pr g = Running rs \<and> (length groups \<le> g \<or> length (groups ! g) \<le> length rs)) \<Longrightarrow>
     group_turn exec calls groups g (pr, w) = (pr, w)"
  by (auto simp: group_turn_def)

lemma group_turn_active:
  assumes "pr g = Running rs" "g < length groups" "length rs < length (groups ! g)"
  shows "group_turn exec calls groups g (pr, w) =
    (let i = groups ! g ! length rs; (out, w') = exec (calls ! i) w
     in (pr(g := (case out of None \<Rightarrow> Panicked
           | Some out \<Rightarrow> Running (rs @ [(i, \<lparr>res_id = call_id (calls ! i), res_output = out\<rparr>)]))), w'))"
  using assms by (auto simp: group_turn_def Let_def split: prod.splits option.splits)

lemma group_turn_other: "h \<noteq> g \<Longrightarrow> fst (group_turn exec calls groups g (pr, w)) h = pr h"
  by (auto simp: group_turn_def Let_def split: group_progress.splits prod.splits option.splits)

definition can_turn :: "nat list list \<Rightarrow> (nat \<Rightarrow> group_progress) \<Rightarrow> nat \<Rightarrow> bool" where
  "can_turn groups pr g \<longleftrightarrow>
     (\<exists>rs. pr g = Running rs \<and> g < length groups \<and> length rs < length (groups ! g))"

lemma group_turn_cannot: "\<not> can_turn groups pr g \<Longrightarrow> group_turn exec calls groups g (pr, w) = (pr, w)"
  by (cases "pr g") (auto simp: can_turn_def group_turn_def)

lemma group_turn_commute:
  assumes indep: "\<And>i j. g < length groups \<Longrightarrow> h < length groups \<Longrightarrow> i \<in> set (groups ! g) \<Longrightarrow> j \<in> set (groups ! h) \<Longrightarrow>
      calls_commute exec (calls ! i) (calls ! j)"
    and "g \<noteq> h"
  shows "group_turn exec calls groups g (group_turn exec calls groups h st) =
    group_turn exec calls groups h (group_turn exec calls groups g st)"
proof -
  obtain pr w where st: "st = (pr, w)" by fastforce
  have other: "can_turn groups (fst (group_turn exec calls groups b (pr, w))) a = can_turn groups pr a"
    if "a \<noteq> b" for a b
    unfolding can_turn_def group_turn_other [OF that] ..
  show ?thesis
  proof (cases "can_turn groups pr g \<and> can_turn groups pr h")
    case False
    then show ?thesis
      using other [of g h] other [of h g] assms(2) group_turn_cannot [of groups _ g] group_turn_cannot [of groups _ h]
      by (metis st prod.collapse)
  next
    case True
    then obtain rs rs' where g: "pr g = Running rs" "g < length groups" "length rs < length (groups ! g)"
      and h: "pr h = Running rs'" "h < length groups" "length rs' < length (groups ! h)"
      unfolding can_turn_def by blast
    define i j where "i = groups ! g ! length rs" and "j = groups ! h ! length rs'"
    have "calls_commute exec (calls ! i) (calls ! j)"
      using indep g h by (simp add: i_def j_def)
    then have c: "fst (exec (calls ! i) (snd (exec (calls ! j) w))) = fst (exec (calls ! i) w)"
      "fst (exec (calls ! j) (snd (exec (calls ! i) w))) = fst (exec (calls ! j) w)"
      "snd (exec (calls ! i) (snd (exec (calls ! j) w))) = snd (exec (calls ! j) (snd (exec (calls ! i) w)))"
      unfolding calls_commute_def by blast+
    show ?thesis
      using g h assms(2) c
      by (simp add: st group_turn_active [where g = g] group_turn_active [where g = h] Let_def case_prod_beta
          fun_upd_twist flip: i_def j_def)
  qed
qed

subsection \<open>Collecting the results\<close>

lemma foldl_store_results: "foldl store_results res rss = store_results res (concat rss)"
  by (induction rss arbitrary: res) (simp_all add: store_results_def)

lemma length_store_results [simp]: "length (store_results res rs) = length res"
  unfolding store_results_def by (induction rs arbitrary: res) auto

lemma store_results_nth:
  "j < length res \<Longrightarrow> store_results res (map (\<lambda>i. (i, f i)) is) ! j = (if j \<in> set is then Some (f j) else res ! j)"
  unfolding store_results_def by (induction "is" arbitrary: res) (auto simp: nth_list_update)

lemma count_mset_count_list: "count (mset xs) x = count_list xs x"
  by (induction xs) auto

lemma collect_all:
  assumes "length R = n" "\<And>i. i < n \<Longrightarrow> gof i < G" "set completion = {..<G}"
  shows "foldl store_results (replicate n None)
    (map (\<lambda>g. map (\<lambda>i. (i, R ! i)) (filter (\<lambda>i. gof i = g) [0..<n])) completion) = map Some R"
proof (rule nth_equalityI)
  let ?is = "concat (map (\<lambda>g. filter (\<lambda>i. gof i = g) [0..<n]) completion)"
  have *: "concat (map (\<lambda>g. map (\<lambda>i. (i, R ! i)) (filter (\<lambda>i. gof i = g) [0..<n])) completion)
      = map (\<lambda>i. (i, R ! i)) ?is"
    by (simp add: map_concat comp_def)
  show "length (foldl store_results (replicate n None)
    (map (\<lambda>g. map (\<lambda>i. (i, R ! i)) (filter (\<lambda>i. gof i = g) [0..<n])) completion)) = length (map Some R)"
    by (simp only: foldl_store_results length_store_results length_replicate length_map assms(1))
  fix i
  assume "i < length (foldl store_results (replicate n None)
    (map (\<lambda>g. map (\<lambda>i. (i, R ! i)) (filter (\<lambda>i. gof i = g) [0..<n])) completion))"
  then have i: "i < n"
    by (simp only: foldl_store_results length_store_results length_replicate)
  have "gof i \<in> set completion" using assms(2,3) i by simp
  then have "i \<in> set ?is" using i by auto
  then show "foldl store_results (replicate n None)
    (map (\<lambda>g. map (\<lambda>i. (i, R ! i)) (filter (\<lambda>i. gof i = g) [0..<n])) completion) ! i = map Some R ! i"
    using i assms(1) by (simp only: foldl_store_results * store_results_nth length_replicate nth_map if_True)
qed

lemma enumerate_Some: "map (\<lambda>(i, opt). case opt of Some r \<Rightarrow> r | None \<Rightarrow> f i) (enumerate n (map Some R)) = R"
  by (induction R arbitrary: n) auto

subsection \<open>The schedule that follows the order of the calls\<close>

text \<open>\<open>gof i\<close> is the group of call \<open>i\<close>.\<close>

lemma grouping_gof:
  assumes "grouping n r groups"
  obtains gof where "\<And>i. i < n \<Longrightarrow> gof i < length groups"
    "\<And>g. g < length groups \<Longrightarrow> groups ! g = filter (\<lambda>i. gof i = g) [0..<n]"
    "\<And>i j. i < n \<Longrightarrow> j < n \<Longrightarrow> gof i \<noteq> gof j \<Longrightarrow> r i \<noteq> r j"
proof -
  have "\<forall>i. \<exists>k. i < n \<longrightarrow> k < length groups \<and> i \<in> set (groups ! k)"
    using grouping_unique [OF assms] by metis
  then obtain gof where gof: "\<And>i. i < n \<Longrightarrow> gof i < length groups \<and> i \<in> set (groups ! gof i)" by metis
  have of: "gof i = g \<longleftrightarrow> i \<in> set (groups ! g)" if i: "i < n" "g < length groups" for i g
    using gof [OF i(1)] grouping_unique [OF assms i(1)] i(2) by metis
  have eq: "groups ! g = filter (\<lambda>i. gof i = g) [0..<n]" if "g < length groups" for g
  proof -
    have "groups ! g \<in> set groups" using that by simp
    then obtain k where k: "groups ! g = filter (\<lambda>i. r i = k) [0..<n]"
      using assms unfolding grouping_def by blast
    have "r i = k \<longleftrightarrow> gof i = g" if i: "i \<in> set [0..<n]" for i
    proof -
      have "i \<in> set (groups ! g) \<longleftrightarrow> r i = k" unfolding k using i by simp
      then show ?thesis using of [OF _ \<open>g < length groups\<close>, of i] i by simp
    qed
    then show ?thesis unfolding k by (rule filter_cong [OF refl])
  qed
  have "r i \<noteq> r j" if ij: "i < n" "j < n" "gof i \<noteq> gof j" for i j
  proof
    assume "r i = r j"
    then obtain g where g: "g \<in> set groups" "i \<in> set g" "j \<in> set g" using grouping_same [OF assms ij(1,2)] by blast
    then obtain k where "k < length groups" "g = groups ! k" by (metis in_set_conv_nth)
    then show False using of ij g by metis
  qed
  then show ?thesis using that [of gof] gof eq by blast
qed

lemma filter_upt_nth:
  assumes "k < n" "P k"
  shows "length (filter P [0..<k]) < length (filter P [0..<n]) \<and> filter P [0..<n] ! length (filter P [0..<k]) = k"
proof -
  have "[0..<n] = [0..<k] @ k # [Suc k..<n]"
    using assms(1) upt_add_eq_append [of 0 k "n - k"] upt_conv_Cons [of k n] by simp
  then show ?thesis using assms(2) by simp
qed

text \<open>Taking turns in the order of the calls is the sequential run.\<close>

lemma turns_in_order:
  assumes gof: "\<And>i. i < length calls \<Longrightarrow> gof i < length groups"
    and groups: "\<And>g. g < length groups \<Longrightarrow> groups ! g = filter (\<lambda>i. gof i = g) [0..<length calls]"
    and total: "\<And>c w. c \<in> set calls \<Longrightarrow> fst (exec c w) \<noteq> None"
    and "k \<le> length calls"
  shows "foldl (\<lambda>st g. group_turn exec calls groups g st) (\<lambda>_. Running [], w) (map gof [0..<k]) =
    (\<lambda>g. Running (map (\<lambda>i. (i, fst (run_in_order exec (take k calls) w) ! i)) (filter (\<lambda>i. gof i = g) [0..<k])),
     snd (run_in_order exec (take k calls) w))"
  using assms(4)
proof (induction k)
  case (Suc k)
  define R where "R = fst (run_in_order exec (take k calls) w)"
  define W where "W = snd (run_in_order exec (take k calls) w)"
  have RW: "run_in_order exec (take k calls) w = (R, W)" by (simp add: R_def W_def)
  have k: "k < length calls" using Suc.prems by simp
  have lenR: "length R = k" using k by (simp add: R_def)
  obtain out W' where step: "exec (calls ! k) W = (Some out, W')"
    using total [of "calls ! k" W] k by (cases "exec (calls ! k) W") auto
  have run: "run_in_order exec (take (Suc k) calls) w = (R @ [\<lparr>res_id = call_id (calls ! k), res_output = out\<rparr>], W')"
    using k by (simp add: take_Suc_conv_app_nth run_in_order_snoc RW step)
  have next_k: "length (filter (\<lambda>i. gof i = gof k) [0..<k]) < length (groups ! gof k)"
    "groups ! gof k ! length (filter (\<lambda>i. gof i = gof k) [0..<k]) = k"
    using filter_upt_nth [OF k, of "\<lambda>i. gof i = gof k"] groups [OF gof [OF k]] by auto
  have keep: "map (\<lambda>i. (i, (R @ [x]) ! i)) (filter P [0..<k]) = map (\<lambda>i. (i, R ! i)) (filter P [0..<k])" for x P
    using lenR by (auto simp: nth_append)
  show ?case
    using Suc.IH k next_k gof [OF k] step lenR
    by (auto simp: RW run group_turn_active keep fun_eq_iff Let_def simp flip: R_def)
qed simp

lemma fold_idle: "(\<And>g. f g st = st) \<Longrightarrow> fold f xs st = st"
  by (induction xs) auto

lemma turns_reorder:
  assumes comm: "\<And>g h. f g \<circ> f h = f h \<circ> f g"
    and count: "\<And>g. count_list xs g \<le> count_list ys g"
    and idle: "\<And>g. f g (foldl (\<lambda>st g. f g st) st xs) = foldl (\<lambda>st g. f g st) st xs"
  shows "foldl (\<lambda>st g. f g st) st ys = foldl (\<lambda>st g. f g st) st xs"
proof -
  have "mset xs \<subseteq># mset ys"
    using count by (simp add: subseteq_mset_def count_mset_count_list)
  then obtain zs where "mset ys = mset (xs @ zs)"
    by (metis ex_mset mset_append mset_subset_eq_exists_conv)
  then have "fold f ys = fold f (xs @ zs)"
    using comm by (intro fold_multiset_equiv) (auto simp: fun_eq_iff)
  then show ?thesis
    using idle by (simp add: foldl_conv_fold fold_idle)
qed


subsection \<open>Results carry the identifier of their call\<close>

definition labelled :: "tool_call list \<Rightarrow> (nat \<times> tool_call_result) list \<Rightarrow> bool" where
  "labelled calls rs \<longleftrightarrow> (\<forall>(i, r) \<in> set rs. res_id r = call_id (calls ! i))"

lemma group_turn_labelled:
  assumes "\<forall>h. labelled calls (joined (fst st h))"
  shows "labelled calls (joined (fst (group_turn exec calls groups g st) h))"
proof -
  obtain pr w where st: "st = (pr, w)" by fastforce
  show ?thesis
  proof (cases "can_turn groups pr g")
    case True
    then obtain rs where rs: "pr g = Running rs" "g < length groups" "length rs < length (groups ! g)"
      unfolding can_turn_def by blast
    have "labelled calls rs" using assms [rule_format, of g] rs(1) by (simp add: st)
    then show ?thesis
      using assms [rule_format, of h] rs unfolding st
      by (auto simp: group_turn_active labelled_def Let_def split: prod.splits option.splits)
  qed (use assms in \<open>simp add: st group_turn_cannot\<close>)
qed

lemma turns_labelled:
  "\<forall>h. labelled calls (joined (fst st h)) \<Longrightarrow>
     \<forall>h. labelled calls (joined (fst (foldl (\<lambda>st g. group_turn exec calls groups g st) st turns) h))"
proof (induction turns arbitrary: st)
  case (Cons g turns)
  then show ?case using group_turn_labelled [of calls st] by simp
qed simp

lemma store_labelled:
  assumes "labelled calls rs" "\<forall>i < length res. \<forall>r. res ! i = Some r \<longrightarrow> res_id r = call_id (calls ! i)"
  shows "\<forall>i < length (store_results res rs). \<forall>r. store_results res rs ! i = Some r \<longrightarrow> res_id r = call_id (calls ! i)"
  using assms
proof (induction rs arbitrary: res)
  case (Cons x rs)
  obtain j r where x: "x = (j, r)" by fastforce
  have "\<forall>i < length (res[j := Some r]). \<forall>r'. res[j := Some r] ! i = Some r' \<longrightarrow> res_id r' = call_id (calls ! i)"
  proof (intro allI impI)
    fix i r'
    assume i: "i < length (res[j := Some r])" "res[j := Some r] ! i = Some r'"
    have r: "res_id r = call_id (calls ! j)" using Cons.prems(1) x by (simp add: labelled_def)
    show "res_id r' = call_id (calls ! i)"
    proof (cases "i = j")
      case True
      then show ?thesis using i r by simp
    next
      case False
      then have "res ! i = Some r'" "i < length res" using i by simp_all
      then show ?thesis using Cons.prems(2) by blast
    qed
  qed
  moreover have "labelled calls rs" using Cons.prems(1) by (simp add: labelled_def)
  moreover have "store_results res (x # rs) = store_results (res[j := Some r]) rs"
    by (simp add: store_results_def x)
  ultimately show ?case using Cons.IH by metis
qed (simp add: store_results_def)

lemma labelled_concat: "\<forall>rs \<in> set rss. labelled calls rs \<Longrightarrow> labelled calls (concat rss)"
  by (auto simp: labelled_def)

text \<open>A batch always returns, and with exactly one result per call, in the order of the calls
  and under the call's identifier: whatever the schedule, also when tools panic.\<close>

theorem parallel_results_labelled:
  "\<exists>rs w'. execute_tools_parallel turns completion canon calls tools session max_concurrent w = Some (rs, w')
     \<and> map res_id rs = map call_id calls"
proof (cases "calls = []")
  case False
  obtain groups where g: "detect_dependencies calls = Some groups"
    using detect_dependencies_grouping [of calls] by blast
  obtain pr w' where run: "foldl (\<lambda>st g. group_turn (run_call canon tools session) calls groups g st)
      (\<lambda>_. Running [], w) turns = (pr, w')" by fastforce
  have lab: "labelled calls (joined (pr h))" for h
    using turns_labelled [of calls "(\<lambda>_. Running [], w)" "run_call canon tools session" groups turns] run
    by (simp add: labelled_def)
  define res where "res = foldl store_results (replicate (length calls) None) (map (\<lambda>g. joined (pr g)) completion)"
  have len: "length res = length calls" by (simp add: res_def foldl_store_results)
  have "labelled calls (concat (map (\<lambda>g. joined (pr g)) completion))"
    using lab by (intro labelled_concat) auto
  from store_labelled [OF this, of "replicate (length calls) None"]
  have ids: "\<forall>i < length res. \<forall>r. res ! i = Some r \<longrightarrow> res_id r = call_id (calls ! i)"
    unfolding res_def foldl_store_results by simp
  have "map res_id (map (\<lambda>(i, opt). case opt of Some r \<Rightarrow> r
      | None \<Rightarrow> \<lparr>res_id = call_id (calls ! i), res_output = Inl (Tool ''Tool execution task panicked'')\<rparr>)
      (enumerate 0 res)) = map call_id calls"
    using len ids by (intro nth_equalityI) (auto simp: nth_enumerate_eq split: option.split)
  then show ?thesis
    using False g run by (simp add: execute_tools_parallel_def DEFAULT_MAX_CONCURRENT_def Let_def flip: res_def)
qed (simp add: execute_tools_parallel_def)

section \<open>Runs on concrete inputs\<close>

definition demo_session :: session_context where
  "demo_session = \<lparr>session_id = ''s'', sess_channel = ''cli'', sess_chat_id = ''c'', sess_user_id = ''u'',
     sess_history = [], workspace_path = ''/ws''\<rparr>"

definition demo_tool :: "nat tool" where
  "demo_tool = \<lparr>tool_name = ''note'', tool_declarations_of =
       \<lparr>file_access = [Read ''in''], network_access = [], shell_access = False\<rparr>,
     tool_execute = (\<lambda>i c w. (Some (Inr \<lparr>to_content = ''done'', to_is_error = False\<rparr>), w + 1))\<rparr>"

definition demo_canon :: canonicalize where
  "demo_canon p = (if p = components ''/ws'' then Some p else None)"

definition demo_calls :: "tool_call list" where
  "demo_calls = [\<lparr>call_id = ''a'', call_name = ''note'', call_arguments = JObject [(''path'', JString ''x'')]\<rparr>,
     \<lparr>call_id = ''b'', call_name = ''note'', call_arguments = JObject [(''path'', JString ''y'')]\<rparr>,
     \<lparr>call_id = ''c'', call_name = ''note'', call_arguments = JObject [(''path'', JString ''x'')]\<rparr>]"

lemma demo_run: "execute_tool (\<lambda>_. demo_canon) ''note'' (JObject [(''path'', JString ''x'')]) [demo_tool] demo_session w =
   (Some (Inr \<lparr>to_content = ''done'', to_is_error = False\<rparr>), w + 1)"
  "execute_tool (\<lambda>_. demo_canon) ''note'' (JObject [(''path'', JString ''y'')]) [demo_tool] demo_session w =
   (Some (Inr \<lparr>to_content = ''done'', to_is_error = False\<rparr>), w + 1)"
proof -
  have "validate_sandbox demo_canon demo_tool demo_session = Inr ()"
    "validate_arguments demo_canon ''note'' (JObject [(''path'', JString ''x'')]) demo_session = Inr ()"
    "validate_arguments demo_canon ''note'' (JObject [(''path'', JString ''y'')]) demo_session = Inr ()"
    by code_simp+
  then show "execute_tool (\<lambda>_. demo_canon) ''note'' (JObject [(''path'', JString ''x'')]) [demo_tool] demo_session w =
   (Some (Inr \<lparr>to_content = ''done'', to_is_error = False\<rparr>), w + 1)"
  "execute_tool (\<lambda>_. demo_canon) ''note'' (JObject [(''path'', JString ''y'')]) [demo_tool] demo_session w =
   (Some (Inr \<lparr>to_content = ''done'', to_is_error = False\<rparr>), w + 1)"
    by (simp_all add: execute_tool_def) (simp_all add: demo_tool_def)
qed

lemma demo_groups: "detect_dependencies demo_calls = Some [[1], [0, 2]]"
proof -
  have d: "are_dependent (demo_calls ! 0) (demo_calls ! 1) = False"
    "are_dependent (demo_calls ! 0) (demo_calls ! 2) = True"
    "are_dependent (demo_calls ! 1) (demo_calls ! 2) = False"
    by code_simp+
  have l: "length demo_calls = 3" "demo_calls \<noteq> []" by code_simp+
  have i: "index_pairs 3 = [(0, 1), (0, 2), (1, 2)]" "[0..<3] = [0, 1, 2::nat]" by code_simp+
  have "uf_union [0, 1, 2] 0 2 = Some [2, 1, 2]"
    by (simp add: uf_union_def uf_find_root)
  then have u: "union_dependent demo_calls [(0, 1), (0, 2), (1, 2)] [0, 1, 2] = Some [2, 1, 2]"
    by (simp only: union_dependent.simps d if_True if_False Option.bind.bind_lunit)
  have "uf_find [2, 1, 2] 0 = Some ([2, 1, 2], 2)" "uf_find [2, 1, 2] 1 = Some ([2, 1, 2], 1)"
    "uf_find [2, 1, 2] 2 = Some ([2, 1, 2], 2)"
    by (simp_all add: uf_find_step [of 0] uf_find_root)
  then have c: "collect_groups [0, 1, 2] [2, 1, 2] [] = Some [(1, [1]), (2, [0, 2])]" by simp
  show ?thesis
    by (simp only: detect_dependencies_def Let_def l i u c Option.bind.bind_lunit if_False cong: if_cong) simp
qed


theorem lexical_normalize_sound_witness:
  "walk [] (lexical_normalize (abs_path demo_session ''../ws/./a/../b'')) = [''ws'', ''b'']
     \<and> prefix [''ws''] (walk [] (abs_path demo_session ''../ws/./a/../b''))"
proof -
  have "path_absolute (components (workspace_path demo_session))"
    "demo_canon (abs_path demo_session ''../ws/./a/../b'') = None"
    "workspace_canonical demo_canon demo_session = RootDir # map Normal [''ws'']"
    "validate_path_in_workspace demo_canon ''note'' ''../ws/./a/../b'' demo_session = Inr ()"
    "walk [] (abs_path demo_session ''../ws/./a/../b'') = [''ws'', ''b'']"
    by code_simp+
  then show ?thesis using lexical_normalize_sound by metis
qed

theorem detect_dependencies_correct_witness:
  "detect_dependencies demo_calls = Some [[1], [0, 2]]
     \<and> (\<exists>!k. k < length [[1::nat], [0, 2]] \<and> (2::nat) \<in> set ([[1], [0, 2]] ! k))"
proof -
  obtain groups where g: "detect_dependencies demo_calls = Some groups"
    "\<forall>i < length demo_calls. \<exists>!k. k < length groups \<and> i \<in> set (groups ! k)"
    using detect_dependencies_correct [of demo_calls] by blast
  have groups: "groups = [[1], [0, 2]]" using g(1) demo_groups by simp
  have "2 < length demo_calls" by code_simp
  from g(2) [rule_format, OF this] show ?thesis unfolding groups using demo_groups by blast
qed


section \<open>Gaps in the validation\<close>

text \<open>
  The commands are lower-cased before the patterns are sought, so the pattern with an upper
  case letter never matches.
\<close>

lemma chmod_pattern_never_matches: "\<not> str_contains ''chmod -R 777 /'' (to_lowercase cmd)"
proof
  assume "str_contains ''chmod -R 777 /'' (to_lowercase cmd)"
  then have "CHR ''R'' \<in> set (to_lowercase cmd)"
    unfolding str_contains_sublist sublist_def by auto
  then obtain c where "ascii_lower c = CHR ''R''" unfolding to_lowercase_def set_map by (metis imageE)
  then have "byte (ascii_lower c) = 82" by (simp add: byte_def)
  moreover have "byte (ascii_lower c) = 82 \<longleftrightarrow> False" by (simp add: ascii_lower_def) linarith
  ultimately show False by simp
qed

lemma chmod_accepted: "validate_shell_command name ''chmod -R 777 /'' = Inr ()"
  by code_simp

text \<open>
  A declared path that does not exist is compared without normalisation, so parent steps
  pass; a new file below a link that leaves the workspace passes as an argument.
\<close>

lemma declared_parent_accepted:
  "validate_sandbox demo_canon (demo_tool\<lparr>tool_declarations_of :=
      \<lparr>file_access = [Write ''../etc/new''], network_access = [], shell_access = False\<rparr>\<rparr>) demo_session = Inr ()
   \<and> walk [] (abs_path demo_session ''../etc/new'') = [''etc'', ''new'']"
  by code_simp

definition linked_canon :: canonicalize where
  "linked_canon p = (if p = components ''/ws'' then Some p
     else if p = components ''/ws/link'' then Some (components ''/etc'') else None)"

lemma new_file_below_link_accepted:
  "validate_path_in_workspace linked_canon ''file_write'' ''link/new'' demo_session = Inr ()
   \<and> \<not> path_accepted linked_canon demo_session ''link''"
  by code_simp

end
