(* ===== verification/Self_Correction.thy ===== *)
theory Self_Correction
  imports Rust_Str
begin

text \<open>
  The failure tracker of the self-correction engine (\<open>skyclaw-agent/src/self_correction.rs\<close>):
  the consecutive failures of each tool, and the prompt that asks for another strategy
  once a tool has failed \<open>max_failures\<close> times in a row.
\<close>

record failure_tracker =
  ft_failures :: "(string, (string \<times> string) list) hmap"
  max_failures :: nat

definition ft_new :: "nat \<Rightarrow> failure_tracker" where
  "ft_new mx = \<lparr>ft_failures = [], max_failures = mx\<rparr>"

definition ft_default :: failure_tracker where
  "ft_default = ft_new 2"

definition ft_record_failure :: "string \<Rightarrow> string \<Rightarrow> failure_tracker \<Rightarrow> failure_tracker" where
  "ft_record_failure tool err t =
     (let entry = (case hm_get (ft_failures t) tool of None \<Rightarrow> [] | Some es \<Rightarrow> es)
      in t\<lparr>ft_failures := hm_insert tool (entry @ [(tool, err)]) (ft_failures t)\<rparr>)"

definition ft_record_success :: "string \<Rightarrow> failure_tracker \<Rightarrow> failure_tracker" where
  "ft_record_success tool t = t\<lparr>ft_failures := hm_remove tool (ft_failures t)\<rparr>"

definition should_rotate_strategy :: "failure_tracker \<Rightarrow> string \<Rightarrow> bool" where
  "should_rotate_strategy t tool = (case hm_get (ft_failures t) tool of
      None \<Rightarrow> False | Some es \<Rightarrow> max_failures t \<le> length es)"

definition failure_count :: "failure_tracker \<Rightarrow> string \<Rightarrow> nat" where
  "failure_count t tool = (case hm_get (ft_failures t) tool of None \<Rightarrow> 0 | Some es \<Rightarrow> length es)"

definition get_failures :: "failure_tracker \<Rightarrow> string \<Rightarrow> (string \<times> string) list" where
  "get_failures t tool = (case hm_get (ft_failures t) tool of None \<Rightarrow> [] | Some es \<Rightarrow> es)"

text \<open>The outer \<^const>\<open>None\<close> would be the panic of a slice off a character boundary.\<close>

definition error_excerpt :: "string \<Rightarrow> string option" where
  "error_excerpt err =
     (if 500 < length err
      then map_option (\<lambda>e. e @ ''...'') (slice_to err (last_start_upto 500 err))
      else Some err)"

definition error_line :: "nat \<times> string \<times> string \<Rightarrow> string option" where
  "error_line = (\<lambda>(i, _, err). map_option (\<lambda>e. ''  '' @ nat_str (i + 1) @ ''. '' @ e) (error_excerpt err))"

definition format_rotation_prompt :: "failure_tracker \<Rightarrow> string \<Rightarrow> string option option" where
  "format_rotation_prompt t tool = (case hm_get (ft_failures t) tool of
      None \<Rightarrow> Some None
    | Some failures \<Rightarrow>
        if length failures < max_failures t then Some None
        else map_option (\<lambda>lines. Some (nl @ nl @ ''[STRATEGY ROTATION] This approach has failed ''
            @ nat_str (length failures) @ '' times. Previous errors:'' @ nl @ join nl lines @ nl
            @ nl @ ''Do NOT retry the same approach. Instead:''
            @ nl @ ''1. Analyze WHY the approach fails''
            @ nl @ ''2. List 3 alternative approaches''
            @ nl @ ''3. Execute the most promising alternative''
            @ nl @ ''If no alternatives exist, ask the user for guidance.''))
          (those (map error_line (enumerate 0 failures))))"

section \<open>The counter of each tool\<close>

text \<open>Seen from one tool, the tracker is a consecutive-failure counter.\<close>

interpretation ft: failure_counter
  "\<lambda>t. failure_count t tool" "ft_record_failure tool err" "ft_record_success tool"
  "\<lambda>t. should_rotate_strategy t tool" max_failures room
  for tool err room
  by unfold_locales
    (auto simp: failure_count_def ft_record_failure_def ft_record_success_def should_rotate_strategy_def
      Let_def split: option.splits)

section \<open>The tracker remembers the errors since the last success\<close>

datatype tool_report = Failed string string | Succeeded string

fun ft_report :: "failure_tracker \<Rightarrow> tool_report \<Rightarrow> failure_tracker" where
  "ft_report t (Failed tool err) = ft_record_failure tool err t"
| "ft_report t (Succeeded tool) = ft_record_success tool t"

text \<open>The specification: read the reports from the newest to the oldest.\<close>

fun recent_errors :: "string \<Rightarrow> tool_report list \<Rightarrow> string list" where
  "recent_errors tool [] = []"
| "recent_errors tool (Failed u err # older) =
     (if u = tool then recent_errors tool older @ [err] else recent_errors tool older)"
| "recent_errors tool (Succeeded u # older) = (if u = tool then [] else recent_errors tool older)"

lemma max_failures_report [simp]: "max_failures (ft_report t r) = max_failures t"
  by (cases r) (simp_all add: ft_record_failure_def ft_record_success_def Let_def)

lemma max_failures_run [simp]: "max_failures (foldl ft_report t rs) = max_failures t"
  by (induction rs arbitrary: t) auto

lemma get_failures_run:
  "get_failures (foldl ft_report (ft_new mx) rs) tool = map (Pair tool) (recent_errors tool (rev rs))
   \<and> (hm_get (ft_failures (foldl ft_report (ft_new mx) rs)) tool = None
      \<longleftrightarrow> recent_errors tool (rev rs) = [])"
proof (induction rs rule: rev_induct)
  case Nil
  then show ?case by (simp add: ft_new_def get_failures_def)
next
  case (snoc r rs)
  then show ?case
    by (cases r)
      (auto simp: get_failures_def ft_record_failure_def ft_record_success_def Let_def split: option.splits)
qed

lemma error_excerpt_total: "error_excerpt err \<noteq> None"
  by (simp add: error_excerpt_def)

lemma error_lines_total: "those (map error_line es) \<noteq> None"
proof -
  have "error_line = (\<lambda>x. Some (the (error_line x)))"
    using error_excerpt_total by (auto simp: error_line_def fun_eq_iff)
  then show ?thesis by (metis option.distinct(1) those_map_Some)
qed

text \<open>After any sequence of reports about any tools, the tracker holds exactly the errors a tool
  has had since its last success, oldest first; strategy rotation is due exactly when there
  are at least \<open>max_failures\<close> of them (and one at least), the prompt is produced exactly then,
  and producing it never panics.\<close>

theorem tracker_refines_history:
  fixes rs :: "tool_report list" and mx :: nat and tool :: string
  defines "t \<equiv> foldl ft_report (ft_new mx) rs" and "es \<equiv> recent_errors tool (rev rs)"
  shows "get_failures t tool = map (Pair tool) es \<and> failure_count t tool = length es
    \<and> (should_rotate_strategy t tool \<longleftrightarrow> es \<noteq> [] \<and> mx \<le> length es)
    \<and> (\<exists>prompt. format_rotation_prompt t tool = Some prompt \<and> (prompt \<noteq> None \<longleftrightarrow> should_rotate_strategy t tool))"
proof -
  have g: "get_failures t tool = map (Pair tool) es" "hm_get (ft_failures t) tool = None \<longleftrightarrow> es = []"
    using get_failures_run by (auto simp: t_def es_def)
  have mx: "max_failures t = mx" by (simp add: t_def ft_new_def)
  show ?thesis
  proof (cases "hm_get (ft_failures t) tool")
    case None
    then show ?thesis
      using g by (simp add: failure_count_def should_rotate_strategy_def format_rotation_prompt_def)
  next
    case (Some fs)
    then have "fs = map (Pair tool) es" using g by (simp add: get_failures_def)
    then show ?thesis
      using g mx Some error_lines_total [of "enumerate 0 fs"]
      by (auto simp: failure_count_def should_rotate_strategy_def format_rotation_prompt_def)
  qed
qed

text \<open>A run of \<open>n\<close> failures of one tool right after a success of it asks for strategy rotation
  exactly when \<open>n\<close> reaches the threshold, whatever happened before.\<close>

theorem rotation_at_threshold:
  assumes "0 < n"
  shows "should_rotate_strategy ((ft_record_failure tool err ^^ n) (ft_record_success tool t)) tool
    \<longleftrightarrow> max_failures t \<le> n"
  using ft.tripped_after_fails [OF assms, of "Suc n"] by simp

theorem rotation_at_threshold_witness:
  "should_rotate_strategy ((ft_record_failure ''shell'' ''exit 1'' ^^ 2) (ft_record_success ''shell'' ft_default)) ''shell''"
  using rotation_at_threshold [of 2] by (simp add: ft_default_def ft_new_def)

end
