(* ===== verification/Watchdog.thy ===== *)
theory Watchdog
  imports Rust_Str
begin

text \<open>
  The process watchdog (\<open>skyclaw-agent/src/watchdog.rs\<close>): the health the callers report
  for three subsystems, and the count of consecutive health checks that found one of them
  unhealthy. The atomics and mutexes are read and written by one operation at a time; the
  clock readings (in nanoseconds) are arguments. What is logged is the value of
  \<open>log_transition\<close>.
\<close>

section \<open>State\<close>

datatype subsystem_status = Healthy | Degraded string | Unhealthy string

fun is_healthy :: "subsystem_status \<Rightarrow> bool" where
  "is_healthy Healthy \<longleftrightarrow> True"
| "is_healthy _ \<longleftrightarrow> False"

record health_report =
  provider_status :: subsystem_status
  memory_status :: subsystem_status
  channel_status :: subsystem_status
  hr_last_activity :: nat
  uptime :: nat
  checked_at :: nat

record watchdog_config =
  check_interval :: nat
  activity_timeout :: nat
  max_consecutive_failures :: u32

definition watchdog_config_default :: watchdog_config where
  "watchdog_config_default = \<lparr>check_interval = 60 * 10 ^ 9, activity_timeout = 30 * 60 * 10 ^ 9,
     max_consecutive_failures = 5\<rparr>"

record watchdog =
  wd_config :: watchdog_config
  wd_start_time :: nat
  wd_last_activity :: nat
  consecutive_failures :: u32
  provider_state :: subsystem_status
  memory_state :: subsystem_status
  channel_state :: subsystem_status

definition watchdog_new :: "nat \<Rightarrow> nat \<Rightarrow> watchdog_config \<Rightarrow> watchdog" where
  "watchdog_new now utc cfg = \<lparr>wd_config = cfg, wd_start_time = now, wd_last_activity = utc,
     consecutive_failures = 0, provider_state = Healthy, memory_state = Healthy, channel_state = Healthy\<rparr>"

section \<open>Operations\<close>

fun to_status :: "bool \<Rightarrow> string option \<Rightarrow> subsystem_status" where
  "to_status True None = Healthy"
| "to_status True (Some msg) = Degraded msg"
| "to_status False (Some msg) = Unhealthy msg"
| "to_status False None = Unhealthy ''unknown error''"

datatype log_line = Info string | Warn string string | Error string string

definition log_transition :: "string \<Rightarrow> subsystem_status \<Rightarrow> subsystem_status \<Rightarrow> log_line option" where
  "log_transition subsystem old new =
     (if old = new then None
      else case new of
          Healthy \<Rightarrow> Some (Info subsystem)
        | Degraded msg \<Rightarrow> Some (Warn subsystem msg)
        | Unhealthy msg \<Rightarrow> Some (Error subsystem msg))"

definition record_activity :: "nat \<Rightarrow> watchdog \<Rightarrow> watchdog" where
  "record_activity utc w = w\<lparr>wd_last_activity := utc\<rparr>"

definition report_provider_health :: "bool \<Rightarrow> string option \<Rightarrow> watchdog \<Rightarrow> watchdog" where
  "report_provider_health healthy detail w = w\<lparr>provider_state := to_status healthy detail\<rparr>"

definition report_memory_health :: "bool \<Rightarrow> string option \<Rightarrow> watchdog \<Rightarrow> watchdog" where
  "report_memory_health healthy detail w = w\<lparr>memory_state := to_status healthy detail\<rparr>"

definition report_channel_health :: "bool \<Rightarrow> string option \<Rightarrow> watchdog \<Rightarrow> watchdog" where
  "report_channel_health healthy detail w = w\<lparr>channel_state := to_status healthy detail\<rparr>"

fun is_unhealthy :: "subsystem_status \<Rightarrow> bool" where
  "is_unhealthy (Unhealthy _) \<longleftrightarrow> True"
| "is_unhealthy _ \<longleftrightarrow> False"

definition check_health :: "nat \<Rightarrow> nat \<Rightarrow> watchdog \<Rightarrow> health_report \<times> watchdog" where
  "check_health now utc w =
     (let any_unhealthy = is_unhealthy (provider_state w) \<or> is_unhealthy (memory_state w)
            \<or> is_unhealthy (channel_state w);
          w' = (if any_unhealthy then w\<lparr>consecutive_failures := consecutive_failures w + 1\<rparr>
                else if consecutive_failures w > 0 then w\<lparr>consecutive_failures := 0\<rparr> else w)
      in (\<lparr>provider_status = provider_state w, memory_status = memory_state w,
           channel_status = channel_state w, hr_last_activity = wd_last_activity w,
           uptime = now - wd_start_time w, checked_at = utc\<rparr>, w'))"

definition should_shutdown :: "watchdog \<Rightarrow> bool" where
  "should_shutdown w \<longleftrightarrow> consecutive_failures w > max_consecutive_failures (wd_config w)"

definition reset_failures :: "watchdog \<Rightarrow> watchdog" where
  "reset_failures w = w\<lparr>consecutive_failures := 0\<rparr>"

section \<open>The count of failing checks\<close>

text \<open>A check of a failed provider, and a check after all subsystems reported healthy.\<close>

definition failing_check :: "nat \<Rightarrow> nat \<Rightarrow> string option \<Rightarrow> watchdog \<Rightarrow> watchdog" where
  "failing_check now utc d w = snd (check_health now utc (report_provider_health False d w))"

definition passing_check :: "nat \<Rightarrow> nat \<Rightarrow> watchdog \<Rightarrow> watchdog" where
  "passing_check now utc w = snd (check_health now utc (report_channel_health True None
     (report_memory_health True None (report_provider_health True None w))))"

lemma to_status_unhealthy [simp]: "is_unhealthy (to_status healthy d) \<longleftrightarrow> \<not> healthy"
  by (cases "(healthy, d)" rule: to_status.cases) auto

lemma count_gt_0 [simp]: "(0 < (c :: u32)) \<longleftrightarrow> c \<noteq> 0"
  by (simp add: word_neq_0_conv)

lemma check_counter:
  "consecutive_failures (snd (check_health now utc w)) =
     (if is_unhealthy (provider_state w) \<or> is_unhealthy (memory_state w) \<or> is_unhealthy (channel_state w)
      then consecutive_failures w + 1 else 0)"
  by (simp add: check_health_def Let_def)

lemma check_keeps:
  "wd_config (snd (check_health now utc w)) = wd_config w"
  "provider_state (snd (check_health now utc w)) = provider_state w"
  "memory_state (snd (check_health now utc w)) = memory_state w"
  "channel_state (snd (check_health now utc w)) = channel_state w"
  by (simp_all add: check_health_def Let_def)

lemmas report_defs = report_provider_health_def report_memory_health_def report_channel_health_def

interpretation wd: failure_counter
  "\<lambda>w. unat (consecutive_failures w)" "failing_check now utc d" "passing_check now utc"
  should_shutdown "\<lambda>w. unat (max_consecutive_failures (wd_config w)) + 1" "2 ^ 32"
  for now utc d
proof unfold_locales
  fix w :: watchdog
  show "unat (consecutive_failures w) + 1 < 2 ^ 32 \<Longrightarrow>
      unat (consecutive_failures (failing_check now utc d w)) = unat (consecutive_failures w) + 1"
    by (simp add: failing_check_def check_counter report_defs unat_add_one_no_wrap)
  show "should_shutdown w \<longleftrightarrow> unat (max_consecutive_failures (wd_config w)) + 1 \<le> unat (consecutive_failures w)"
    by (simp add: should_shutdown_def word_less_nat_alt Suc_le_eq)
qed (simp_all add: failing_check_def passing_check_def check_counter check_keeps report_defs)

section \<open>Histories\<close>

datatype watchdog_event =
    Activity nat | Provider bool "string option" | MemoryBackend bool "string option"
  | ChannelHealth bool "string option" | Check nat nat | Reset

fun wd_step :: "watchdog \<Rightarrow> watchdog_event \<Rightarrow> watchdog" where
  "wd_step w (Activity utc) = record_activity utc w"
| "wd_step w (Provider h d) = report_provider_health h d w"
| "wd_step w (MemoryBackend h d) = report_memory_health h d w"
| "wd_step w (ChannelHealth h d) = report_channel_health h d w"
| "wd_step w (Check now utc) = snd (check_health now utc w)"
| "wd_step w Reset = reset_failures w"

text \<open>The specification, on the events from the newest to the oldest: the last report about each
  subsystem, and the failing checks since the last passing one.\<close>

fun last_provider :: "watchdog_event list \<Rightarrow> subsystem_status" where
  "last_provider [] = Healthy"
| "last_provider (Provider h d # es) = to_status h d"
| "last_provider (_ # es) = last_provider es"

fun last_memory :: "watchdog_event list \<Rightarrow> subsystem_status" where
  "last_memory [] = Healthy"
| "last_memory (MemoryBackend h d # es) = to_status h d"
| "last_memory (_ # es) = last_memory es"

fun last_channel :: "watchdog_event list \<Rightarrow> subsystem_status" where
  "last_channel [] = Healthy"
| "last_channel (ChannelHealth h d # es) = to_status h d"
| "last_channel (_ # es) = last_channel es"

fun failing_checks :: "watchdog_event list \<Rightarrow> nat" where
  "failing_checks [] = 0"
| "failing_checks (Check now utc # es) =
     (if is_unhealthy (last_provider es) \<or> is_unhealthy (last_memory es) \<or> is_unhealthy (last_channel es)
      then failing_checks es + 1 else 0)"
| "failing_checks (Reset # es) = 0"
| "failing_checks (_ # es) = failing_checks es"

text \<open>After any sequence of reports, checks and resets, each subsystem has the status of the last
  report about it, and, as long as fewer than \<open>2 ^ 32\<close> checks ran, the watchdog recommends
  shutdown exactly when more than \<open>max_consecutive_failures\<close> checks have failed since the last
  check that passed or the last reset.\<close>

theorem watchdog_refines_history:
  assumes "length es < 2 ^ 32"
  shows "let w = foldl wd_step (watchdog_new now utc cfg) es in
    provider_state w = last_provider (rev es) \<and> memory_state w = last_memory (rev es)
    \<and> channel_state w = last_channel (rev es)
    \<and> unat (consecutive_failures w) = failing_checks (rev es)
    \<and> (should_shutdown w \<longleftrightarrow> unat (max_consecutive_failures cfg) < failing_checks (rev es))"
proof -
  have "let w = foldl wd_step (watchdog_new now utc cfg) es in
    provider_state w = last_provider (rev es) \<and> memory_state w = last_memory (rev es)
    \<and> channel_state w = last_channel (rev es) \<and> wd_config w = cfg
    \<and> unat (consecutive_failures w) = failing_checks (rev es) \<and> failing_checks (rev es) \<le> length es"
    using assms
  proof (induction es rule: rev_induct)
    case (snoc e es)
    then show ?case
      by (cases e) (simp_all add: Let_def check_keeps check_counter report_defs record_activity_def
          reset_failures_def unat_add_one_no_wrap)
  qed (simp add: watchdog_new_def)
  then show ?thesis by (simp add: Let_def should_shutdown_def word_less_nat_alt)
qed

theorem watchdog_refines_history_witness:
  "should_shutdown (foldl wd_step (watchdog_new 0 0 watchdog_config_default)
     (Provider False None # [Check 1 1, Check 2 2, Check 3 3, Check 4 4, Check 5 5, Check 6 6]))"
proof -
  define es where "es = Provider False None # [Check 1 1, Check 2 2, Check 3 3, Check 4 4, Check 5 5, Check 6 6]"
  have "length es < 2 ^ 32" by (simp add: es_def)
  from watchdog_refines_history [OF this, of 0 0 watchdog_config_default]
  have "should_shutdown (foldl wd_step (watchdog_new 0 0 watchdog_config_default) es)
      \<longleftrightarrow> unat (max_consecutive_failures watchdog_config_default) < failing_checks (rev es)"
    unfolding Let_def by (elim conjE)
  moreover have "unat (max_consecutive_failures watchdog_config_default) < failing_checks (rev es)"
    by (simp add: es_def watchdog_config_default_def)
  ultimately show ?thesis unfolding es_def by (rule iffD2)
qed

text \<open>Of a run of \<open>n\<close> failing checks after a passing one, it is the check after
  \<open>max_consecutive_failures\<close> that makes the watchdog recommend shutdown: with exactly
  \<open>max_consecutive_failures\<close> failing checks it does not.\<close>

theorem shutdown_after_max_plus_one:
  assumes "0 < n" "n < 2 ^ 32"
  shows "should_shutdown ((failing_check now utc d ^^ n) (passing_check now utc w))
    \<longleftrightarrow> unat (max_consecutive_failures (wd_config w)) + 1 \<le> n"
  using wd.tripped_after_fails [OF assms] .

theorem shutdown_after_max_plus_one_witness:
  "\<not> should_shutdown ((failing_check 0 0 None ^^ 5) (passing_check 0 0 (watchdog_new 0 0 watchdog_config_default)))"
  using shutdown_after_max_plus_one [of 5 0 0 None "watchdog_new 0 0 watchdog_config_default"]
  by (simp add: watchdog_new_def watchdog_config_default_def)

end
