(* ===== verification/Task_Queue.thy ===== *)
theory Task_Queue
  imports Skyclaw_Types
begin

text \<open>
  The persistent task queue (\<open>skyclaw-agent/src/task_queue.rs\<close>): one SQLite table, here
  the list of its rows, with \<open>task_id\<close> as primary key. The statements mean what SQL says:
  an insertion of an existing key fails, an update touches the rows with the key, a
  selection filters and orders by the text of \<open>created_at\<close>. \<open>fault\<close> is the error the
  database may report instead; the time stamp an operation writes, the new task's UUID and
  chrono's parser \<open>parse_ts\<close> are parameters.
\<close>

section \<open>Rows and entries\<close>

datatype task_status = Pending | Running | Completed | Failed

fun as_str :: "task_status \<Rightarrow> string" where
  "as_str Pending = ''pending''"
| "as_str Running = ''running''"
| "as_str Completed = ''completed''"
| "as_str Failed = ''failed''"

definition status_from_str :: "string \<Rightarrow> task_status result" where
  "status_from_str s =
     (if s = ''pending'' then Inr Pending
      else if s = ''running'' then Inr Running
      else if s = ''completed'' then Inr Completed
      else if s = ''failed'' then Inr Failed
      else Inl (Internal (''Unknown task status: '' @ s)))"

record task_entry =
  task_id :: string
  te_chat_id :: string
  te_goal :: string
  te_status :: task_status
  checkpoint_data :: "string option"
  te_created_at :: int
  te_updated_at :: int

record task_row =
  tr_task_id :: string
  tr_chat_id :: string
  tr_goal :: string
  tr_status :: string
  tr_checkpoint_data :: "string option"
  tr_created_at :: string
  tr_updated_at :: string

type_synonym task_queue = "task_row list"

type_synonym parse_ts = "string \<Rightarrow> string + int"

definition row_to_entry :: "parse_ts \<Rightarrow> task_row \<Rightarrow> task_entry result" where
  "row_to_entry parse_ts row =
     bind_result (status_from_str (tr_status row)) (\<lambda>status.
     bind_result (map_error (\<lambda>e. Internal (''Invalid created_at: '' @ e)) (parse_ts (tr_created_at row))) (\<lambda>created.
     bind_result (map_error (\<lambda>e. Internal (''Invalid updated_at: '' @ e)) (parse_ts (tr_updated_at row))) (\<lambda>updated.
     Inr \<lparr>task_id = tr_task_id row, te_chat_id = tr_chat_id row, te_goal = tr_goal row, te_status = status,
          checkpoint_data = tr_checkpoint_data row, te_created_at = created, te_updated_at = updated\<rparr>)))"

section \<open>Operations\<close>

definition create_task :: "string option \<Rightarrow> string \<Rightarrow> string \<Rightarrow> string \<Rightarrow> string \<Rightarrow> task_queue \<Rightarrow>
    string result \<times> task_queue" where
  "create_task fault uuid now chat goal q = (case fault of
      Some e \<Rightarrow> (Inl (Internal (''TaskQueue create failed: '' @ e)), q)
    | None \<Rightarrow>
        if uuid \<in> set (map tr_task_id q)
        then (Inl (Internal (''TaskQueue create failed: UNIQUE constraint failed'')), q)
        else (Inr uuid, q @ [\<lparr>tr_task_id = uuid, tr_chat_id = chat, tr_goal = goal, tr_status = ''pending'',
                tr_checkpoint_data = None, tr_created_at = now, tr_updated_at = now\<rparr>]))"

definition update_rows :: "string \<Rightarrow> (task_row \<Rightarrow> task_row) \<Rightarrow> task_queue \<Rightarrow> task_queue" where
  "update_rows i f q = map (\<lambda>r. if tr_task_id r = i then f r else r) q"

definition update_status :: "string option \<Rightarrow> string \<Rightarrow> string \<Rightarrow> task_status \<Rightarrow> task_queue \<Rightarrow>
    unit result \<times> task_queue" where
  "update_status fault now i status q = (case fault of
      Some e \<Rightarrow> (Inl (Internal (''TaskQueue update_status failed: '' @ e)), q)
    | None \<Rightarrow> (Inr (), update_rows i (\<lambda>r. r\<lparr>tr_status := as_str status, tr_updated_at := now\<rparr>) q))"

definition checkpoint :: "string option \<Rightarrow> string \<Rightarrow> string \<Rightarrow> string \<Rightarrow> task_queue \<Rightarrow>
    unit result \<times> task_queue" where
  "checkpoint fault now i session_data q = (case fault of
      Some e \<Rightarrow> (Inl (Internal (''TaskQueue checkpoint failed: '' @ e)), q)
    | None \<Rightarrow> (Inr (), update_rows i (\<lambda>r. r\<lparr>tr_checkpoint_data := Some session_data, tr_updated_at := now\<rparr>) q))"

definition load_incomplete :: "parse_ts \<Rightarrow> string option \<Rightarrow> task_queue \<Rightarrow> task_entry list result" where
  "load_incomplete parse_ts fault q = (case fault of
      Some e \<Rightarrow> Inl (Internal (''TaskQueue load_incomplete failed: '' @ e))
    | None \<Rightarrow> collect_results (map (row_to_entry parse_ts)
        (sort_key tr_created_at (filter (\<lambda>r. tr_status r \<in> {''pending'', ''running''}) q))))"

definition list_tasks :: "parse_ts \<Rightarrow> string option \<Rightarrow> string option \<Rightarrow> task_queue \<Rightarrow> task_entry list result" where
  "list_tasks parse_ts fault chat q = (case fault of
      Some e \<Rightarrow> Inl (Internal (''TaskQueue list_tasks failed: '' @ e))
    | None \<Rightarrow> collect_results (map (row_to_entry parse_ts)
        (rev (sort_key tr_created_at (case chat of
           Some cid \<Rightarrow> filter (\<lambda>r. tr_chat_id r = cid) q | None \<Rightarrow> q)))))"

section \<open>Invariant\<close>

definition row_ok :: "parse_ts \<Rightarrow> task_row \<Rightarrow> bool" where
  "row_ok parse_ts r \<longleftrightarrow> (\<exists>s. tr_status r = as_str s) \<and> (\<exists>c. parse_ts (tr_created_at r) = Inr c)
     \<and> (\<exists>u. parse_ts (tr_updated_at r) = Inr u)"

definition queue_ok :: "parse_ts \<Rightarrow> task_queue \<Rightarrow> bool" where
  "queue_ok parse_ts q \<longleftrightarrow> distinct (map tr_task_id q) \<and> list_all (row_ok parse_ts) q"

lemma status_from_as_str [simp]: "status_from_str (as_str s) = Inr s"
  by (cases s) (simp_all add: status_from_str_def)

lemma as_str_inj [simp]: "as_str s = as_str t \<longleftrightarrow> s = t"
  by (cases s; cases t) simp_all

lemma as_str_incomplete: "as_str s \<in> {''pending'', ''running''} \<longleftrightarrow> s \<in> {Pending, Running}"
  by (cases s) simp_all

lemma update_rows_ids:
  assumes "\<And>r. tr_task_id (f r) = tr_task_id r"
  shows "map tr_task_id (update_rows i f q) = map tr_task_id q"
  using assms by (induction q) (simp_all add: update_rows_def)

lemma queue_ok_update:
  assumes "queue_ok p q" "\<And>r. tr_task_id (f r) = tr_task_id r" "\<And>r. row_ok p r \<Longrightarrow> row_ok p (f r)"
  shows "queue_ok p (update_rows i f q)"
proof -
  have "list_all (row_ok p) (update_rows i f q)"
    using assms(1,3) by (auto simp: queue_ok_def update_rows_def list_all_iff)
  then show ?thesis using assms(1) by (simp add: queue_ok_def update_rows_ids [OF assms(2)])
qed

lemma queue_ok_create:
  assumes "queue_ok p q" "p now = Inr t"
  shows "queue_ok p (snd (create_task fault uuid now chat goal q))"
proof -
  have "\<exists>s. ''pending'' = as_str s" by (rule exI [of _ Pending]) simp
  then have "row_ok p \<lparr>tr_task_id = uuid, tr_chat_id = chat, tr_goal = goal, tr_status = ''pending'',
      tr_checkpoint_data = None, tr_created_at = now, tr_updated_at = now\<rparr>"
    using assms(2) by (simp only: row_ok_def task_row.simps) blast
  then show ?thesis using assms(1) by (cases fault) (auto simp: queue_ok_def create_task_def)
qed

lemma queue_ok_update_status:
  assumes "queue_ok p q" "p now = Inr t"
  shows "queue_ok p (snd (update_status fault now i status q))"
proof (cases fault)
  case None
  have "queue_ok p (update_rows i (\<lambda>r. r\<lparr>tr_status := as_str status, tr_updated_at := now\<rparr>) q)"
    by (rule queue_ok_update [OF assms(1)]) (use assms(2) in \<open>auto simp: row_ok_def\<close>)
  then show ?thesis using None by (simp add: update_status_def)
qed (use assms in \<open>simp add: update_status_def\<close>)

text \<open>The operations keep the table well formed, whether the database fails or not: task ids
  stay unique, every status is one of the four names and every time stamp parses, provided
  that the time stamps the clock writes parse.\<close>

theorem queue_ok_preserved:
  assumes "queue_ok p q" "p now = Inr t"
  shows "queue_ok p [] \<and> queue_ok p (snd (create_task fault uuid now chat goal q))
    \<and> queue_ok p (snd (update_status fault now i status q))
    \<and> queue_ok p (snd (checkpoint fault now i d q))"
proof (intro conjI)
  show "queue_ok p (snd (create_task fault uuid now chat goal q))"
    by (rule queue_ok_create [OF assms])
  show "queue_ok p (snd (update_status fault now i status q))"
    by (rule queue_ok_update_status [OF assms])
  show "queue_ok p (snd (checkpoint fault now i d q))"
  proof (cases fault)
    case None
    have "queue_ok p (update_rows i (\<lambda>r. r\<lparr>tr_checkpoint_data := Some d, tr_updated_at := now\<rparr>) q)"
      by (rule queue_ok_update [OF assms(1)]) (use assms(2) in \<open>auto simp: row_ok_def\<close>)
    then show ?thesis using None by (simp add: checkpoint_def)
  qed (use assms in \<open>simp add: checkpoint_def\<close>)
qed (simp add: queue_ok_def)

section \<open>The queue as a map from ids to tasks\<close>

fun row_get :: "task_queue \<Rightarrow> string \<Rightarrow> task_row option" where
  "row_get [] i = None"
| "row_get (r # q) i = (if tr_task_id r = i then Some r else row_get q i)"

fun ok_value :: "'e + 'a \<Rightarrow> 'a option" where
  "ok_value (Inl e) = None"
| "ok_value (Inr x) = Some x"

definition task_of :: "parse_ts \<Rightarrow> task_queue \<Rightarrow> string \<Rightarrow> task_entry option" where
  "task_of p q i = Option.bind (row_get q i) (\<lambda>r. ok_value (row_to_entry p r))"

lemma row_get_None: "row_get q i = None \<longleftrightarrow> i \<notin> set (map tr_task_id q)"
  by (induction q) auto

lemma row_get_append: "i \<notin> set (map tr_task_id q) \<Longrightarrow>
    row_get (q @ [r]) j = (if j = i \<and> tr_task_id r = i then Some r else if j = i then None else row_get (q @ [r]) j)"
  by (induction q) auto

lemma row_get_snoc: "tr_task_id r \<notin> set (map tr_task_id q) \<Longrightarrow>
    row_get (q @ [r]) j = (if j = tr_task_id r then Some r else row_get q j)"
  by (induction q) auto

lemma row_get_update:
  assumes "\<And>r. tr_task_id (f r) = tr_task_id r"
  shows "row_get (update_rows i f q) j = (if j = i then map_option f (row_get q i) else row_get q j)"
  using assms by (induction q) (auto simp: update_rows_def)

lemma row_get_mem: "distinct (map tr_task_id q) \<Longrightarrow> row_get q i = Some r \<longleftrightarrow> r \<in> set q \<and> tr_task_id r = i"
  by (induction q) auto

lemma row_to_entry_ok: "row_ok p r \<Longrightarrow> \<exists>e. row_to_entry p r = Inr e"
  by (auto simp: row_ok_def row_to_entry_def map_error_def)

lemma row_to_entry_Inr:
  "row_to_entry p r = Inr e \<Longrightarrow> task_id e = tr_task_id r \<and> status_from_str (tr_status r) = Inr (te_status e)"
  by (auto simp: row_to_entry_def bind_result_Inr)

lemma row_to_entry_status:
  "row_to_entry p r = Inr e \<Longrightarrow> p now = Inr t \<Longrightarrow>
     row_to_entry p (r\<lparr>tr_status := as_str s, tr_updated_at := now\<rparr>) = Inr (e\<lparr>te_status := s, te_updated_at := t\<rparr>)"
  by (auto simp: row_to_entry_def map_error_def bind_result_Inr split: sum.splits)

lemma row_to_entry_checkpoint:
  "row_to_entry p r = Inr e \<Longrightarrow> p now = Inr t \<Longrightarrow>
     row_to_entry p (r\<lparr>tr_checkpoint_data := Some d, tr_updated_at := now\<rparr>)
       = Inr (e\<lparr>checkpoint_data := Some d, te_updated_at := t\<rparr>)"
  by (auto simp: row_to_entry_def map_error_def bind_result_Inr split: sum.splits)

lemma task_of_update:
  assumes "queue_ok p q" "\<And>r. tr_task_id (f r) = tr_task_id r"
    "\<And>r e. row_to_entry p r = Inr e \<Longrightarrow> row_to_entry p (f r) = Inr (g e)"
  shows "task_of p (update_rows i f q) = (task_of p q)(i := map_option g (task_of p q i))"
proof
  fix j
  show "task_of p (update_rows i f q) j = ((task_of p q)(i := map_option g (task_of p q i))) j"
  proof (cases "row_get q i")
    case (Some r)
    then have "row_ok p r" using assms(1) by (auto simp: queue_ok_def list_all_iff row_get_mem)
    then obtain e where "row_to_entry p r = Inr e" using row_to_entry_ok by blast
    then show ?thesis using Some assms(3) [of r e] by (simp add: task_of_def row_get_update [OF assms(2)])
  qed (simp add: task_of_def row_get_update [OF assms(2)])
qed

lemma load_incomplete_ok:
  assumes "queue_ok p q"
  shows "\<exists>es. load_incomplete p None q = Inr es \<and>
    map Inr es = map (row_to_entry p) (sort_key tr_created_at (filter (\<lambda>r. tr_status r \<in> {''pending'', ''running''}) q))"
proof -
  have "\<exists>es. map (row_to_entry p) rs = map Inr es" if rs: "set rs \<subseteq> set q" for rs
    using rs assms row_to_entry_ok by (induction rs) (auto simp: queue_ok_def list_all_iff, metis list.simps(9))
  from this [of "sort_key tr_created_at (filter (\<lambda>r. tr_status r \<in> {''pending'', ''running''}) q)"]
  obtain es where "map (row_to_entry p)
      (sort_key tr_created_at (filter (\<lambda>r. tr_status r \<in> {''pending'', ''running''}) q)) = map Inr es" by auto
  then show ?thesis unfolding load_incomplete_def option.case collect_results_Inr by metis
qed

lemma load_incomplete_members:
  assumes "queue_ok p q" "load_incomplete p None q = Inr es"
  shows "e \<in> set es \<longleftrightarrow> (\<exists>i. task_of p q i = Some e) \<and> te_status e \<in> {Pending, Running}"
proof -
  let ?inc = "\<lambda>r. tr_status r \<in> {''pending'', ''running''}"
  have "map Inr es = map (row_to_entry p) (sort_key tr_created_at (filter ?inc q))"
    using load_incomplete_ok [OF assms(1)] assms(2) by (metis sum.inject(2))
  from map_Inr_mem [OF this] have "e \<in> set es \<longleftrightarrow> (\<exists>r \<in> set q. ?inc r \<and> row_to_entry p r = Inr e)"
    unfolding set_sort set_filter by blast
  also have "\<dots> \<longleftrightarrow> (\<exists>r \<in> set q. row_to_entry p r = Inr e \<and> te_status e \<in> {Pending, Running})"
  proof -
    have "?inc r \<longleftrightarrow> te_status e \<in> {Pending, Running}" if r: "r \<in> set q" "row_to_entry p r = Inr e" for r
    proof -
      obtain s where "tr_status r = as_str s" using assms(1) r by (auto simp: queue_ok_def list_all_iff row_ok_def)
      then show ?thesis using row_to_entry_Inr [OF r(2)] as_str_incomplete [of s] by simp
    qed
    then show ?thesis by blast
  qed
  also have "\<dots> \<longleftrightarrow> (\<exists>i. task_of p q i = Some e) \<and> te_status e \<in> {Pending, Running}"
  proof -
    have "(\<exists>r \<in> set q. row_to_entry p r = Inr e) \<longleftrightarrow> (\<exists>i. task_of p q i = Some e)"
      using assms(1) by (force simp: task_of_def queue_ok_def row_get_mem bind_eq_Some_conv elim: ok_value.elims)
    then show ?thesis by blast
  qed
  finally show ?thesis .
qed

lemma load_incomplete_distinct:
  assumes "queue_ok p q" "load_incomplete p None q = Inr es"
  shows "distinct (map task_id es)"
proof -
  let ?rs = "sort_key tr_created_at (filter (\<lambda>r. tr_status r \<in> {''pending'', ''running''}) q)"
  have "map Inr es = map (row_to_entry p) ?rs"
    using load_incomplete_ok [OF assms(1)] assms(2) by (metis sum.inject(2))
  then have "map task_id es = map tr_task_id ?rs"
    by (rule map_Inr_transfer) (simp add: row_to_entry_Inr)
  moreover have "distinct (map tr_task_id (filter (\<lambda>r. tr_status r \<in> {''pending'', ''running''}) q))"
    using assms(1) unfolding queue_ok_def by (intro distinct_map_filter) simp
  then have "distinct (map tr_task_id ?rs)" by (simp only: distinct_map distinct_sort set_sort)
  ultimately show ?thesis by simp
qed

lemma task_of_update_status:
  assumes "queue_ok p q" "p now = Inr t"
  shows "task_of p (snd (update_status None now i s q)) =
    (task_of p q)(i := map_option (\<lambda>e. e\<lparr>te_status := s, te_updated_at := t\<rparr>) (task_of p q i))"
  unfolding update_status_def option.case snd_conv
  by (rule task_of_update [OF assms(1)]) (simp_all add: row_to_entry_status assms(2))


section \<open>Runs on a concrete queue\<close>

definition demo_queue :: task_queue where
  "demo_queue = [
     \<lparr>tr_task_id = ''t1'', tr_chat_id = ''c'', tr_goal = ''g'', tr_status = ''running'',
      tr_checkpoint_data = Some ''[]'', tr_created_at = ''2'', tr_updated_at = ''2''\<rparr>,
     \<lparr>tr_task_id = ''t2'', tr_chat_id = ''c'', tr_goal = ''h'', tr_status = ''completed'',
      tr_checkpoint_data = None, tr_created_at = ''1'', tr_updated_at = ''1''\<rparr>]"

definition demo_parse_ts :: parse_ts where
  "demo_parse_ts s = (if s = [] then Inl ''premature end of input'' else Inr (int (length s)))"

lemma demo_queue_ok: "queue_ok demo_parse_ts demo_queue"
proof -
  have "demo_parse_ts ''1'' = Inr 1" "demo_parse_ts ''2'' = Inr 1" "distinct (map tr_task_id demo_queue)"
    by (simp_all add: demo_parse_ts_def demo_queue_def)
  moreover have "''running'' = as_str Running" "''completed'' = as_str Completed" by simp_all
  ultimately show ?thesis by (simp only: queue_ok_def demo_queue_def list_all_iff row_ok_def ball_simps list.set task_row.simps) blast
qed

theorem queue_ok_preserved_witness:
  "queue_ok demo_parse_ts (snd (create_task None ''t3'' ''7'' ''c'' ''k'' demo_queue))"
proof -
  have "demo_parse_ts ''7'' = Inr 1" by (simp add: demo_parse_ts_def)
  from queue_ok_preserved [OF demo_queue_ok this] show ?thesis by blast
qed


end
