(* ===== verification/Recovery.thy ===== *)
theory Recovery
  imports Task_Queue
begin

text \<open>
  Recovery after a restart (\<open>skyclaw-agent/src/recovery.rs\<close>): the incomplete tasks of the
  queue are classified, checkpoints are read back, tasks that are too old are abandoned,
  and the users are told. \<open>parse_json\<close> is \<open>serde_json::from_str\<close>; times are nanoseconds, and
  \<open>now\<close> gives the clock reading when a task is classified.
\<close>

section \<open>Data\<close>

definition MAX_TASK_AGE_HOURS :: int where
  "MAX_TASK_AGE_HOURS = 24"

datatype recovery_action = Resume | Restart | Abandon string

record recovered_step =
  step_id :: string
  rs_tool_name :: string
  completed :: bool

record checkpoint_payload =
  history :: json
  completed_steps :: "recovered_step list"

record recovery_plan =
  plan_task_id :: string
  plan_chat_id :: string
  plan_goal :: string
  plan_checkpoint :: "checkpoint_payload option"
  recovery_action :: recovery_action
  plan_created_at :: int
  plan_updated_at :: int

type_synonym parse_json = "string \<Rightarrow> json option"

text \<open>The manager is the set of the ids it has recovered.\<close>

type_synonym recovery_manager = "string set"

definition manager_new :: recovery_manager where
  "manager_new = {}"

section \<open>Classification\<close>

definition hour_ns :: int where
  "hour_ns = 3600 * 10 ^ 9"

text \<open>The \<open>{:?}\<close> form of a status.\<close>

fun debug_status :: "task_status \<Rightarrow> string" where
  "debug_status Pending = ''Pending''"
| "debug_status Running = ''Running''"
| "debug_status Completed = ''Completed''"
| "debug_status Failed = ''Failed''"

definition classify_recovery :: "parse_json \<Rightarrow> int \<Rightarrow> task_entry \<Rightarrow> recovery_action" where
  "classify_recovery parse_json now task =
     (let age = now - te_created_at task;
          no_checkpoint = (case te_status task of
              Pending \<Rightarrow> Restart
            | Running \<Rightarrow> Restart
            | s \<Rightarrow> Abandon (''Unexpected status '' @ debug_status s @ '' in incomplete list''))
      in if age > MAX_TASK_AGE_HOURS * hour_ns
         then Abandon (''Task is '' @ nat_str (nat (age div hour_ns)) @ '' hours old (limit: ''
                @ nat_str (nat MAX_TASK_AGE_HOURS) @ ''h)'')
         else case checkpoint_data task of
             Some data \<Rightarrow>
               if data \<noteq> [] then (if parse_json data \<noteq> None then Resume else Restart) else no_checkpoint
           | None \<Rightarrow> no_checkpoint)"

section \<open>Reading a checkpoint back\<close>

fun json_array :: "json \<Rightarrow> json list option" where
  "json_array (JArray xs) = Some xs"
| "json_array _ = None"

definition get_str :: "json \<Rightarrow> string \<Rightarrow> string option" where
  "get_str v key = Option.bind (json_get v key) json_str"

definition str_or :: "string \<Rightarrow> string option \<Rightarrow> string" where
  "str_or d x = (case x of None \<Rightarrow> d | Some s \<Rightarrow> s)"

definition note_tool_use :: "(string, string) hmap \<Rightarrow> json \<Rightarrow> (string, string) hmap" where
  "note_tool_use uses part = (case (get_str part ''id'', get_str part ''name'') of
      (Some i, Some name) \<Rightarrow>
        if get_str part ''type'' = Some ''tool_use'' \<or> json_get part ''ToolUse'' \<noteq> None \<or> name \<noteq> []
        then hm_insert i name uses else uses
    | _ \<Rightarrow> uses)"

definition step_of_result :: "(string, string) hmap \<Rightarrow> json \<Rightarrow> recovered_step option" where
  "step_of_result uses part =
     (let i = str_or [] (get_str part ''tool_use_id'');
          is_error = (case Option.bind (json_get part ''is_error'') json_bool of None \<Rightarrow> False | Some b \<Rightarrow> b)
      in if i \<noteq> []
         then Some \<lparr>step_id = i, rs_tool_name = str_or ''unknown'' (hm_get uses i), completed = \<not> is_error\<rparr>
         else None)"

definition entry_parts :: "json \<Rightarrow> json list option" where
  "entry_parts entry = (case json_get entry ''content'' of
      Some (JArray arr) \<Rightarrow> Some arr
    | Some (JObject obj) \<Rightarrow> Some [JObject obj]
    | _ \<Rightarrow> None)"

fun entry_steps :: "(string, string) hmap \<Rightarrow> json list \<Rightarrow> recovered_step list" where
  "entry_steps uses [] = []"
| "entry_steps uses (entry # entries) =
     (let role = str_or [] (get_str entry ''role'')
      in case entry_parts entry of
           None \<Rightarrow> entry_steps uses entries
         | Some parts \<Rightarrow>
             (let uses' = (if role = ''Assistant'' \<or> role = ''assistant'' then foldl note_tool_use uses parts else uses);
                  steps = (if role = ''Tool'' \<or> role = ''tool'' then List.map_filter (step_of_result uses') parts else [])
              in steps @ entry_steps uses' entries))"

definition extract_completed_steps :: "json \<Rightarrow> recovered_step list" where
  "extract_completed_steps h = (case json_array h of None \<Rightarrow> [] | Some entries \<Rightarrow> entry_steps [] entries)"

definition parse_checkpoint :: "parse_json \<Rightarrow> string option \<Rightarrow> checkpoint_payload option" where
  "parse_checkpoint parse_json raw = do {
     data \<leftarrow> raw;
     if data = [] then None else do {
       v \<leftarrow> parse_json data;
       Some \<lparr>history = v, completed_steps = extract_completed_steps v\<rparr> } }"

section \<open>The scan\<close>

definition plan_of :: "parse_json \<Rightarrow> (task_entry \<Rightarrow> int) \<Rightarrow> task_entry \<Rightarrow> recovery_plan" where
  "plan_of parse_json now task =
     \<lparr>plan_task_id = task_id task, plan_chat_id = te_chat_id task, plan_goal = te_goal task,
      plan_checkpoint = parse_checkpoint parse_json (checkpoint_data task),
      recovery_action = classify_recovery parse_json (now task) task,
      plan_created_at = te_created_at task, plan_updated_at = te_updated_at task\<rparr>"

fun scan_tasks :: "parse_json \<Rightarrow> (task_entry \<Rightarrow> int) \<Rightarrow> task_entry list \<Rightarrow> recovery_manager \<Rightarrow>
    recovery_plan list \<times> recovery_manager" where
  "scan_tasks parse_json now [] recovered = ([], recovered)"
| "scan_tasks parse_json now (task # tasks) recovered =
     (if task_id task \<in> recovered then scan_tasks parse_json now tasks recovered
      else let (plans, recovered') = scan_tasks parse_json now tasks (insert (task_id task) recovered)
           in (plan_of parse_json now task # plans, recovered'))"

definition recover_incomplete_tasks ::
    "parse_json \<Rightarrow> (task_entry \<Rightarrow> int) \<Rightarrow> parse_ts \<Rightarrow> string option \<Rightarrow> task_queue \<Rightarrow> recovery_manager \<Rightarrow>
     recovery_plan list result \<times> recovery_manager" where
  "recover_incomplete_tasks parse_json now parse_ts fault q recovered =
     (case load_incomplete parse_ts fault q of
        Inl e \<Rightarrow> (Inl e, recovered)
      | Inr incomplete \<Rightarrow>
          (let (plans, recovered') = scan_tasks parse_json now incomplete recovered in (Inr plans, recovered')))"

definition is_recovered :: "recovery_manager \<Rightarrow> string \<Rightarrow> bool" where
  "is_recovered recovered i \<longleftrightarrow> i \<in> recovered"

definition recovered_count :: "recovery_manager \<Rightarrow> nat" where
  "recovered_count recovered = card recovered"

fun is_abandon :: "recovery_action \<Rightarrow> bool" where
  "is_abandon (Abandon _) \<longleftrightarrow> True"
| "is_abandon _ \<longleftrightarrow> False"

text \<open>\<open>fault i\<close> is the error of the database for task \<open>i\<close>; the first one ends the loop.\<close>

fun apply_abandonments :: "(string \<Rightarrow> string option) \<Rightarrow> string \<Rightarrow> nat \<Rightarrow> recovery_plan list \<Rightarrow> task_queue \<Rightarrow>
    nat result \<times> task_queue" where
  "apply_abandonments fault now count [] q = (Inr count, q)"
| "apply_abandonments fault now count (plan # plans) q =
     (if is_abandon (recovery_action plan)
      then (case update_status (fault (plan_task_id plan)) now (plan_task_id plan) Failed q of
              (Inl e, q') \<Rightarrow> (Inl e, q')
            | (Inr _, q') \<Rightarrow> apply_abandonments fault now (count + 1) plans q')
      else apply_abandonments fault now count plans q)"

section \<open>Notifications\<close>

text \<open>\<^const>\<open>None\<close> is the panic of a slice off a character boundary.\<close>

definition truncate_id :: "string \<Rightarrow> string option" where
  "truncate_id i = (if 8 < length i then slice_to i 8 else Some i)"

definition truncate_goal :: "string \<Rightarrow> nat \<Rightarrow> string option" where
  "truncate_goal goal max_len =
     (if length goal \<le> max_len then Some goal
      else map_option (\<lambda>g. g @ ''...'') (slice_to goal max_len))"

fun action_label :: "recovery_action \<Rightarrow> string" where
  "action_label Resume = ''Resuming from checkpoint''"
| "action_label Restart = ''Restarting from scratch''"
| "action_label (Abandon _) = ''Abandoned (too old)''"

definition step_info :: "recovery_plan \<Rightarrow> string" where
  "step_info plan = (case plan_checkpoint plan of
      None \<Rightarrow> []
    | Some cp \<Rightarrow> '' ['' @ nat_str (length (filter completed (completed_steps cp))) @ ''/''
        @ nat_str (length (completed_steps cp)) @ '' steps completed]'')"

definition plan_line :: "recovery_plan \<Rightarrow> string option" where
  "plan_line plan = do {
     i \<leftarrow> truncate_id (plan_task_id plan);
     g \<leftarrow> truncate_goal (plan_goal plan) 60;
     Some (''  - '' @ i @ '': '' @ [CHR 0x22] @ g @ [CHR 0x22] @ step_info plan @ '' -- ''
       @ action_label (recovery_action plan)) }"

definition format_recovery_notification :: "recovery_plan list \<Rightarrow> string option option" where
  "format_recovery_notification plans =
     (if plans = [] then Some None
      else do {
        lines \<leftarrow> those (map plan_line plans);
        let resumed = length (filter (\<lambda>p. recovery_action p = Resume) plans);
        let restarted = length (filter (\<lambda>p. recovery_action p = Restart) plans);
        let abandoned = length (filter (\<lambda>p. is_abandon (recovery_action p)) plans);
        Some (Some (join nl ([''System restarted. Recovering incomplete tasks:'' @ nl] @ lines
          @ [[], ''Summary: '' @ nat_str resumed @ '' resumed, '' @ nat_str restarted @ '' restarted, ''
             @ nat_str abandoned @ '' abandoned.'']))) })"

definition group_by_chat :: "recovery_plan list \<Rightarrow> (string, recovery_plan list) hmap" where
  "group_by_chat plans = foldl (\<lambda>m p. hm_insert (plan_chat_id p)
     ((case hm_get m (plan_chat_id p) of None \<Rightarrow> [] | Some ps \<Rightarrow> ps) @ [p]) m) [] plans"

definition format_per_chat_notifications :: "recovery_plan list \<Rightarrow> (string, string) hmap option" where
  "format_per_chat_notifications plans = foldl (\<lambda>acc (chat, ps). do {
      m \<leftarrow> acc;
      notification \<leftarrow> format_recovery_notification ps;
      Some (case notification of None \<Rightarrow> m | Some n \<Rightarrow> hm_insert chat n m) })
    (Some []) (group_by_chat plans)"

section \<open>What a scan does\<close>

lemma scan_tasks_correct:
  assumes "distinct (map task_id tasks)"
  shows "scan_tasks parse_json now tasks recovered =
    (map (plan_of parse_json now) (filter (\<lambda>t. task_id t \<notin> recovered) tasks),
     recovered \<union> set (map task_id tasks))"
  using assms
proof (induction tasks arbitrary: recovered)
  case (Cons t tasks)
  have "filter (\<lambda>u. task_id u \<noteq> task_id t \<and> task_id u \<notin> recovered) tasks = filter (\<lambda>u. task_id u \<notin> recovered) tasks"
    using Cons.prems by (intro filter_cong) (auto simp: image_iff)
  then show ?case using Cons by (auto simp: insert_absorb)
qed simp

lemma parse_checkpoint_Some:
  "parse_checkpoint parse_json raw \<noteq> None \<longleftrightarrow> (\<exists>d. raw = Some d \<and> d \<noteq> [] \<and> parse_json d \<noteq> None)"
  by (cases raw) (auto simp: parse_checkpoint_def split: option.splits Option.bind_splits)

lemma classify_cases:
  "te_status task \<in> {Pending, Running} \<Longrightarrow>
   (is_abandon (classify_recovery parse_json now task) \<longleftrightarrow> now - te_created_at task > MAX_TASK_AGE_HOURS * hour_ns)
   \<and> (classify_recovery parse_json now task = Resume \<longleftrightarrow> \<not> now - te_created_at task > MAX_TASK_AGE_HOURS * hour_ns
        \<and> parse_checkpoint parse_json (checkpoint_data task) \<noteq> None)"
  unfolding parse_checkpoint_Some
  by (cases "checkpoint_data task") (auto simp: classify_recovery_def Let_def split: if_splits)


section \<open>Abandoning\<close>

text \<open>
  What recovery needs of a task store: failing a task takes it, and no other, off the list of
  incomplete tasks.
\<close>

locale task_store =
  fixes incomplete :: "'q \<Rightarrow> string set"
    and set_failed :: "string \<Rightarrow> 'q \<Rightarrow> 'q"
    and store_ok :: "'q \<Rightarrow> bool"
  assumes store_ok_failed: "store_ok q \<Longrightarrow> store_ok (set_failed i q)"
    and incomplete_failed: "store_ok q \<Longrightarrow> incomplete (set_failed i q) = incomplete q - {i}"
begin

lemma fail_all: "store_ok q \<Longrightarrow> store_ok (fold set_failed is q) \<and> incomplete (fold set_failed is q) = incomplete q - set is"
  by (induction "is" arbitrary: q) (auto simp: store_ok_failed incomplete_failed)

end

definition incomplete_ids :: "parse_ts \<Rightarrow> task_queue \<Rightarrow> string set" where
  "incomplete_ids p q = (case load_incomplete p None q of Inl _ \<Rightarrow> {} | Inr es \<Rightarrow> task_id ` set es)"

definition queue_set_failed :: "string \<Rightarrow> string \<Rightarrow> task_queue \<Rightarrow> task_queue" where
  "queue_set_failed now i q = snd (update_status None now i Failed q)"

lemma task_of_id: "task_of p q i = Some e \<Longrightarrow> task_id e = i"
proof -
  have "row_get q i = Some r \<Longrightarrow> tr_task_id r = i" for r
    by (induction q) (auto split: if_splits)
  then show "task_of p q i = Some e \<Longrightarrow> task_id e = i"
    by (auto simp: task_of_def bind_eq_Some_conv row_to_entry_Inr elim!: ok_value.elims)
qed

lemma incomplete_ids_iff:
  assumes "queue_ok p q"
  shows "i \<in> incomplete_ids p q \<longleftrightarrow> (\<exists>e. task_of p q i = Some e \<and> te_status e \<in> {Pending, Running})"
proof -
  obtain es where es: "load_incomplete p None q = Inr es"
    using load_incomplete_ok [OF assms] by blast
  then show ?thesis
    using load_incomplete_members [OF assms es] task_of_id by (auto simp: incomplete_ids_def image_iff) metis+
qed

lemma queue_set_failed_of:
  "queue_ok p q \<Longrightarrow> p now = Inr t \<Longrightarrow> queue_ok p (queue_set_failed now i q)
   \<and> task_of p (queue_set_failed now i q) =
       (task_of p q)(i := map_option (\<lambda>e. e\<lparr>te_status := Failed, te_updated_at := t\<rparr>) (task_of p q i))"
  unfolding queue_set_failed_def using queue_ok_update_status task_of_update_status by blast

text \<open>The queue is such a store, with any clock whose stamps the parser reads.\<close>

interpretation tq: task_store "incomplete_ids p" "queue_set_failed now"
    "\<lambda>q. queue_ok p q \<and> (\<exists>t. p now = Inr t)" for p now
proof unfold_locales
  fix q i
  assume ok: "queue_ok p q \<and> (\<exists>t. p now = Inr t)"
  then obtain t where t: "p now = Inr t" by blast
  note failed = queue_set_failed_of [of p q now t i]
  show "queue_ok p (queue_set_failed now i q) \<and> (\<exists>t. p now = Inr t)"
    using failed ok t by blast
  show "incomplete_ids p (queue_set_failed now i q) = incomplete_ids p q - {i}"
  proof (rule set_eqI)
    fix j
    show "j \<in> incomplete_ids p (queue_set_failed now i q) \<longleftrightarrow> j \<in> incomplete_ids p q - {i}"
      using failed ok t by (cases "j = i"; cases "task_of p q i") (auto simp: incomplete_ids_iff)
  qed
qed

lemma apply_abandonments_fold:
  "(\<And>i. fault i = None) \<Longrightarrow> apply_abandonments fault now n plans q =
     (Inr (n + length (filter (\<lambda>pl. is_abandon (recovery_action pl)) plans)),
      fold (queue_set_failed now) (map plan_task_id (filter (\<lambda>pl. is_abandon (recovery_action pl)) plans)) q)"
  by (induction plans arbitrary: n q) (auto simp: update_status_def queue_set_failed_def)

text \<open>Applying the plans takes exactly the abandoned tasks off the list of incomplete ones, so the
  next start does not see them again, and keeps every other incomplete task on it.\<close>

theorem abandonments_applied:
  assumes "queue_ok p q" "p now = Inr t" "\<And>i. fault i = None"
  shows "\<exists>q'. apply_abandonments fault now 0 plans q =
      (Inr (length (filter (\<lambda>pl. is_abandon (recovery_action pl)) plans)), q')
    \<and> queue_ok p q'
    \<and> incomplete_ids p q' = incomplete_ids p q - {plan_task_id pl | pl. pl \<in> set plans \<and> is_abandon (recovery_action pl)}"
proof -
  have "set (map plan_task_id (filter (\<lambda>pl. is_abandon (recovery_action pl)) plans))
      = {plan_task_id pl | pl. pl \<in> set plans \<and> is_abandon (recovery_action pl)}" by auto
  moreover have "queue_ok p q \<and> (\<exists>t. p now = Inr t)" using assms by blast
  from tq.fail_all [OF this] have "queue_ok p (fold (queue_set_failed now) is q)"
      "incomplete_ids p (fold (queue_set_failed now) is q) = incomplete_ids p q - set is" for "is" by blast+
  ultimately show ?thesis using apply_abandonments_fold [of fault now 0 plans q] assms(3) by simp
qed

section \<open>Notifications can panic\<close>

lemma truncate_goal_None: "truncate_goal g n = None \<longleftrightarrow> n < length g \<and> \<not> is_char_boundary g n"
  by (auto simp: truncate_goal_def slice_to_def)

lemma truncate_id_None: "truncate_id i = None \<longleftrightarrow> 8 < length i \<and> \<not> is_char_boundary i 8"
  by (simp add: truncate_id_def slice_to_def)

lemma plan_line_None:
  "plan_line pl = None \<longleftrightarrow> truncate_id (plan_task_id pl) = None \<or> truncate_goal (plan_goal pl) 60 = None"
  by (cases "truncate_id (plan_task_id pl)"; cases "truncate_goal (plan_goal pl) 60") (auto simp: plan_line_def)

lemma those_None: "those xs = None \<longleftrightarrow> None \<in> set xs"
  by (induction xs) (auto split: option.splits)

text \<open>Formatting the notification panics exactly when some plan's task id is longer than 8 bytes
  or its goal longer than 60 and that position is inside a character; otherwise it returns a
  text for every non-empty list of plans.\<close>

theorem notification_panics_iff:
  "format_recovery_notification plans = None \<longleftrightarrow> (\<exists>pl. pl \<in> set plans
     \<and> (8 < length (plan_task_id pl) \<and> \<not> is_char_boundary (plan_task_id pl) 8
        \<or> 60 < length (plan_goal pl) \<and> \<not> is_char_boundary (plan_goal pl) 60))"
proof (cases "plans = []")
  case False
  have "format_recovery_notification plans = None \<longleftrightarrow> those (map plan_line plans) = None"
    using False by (cases "those (map plan_line plans)") (simp_all add: format_recovery_notification_def)
  then show ?thesis
    by (auto simp: those_None plan_line_None truncate_id_None truncate_goal_None image_iff eq_commute [of None])
qed (simp add: format_recovery_notification_def)

text \<open>A goal in a script with three-byte characters, such as Chinese, reaches that panic.\<close>

definition cjk_goal :: string where
  "cjk_goal = CHR ''a'' # concat (replicate 20 [CHR 0xE3, CHR 0x81, CHR 0x82])"

lemma truncate_goal_panics: "utf8_valid cjk_goal \<and> truncate_goal cjk_goal 60 = None"
  by code_simp

section \<open>Runs on a concrete queue\<close>


definition demo_plan :: recovery_plan where
  "demo_plan = \<lparr>plan_task_id = ''t1'', plan_chat_id = ''c'', plan_goal = ''g'', plan_checkpoint = None,
     recovery_action = Abandon ''old'', plan_created_at = 2, plan_updated_at = 2\<rparr>"

theorem abandonments_applied_witness:
  "\<exists>q'. apply_abandonments (\<lambda>_. None) ''7'' 0 [demo_plan] demo_queue = (Inr 1, q')
     \<and> ''t1'' \<notin> incomplete_ids demo_parse_ts q'"
proof -
  have "demo_parse_ts ''7'' = Inr 1" by (simp add: demo_parse_ts_def)
  moreover have "is_abandon (recovery_action demo_plan)" "plan_task_id demo_plan = ''t1''" by code_simp+
  ultimately show ?thesis
    using abandonments_applied [OF demo_queue_ok, of "''7''" 1 "\<lambda>_. None" "[demo_plan]"] by auto
qed

end
