(* ===== verification/Setup_Tokens.thy ===== *)
theory Setup_Tokens
  imports Rust_Str
begin

text \<open>
  The one-time keys of the setup links (\<open>skyclaw-gateway/src/setup_tokens.rs\<close>): one token per
  chat, valid once and for the time to live. The random bytes, the clock (nanoseconds of the
  monotonic \<open>Instant\<close>) and the \<open>hex\<close> crate's encoder are arguments.
\<close>

record setup_token =
  otk :: "u8 list"
  created_at :: nat

record token_store =
  tokens :: "(string, setup_token) hmap"
  ttl :: nat

definition store_new :: token_store where
  "store_new = \<lparr>tokens = [], ttl = 600 * 10 ^ 9\<rparr>"

definition store_with_ttl :: "nat \<Rightarrow> token_store" where
  "store_with_ttl t = \<lparr>tokens = [], ttl = t\<rparr>"

definition generate :: "u8 list \<Rightarrow> nat \<Rightarrow> string \<Rightarrow> token_store \<Rightarrow> u8 list \<times> token_store" where
  "generate key now chat s = (key, s\<lparr>tokens := hm_insert chat \<lparr>otk = key, created_at = now\<rparr> (tokens s)\<rparr>)"

definition consume :: "nat \<Rightarrow> string \<Rightarrow> token_store \<Rightarrow> u8 list option \<times> token_store" where
  "consume now chat s = (case hm_get (tokens s) chat of
      None \<Rightarrow> (None, s)
    | Some t \<Rightarrow> (if now - created_at t > ttl s then None else Some (otk t),
                s\<lparr>tokens := hm_remove chat (tokens s)\<rparr>))"

definition cleanup_expired :: "nat \<Rightarrow> token_store \<Rightarrow> token_store" where
  "cleanup_expired now s = s\<lparr>tokens := filter (\<lambda>(_, t). now - created_at t \<le> ttl s) (tokens s)\<rparr>"

definition generate_link :: "(u8 list \<Rightarrow> string) \<Rightarrow> u8 list \<Rightarrow> nat \<Rightarrow> string \<Rightarrow> token_store \<Rightarrow> string \<times> token_store" where
  "generate_link hex_encode key now chat s =
     (let (k, s') = generate key now chat s
      in (''https://nagisanzenin.github.io/skyclaw/setup#'' @ hex_encode k, s'))"

section \<open>Histories\<close>

datatype token_event = Generate string "u8 list" nat | Consume string nat | Cleanup nat

fun token_step :: "token_store \<Rightarrow> token_event \<Rightarrow> token_store" where
  "token_step s (Generate chat key now) = snd (generate key now chat s)"
| "token_step s (Consume chat now) = snd (consume now chat s)"
| "token_step s (Cleanup now) = cleanup_expired now s"

text \<open>The specification, from the newest event to the oldest: the token a chat can still use.\<close>

fun outstanding :: "nat \<Rightarrow> string \<Rightarrow> token_event list \<Rightarrow> setup_token option" where
  "outstanding life chat [] = None"
| "outstanding life chat (Generate c key now # older) =
     (if c = chat then Some \<lparr>otk = key, created_at = now\<rparr> else outstanding life chat older)"
| "outstanding life chat (Consume c now # older) = (if c = chat then None else outstanding life chat older)"
| "outstanding life chat (Cleanup now # older) = (case outstanding life chat older of
      None \<Rightarrow> None
    | Some t \<Rightarrow> if now - created_at t \<le> life then Some t else None)"

lemma hm_get_filter:
  "hm_ok m \<Longrightarrow> hm_get (filter (\<lambda>(_, v). P v) m) k = (case hm_get m k of None \<Rightarrow> None | Some v \<Rightarrow> if P v then Some v else None)"
proof (induction m)
  case (Cons x m)
  obtain k' v where x: "x = (k', v)" by fastforce
  have rest: "hm_ok m" "k' = k \<Longrightarrow> hm_get m k = None"
    using Cons.prems x by (auto simp: hm_ok_def hm_get_def map_of_eq_None_iff)
  then show ?case using Cons.IH x by (cases "k' = k") (auto simp: hm_get_Cons split: option.splits)
qed simp

lemma hm_ok_filter: "hm_ok m \<Longrightarrow> hm_ok (filter P m)"
  by (simp add: hm_ok_def distinct_map_filter)

lemma ttl_step [simp]: "ttl (token_step s e) = ttl s"
  by (cases e) (auto simp: generate_def consume_def cleanup_expired_def split: option.splits)

lemma hm_ok_step: "hm_ok (tokens s) \<Longrightarrow> hm_ok (tokens (token_step s e))"
  by (cases e) (auto simp: generate_def consume_def cleanup_expired_def hm_ok_filter split: option.splits)

lemma tokens_run:
  "ttl (foldl token_step (store_with_ttl life) es) = life
   \<and> hm_ok (tokens (foldl token_step (store_with_ttl life) es))
   \<and> hm_get (tokens (foldl token_step (store_with_ttl life) es)) chat = outstanding life chat (rev es)"
proof (induction es rule: rev_induct)
  case Nil
  then show ?case by (simp add: store_with_ttl_def)
next
  case (snoc e es)
  then show ?case
    by (cases e) (auto simp: generate_def consume_def cleanup_expired_def hm_get_filter hm_ok_filter
        split: option.splits)
qed

text \<open>C24: After any history of generated links, consumptions and clean-ups, consuming a chat's key
  returns exactly the key of the last link generated for that chat, if it has neither been
  consumed nor cleaned up since and is not older than the time to live; in every case a
  second consumption returns nothing.\<close>

theorem consume_refines_history:
  fixes es :: "token_event list" and life :: nat
  defines "s \<equiv> foldl token_step (store_with_ttl life) es"
  shows "fst (consume now chat s) = (case outstanding life chat (rev es) of
      None \<Rightarrow> None
    | Some t \<Rightarrow> if now - created_at t \<le> life then Some (otk t) else None)
    \<and> fst (consume now' chat (snd (consume now chat s))) = None"
  using tokens_run [of life es chat] unfolding s_def [symmetric]
  by (auto simp: consume_def split: option.splits)

text \<open>When the clock does not run backwards, cleaning up expired tokens is invisible: no later
  consumption returns anything else because of it.\<close>

theorem cleanup_unobservable:
  assumes "hm_ok (tokens s)" "now \<le> now'"
  shows "fst (consume now' chat (cleanup_expired now s)) = fst (consume now' chat s)"
  using assms by (auto simp: consume_def cleanup_expired_def hm_get_filter split: option.splits)

theorem cleanup_unobservable_witness:
  "fst (consume 9 ''c'' (cleanup_expired 7 (snd (generate [1, 2] 1 ''c'' (store_with_ttl 8))))) = Some [1, 2]"
  using cleanup_unobservable [of "snd (generate [1, 2] 1 ''c'' (store_with_ttl 8))" 7 9 "''c''"]
  by (simp add: generate_def store_with_ttl_def consume_def)

end
