(* ===== verification/Session_Manager.thy ===== *)
theory Session_Manager
  imports Skyclaw_Types
begin

text \<open>
  The gateway's session manager (\<open>skyclaw-gateway/src/session.rs\<close>): the active sessions by
  key, and the order of the last accesses for the eviction of the least recently used. The
  two locks are taken by one operation at a time. \<open>cwd\<close> is the working directory of the
  process, \<^const>\<open>None\<close> when it cannot be read.
\<close>

definition MAX_SESSIONS :: nat where
  "MAX_SESSIONS = 1000"

definition MAX_HISTORY_PER_SESSION :: nat where
  "MAX_HISTORY_PER_SESSION = 200"

record session_manager =
  sessions :: "(string, session_context) hmap"
  access_order :: "string list"

definition sm_new :: session_manager where
  "sm_new = \<lparr>sessions = [], access_order = []\<rparr>"

definition session_key :: "string \<Rightarrow> string \<Rightarrow> string \<Rightarrow> string" where
  "session_key channel chat user = channel @ '':'' @ chat @ '':'' @ user"

definition touch_access_order :: "string \<Rightarrow> session_manager \<Rightarrow> session_manager" where
  "touch_access_order key m = m\<lparr>access_order := filter (\<lambda>k. k \<noteq> key) (access_order m) @ [key]\<rparr>"

definition make_session :: "string option \<Rightarrow> string \<Rightarrow> string \<Rightarrow> string \<Rightarrow> string \<Rightarrow> session_context" where
  "make_session cwd channel chat user key =
     \<lparr>session_id = key, sess_channel = channel, sess_chat_id = chat, sess_user_id = user, sess_history = [],
      workspace_path = (case cwd of Some d \<Rightarrow> d | None \<Rightarrow> ''/tmp'')\<rparr>"

text \<open>The eviction loop: oldest first, until there is room or no order is left.\<close>

fun evict :: "(string, session_context) hmap \<Rightarrow> string list \<Rightarrow> (string, session_context) hmap \<times> string list" where
  "evict ss [] = (ss, [])"
| "evict ss (k # order) =
     (if MAX_SESSIONS \<le> length ss then evict (hm_remove k ss) order else (ss, k # order))"

definition get_or_create_session :: "string option \<Rightarrow> string \<Rightarrow> string \<Rightarrow> string \<Rightarrow> session_manager \<Rightarrow>
    session_context \<times> session_manager" where
  "get_or_create_session cwd channel chat user m =
     (let key = session_key channel chat user
      in case hm_get (sessions m) key of
           Some session \<Rightarrow> (session, touch_access_order key m)
         | None \<Rightarrow>
             (let (ss, order) = evict (sessions m) (access_order m);
                  session = make_session cwd channel chat user key
              in (session, \<lparr>sessions = hm_insert key session ss, access_order = order @ [key]\<rparr>)))"

definition truncate_history :: "session_context \<Rightarrow> session_context" where
  "truncate_history s =
     (if MAX_HISTORY_PER_SESSION < length (sess_history s)
      then s\<lparr>sess_history := drop (length (sess_history s) - MAX_HISTORY_PER_SESSION) (sess_history s)\<rparr>
      else s)"

definition update_session :: "session_context \<Rightarrow> session_manager \<Rightarrow> session_manager" where
  "update_session session m =
     (let key = session_key (sess_channel session) (sess_chat_id session) (sess_user_id session)
      in touch_access_order key (m\<lparr>sessions := hm_insert key (truncate_history session) (sessions m)\<rparr>))"

definition remove_session :: "string \<Rightarrow> string \<Rightarrow> string \<Rightarrow> session_manager \<Rightarrow> session_manager" where
  "remove_session channel chat user m =
     (let key = session_key channel chat user
      in \<lparr>sessions = hm_remove key (sessions m), access_order = filter (\<lambda>k. k \<noteq> key) (access_order m)\<rparr>)"

definition session_count :: "session_manager \<Rightarrow> nat" where
  "session_count m = length (sessions m)"

section \<open>Invariant\<close>

text \<open>The access order lists the active sessions, each once; no history is too long.\<close>

definition sm_ok :: "session_manager \<Rightarrow> bool" where
  "sm_ok m \<longleftrightarrow> hm_ok (sessions m) \<and> distinct (access_order m)
     \<and> set (access_order m) = set (hm_keys (sessions m))
     \<and> (\<forall>k s. hm_get (sessions m) k = Some s \<longrightarrow> length (sess_history s) \<le> MAX_HISTORY_PER_SESSION)"

lemma sm_ok_length: "sm_ok m \<Longrightarrow> length (access_order m) = length (sessions m)"
  unfolding sm_ok_def hm_ok_keys by (metis distinct_card hm_keys_def length_map)

lemma sm_ok_touch: "sm_ok m \<Longrightarrow> key \<in> set (hm_keys (sessions m)) \<Longrightarrow> sm_ok (touch_access_order key m)"
  by (auto simp: sm_ok_def touch_access_order_def)

text \<open>Eviction removes the oldest keys, as many as needed, and nothing else.\<close>

lemma evict_correct:
  assumes "hm_ok ss" "distinct order" "set order = set (hm_keys ss)"
  shows "\<exists>n. n = length ss - (MAX_SESSIONS - 1) \<and> snd (evict ss order) = drop n order
    \<and> hm_ok (fst (evict ss order))
    \<and> (\<forall>k. hm_get (fst (evict ss order)) k = (if k \<in> set (take n order) then None else hm_get ss k))
    \<and> length (fst (evict ss order)) = length ss - n"
  using assms
proof (induction ss order rule: evict.induct)
  case (1 ss)
  then show ?case by (simp add: hm_keys_def)
next
  case (2 ss k order)
  have "k \<in> set (hm_keys ss)" using "2.prems"(3) by auto
  then have len: "length (hm_remove k ss) = length ss - 1"
    using "2.prems"(1) by (simp add: hm_length_remove)
  have pos: "0 < length ss" using 2 by (cases ss) (auto simp: hm_keys_def)
  show ?case
  proof (cases "MAX_SESSIONS \<le> length ss")
    case True
    have "set order = set (hm_keys (hm_remove k ss))"
      using 2 by (auto simp: hm_keys_remove)
    then obtain n where n: "n = length ss - 1 - (MAX_SESSIONS - 1)"
      "snd (evict (hm_remove k ss) order) = drop n order" "hm_ok (fst (evict (hm_remove k ss) order))"
      "\<forall>k'. hm_get (fst (evict (hm_remove k ss) order)) k' =
         (if k' \<in> set (take n order) then None else hm_get (hm_remove k ss) k')"
      "length (fst (evict (hm_remove k ss) order)) = length ss - 1 - n"
      using "2.IH" [OF True] "2.prems" len by auto
    have "length ss - (MAX_SESSIONS - 1) = Suc n" using n(1) True pos by (simp add: MAX_SESSIONS_def)
    then show ?thesis using n True by auto
  next
    case False
    then have "length ss - (MAX_SESSIONS - 1) = 0" by (simp add: MAX_SESSIONS_def)
    then show ?thesis using False "2.prems" by simp
  qed
qed

lemma evict_keys: "hm_ok ss \<Longrightarrow> distinct order \<Longrightarrow> set order = set (hm_keys ss) \<Longrightarrow>
    set (hm_keys (fst (evict ss order))) = set (snd (evict ss order))"
proof (induction ss order rule: evict.induct)
  case (2 ss k order)
  then have "set order = set (hm_keys (hm_remove k ss))" by (auto simp: hm_keys_remove)
  then show ?case using 2 by simp
qed simp

lemma get_or_create_ok:
  assumes "sm_ok m"
  shows "sm_ok (snd (get_or_create_session cwd channel chat user m))"
proof -
  let ?key = "session_key channel chat user"
  show ?thesis
  proof (cases "hm_get (sessions m) ?key")
    case (Some s)
    then have "?key \<in> set (hm_keys (sessions m))" using hm_get_None_iff by (metis option.distinct(1))
    then show ?thesis using Some sm_ok_touch [OF assms] by (simp add: get_or_create_session_def Let_def)
  next
    case None
    obtain ss order where e: "evict (sessions m) (access_order m) = (ss, order)" by fastforce
    have m: "hm_ok (sessions m)" "distinct (access_order m)" "set (access_order m) = set (hm_keys (sessions m))"
      using assms by (auto simp: sm_ok_def)
    obtain n where n: "order = drop n (access_order m)" "hm_ok ss"
      "\<forall>k. hm_get ss k = (if k \<in> set (take n (access_order m)) then None else hm_get (sessions m) k)"
      using evict_correct [OF m] e by auto
    have keys: "set (hm_keys ss) = set order" using evict_keys [OF m] e by simp
    have new: "?key \<notin> set order"
      using None m(3) n(1) hm_get_None_iff in_set_dropD by metis
    have "\<forall>k s. hm_get ss k = Some s \<longrightarrow> length (sess_history s) \<le> MAX_HISTORY_PER_SESSION"
      using n(3) assms by (auto simp: sm_ok_def split: if_splits)
    then have "sm_ok \<lparr>sessions = hm_insert ?key (make_session cwd channel chat user ?key) ss,
        access_order = order @ [?key]\<rparr>"
      using n(1,2) m(2) keys new by (simp add: sm_ok_def hm_keys_insert make_session_def)
    then show ?thesis using None e by (simp add: get_or_create_session_def Let_def)
  qed
qed

lemma update_session_ok:
  assumes "sm_ok m"
  shows "sm_ok (update_session s m)"
proof -
  have "length (sess_history (truncate_history s)) \<le> MAX_HISTORY_PER_SESSION"
    by (simp add: truncate_history_def)
  then show ?thesis
    using assms by (auto simp: sm_ok_def update_session_def touch_access_order_def Let_def hm_keys_insert)
qed

text \<open>C39: Every operation keeps the manager consistent: the access order lists each active session
  exactly once, and no stored history exceeds \<open>MAX_HISTORY_PER_SESSION\<close> messages.\<close>

theorem sm_ok_preserved:
  assumes "sm_ok m"
  shows "sm_ok sm_new \<and> sm_ok (snd (get_or_create_session cwd channel chat user m))
    \<and> sm_ok (update_session s m) \<and> sm_ok (remove_session channel chat user m)"
proof (intro conjI)
  show "sm_ok (remove_session channel chat user m)"
    using assms by (auto simp: sm_ok_def remove_session_def Let_def hm_keys_remove)
qed (simp_all add: assms get_or_create_ok update_session_ok, simp add: sm_ok_def sm_new_def hm_keys_def)

theorem sm_ok_preserved_witness:
  "sm_ok (snd (get_or_create_session None ''cli'' ''c'' ''u'' sm_new))"
proof -
  have "sm_ok sm_new" by (simp add: sm_ok_def sm_new_def hm_keys_def)
  from sm_ok_preserved [OF this] show ?thesis by blast
qed

text \<open>C25: Asking for a session that exists returns it and changes no session. Asking for a new one
  leaves at most \<open>MAX_SESSIONS\<close> sessions: the least recently used are evicted, exactly as
  many as it takes, every other session keeps its state and its place in the order, and the
  new one is empty and the most recently used.\<close>

theorem get_or_create_lru:
  fixes m :: session_manager and channel chat user :: string and cwd :: "string option"
  assumes "sm_ok m"
  defines "n \<equiv> length (sessions m) - (MAX_SESSIONS - 1)" and "key \<equiv> session_key channel chat user"
    and "r \<equiv> get_or_create_session cwd channel chat user m"
  shows "(case hm_get (sessions m) key of
      Some s \<Rightarrow> fst r = s \<and> sessions (snd r) = sessions m \<and> last (access_order (snd r)) = key
    | None \<Rightarrow> fst r = make_session cwd channel chat user key
        \<and> session_count (snd r) \<le> MAX_SESSIONS
        \<and> access_order (snd r) = drop n (access_order m) @ [key]
        \<and> hm_get (sessions (snd r)) = (\<lambda>k. if k = key then Some (fst r)
            else if k \<in> set (take n (access_order m)) then None else hm_get (sessions m) k))"
proof (cases "hm_get (sessions m) key")
  case (Some s)
  then show ?thesis by (simp add: r_def key_def get_or_create_session_def Let_def touch_access_order_def)
next
  case None
  have m: "hm_ok (sessions m)" "distinct (access_order m)" "set (access_order m) = set (hm_keys (sessions m))"
    using assms by (auto simp: sm_ok_def)
  have e: "snd (evict (sessions m) (access_order m)) = drop n (access_order m)"
    "hm_ok (fst (evict (sessions m) (access_order m)))"
    "\<forall>k. hm_get (fst (evict (sessions m) (access_order m))) k =
       (if k \<in> set (take n (access_order m)) then None else hm_get (sessions m) k)"
    "length (fst (evict (sessions m) (access_order m))) = length (sessions m) - n"
    using evict_correct [OF m] by (auto simp: n_def)
  have "length (sessions m) - n \<le> MAX_SESSIONS - 1" by (simp add: n_def)
  then have "Suc (length (sessions m) - n) \<le> MAX_SESSIONS" by (simp add: MAX_SESSIONS_def)
  then have "length (hm_insert key s (fst (evict (sessions m) (access_order m)))) \<le> MAX_SESSIONS" for s
    using e(2,4) by (simp add: hm_length_insert)
  then show ?thesis
    using None e unfolding r_def key_def
    by (simp add: get_or_create_session_def Let_def case_prod_beta session_count_def fun_eq_iff)
qed

theorem get_or_create_lru_witness:
  "session_count (snd (get_or_create_session None ''cli'' ''c'' ''u'' sm_new)) \<le> MAX_SESSIONS"
proof -
  have "sm_ok sm_new" by (simp add: sm_ok_def sm_new_def hm_keys_def)
  from get_or_create_lru [OF this, where channel = "''cli''" and chat = "''c''" and user = "''u''" and cwd = None]
  show ?thesis by (simp add: sm_new_def)
qed

text \<open>Storing a session and asking for it again returns it, its history cut to the most recent
  \<open>MAX_HISTORY_PER_SESSION\<close> messages; a session stored under another key is not affected.\<close>

theorem update_then_get:
  "fst (get_or_create_session cwd (sess_channel s) (sess_chat_id s) (sess_user_id s) (update_session s m))
     = s\<lparr>sess_history := drop (length (sess_history s) - MAX_HISTORY_PER_SESSION) (sess_history s)\<rparr>
   \<and> (session_key channel chat user \<noteq> session_key (sess_channel s) (sess_chat_id s) (sess_user_id s) \<longrightarrow>
      hm_get (sessions (update_session s m)) (session_key channel chat user)
        = hm_get (sessions m) (session_key channel chat user))"
  by (auto simp: get_or_create_session_def update_session_def touch_access_order_def truncate_history_def Let_def)

theorem update_then_get_witness:
  "hm_get (sessions (update_session (make_session None ''cli'' ''c'' ''u'' ''k'') sm_new)) (session_key ''cli'' ''c'' ''v'') = None"
proof -
  have "session_key ''cli'' ''c'' ''v'' \<noteq> session_key (sess_channel (make_session None ''cli'' ''c'' ''u'' ''k''))
      (sess_chat_id (make_session None ''cli'' ''c'' ''u'' ''k'')) (sess_user_id (make_session None ''cli'' ''c'' ''u'' ''k''))"
    by (simp add: session_key_def make_session_def)
  then show ?thesis
    using update_then_get [of None "make_session None ''cli'' ''c'' ''u'' ''k''" sm_new "''cli''" "''c''" "''v''"]
    by (simp add: sm_new_def)
qed

section \<open>Gaps\<close>

text \<open>Different users can share a key, and so a session, when identifiers contain a colon.\<close>

lemma session_key_collision: "session_key ''slack:T1'' ''C1'' ''U1'' = session_key ''slack'' ''T1:C1'' ''U1''"
  by (simp add: session_key_def)

text \<open>Storing a session does not evict: the bound on the sessions can be exceeded.\<close>

lemma update_session_exceeds:
  assumes "sm_ok m" "session_count m = MAX_SESSIONS"
    "session_key (sess_channel s) (sess_chat_id s) (sess_user_id s) \<notin> set (hm_keys (sessions m))"
  shows "session_count (update_session s m) = MAX_SESSIONS + 1"
  using assms by (simp add: session_count_def update_session_def touch_access_order_def Let_def sm_ok_def hm_length_insert)

end
