(* ===== verification/Model_Router.thy ===== *)
theory Model_Router
  imports Skyclaw_Types
begin

text \<open>
  Tiered model routing (\<open>skyclaw-agent/src/model_router.rs\<close>): a task is classified by rules
  on its description, its tools and the conversation, and the class selects a model.
\<close>

section \<open>Rules\<close>

definition READ_ONLY_TOOLS :: "string list" where
  "READ_ONLY_TOOLS = [''file_read'', ''file_list'', ''check_messages'', ''git_status'', ''git_log'', ''git_diff'',
     ''http_get'', ''list_directory'', ''read_file'']"

definition COMPLEX_KEYWORDS :: "string list" where
  "COMPLEX_KEYWORDS = [''architecture'', ''architect'', ''debug'', ''debugging'', ''refactor'', ''refactoring'',
     ''design'', ''redesign'', ''migrate'', ''migration'', ''optimize'', ''optimization'',
     ''security audit'', ''performance'', ''investigate'', ''root cause'', ''rewrite'']"

definition SIMPLE_DESCRIPTION_MAX_LEN :: nat where
  "SIMPLE_DESCRIPTION_MAX_LEN = 100"

definition COMPLEX_HISTORY_THRESHOLD :: nat where
  "COMPLEX_HISTORY_THRESHOLD = 10"

datatype task_complexity = Simple | Standard | Complex

datatype model_tier = Fast | Primary | Premium

definition FORCE_FAST_PREFIX :: string where
  "FORCE_FAST_PREFIX = ''!fast''"

definition FORCE_BEST_PREFIX :: string where
  "FORCE_BEST_PREFIX = ''!best''"

record model_router_config =
  mr_enabled :: bool
  fast_model :: "string option"
  primary_model :: string
  premium_model :: "string option"

definition default_primary_model :: string where
  "default_primary_model = ''claude-sonnet-4-6''"

definition model_router_config_default :: model_router_config where
  "model_router_config_default =
     \<lparr>mr_enabled = False, fast_model = None, primary_model = default_primary_model, premium_model = None\<rparr>"

definition done_phrase :: "string \<Rightarrow> bool" where
  "done_phrase text = (let lower = to_lowercase text
     in str_contains ''done criteria'' lower \<or> str_contains ''completion conditions'' lower)"

fun done_part :: "content_part \<Rightarrow> bool" where
  "done_part (PText t) = done_phrase t"
| "done_part _ = False"

definition done_message :: "chat_message \<Rightarrow> bool" where
  "done_message msg \<longleftrightarrow> msg_role msg = System \<and> (case msg_content msg of
      Text t \<Rightarrow> done_phrase t
    | Parts parts \<Rightarrow> list_ex done_part parts)"

definition history_contains_done_criteria :: "chat_message list \<Rightarrow> bool" where
  "history_contains_done_criteria h = list_ex done_message h"

definition classify_complexity :: "chat_message list \<Rightarrow> string list \<Rightarrow> string \<Rightarrow> task_complexity" where
  "classify_complexity h tool_names desc =
     (let desc_lower = to_lowercase desc;
          has_complex_keyword = list_ex (\<lambda>kw. str_contains kw desc_lower) COMPLEX_KEYWORDS;
          deep_history = length h > COMPLEX_HISTORY_THRESHOLD;
          multi_tool_types = card (set tool_names) > 2;
          has_done_criteria = str_contains ''done criteria'' desc_lower \<or> str_contains ''done when'' desc_lower
            \<or> str_contains ''acceptance criteria'' desc_lower \<or> history_contains_done_criteria h
      in if has_complex_keyword \<or> (deep_history \<and> multi_tool_types) \<or> has_done_criteria then Complex
         else if length desc < SIMPLE_DESCRIPTION_MAX_LEN \<and> length tool_names \<le> 1
              \<and> list_all (\<lambda>t. t \<in> set READ_ONLY_TOOLS) tool_names \<and> \<not> deep_history then Simple
         else Standard)"

fun select_tier :: "task_complexity \<Rightarrow> model_tier" where
  "select_tier Simple = Fast"
| "select_tier Standard = Primary"
| "select_tier Complex = Premium"

fun get_model_name :: "model_router_config \<Rightarrow> model_tier \<Rightarrow> string" where
  "get_model_name c Fast = (case fast_model c of Some m \<Rightarrow> m | None \<Rightarrow> primary_model c)"
| "get_model_name c Primary = primary_model c"
| "get_model_name c Premium = (case premium_model c of Some m \<Rightarrow> m | None \<Rightarrow> primary_model c)"

definition detect_user_override :: "string \<Rightarrow> model_tier option" where
  "detect_user_override desc =
     (let trimmed = trim_start desc
      in if starts_with FORCE_FAST_PREFIX trimmed then Some Fast
         else if starts_with FORCE_BEST_PREFIX trimmed then Some Premium
         else None)"

definition route :: "model_router_config \<Rightarrow> chat_message list \<Rightarrow> string list \<Rightarrow> string \<Rightarrow> bool \<Rightarrow> string" where
  "route c h tool_names desc is_verification =
     (if \<not> mr_enabled c then primary_model c
      else if is_verification
      then get_model_name c (if premium_model c \<noteq> None then Premium else Primary)
      else case detect_user_override desc of
          Some forced \<Rightarrow> get_model_name c forced
        | None \<Rightarrow> get_model_name c (select_tier (classify_complexity h tool_names desc)))"

section \<open>Routing\<close>

text \<open>A disabled router and a router without other models always answer the primary model. A
  verification step gets the premium model, or the primary one where there is none; and the
  fast model is chosen only for a task the user forced to it or one that is short, shallow,
  uses at most one tool, a read-only one, and carries no sign of complexity.\<close>

theorem route_safe:
  "(\<not> mr_enabled c \<or> fast_model c = None \<and> premium_model c = None \<longrightarrow> route c h ts desc v = primary_model c)
   \<and> (mr_enabled c \<longrightarrow> route c h ts desc True = (case premium_model c of Some m \<Rightarrow> m | None \<Rightarrow> primary_model c))
   \<and> (fast_model c = Some m \<and> m \<noteq> primary_model c \<and> premium_model c \<noteq> Some m \<and> route c h ts desc v = m \<longrightarrow>
        \<not> v \<and> (detect_user_override desc = Some Fast
          \<or> length desc < SIMPLE_DESCRIPTION_MAX_LEN \<and> length h \<le> COMPLEX_HISTORY_THRESHOLD \<and> length ts \<le> 1
            \<and> set ts \<subseteq> set READ_ONLY_TOOLS \<and> (\<forall>kw \<in> set COMPLEX_KEYWORDS. \<not> str_contains kw (to_lowercase desc))))"
proof -
  have simple: "classify_complexity h ts desc = Simple \<Longrightarrow>
      length desc < SIMPLE_DESCRIPTION_MAX_LEN \<and> length h \<le> COMPLEX_HISTORY_THRESHOLD \<and> length ts \<le> 1
      \<and> set ts \<subseteq> set READ_ONLY_TOOLS \<and> (\<forall>kw \<in> set COMPLEX_KEYWORDS. \<not> str_contains kw (to_lowercase desc))"
    unfolding classify_complexity_def Let_def list_ex_iff list_all_iff
    by (simp split: if_splits) blast
  have fast: "fast_model c = Some m \<Longrightarrow> m \<noteq> primary_model c \<Longrightarrow> premium_model c \<noteq> Some m \<Longrightarrow>
      get_model_name c t = m \<Longrightarrow> t = Fast" for t
    by (cases t) (auto split: option.splits)
  have tier: "select_tier k = Fast \<Longrightarrow> k = Simple" for k by (cases k) auto
  have none: "fast_model c = None \<and> premium_model c = None \<Longrightarrow> get_model_name c t = primary_model c" for t
    by (cases t) auto
  show ?thesis
  proof (intro conjI impI)
    assume "\<not> mr_enabled c \<or> fast_model c = None \<and> premium_model c = None"
    then show "route c h ts desc v = primary_model c"
      using none by (auto simp: route_def split: option.splits)
  next
    assume "mr_enabled c"
    then show "route c h ts desc True = (case premium_model c of Some m \<Rightarrow> m | None \<Rightarrow> primary_model c)"
      by (simp add: route_def split: option.splits)
  next
    assume a: "fast_model c = Some m \<and> m \<noteq> primary_model c \<and> premium_model c \<noteq> Some m \<and> route c h ts desc v = m"
    have en: "mr_enabled c"
    proof (rule ccontr)
      assume "\<not> mr_enabled c"
      then have "route c h ts desc v = primary_model c" by (simp add: route_def)
      then show False using a by simp
    qed
    show nv: "\<not> v"
    proof
      assume v
      then have "route c h ts desc v = get_model_name c (if premium_model c \<noteq> None then Premium else Primary)"
        using en by (simp only: route_def not_True_eq_False if_True if_False)
      then have "(if premium_model c \<noteq> None then Premium else Primary) = Fast" using a fast by metis
      then show False by (simp split: if_splits)
    qed
    show "detect_user_override desc = Some Fast
          \<or> length desc < SIMPLE_DESCRIPTION_MAX_LEN \<and> length h \<le> COMPLEX_HISTORY_THRESHOLD \<and> length ts \<le> 1
            \<and> set ts \<subseteq> set READ_ONLY_TOOLS \<and> (\<forall>kw \<in> set COMPLEX_KEYWORDS. \<not> str_contains kw (to_lowercase desc))"
    proof (cases "detect_user_override desc")
      case None
      then have "route c h ts desc v = get_model_name c (select_tier (classify_complexity h ts desc))"
        using en nv by (simp add: route_def)
      then have "select_tier (classify_complexity h ts desc) = Fast" using a fast by metis
      then show ?thesis using tier simple by blast
    next
      case (Some t)
      then have "route c h ts desc v = get_model_name c t" using en nv by (simp add: route_def)
      then have "t = Fast" using a fast by metis
      then show ?thesis using Some by simp
    qed
  qed
qed

theorem route_safe_witness:
  "route model_router_config_default [] [''shell''] ''refactor'' True = ''claude-sonnet-4-6''"
  using route_safe [of model_router_config_default "[]" "[''shell'']" "''refactor''" True]
  by (simp add: model_router_config_default_def default_primary_model_def)

lemma str_contains_append: "str_contains p s \<Longrightarrow> str_contains p (a @ s @ b)"
  unfolding str_contains_sublist by (rule sublist_order.order.trans [OF _ sublist_appendI])

lemma to_lowercase_append: "to_lowercase (a @ b) = to_lowercase a @ to_lowercase b"
  by (simp add: to_lowercase_def)

text \<open>Signals of complexity only accumulate: a task that is complex stays complex when text is
  added around its description, tools to its tools and messages to its history.\<close>

theorem complex_monotone:
  assumes "classify_complexity h ts desc = Complex"
  shows "classify_complexity (h @ h') (ts @ ts') (a @ desc @ b) = Complex"
proof -
  have more: "str_contains k (to_lowercase desc) \<Longrightarrow> str_contains k (to_lowercase (a @ desc @ b))" for k
    by (simp add: to_lowercase_append str_contains_append)
  have card: "card (set ts) \<le> card (set (ts @ ts'))" by (intro card_mono) auto
  have "(\<exists>kw \<in> set COMPLEX_KEYWORDS. str_contains kw (to_lowercase desc))
      \<or> (length h > COMPLEX_HISTORY_THRESHOLD \<and> card (set ts) > 2)
      \<or> str_contains ''done criteria'' (to_lowercase desc) \<or> str_contains ''done when'' (to_lowercase desc)
      \<or> str_contains ''acceptance criteria'' (to_lowercase desc) \<or> history_contains_done_criteria h"
    using assms unfolding classify_complexity_def Let_def list_ex_iff by (simp split: if_splits)
  then have "(\<exists>kw \<in> set COMPLEX_KEYWORDS. str_contains kw (to_lowercase (a @ desc @ b)))
      \<or> (length (h @ h') > COMPLEX_HISTORY_THRESHOLD \<and> card (set (ts @ ts')) > 2)
      \<or> str_contains ''done criteria'' (to_lowercase (a @ desc @ b))
      \<or> str_contains ''done when'' (to_lowercase (a @ desc @ b))
      \<or> str_contains ''acceptance criteria'' (to_lowercase (a @ desc @ b))
      \<or> history_contains_done_criteria (h @ h')"
    using more card by (auto simp: history_contains_done_criteria_def)
  then show ?thesis
    unfolding classify_complexity_def Let_def list_ex_iff by auto
qed

theorem complex_monotone_witness:
  "classify_complexity [] [''shell''] (''please '' @ ''debug'' @ '' this'') = Complex"
proof -
  have "classify_complexity [] [] ''debug'' = Complex" by code_simp
  from complex_monotone [OF this, of "[]" "[''shell'']" "''please ''" "'' this''"] show ?thesis by simp
qed

end
