(* ===== verification/Done_Criteria.thy ===== *)
theory Done_Criteria
  imports Skyclaw_Types
begin

text \<open>
  The DONE definition engine (\<open>skyclaw-agent/src/done_criteria.rs\<close>): the list of criteria
  with their verification marks, the detection of compound tasks, and the prompts. In
  \<open>is_compound_task\<close> the slices around a connector are at the place of a match of an ASCII
  text, so they are plain \<^const>\<open>take\<close> and \<^const>\<open>drop\<close>.
\<close>

section \<open>Criteria\<close>

record done_criteria =
  criteria :: "string list"
  verified :: "bool list"

definition dc_new :: done_criteria where
  "dc_new = \<lparr>criteria = [], verified = []\<rparr>"

definition dc_add :: "string \<Rightarrow> done_criteria \<Rightarrow> nat \<times> done_criteria" where
  "dc_add c d = (length (criteria d), d\<lparr>criteria := criteria d @ [c], verified := verified d @ [False]\<rparr>)"

definition mark_verified :: "nat \<Rightarrow> done_criteria \<Rightarrow> done_criteria" where
  "mark_verified i d = (if i < length (verified d) then d\<lparr>verified := (verified d)[i := True]\<rparr> else d)"

definition all_verified :: "done_criteria \<Rightarrow> bool" where
  "all_verified d \<longleftrightarrow> verified d \<noteq> [] \<and> list_all id (verified d)"

definition dc_len :: "done_criteria \<Rightarrow> nat" where
  "dc_len d = length (criteria d)"

definition dc_is_empty :: "done_criteria \<Rightarrow> bool" where
  "dc_is_empty d \<longleftrightarrow> criteria d = []"

section \<open>Compound tasks\<close>

definition list_marker :: "string \<Rightarrow> bool" where
  "list_marker line = (let l = trim line in
     starts_with ''1.'' l \<or> starts_with ''2.'' l \<or> starts_with ''3.'' l
     \<or> starts_with ''- '' l \<or> starts_with ''* '' l)"

definition connectors :: "string list" where
  "connectors = ['' and '', '' then '', '', then '', '' after that '', '' afterwards '']"

definition action_verbs :: "string list" where
  "action_verbs = [''deploy'', ''run'', ''create'', ''build'', ''test'', ''install'', ''update'', ''delete'',
     ''remove'', ''send'', ''check'', ''verify'', ''configure'', ''set up'', ''write'', ''read'',
     ''copy'', ''move'', ''fix'', ''restart'', ''stop'', ''start'', ''download'', ''upload'',
     ''push'', ''pull'', ''commit'', ''migrate'', ''fetch'', ''compile'', ''execute'', ''open'',
     ''close'', ''save'', ''edit'', ''modify'']"

definition has_verb :: "string \<Rightarrow> bool" where
  "has_verb s = list_ex (\<lambda>v. str_contains v s) action_verbs"

definition joins_actions :: "string \<Rightarrow> string \<Rightarrow> bool" where
  "joins_actions lower connector = (case str_find connector lower of
      None \<Rightarrow> False
    | Some pos \<Rightarrow> has_verb (take pos lower) \<and> has_verb (drop (pos + length connector) lower))"

definition imperative :: "string \<Rightarrow> bool" where
  "imperative s = (to_lowercase (case first_word s of None \<Rightarrow> [] | Some w \<Rightarrow> w) \<in> set action_verbs)"

definition is_compound_task :: "string \<Rightarrow> bool" where
  "is_compound_task text =
     (let trimmed = trim text
      in if length trimmed < 20 then False
         else if length (filter list_marker (str_lines trimmed)) \<ge> 2 then True
         else if list_ex (joins_actions (to_lowercase trimmed)) connectors then True
         else let sentences = filter (\<lambda>s. trim s \<noteq> [])
                (split_on (\<lambda>c. c = CHR ''.'' \<or> c = CHR ''!'' \<or> c = CHR '';'') trimmed)
              in length sentences \<ge> 2 \<and> length (filter imperative sentences) \<ge> 2)"

section \<open>Prompts\<close>

definition format_done_prompt :: "string \<Rightarrow> string" where
  "format_done_prompt user_text =
     ''The user has given a compound task. Before executing, define what DONE looks like.'' @ nl @ nl
     @ ''User request: '' @ [CHR 0x22] @ user_text @ [CHR 0x22] @ nl @ nl
     @ ''List specific, verifiable conditions that must ALL be true when the task is complete.'' @ nl
     @ ''Format your response as:'' @ nl
     @ ''DONE WHEN:'' @ nl
     @ ''1. [specific verifiable condition]'' @ nl
     @ ''2. [specific verifiable condition]'' @ nl
     @ ''...'' @ nl @ nl
     @ ''Then proceed to execute the task. After completing all steps, verify each condition before declaring the task done.''"

definition criterion_line :: "nat \<times> string \<Rightarrow> string" where
  "criterion_line = (\<lambda>(i, c). ''  '' @ nat_str (i + 1) @ ''. '' @ c)"

definition format_verification_prompt :: "done_criteria \<Rightarrow> string" where
  "format_verification_prompt d =
     (if dc_is_empty d then []
      else nl @ nl @ ''[VERIFY DONE CRITERIA] Before responding to the user, verify each condition:'' @ nl
        @ join nl (map criterion_line (enumerate 0 (criteria d))) @ nl @ nl
        @ ''If any condition is NOT met, continue working. Do NOT declare the task complete until all conditions are verified with evidence.'')"

section \<open>The marks of the criteria\<close>

datatype dc_event = Add string | Mark nat

fun dc_step :: "done_criteria \<Rightarrow> dc_event \<Rightarrow> done_criteria" where
  "dc_step d (Add c) = snd (dc_add c d)"
| "dc_step d (Mark i) = mark_verified i d"

text \<open>The specification, from the newest event to the oldest.\<close>

fun added :: "dc_event list \<Rightarrow> string list" where
  "added [] = []"
| "added (Add c # older) = added older @ [c]"
| "added (Mark i # older) = added older"

fun marked :: "nat \<Rightarrow> dc_event list \<Rightarrow> bool" where
  "marked i [] = False"
| "marked i (Add c # older) = (i < length (added older) \<and> marked i older)"
| "marked i (Mark j # older) = (i = j \<and> j < length (added older) \<or> marked i older)"

lemma dc_run: "criteria (foldl dc_step dc_new es) = added (rev es)
   \<and> verified (foldl dc_step dc_new es) = map (\<lambda>i. marked i (rev es)) [0..<length (added (rev es))]"
proof (induction es rule: rev_induct)
  case (snoc e es)
  show ?case
  proof (cases e)
    case (Mark j)
    have "(map (\<lambda>i. marked i (rev es)) [0..<length (added (rev es))])[j := True]
        = map (\<lambda>i. marked i (Mark j # rev es)) [0..<length (added (rev es))]"
      unfolding map_upt_update by (intro map_cong) auto
    moreover have "\<not> j < length (added (rev es)) \<Longrightarrow>
        map (\<lambda>i. marked i (Mark j # rev es)) [0..<length (added (rev es))]
        = map (\<lambda>i. marked i (rev es)) [0..<length (added (rev es))]"
      by (intro map_cong) auto
    ultimately show ?thesis using snoc Mark by (simp add: mark_verified_def del: marked.simps)
  qed (use snoc in \<open>simp add: dc_add_def\<close>)
qed (simp add: dc_new_def)

text \<open>After any sequence of additions and marks the criteria are the added ones in order, the
  two vectors have the same length, and the task counts as done exactly when there is a
  criterion and each one has been marked after it was added; a mark of an index that does not
  exist yet counts for nothing.\<close>

theorem all_verified_iff:
  fixes es :: "dc_event list"
  defines "d \<equiv> foldl dc_step dc_new es"
  shows "criteria d = added (rev es) \<and> length (verified d) = dc_len d
    \<and> (all_verified d \<longleftrightarrow> added (rev es) \<noteq> [] \<and> (\<forall>i < dc_len d. marked i (rev es)))"
  using dc_run [of es] unfolding d_def by (auto simp: dc_len_def all_verified_def list_all_iff)

theorem all_verified_iff_witness:
  "\<not> all_verified (foldl dc_step dc_new [Mark 0, Add ''tests pass''])"
  using all_verified_iff [of "[Mark 0, Add ''tests pass'']"] by (simp add: dc_len_def)

text \<open>The verification prompt contains the text of every criterion.\<close>

theorem verification_prompt_complete:
  assumes "c \<in> set (criteria d)"
  shows "str_contains c (format_verification_prompt d)"
proof -
  obtain i where "(i, c) \<in> set (enumerate 0 (criteria d))"
  proof -
    have "c \<in> set (map snd (enumerate 0 (criteria d)))" using assms by (simp only: map_snd_enumerate)
    then obtain x where "x \<in> set (enumerate 0 (criteria d))" "c = snd x"
      unfolding set_map by (rule imageE) blast
    then show ?thesis using that [of "fst x"] by simp
  qed
  then have "criterion_line (i, c) \<in> set (map criterion_line (enumerate 0 (criteria d)))" by force
  then have "sublist (criterion_line (i, c)) (join nl (map criterion_line (enumerate 0 (criteria d))))"
    by (rule sublist_join)
  moreover have "sublist c (criterion_line (i, c))"
    using sublist_appendI [of c "''  '' @ nat_str (i + 1) @ ''. ''" "[]"] by (simp add: criterion_line_def)
  ultimately have c: "sublist c (join nl (map criterion_line (enumerate 0 (criteria d))))"
    by (rule sublist_order.order.trans [rotated])
  define A where "A = nl @ nl @ ''[VERIFY DONE CRITERIA] Before responding to the user, verify each condition:'' @ nl"
  define B where "B = nl @ nl
        @ ''If any condition is NOT met, continue working. Do NOT declare the task complete until all conditions are verified with evidence.''"
  have "criteria d \<noteq> []" using assms by auto
  then have "format_verification_prompt d = A @ join nl (map criterion_line (enumerate 0 (criteria d))) @ B"
    by (simp only: format_verification_prompt_def dc_is_empty_def if_False A_def B_def append_assoc)
  then have "sublist c (format_verification_prompt d)"
    using c by (simp only: sublist_order.order.trans [OF _ sublist_appendI])
  then show ?thesis by (simp add: str_contains_sublist)
qed

theorem verification_prompt_complete_witness:
  "str_contains ''tests pass'' (format_verification_prompt \<lparr>criteria = [''tests pass''], verified = [False]\<rparr>)"
  by (rule verification_prompt_complete) simp

text \<open>A text of at least 20 bytes whose first \<open> and \<close> has an action verb before it and one after it
  is detected as a compound task, in any letter case.\<close>

theorem connector_detected:
  assumes "20 \<le> length (trim text)" "to_lowercase (trim text) = before @ '' and '' @ after"
    and "\<not> str_contains '' and '' (before @ '' and'')" "has_verb before" "has_verb after"
  shows "is_compound_task text"
proof -
  have find: "str_find '' and '' (to_lowercase (trim text)) = Some (length before)"
    by (rule str_find_split [OF assms(2)]) (use assms(3) in simp_all)
  then have "joins_actions (to_lowercase (trim text)) '' and ''"
    using assms(4,5) unfolding joins_actions_def find option.case assms(2) by simp
  then have "list_ex (joins_actions (to_lowercase (trim text))) connectors"
    by (simp add: connectors_def)
  then show ?thesis using assms(1) by (simp add: is_compound_task_def Let_def)
qed

theorem connector_detected_witness: "is_compound_task ''Build the app AND deploy it''"
proof -
  have "20 \<le> length (trim ''Build the app AND deploy it'')"
    "to_lowercase (trim ''Build the app AND deploy it'') = ''build the app'' @ '' and '' @ ''deploy it''"
    "\<not> str_contains '' and '' (''build the app'' @ '' and'')" "has_verb ''build the app''" "has_verb ''deploy it''"
    by code_simp+
  then show ?thesis by (rule connector_detected)
qed

end
