(* ===== verification/History_Pruning.thy ===== *)
theory History_Pruning
  imports Skyclaw_Types "HOL-Library.Product_Lexorder"
begin

text \<open>
  Pruning of the conversation history (\<open>skyclaw-agent/src/history_pruning.rs\<close>): every
  message gets an importance from its role and content and a bonus for being recent, the
  lowest scores are dropped until the history fits, and the dropped messages are summarised.
  The scores are the \<open>f32\<close> values 1 to 13, exact in floating point, so natural numbers.
\<close>

definition RECENCY_WINDOW :: nat where
  "RECENCY_WINDOW = 4"

definition RECENCY_BONUS :: nat where
  "RECENCY_BONUS = 3"

definition SHORT_MESSAGE_THRESHOLD :: nat where
  "SHORT_MESSAGE_THRESHOLD = 20"

section \<open>Importance\<close>

datatype message_importance = Trivial | Low | Medium | High | Critical

fun base_score :: "message_importance \<Rightarrow> nat" where
  "base_score Trivial = 1"
| "base_score Low = 3"
| "base_score Medium = 5"
| "base_score High = 7"
| "base_score Critical = 10"

text \<open>The derived order of the enumeration.\<close>

instantiation message_importance :: linorder
begin

definition less_eq_message_importance :: "message_importance \<Rightarrow> message_importance \<Rightarrow> bool" where
  "less_eq_message_importance a b \<longleftrightarrow> base_score a \<le> base_score b"

definition less_message_importance :: "message_importance \<Rightarrow> message_importance \<Rightarrow> bool" where
  "less_message_importance a b \<longleftrightarrow> base_score a < base_score b"

instance
proof
  fix a b c :: message_importance
  show "a \<le> b \<Longrightarrow> b \<le> a \<Longrightarrow> a = b"
    by (cases a; cases b) (simp_all add: less_eq_message_importance_def)
qed (auto simp: less_eq_message_importance_def less_message_importance_def)

end

record scored_message =
  sm_index :: nat
  importance :: message_importance
  score :: nat
  reason :: string

record pruned_history =
  kept_messages :: "chat_message list"
  summary :: string
  dropped_count :: nat

section \<open>Pattern detectors\<close>

definition MARKERS :: "string list" where
  "MARKERS = [''decision:'', ''important:'', ''remember:'', ''critical:'', ''must:'', ''requirement:'',
     ''constraint:'']"

definition contains_importance_marker :: "string \<Rightarrow> bool" where
  "contains_importance_marker text_lower = list_ex (\<lambda>m. str_contains m text_lower) MARKERS"

definition INSTRUCTION_PATTERNS :: "string list" where
  "INSTRUCTION_PATTERNS = [''please do'', ''please make'', ''you must'', ''you should'', ''do not '',
     ''don'' @ [CHR 0x27] @ ''t '', ''make sure'', ''always '', ''never '', ''deploy '',
     ''configure '', ''install '', ''set up'', ''change the'', ''update the'', ''fix the'',
     ''create a'', ''delete the'', ''remove the'', ''implement'', ''refactor'']"

definition contains_instruction_pattern :: "string \<Rightarrow> bool" where
  "contains_instruction_pattern text_lower = list_ex (\<lambda>m. str_contains m text_lower) INSTRUCTION_PATTERNS"

definition ERROR_PATTERNS :: "string list" where
  "ERROR_PATTERNS = [''error'', ''failed'', ''failure'', ''exception'', ''panic'', ''crash'', ''traceback'',
     ''stack trace'', ''errno'', ''segfault'', ''permission denied'', ''not found'', ''timed out'',
     ''timeout'']"

definition contains_error_pattern :: "string \<Rightarrow> bool" where
  "contains_error_pattern text_lower = list_ex (\<lambda>m. str_contains m text_lower) ERROR_PATTERNS"

definition contains_code_block :: "string \<Rightarrow> bool" where
  "contains_code_block text = str_contains ''```'' text"

definition key_value_line :: "string \<Rightarrow> bool" where
  "key_value_line line = (let l = trim line
     in str_contains '': '' l \<and> \<not> starts_with ''#'' l \<and> length l > 3)"

definition contains_structured_data :: "string \<Rightarrow> bool" where
  "contains_structured_data text = (let trimmed = trim text in
     starts_with ''{'' trimmed \<and> ends_with ''}'' trimmed
     \<or> starts_with ''['' trimmed \<and> ends_with '']'' trimmed
     \<or> length (filter key_value_line (str_lines trimmed)) \<ge> 3)"

definition cleaned_text :: "string \<Rightarrow> string" where
  "cleaned_text text_lower = trim (filter (\<lambda>c. is_ascii_alphanumeric c \<or> is_ascii_whitespace c) text_lower)"

definition GREETINGS :: "string list" where
  "GREETINGS = [''hello'', ''hi'', ''hey'', ''thanks'', ''thank you'', ''thx'', ''ok'', ''okay'', ''sure'',
     ''yes'', ''no'', ''yep'', ''nope'', ''cool'', ''great'', ''nice'', ''good'', ''got it'',
     ''understood'', ''bye'', ''goodbye'', ''see you'', ''cheers'']"

definition is_greeting_or_ack :: "string \<Rightarrow> string \<Rightarrow> bool" where
  "is_greeting_or_ack text_lower trimmed =
     (if length trimmed > 40 then False else cleaned_text text_lower \<in> set GREETINGS)"

definition looks_like_command :: "string \<Rightarrow> bool" where
  "looks_like_command text_lower = (let trimmed = trim text_lower
     in starts_with ''/'' trimmed \<or> starts_with ''!'' trimmed)"

definition STATUS_PATTERNS :: "string list" where
  "STATUS_PATTERNS = [''running'', ''checking'', ''processing'', ''loading'', ''waiting'', ''searching'', ''fetching'',
     ''downloading'', ''uploading'', ''installing'', ''building'', ''compiling'', ''starting'',
     ''connecting'']"

definition is_status_update :: "string \<Rightarrow> bool" where
  "is_status_update text_lower = (let trimmed = trim text_lower in
     if length trimmed > 80 then False
     else list_ex (\<lambda>p. starts_with p trimmed \<or> ends_with ''...'' trimmed \<and> str_contains p trimmed) STATUS_PATTERNS)"

definition TRIVIAL_RESPONSES :: "string list" where
  "TRIVIAL_RESPONSES = [''ok'', ''okay'', ''sure'', ''done'', ''got it'', ''understood'', ''alright'', ''noted'',
     ''will do'', ''on it'']"

definition is_trivial_response :: "string \<Rightarrow> bool" where
  "is_trivial_response text_lower = (cleaned_text text_lower \<in> set TRIVIAL_RESPONSES)"

definition TRIVIAL_RESULTS :: "string list" where
  "TRIVIAL_RESULTS = [''ok'', ''okay'', ''success'', ''done'', ''true'', ''null'', ''none'']"

definition is_trivial_tool_result :: "string \<Rightarrow> string \<Rightarrow> bool" where
  "is_trivial_tool_result text_lower trimmed =
     (if trimmed = [] then True else list_ex (\<lambda>t. trimmed = t \<or> text_lower = t) TRIVIAL_RESULTS)"

section \<open>Classification\<close>

definition classify_user_text :: "string \<Rightarrow> string \<Rightarrow> message_importance \<times> string" where
  "classify_user_text text_lower trimmed =
     (if contains_importance_marker text_lower then (Critical, ''User message with importance marker'')
      else if contains_instruction_pattern text_lower then (Critical, ''User message with instructions/decisions'')
      else if contains_code_block trimmed then (High, ''User message with code block'')
      else if contains_structured_data trimmed then (High, ''User message with structured data'')
      else if is_greeting_or_ack text_lower trimmed then (Trivial, ''User greeting/acknowledgment'')
      else if length trimmed < SHORT_MESSAGE_THRESHOLD \<and> \<not> looks_like_command text_lower
      then (Low, ''Short user message'')
      else (Medium, ''Regular user message''))"

definition classify_assistant_text :: "string \<Rightarrow> string \<Rightarrow> message_importance \<times> string" where
  "classify_assistant_text text_lower trimmed =
     (if contains_error_pattern text_lower then (High, ''Assistant message reporting error'')
      else if contains_code_block trimmed then (High, ''Assistant message with code block'')
      else if contains_structured_data trimmed then (High, ''Assistant message with structured data'')
      else if is_status_update text_lower then (Low, ''Assistant status update'')
      else if length trimmed < SHORT_MESSAGE_THRESHOLD \<and> is_trivial_response text_lower
      then (Trivial, ''Trivial assistant response'')
      else (Medium, ''Substantive assistant response''))"

definition classify_tool_text :: "string \<Rightarrow> string \<Rightarrow> message_importance \<times> string" where
  "classify_tool_text text_lower trimmed =
     (if contains_error_pattern text_lower then (High, ''Tool result with error'')
      else if trimmed = [] \<or> is_trivial_tool_result text_lower trimmed then (Low, ''Trivial tool result'')
      else (Medium, ''Regular tool result''))"

fun classify_text_message :: "role \<Rightarrow> string \<Rightarrow> message_importance \<times> string" where
  "classify_text_message User text = classify_user_text (to_lowercase text) (trim text)"
| "classify_text_message Assistant text = classify_assistant_text (to_lowercase text) (trim text)"
| "classify_text_message System text = (Critical, ''System message'')"
| "classify_text_message RoleTool text = classify_tool_text (to_lowercase text) (trim text)"

fun classify_content_part :: "role \<Rightarrow> content_part \<Rightarrow> message_importance \<times> string" where
  "classify_content_part r (PText text) = (case r of
      User \<Rightarrow> classify_user_text (to_lowercase text) (trim text)
    | Assistant \<Rightarrow> classify_assistant_text (to_lowercase text) (trim text)
    | System \<Rightarrow> (Critical, ''System text part'')
    | RoleTool \<Rightarrow> classify_tool_text (to_lowercase text) (trim text))"
| "classify_content_part r (ToolUse i name input) = (Medium, ''Tool use: '' @ name)"
| "classify_content_part r (ToolResult i content is_error sig) =
     (if is_error then (High, ''Tool result indicating error/failure'')
      else if trim content = [] \<or> is_trivial_tool_result (to_lowercase content) (trim content)
      then (Low, ''Trivial tool result'')
      else (Medium, ''Successful tool result''))"
| "classify_content_part r (Image media data) = (High, ''Image content'')"

definition classify_parts_message :: "role \<Rightarrow> content_part list \<Rightarrow> message_importance \<times> string" where
  "classify_parts_message r parts =
     (let (mx, reason) = foldl (\<lambda>(mx, reason) part.
            (let (imp, why) = classify_content_part r part in if imp > mx then (imp, why) else (mx, reason)))
            (Trivial, []) parts
      in if reason = [] then (Medium, ''Message with content parts'') else (mx, reason))"

definition classify_message :: "chat_message \<Rightarrow> message_importance \<times> string" where
  "classify_message msg = (case msg_content msg of
      Text text \<Rightarrow> classify_text_message (msg_role msg) text
    | Parts parts \<Rightarrow> classify_parts_message (msg_role msg) parts)"

definition score_message :: "chat_message \<Rightarrow> nat \<Rightarrow> nat \<Rightarrow> scored_message" where
  "score_message msg index n =
     (let (imp, why) = classify_message msg;
          bonus = (if n > 0 \<and> index \<ge> n - RECENCY_WINDOW then RECENCY_BONUS else 0)
      in \<lparr>sm_index = index, importance = imp, score = base_score imp + bonus, reason = why\<rparr>)"

section \<open>The summary\<close>

definition topic_of :: "chat_message \<Rightarrow> string option" where
  "topic_of msg = (case msg_content msg of
      Parts _ \<Rightarrow> None
    | Text text \<Rightarrow>
        if msg_role msg = User \<and> length (trim text) > 3
        then (if length text > 60 then map_option (\<lambda>t. t @ ''...'') (slice_to text (last_start_upto 57 text))
              else Some text)
        else None)"

fun part_tool :: "content_part \<Rightarrow> string option" where
  "part_tool (ToolUse i name input) = Some name"
| "part_tool _ = None"

fun part_error :: "content_part \<Rightarrow> bool" where
  "part_error (ToolResult i content is_error sig) = is_error"
| "part_error (PText text) = contains_error_pattern (to_lowercase text)"
| "part_error _ = False"

fun part_is_result :: "content_part \<Rightarrow> bool" where
  "part_is_result (ToolResult i content is_error sig) = True"
| "part_is_result _ = False"

definition message_parts :: "chat_message \<Rightarrow> content_part list" where
  "message_parts msg = (case msg_content msg of Text _ \<Rightarrow> [] | Parts ps \<Rightarrow> ps)"

definition message_error :: "chat_message \<Rightarrow> bool" where
  "message_error msg = (case msg_content msg of
      Text text \<Rightarrow> contains_error_pattern (to_lowercase text) | Parts ps \<Rightarrow> list_ex part_error ps)"

definition tools_of :: "chat_message list \<Rightarrow> string list" where
  "tools_of dropped = foldl (\<lambda>tools name. if name \<in> set tools then tools else tools @ [name]) []
     (List.map_filter part_tool (concat (map message_parts dropped)))"

definition generate_pruned_summary :: "chat_message list \<Rightarrow> string" where
  "generate_pruned_summary dropped =
     (if dropped = [] then []
      else let user_topics = List.map_filter topic_of dropped;
               tools_used = tools_of dropped;
               outcomes = (if list_ex message_error dropped then [''encountered errors''] else [])
                 @ (if list_ex part_is_result (concat (map message_parts dropped)) then [''received tool results''] else []);
               parts = (if user_topics \<noteq> [] then [''discussed: '' @ join ''; '' (take 3 user_topics)] else [])
                 @ (if tools_used \<noteq> [] then [''used tools: '' @ join '', '' tools_used] else [])
                 @ (if outcomes \<noteq> [] then [''key outcomes: '' @ join '', '' outcomes] else [])
           in if parts = []
              then ''Earlier context: '' @ nat_str (length dropped) @ '' messages were pruned (low importance).''
              else ''Earlier context ('' @ nat_str (length dropped) @ '' messages pruned): '' @ join ''; '' parts @ ''.'')"

section \<open>Pruning\<close>

definition drop_indices :: "chat_message list \<Rightarrow> nat \<Rightarrow> nat list" where
  "drop_indices h max_messages =
     (let n = length h;
          scored = map (\<lambda>(i, msg). score_message msg i n) (enumerate 0 h);
          ranked = sort_key (\<lambda>s. (score s, sm_index s)) scored
      in sort (map sm_index (take (n - max_messages) ranked)))"

definition prune_history :: "chat_message list \<Rightarrow> nat \<Rightarrow> pruned_history" where
  "prune_history h max_messages =
     (if length h \<le> max_messages then \<lparr>kept_messages = h, summary = [], dropped_count = 0\<rparr>
      else let dropped = drop_indices h max_messages
           in \<lparr>kept_messages = map snd (filter (\<lambda>(i, _). i \<notin> set dropped) (enumerate 0 h)),
               summary = generate_pruned_summary (map (\<lambda>i. h ! i) dropped),
               dropped_count = length h - max_messages\<rparr>)"

section \<open>What is kept\<close>

definition score_at :: "chat_message list \<Rightarrow> nat \<Rightarrow> nat" where
  "score_at h i = score (score_message (h ! i) i (length h))"

lemma score_message_index [simp]: "sm_index (score_message m i n) = i"
  by (simp add: score_message_def Let_def split: prod.split)

lemma enumerate_map_upt: "enumerate 0 h = map (\<lambda>i. (i, h ! i)) [0..<length h]"
  by (rule nth_equalityI) (simp_all add: nth_enumerate_eq)

text \<open>The prefix of a sorted list is below the rest of it.\<close>

lemma sort_key_split:
  assumes "x \<in> set (take k (sort_key f xs))" "y \<in> set (drop k (sort_key f xs))"
  shows "f x \<le> f y"
proof -
  have "sorted (map f (take k (sort_key f xs) @ drop k (sort_key f xs)))"
    unfolding append_take_drop_id by (rule sorted_sort_key)
  then show ?thesis using assms unfolding map_append sorted_append by auto
qed

lemma drop_indices_correct:
  fixes h :: "chat_message list" and k :: nat
  defines "n \<equiv> length h" and "ds \<equiv> drop_indices h k"
  shows "sorted_wrt (<) ds" "set ds \<subseteq> {..<n}" "length ds = n - k"
    "\<And>i j. i \<in> set ds \<Longrightarrow> j < n \<Longrightarrow> j \<notin> set ds \<Longrightarrow> (score_at h i, i) < (score_at h j, j)"
proof -
  let ?key = "\<lambda>s. (score s, sm_index s)"
  define scored where "scored = map (\<lambda>i. score_message (h ! i) i n) [0..<n]"
  define L where "L = sort_key ?key scored"
  have idx: "map sm_index scored = [0..<n]" by (simp add: scored_def comp_def)
  have ds: "ds = sort (map sm_index (take (n - k) L))"
    by (simp add: ds_def drop_indices_def Let_def L_def scored_def n_def enumerate_map_upt comp_def)
  have dist: "distinct (map sm_index L)"
  proof -
    have "distinct scored" using idx by (metis distinct_map distinct_upt)
    moreover have "inj_on sm_index (set scored)" using idx by (metis distinct_map distinct_upt)
    ultimately show ?thesis by (simp add: L_def distinct_map)
  qed
  have mem: "s \<in> set L \<longleftrightarrow> (\<exists>i < n. s = score_message (h ! i) i n)" for s
    by (auto simp: L_def scored_def)
  have len: "length L = n" by (simp add: L_def scored_def)
  have "distinct (map sm_index (take (n - k) L))" using dist by (simp add: distinct_take flip: take_map)
  then show "sorted_wrt (<) ds" unfolding ds strict_sorted_iff by simp
  show "length ds = n - k" by (simp add: ds len)
  show "set ds \<subseteq> {..<n}"
  proof
    fix i
    assume "i \<in> set ds"
    then obtain s where "s \<in> set L" "sm_index s = i" by (auto simp: ds dest: in_set_takeD)
    then show "i \<in> {..<n}" using mem [of s] by auto
  qed
  fix i j
  assume i: "i \<in> set ds" and j: "j < n" "j \<notin> set ds"
  obtain s where s: "s \<in> set (take (n - k) L)" "sm_index s = i" using i by (auto simp: ds)
  have "s \<in> set L" using s(1) by (rule in_set_takeD)
  then have si: "s = score_message (h ! i) i n" using mem [of s] s(2) by auto
  let ?t = "score_message (h ! j) j n"
  have "?t \<in> set L" using mem j(1) by blast
  moreover have "?t \<notin> set (take (n - k) L)"
  proof
    assume "?t \<in> set (take (n - k) L)"
    then have "sm_index ?t \<in> set ds" unfolding ds set_sort set_map by (rule imageI)
    then show False using j(2) by simp
  qed
  ultimately have "?t \<in> set (drop (n - k) L)" using set_append [of "take (n - k) L" "drop (n - k) L"] by simp
  then have "?key s \<le> ?key ?t" using sort_key_split [of s "n - k" ?key scored ?t] s(1) unfolding L_def by blast
  moreover have "i \<noteq> j" using i j(2) by blast
  ultimately show "(score_at h i, i) < (score_at h j, j)"
    unfolding si score_message_index score_at_def n_def by (simp add: less_le)
qed

text \<open>Pruning keeps the messages of a set of positions in their original order, \<open>max_messages\<close> of
  them when the history is longer than that and all of them otherwise, and reports how many
  it dropped. Every dropped message scores lower than every kept one, or the same and comes
  earlier in the conversation.\<close>

theorem prune_history_correct:
  "\<exists>D \<subseteq> {..<length h}. kept_messages (prune_history h k) = map ((!) h) (filter (\<lambda>i. i \<notin> D) [0..<length h])
     \<and> card D = length h - k \<and> dropped_count (prune_history h k) = length h - k
     \<and> length (kept_messages (prune_history h k)) = min (length h) k
     \<and> (\<forall>i \<in> D. \<forall>j \<in> {..<length h} - D. score_at h i < score_at h j \<or> score_at h i = score_at h j \<and> i < j)"
proof (cases "length h \<le> k")
  case True
  then show ?thesis by (intro exI [of _ "{}"]) (auto simp: prune_history_def map_nth)
next
  case False
  note ds = drop_indices_correct [where h = h and k = k]
  let ?D = "set (drop_indices h k)"
  have card: "card ?D = length h - k" using ds(1,3) by (metis distinct_card strict_sorted_iff)
  have kept: "kept_messages (prune_history h k) = map ((!) h) (filter (\<lambda>i. i \<notin> ?D) [0..<length h])"
    using False by (simp add: prune_history_def Let_def enumerate_map_upt filter_map comp_def)
  have "length (filter (\<lambda>i. i \<notin> ?D) [0..<length h]) = card ({..<length h} - ?D)"
    by (subst distinct_card [symmetric]) (auto intro!: arg_cong [where f = card])
  also have "\<dots> = length h - card ?D" using ds(2) by (simp add: card_Diff_subset)
  finally have "length (kept_messages (prune_history h k)) = min (length h) k"
    using False card kept by simp
  moreover have "dropped_count (prune_history h k) = length h - k"
    using False by (simp add: prune_history_def Let_def)
  moreover have "score_at h i < score_at h j \<or> score_at h i = score_at h j \<and> i < j"
    if ij: "i \<in> ?D" "j \<in> {..<length h} - ?D" for i j
    using ds(4) [of i j] ij by (auto simp: less_prod_def)
  ultimately show ?thesis using card kept ds(2) by (intro exI [of _ ?D] conjI ballI) auto
qed

lemma score_bounds: "base_score (fst (classify_message (h ! i))) \<le> score_at h i
    \<and> score_at h i \<le> base_score (fst (classify_message (h ! i))) + RECENCY_BONUS"
  by (simp add: score_at_def score_message_def Let_def split: prod.split)

text \<open>A message of importance Critical (a system message, or a user's instruction) is dropped only
  when every message that is kept is Critical too, or is of importance High and among the
  \<open>RECENCY_WINDOW\<close> most recent ones.\<close>

theorem critical_dropped_last:
  assumes "k < length h" "i \<in> set (drop_indices h k)" "fst (classify_message (h ! i)) = Critical"
    and "j < length h" "j \<notin> set (drop_indices h k)"
  shows "10 \<le> score_at h j \<and> (fst (classify_message (h ! j)) = Critical
    \<or> fst (classify_message (h ! j)) = High \<and> length h \<le> j + RECENCY_WINDOW)"
proof -
  have "(score_at h i, i) < (score_at h j, j)"
    using drop_indices_correct(4) [where h = h and k = k] assms by blast
  then have "score_at h i \<le> score_at h j" by (auto simp: less_prod_def)
  moreover have "10 \<le> score_at h i" using score_bounds [of h i] assms(3) by simp
  ultimately have ge: "10 \<le> score_at h j" by simp
  have "score_at h j = base_score (fst (classify_message (h ! j)))
      + (if length h \<le> j + RECENCY_WINDOW then RECENCY_BONUS else 0)"
    using assms(4) by (auto simp: score_at_def score_message_def Let_def RECENCY_WINDOW_def split: prod.split)
  then show ?thesis
    using ge by (cases "fst (classify_message (h ! j))") (auto simp: RECENCY_BONUS_def split: if_splits)
qed

section \<open>What the summary mentions\<close>

lemma foldl_keep_first:
  "set (foldl (\<lambda>tools name. if name \<in> set tools then tools else tools @ [name]) ts names) = set ts \<union> set names"
  by (induction names arbitrary: ts) auto

lemma tools_of_iff: "t \<in> set (tools_of dropped) \<longleftrightarrow>
    (\<exists>msg \<in> set dropped. \<exists>part \<in> set (message_parts msg). part_tool part = Some t)"
  by (simp add: tools_of_def foldl_keep_first)

text \<open>The summary of the dropped messages names every tool they used and quotes the topics of the
  first three user messages that have one; a topic of more than 60 bytes is quoted up to a
  character boundary, and the cut never panics.\<close>

theorem summary_mentions:
  "(t \<in> set (tools_of dropped) \<longrightarrow> str_contains t (generate_pruned_summary dropped))
   \<and> (topic \<in> set (take 3 (List.map_filter topic_of dropped)) \<longrightarrow> str_contains topic (generate_pruned_summary dropped))
   \<and> (\<forall>msg body. msg_content msg = Text body \<and> msg_role msg = User \<and> length (trim body) > 3 \<longrightarrow> topic_of msg \<noteq> None)"
proof -
  define topics where "topics = (if List.map_filter topic_of dropped \<noteq> []
    then [''discussed: '' @ join ''; '' (take 3 (List.map_filter topic_of dropped))] else [])"
  define tools where "tools = (if tools_of dropped \<noteq> [] then [''used tools: '' @ join '', '' (tools_of dropped)] else [])"
  define outcomes where "outcomes = (if list_ex message_error dropped then [''encountered errors''] else [])
    @ (if list_ex part_is_result (concat (map message_parts dropped)) then [''received tool results''] else [])"
  define parts where "parts = topics @ tools @ (if outcomes \<noteq> [] then [''key outcomes: '' @ join '', '' outcomes] else [])"
  have in_summary: "sublist x (generate_pruned_summary dropped)" if x: "x \<in> set parts" for x
  proof -
    have ne: "dropped \<noteq> []" using x
      by (auto simp: parts_def topics_def tools_def outcomes_def tools_of_def List.map_filter_def split: if_splits)
    have "parts \<noteq> []" using x by auto
    then have "generate_pruned_summary dropped = (''Earlier context ('' @ nat_str (length dropped) @ '' messages pruned): '')
        @ join ''; '' parts @ ''.''"
      using ne unfolding generate_pruned_summary_def Let_def parts_def topics_def tools_def outcomes_def
      by (simp only: if_False append_assoc)
    then show ?thesis
      using sublist_order.order.trans [OF sublist_join [OF x] sublist_appendI] by metis
  qed
  have joined: "sublist x (l @ join sep xs)" if x: "x \<in> set xs" for x l sep and xs :: "string list"
  proof -
    have "sublist (join sep xs) (l @ join sep xs)" using sublist_appendI [of "join sep xs" l "[]"] by simp
    with sublist_join [OF x] show ?thesis by (rule sublist_order.order.trans)
  qed
  show ?thesis
  proof (intro conjI impI allI)
    assume t: "t \<in> set (tools_of dropped)"
    then have "tools_of dropped \<noteq> []" by auto
    then have "''used tools: '' @ join '', '' (tools_of dropped) \<in> set parts" by (simp add: parts_def tools_def)
    from sublist_order.order.trans [OF joined [OF t] in_summary [OF this]]
    show "str_contains t (generate_pruned_summary dropped)" by (simp add: str_contains_sublist)
  next
    assume t: "topic \<in> set (take 3 (List.map_filter topic_of dropped))"
    then have "List.map_filter topic_of dropped \<noteq> []" by auto
    then have "''discussed: '' @ join ''; '' (take 3 (List.map_filter topic_of dropped)) \<in> set parts"
      by (simp add: parts_def topics_def)
    from sublist_order.order.trans [OF joined [OF t] in_summary [OF this]]
    show "str_contains topic (generate_pruned_summary dropped)" by (simp add: str_contains_sublist)
  next
    fix msg :: chat_message and body
    assume "msg_content msg = Text body \<and> msg_role msg = User \<and> length (trim body) > 3"
    then show "topic_of msg \<noteq> None" by (simp add: topic_of_def)
  qed
qed

section \<open>Runs and gaps\<close>

definition said :: "role \<Rightarrow> string \<Rightarrow> chat_message" where
  "said r t = \<lparr>msg_role = r, msg_content = Text t\<rparr>"

theorem prune_history_correct_witness:
  "length (kept_messages (prune_history [said User ''thanks'', said User ''fix it'', said Assistant ''done''] 2)) = 2"
  using prune_history_correct [of "[said User ''thanks'', said User ''fix it'', said Assistant ''done'']" 2] by force

theorem critical_dropped_last_witness:
  "10 \<le> score_at (replicate 2 (said System ''a'')) 1"
proof -
  have d: "drop_indices (replicate 2 (said System ''a'')) 1 = [0]" by code_simp
  have c: "fst (classify_message (replicate 2 (said System ''a'') ! 0)) = Critical" by code_simp
  show ?thesis
    using critical_dropped_last [of 1 "replicate 2 (said System ''a'')" 0 1] c unfolding d by simp
qed

theorem summary_mentions_witness:
  "str_contains ''fix the bug'' (generate_pruned_summary [said User ''fix the bug''])"
proof -
  have "''fix the bug'' \<in> set (take 3 (List.map_filter topic_of [said User ''fix the bug'']))" by code_simp
  then show ?thesis using summary_mentions by blast
qed

text \<open>A greeting in a message of parts counts as Medium, the same greeting as a plain text as Trivial.\<close>

lemma greeting_in_parts:
  "fst (classify_message \<lparr>msg_role = User, msg_content = Parts [PText ''hello'']\<rparr>) = Medium
   \<and> fst (classify_message (said User ''hello'')) = Trivial"
  by code_simp

text \<open>The fourth user topic is not in the summary.\<close>

lemma fourth_topic_lost:
  "\<not> str_contains ''delta'' (generate_pruned_summary
     [said User ''alpha'', said User ''beta'', said User ''gamma'', said User ''delta''])"
  by code_simp


end
