(* ===== verification/Output_Compression.thy ===== *)
theory Output_Compression
  imports Rust_Str
begin

text \<open>
  Compression of large tool outputs (\<open>skyclaw-agent/src/output_compression.rs\<close>): by the kind
  of tool, the error lines and the end, the beginning and the end, or a cut. Sizes are bytes.
\<close>

definition SMALL_OUTPUT_THRESHOLD :: nat where
  "SMALL_OUTPUT_THRESHOLD = 2048"

definition MAX_KEY_LINES :: nat where
  "MAX_KEY_LINES = 50"

definition OUTPUT_ERROR_PATTERNS :: "string list" where
  "OUTPUT_ERROR_PATTERNS = [''error'', ''Error'', ''ERROR'', ''warning'', ''Warning'', ''WARNING'', ''failed'', ''Failed'',
     ''FAILED'', ''fatal'', ''Fatal'', ''FATAL'', ''panic'', ''PANIC'']"

section \<open>Cutting at character boundaries\<close>

fun boundary_below :: "string \<Rightarrow> nat \<Rightarrow> nat" where
  "boundary_below s 0 = 0"
| "boundary_below s (Suc n) = (if is_char_boundary s (Suc n) then Suc n else boundary_below s n)"

definition safe_truncate :: "string \<Rightarrow> nat \<Rightarrow> string option" where
  "safe_truncate s max_bytes =
     (if length s \<le> max_bytes then Some s else slice_to s (boundary_below s max_bytes))"

function boundary_above :: "string \<Rightarrow> nat \<Rightarrow> nat" where
  "boundary_above s n = (if n < length s \<and> \<not> is_char_boundary s n then boundary_above s (n + 1) else n)"
  by pat_completeness auto
termination by (relation "measure (\<lambda>(s, n). length s - n)") auto

declare boundary_above.simps [simp del]

definition safe_truncate_tail :: "string \<Rightarrow> nat \<Rightarrow> string option" where
  "safe_truncate_tail s max_bytes =
     (if length s \<le> max_bytes then Some s else slice_from s (boundary_above s (length s - max_bytes)))"

section \<open>Summaries\<close>

definition push_lines :: "string list \<Rightarrow> string" where
  "push_lines ls = concat (map (\<lambda>l. l @ nl) ls)"

definition truncation_marker :: string where
  "truncation_marker = ''[...truncated...]'' @ nl"

fun truncate_lines :: "nat \<Rightarrow> string \<Rightarrow> string list \<Rightarrow> string" where
  "truncate_lines max_chars acc [] = acc"
| "truncate_lines max_chars acc (l # ls) =
     (if length acc + length l + 1 > max_chars then acc @ truncation_marker
      else truncate_lines max_chars (acc @ l @ nl) ls)"

definition truncate_preserving_lines :: "string \<Rightarrow> nat \<Rightarrow> string" where
  "truncate_preserving_lines s max_chars =
     (if length s \<le> max_chars then s else truncate_lines max_chars [] (str_lines s))"

definition extract_key_lines :: "string \<Rightarrow> string list \<Rightarrow> string list" where
  "extract_key_lines output patterns = take MAX_KEY_LINES
     (filter (\<lambda>l. list_ex (\<lambda>p. str_contains (to_lowercase p) (to_lowercase l)) patterns) (str_lines output))"

definition exit_code_line :: "string \<Rightarrow> bool" where
  "exit_code_line l = (let lower = to_lowercase l in
     str_contains ''exit code'' lower \<or> str_contains ''exit status'' lower \<or> starts_with ''exit '' lower)"

definition optional_line :: "string option \<Rightarrow> string" where
  "optional_line x = (case x of None \<Rightarrow> [] | Some l \<Rightarrow> l @ nl)"

definition section_lines :: "string \<Rightarrow> string list \<Rightarrow> string" where
  "section_lines title ls = (if ls \<noteq> [] then title @ nl @ push_lines ls else [])"

definition within_budget :: "string \<Rightarrow> nat \<Rightarrow> string" where
  "within_budget result max_chars =
     (if length result > max_chars \<and> max_chars > 0 then truncate_preserving_lines result max_chars else result)"

definition summarize_shell_output :: "string \<Rightarrow> nat \<Rightarrow> string" where
  "summarize_shell_output output max_chars =
     (let lines = str_lines output;
          n = length lines;
          key_lines = extract_key_lines output OUTPUT_ERROR_PATTERNS;
          tail_count = min 20 n;
          tail_lines = drop (n - tail_count) lines
      in within_budget (''[Shell output: '' @ nat_str n @ '' lines total, '' @ nat_str (length key_lines)
             @ '' errors/warnings]'' @ nl
           @ optional_line (List.find exit_code_line lines)
           @ section_lines ''--- Key lines ---'' key_lines
           @ section_lines ''--- Last lines ---'' tail_lines) max_chars)"

definition summarize_large_text :: "string \<Rightarrow> nat \<Rightarrow> nat \<Rightarrow> string" where
  "summarize_large_text output head_lines tail_lines =
     (let lines = str_lines output; n = length lines
      in if n \<le> head_lines + tail_lines then output
         else push_lines (take head_lines lines)
           @ ''[...'' @ nat_str (n - head_lines - tail_lines) @ '' lines omitted...]'' @ nl
           @ push_lines (drop (n - tail_lines) lines))"

definition status_line :: "string \<Rightarrow> bool" where
  "status_line l = (let lower = to_lowercase l in str_contains ''status'' lower \<or> starts_with ''http/'' lower)"

definition content_type_line :: "string \<Rightarrow> bool" where
  "content_type_line l = str_contains ''content-type'' (to_lowercase l)"

definition summarize_web_output :: "string \<Rightarrow> nat \<Rightarrow> string option" where
  "summarize_web_output output max_chars =
     (let lines = str_lines output;
          result = ''[Web fetch summary]'' @ nl @ optional_line (List.find status_line lines)
            @ optional_line (List.find content_type_line lines);
          body_budget = min (max_chars - length result) 2048
      in if length output > body_budget
         then map_option (\<lambda>body. result @ ''--- Body (truncated) ---'' @ nl @ body @ nl @ truncation_marker)
                (safe_truncate output body_budget)
         else Some (result @ output))"

definition git_change_line :: "string \<Rightarrow> bool" where
  "git_change_line line = (let t = trim line in list_ex (\<lambda>p. starts_with p t)
     [''M '', ''A '', ''D '', ''?? '', ''R '', ''C '', ''U '', ''modified:'', ''new file:'', ''deleted:'',
      ''renamed:'', ''diff --git'', ''+++'', ''---''])"

definition git_error_line :: "string \<Rightarrow> bool" where
  "git_error_line line = (let lower = to_lowercase line in
     str_contains ''error'' lower \<or> str_contains ''fatal'' lower \<or> str_contains ''conflict'' lower
     \<or> str_contains ''failed'' lower)"

definition summarize_git_output :: "string \<Rightarrow> nat \<Rightarrow> string" where
  "summarize_git_output output max_chars =
     (let lines = str_lines output;
          status_lines = filter git_change_line lines;
          error_lines = filter git_error_line lines
      in within_budget (''[Git output: '' @ nat_str (length lines) @ '' lines, '' @ nat_str (length status_lines)
             @ '' changed files, '' @ nat_str (length error_lines) @ '' errors]'' @ nl
           @ section_lines ''--- Errors ---'' error_lines
           @ section_lines ''--- Changed files ---'' status_lines) max_chars)"

definition default_compress :: "string \<Rightarrow> nat \<Rightarrow> string option" where
  "default_compress output max_chars =
     (let head_bytes = min (max_chars * 2 div 3) 1024;
          tail_bytes = min (max_chars div 3) 512
      in if length output \<le> head_bytes + tail_bytes then Some output
         else do {
           head \<leftarrow> safe_truncate output head_bytes;
           tail \<leftarrow> safe_truncate_tail output tail_bytes;
           let omitted = length output - length head - length tail;
           Some (head @ nl @ ''[...truncated '' @ nat_str omitted @ '' bytes...]'' @ nl @ tail) })"

definition compress_tool_output :: "string \<Rightarrow> string \<Rightarrow> nat \<Rightarrow> string option" where
  "compress_tool_output tool output max_tokens =
     (if length output < SMALL_OUTPUT_THRESHOLD then Some output
      else let max_chars = max_tokens * 4
        in if tool \<in> {''shell'', ''bash'', ''command'', ''exec''} then Some (summarize_shell_output output max_chars)
           else if tool \<in> {''file_read'', ''read_file'', ''cat''} then Some (summarize_large_text output 50 20)
           else if tool \<in> {''web_fetch'', ''http'', ''fetch'', ''curl''} then summarize_web_output output max_chars
           else if tool \<in> {''git'', ''git_status'', ''git_diff'', ''git_log''} then Some (summarize_git_output output max_chars)
           else default_compress output max_chars)"

section \<open>Cuts never panic\<close>

lemma boundary_below_ok: "is_char_boundary s (boundary_below s n) \<and> boundary_below s n \<le> n"
  by (induction n) auto

lemma boundary_above_ok:
  "n \<le> length s \<Longrightarrow> is_char_boundary s (boundary_above s n) \<and> n \<le> boundary_above s n \<and> boundary_above s n \<le> length s"
proof (induction s n rule: boundary_above.induct)
  case (1 s n)
  then show ?case
    by (cases "n < length s \<and> \<not> is_char_boundary s n") (auto simp: boundary_above.simps [of s n])
qed

lemma safe_truncate_Some:
  obtains h where "safe_truncate s n = Some h" "prefix h s" "length h \<le> n"
proof (cases "length s \<le> n")
  case False
  then have "safe_truncate s n = Some (take (boundary_below s n) s)"
    using boundary_below_ok [of s n] by (simp add: safe_truncate_def slice_to_def)
  moreover have "length (take (boundary_below s n) s) \<le> n"
    using boundary_below_ok [of s n] by (simp add: min.coboundedI2)
  ultimately show ?thesis using that take_is_prefix by blast
qed (use that in \<open>auto simp: safe_truncate_def\<close>)

lemma safe_truncate_tail_Some:
  obtains t where "safe_truncate_tail s n = Some t" "suffix t s" "length t \<le> n"
proof (cases "length s \<le> n")
  case False
  let ?b = "boundary_above s (length s - n)"
  have b: "is_char_boundary s ?b" "length s - n \<le> ?b" using boundary_above_ok [of "length s - n" s] by auto
  then have "safe_truncate_tail s n = Some (drop ?b s)" using False by (simp add: safe_truncate_tail_def slice_from_def)
  moreover have "length (drop ?b s) \<le> n" using b(2) by simp
  ultimately show ?thesis using that suffix_drop by blast
qed (use that in \<open>auto simp: safe_truncate_tail_def\<close>)

lemma truncate_lines_length:
  "length acc \<le> max_chars \<Longrightarrow> length (truncate_lines max_chars acc ls) \<le> max_chars + length truncation_marker"
  by (induction max_chars acc ls rule: truncate_lines.induct) auto

lemma within_budget_length:
  "max_chars > 0 \<Longrightarrow> length (within_budget s max_chars) \<le> max_chars + length truncation_marker"
  using truncate_lines_length [of "[]" max_chars "str_lines s"]
  by (auto simp: within_budget_def truncate_preserving_lines_def)

lemma default_compress_parts:
  "default_compress output mc = Some output \<or> (\<exists>a b c. output = a @ b @ c \<and> length a \<le> 1024 \<and> length c \<le> 512
     \<and> default_compress output mc = Some (a @ nl @ ''[...truncated '' @ nat_str (length b) @ '' bytes...]'' @ nl @ c))"
proof -
  let ?h = "min (mc * 2 div 3) 1024" and ?t = "min (mc div 3) 512"
  obtain a where a: "safe_truncate output ?h = Some a" "prefix a output" "length a \<le> ?h"
    by (rule safe_truncate_Some)
  obtain c where c: "safe_truncate_tail output ?t = Some c" "suffix c output" "length c \<le> ?t"
    by (rule safe_truncate_tail_Some)
  show ?thesis
  proof (cases "length output \<le> ?h + ?t")
    case True
    then show ?thesis by (simp only: default_compress_def Let_def if_True simp_thms)
  next
    case False
    then have le: "length a + length c \<le> length output" using a(3) c(3) by linarith
    obtain x where x: "output = a @ x" using a(2) by (auto simp: prefix_def)
    have "length c \<le> length x" using le x by simp
    moreover have "suffix x output" using x by (simp add: suffix_def)
    ultimately have "suffix c x" using c(2) suffix_length_suffix by blast
    then obtain b where b: "x = b @ c" by (auto simp: suffix_def)
    have "default_compress output mc
        = Some (a @ nl @ ''[...truncated '' @ nat_str (length output - length a - length c) @ '' bytes...]'' @ nl @ c)"
      using False a(1) c(1) by (simp only: default_compress_def Let_def if_False Option.bind.bind_lunit)
    moreover have "length output - length a - length c = length b" using x b by simp
    moreover have "length a \<le> 1024" "length c \<le> 512" using a(3) c(3) by simp_all
    ultimately have "output = a @ b @ c \<and> length a \<le> 1024 \<and> length c \<le> 512 \<and> default_compress output mc
        = Some (a @ nl @ ''[...truncated '' @ nat_str (length b) @ '' bytes...]'' @ nl @ c)"
      using x b by (simp only: append_assoc simp_thms)
    then show ?thesis by blast
  qed
qed

text \<open>Compressing never panics on a slice. An output below 2048 bytes is returned unchanged; the
  summary of a shell or git output is at most the budget plus the truncation marker long; and
  the generic compression keeps a beginning and an end of the output, at most 1024 and 512
  bytes, and states exactly how many bytes it left out between them.\<close>

theorem compress_bounds:
  "(length output < SMALL_OUTPUT_THRESHOLD \<longrightarrow> compress_tool_output tool output mt = Some output)
   \<and> (\<exists>r. compress_tool_output tool output mt = Some r)
   \<and> (mt > 0 \<longrightarrow> length (summarize_shell_output output (mt * 4)) \<le> mt * 4 + length truncation_marker
        \<and> length (summarize_git_output output (mt * 4)) \<le> mt * 4 + length truncation_marker)
   \<and> (default_compress output mc = Some output \<or> (\<exists>a b c. output = a @ b @ c \<and> length a \<le> 1024 \<and> length c \<le> 512
        \<and> default_compress output mc = Some (a @ nl @ ''[...truncated '' @ nat_str (length b) @ '' bytes...]'' @ nl @ c)))"
proof (intro conjI impI)
  have web: "\<exists>r. summarize_web_output output m = Some r" for m
    unfolding summarize_web_output_def Let_def by (metis option.simps(9) safe_truncate_Some)
  have total: "\<exists>r. default_compress output m = Some r" for m
    using default_compress_parts [of "output" m] by blast
  show "\<exists>r. compress_tool_output tool output mt = Some r"
    unfolding compress_tool_output_def Let_def using web total by (simp split: if_split)
  show "length output < SMALL_OUTPUT_THRESHOLD \<Longrightarrow> compress_tool_output tool output mt = Some output"
    by (simp add: compress_tool_output_def)
  show "mt > 0 \<Longrightarrow> length (summarize_shell_output output (mt * 4)) \<le> mt * 4 + length truncation_marker"
    unfolding summarize_shell_output_def Let_def by (rule within_budget_length) simp
  show "mt > 0 \<Longrightarrow> length (summarize_git_output output (mt * 4)) \<le> mt * 4 + length truncation_marker"
    unfolding summarize_git_output_def Let_def by (rule within_budget_length) simp
qed (rule default_compress_parts)

theorem compress_bounds_witness:
  "length (summarize_shell_output ''ok'' (10 * 4)) \<le> 58"
proof -
  have "length truncation_marker = 18" by code_simp
  moreover have "length (summarize_shell_output ''ok'' (10 * 4)) \<le> 10 * 4 + length truncation_marker"
    using compress_bounds [of "''ok''" "''shell''" 10 0] by (simp only: zero_less_numeral simp_thms)
  ultimately show ?thesis by simp
qed

section \<open>Lines are kept whole\<close>

lemma truncate_lines_prefix:
  "\<exists>k. truncate_lines m acc ls = acc @ push_lines (take k ls) @ (if k < length ls then truncation_marker else [])
     \<and> k \<le> length ls"
proof (induction m acc ls rule: truncate_lines.induct)
  case (1 m acc)
  then show ?case by (simp add: push_lines_def)
next
  case (2 m acc l ls)
  show ?case
  proof (cases "length acc + length l + 1 > m")
    case True
    then show ?thesis by (intro exI [of _ 0]) (simp add: push_lines_def)
  next
    case False
    then obtain k where "truncate_lines m (acc @ l @ nl) ls = (acc @ l @ nl) @ push_lines (take k ls)
        @ (if k < length ls then truncation_marker else [])" "k \<le> length ls"
      using 2 by blast
    then show ?thesis using False by (intro exI [of _ "Suc k"]) (simp add: push_lines_def)
  qed
qed

text \<open>Cutting a summary to its budget keeps a number of its first lines, each of them whole, and
  ends with the truncation marker exactly when lines are missing.\<close>

theorem truncate_keeps_whole_lines:
  "length s \<le> m \<and> truncate_preserving_lines s m = s
   \<or> (\<exists>k \<le> length (str_lines s). truncate_preserving_lines s m
        = push_lines (take k (str_lines s)) @ (if k < length (str_lines s) then truncation_marker else []))"
proof (cases "length s \<le> m")
  case False
  obtain k where "truncate_lines m [] (str_lines s) = push_lines (take k (str_lines s))
      @ (if k < length (str_lines s) then truncation_marker else [])" "k \<le> length (str_lines s)"
    using truncate_lines_prefix [of m "[]" "str_lines s"] unfolding append_Nil by blast
  then show ?thesis using False unfolding truncate_preserving_lines_def if_not_P [OF False] by blast
qed (simp add: truncate_preserving_lines_def)

section \<open>Gaps\<close>

text \<open>An error line does not survive a small budget, and the marker alone exceeds it.\<close>

lemma error_line_lost: "summarize_shell_output ''error: disk full'' 10 = truncation_marker \<and> length truncation_marker = 18"
  by code_simp

end
