(* ===== verification/Streaming.thy ===== *)
theory Streaming
  imports Skyclaw_Types
begin

text \<open>
  Streaming of partial answers (\<open>skyclaw-agent/src/streaming.rs\<close>): the notifier of tool
  status messages, and the buffer that collects tokens and releases them at word
  boundaries. \<open>send\<close> is the channel's \<open>send_message\<close>, a parameter that returns what the channel
  answers; the messages handed to it are part of the result. Times are nanoseconds.
\<close>

section \<open>Configuration\<close>

record streaming_config =
  sc_enabled :: bool
  min_flush_interval_ms :: u64
  sc_tool_status_updates :: bool

definition default_true :: bool where
  "default_true = True"

definition default_min_flush_interval_ms :: u64 where
  "default_min_flush_interval_ms = 1000"

definition streaming_config_default :: streaming_config where
  "streaming_config_default = \<lparr>sc_enabled = True, min_flush_interval_ms = 1000, sc_tool_status_updates = True\<rparr>"

definition sc_validate :: "streaming_config \<Rightarrow> unit result" where
  "sc_validate c =
     (if min_flush_interval_ms c < 100
      then Inl (Config ''streaming.min_flush_interval_ms must be >= 100 to avoid rate limiting'')
      else if min_flush_interval_ms c > 30000
      then Inl (Config ''streaming.min_flush_interval_ms must be <= 30000'')
      else Inr ())"

section \<open>Tool notifications\<close>

record notifier =
  sn_has_channel :: bool
  sn_chat_id :: string
  tool_status_updates :: bool
  sn_enabled :: bool

definition notifier_new :: "bool \<Rightarrow> string \<Rightarrow> streaming_config \<Rightarrow> notifier" where
  "notifier_new has_channel chat c = \<lparr>sn_has_channel = has_channel, sn_chat_id = chat,
     tool_status_updates = sc_tool_status_updates c, sn_enabled = sc_enabled c\<rparr>"

definition notifier_disabled :: notifier where
  "notifier_disabled = \<lparr>sn_has_channel = False, sn_chat_id = [], tool_status_updates = False, sn_enabled = False\<rparr>"

definition format_tool_start :: "string \<Rightarrow> string" where
  "format_tool_start tool =
     (let verb =
        (if tool = ''shell'' then ''Running shell command''
         else if tool = ''browser'' \<or> tool = ''browse'' then ''Browsing page''
         else if tool = ''file_read'' \<or> tool = ''read_file'' then ''Reading file''
         else if tool = ''file_write'' \<or> tool = ''write_file'' then ''Writing file''
         else if tool = ''file_edit'' \<or> tool = ''edit_file'' then ''Editing file''
         else if tool = ''git'' then ''Running git operation''
         else if tool = ''http'' \<or> tool = ''http_request'' then ''Making HTTP request''
         else if tool = ''cron'' then ''Managing cron job''
         else tool)
      in [CHR 0xE2, CHR 0xA7, CHR 0x96] @ '' '' @ verb @ ''...'')"

definition format_tool_complete :: "string \<Rightarrow> bool \<Rightarrow> string" where
  "format_tool_complete tool success =
     (if success then [CHR 0xE2, CHR 0x9C, CHR 0x93] @ '' '' @ tool @ '' complete''
      else [CHR 0xE2, CHR 0x9C, CHR 0x97] @ '' '' @ tool @ '' failed'')"

text \<open>What was sent, if anything, and the result: a channel's error is only logged.\<close>

definition send_status :: "(outbound_message \<Rightarrow> unit result) \<Rightarrow> notifier \<Rightarrow> string \<Rightarrow>
    outbound_message option \<times> unit result" where
  "send_status send n body =
     (if \<not> sn_has_channel n then (None, Inr ())
      else let msg = \<lparr>out_chat_id = sn_chat_id n, out_text = body, out_reply_to = None, out_parse_mode = None\<rparr>
           in (Some msg, case send msg of Inr _ \<Rightarrow> Inr () | Inl _ \<Rightarrow> Inr ()))"

definition notify_tool_start :: "(outbound_message \<Rightarrow> unit result) \<Rightarrow> notifier \<Rightarrow> string \<Rightarrow>
    outbound_message option \<times> unit result" where
  "notify_tool_start send n tool =
     (if \<not> sn_enabled n \<or> \<not> tool_status_updates n then (None, Inr ())
      else send_status send n (format_tool_start tool))"

definition notify_tool_complete :: "(outbound_message \<Rightarrow> unit result) \<Rightarrow> notifier \<Rightarrow> string \<Rightarrow> bool \<Rightarrow>
    outbound_message option \<times> unit result" where
  "notify_tool_complete send n tool success =
     (if \<not> sn_enabled n \<or> \<not> tool_status_updates n then (None, Inr ())
      else send_status send n (format_tool_complete tool success))"

definition notify_status :: "(outbound_message \<Rightarrow> unit result) \<Rightarrow> notifier \<Rightarrow> string \<Rightarrow>
    outbound_message option \<times> unit result" where
  "notify_status send n message =
     (if \<not> sn_enabled n then (None, Inr ()) else send_status send n message)"

section \<open>The token buffer\<close>

record stream_buffer =
  sb_buffer :: string
  last_flush :: nat
  min_flush_interval :: nat
  total_chars :: nat
  flush_count :: nat

definition sb_new :: "nat \<Rightarrow> nat \<Rightarrow> stream_buffer" where
  "sb_new now interval = \<lparr>sb_buffer = [], last_flush = now, min_flush_interval = interval,
     total_chars = 0, flush_count = 0\<rparr>"

definition sb_from_config :: "nat \<Rightarrow> streaming_config \<Rightarrow> stream_buffer" where
  "sb_from_config now c = sb_new now (unat (min_flush_interval_ms c) * 10 ^ 6)"

definition sb_push :: "string \<Rightarrow> stream_buffer \<Rightarrow> stream_buffer" where
  "sb_push token b = b\<lparr>sb_buffer := sb_buffer b @ token, total_chars := total_chars b + length token\<rparr>"

definition boundary_char :: "char \<Rightarrow> bool" where
  "boundary_char c \<longleftrightarrow> c \<in> set ('' .!?)]},;:'' @ [CHR 0x0A, CHR 0x09])"

text \<open>The characters sought are ASCII, so a match is one byte long.\<close>

definition find_last_word_boundary :: "string \<Rightarrow> nat" where
  "find_last_word_boundary s =
     (case filter (\<lambda>i. boundary_char (s ! i)) (rev [0..<length s]) of [] \<Rightarrow> 0 | i # _ \<Rightarrow> i + 1)"

text \<open>The outer \<^const>\<open>None\<close> would be a panic of one of the slices.\<close>

definition try_flush :: "nat \<Rightarrow> stream_buffer \<Rightarrow> (string option \<times> stream_buffer) option" where
  "try_flush now b =
     (if sb_buffer b = [] then Some (None, b)
      else if now - last_flush b < min_flush_interval b then Some (None, b)
      else let flush_end = find_last_word_boundary (sb_buffer b)
        in if flush_end = 0
           then (if length (sb_buffer b) > 500
                 then Some (Some (sb_buffer b), b\<lparr>sb_buffer := [], last_flush := now, flush_count := flush_count b + 1\<rparr>)
                 else Some (None, b))
           else do {
             flushed \<leftarrow> slice_to (sb_buffer b) flush_end;
             remainder \<leftarrow> slice_from (sb_buffer b) flush_end;
             Some (Some flushed, b\<lparr>sb_buffer := remainder, last_flush := now, flush_count := flush_count b + 1\<rparr>) })"

definition flush_all :: "nat \<Rightarrow> stream_buffer \<Rightarrow> string option \<times> stream_buffer" where
  "flush_all now b =
     (if sb_buffer b = [] then (None, b)
      else (Some (sb_buffer b), b\<lparr>sb_buffer := [], last_flush := now, flush_count := flush_count b + 1\<rparr>))"

definition has_content :: "stream_buffer \<Rightarrow> bool" where
  "has_content b \<longleftrightarrow> sb_buffer b \<noteq> []"

section \<open>A boundary follows every ASCII character\<close>

lemma utf8_valid_after_ascii:
  "utf8_valid s \<Longrightarrow> i < length s \<Longrightarrow> byte (s ! i) < 128 \<Longrightarrow> utf8_valid (drop (Suc i) s)"
proof (induction s arbitrary: i rule: utf8_valid.induct)
  case (2 a s)
  define k where "k = utf8_len a"
  have k: "k \<noteq> 0" "k - 1 \<le> length s" "list_all is_cont (take (k - 1) s)" "utf8_valid (drop (k - 1) s)"
    using "2.prems"(1) by (auto simp: k_def Let_def)
  show ?case
  proof (cases i)
    case 0
    then have "byte a < 128" using "2.prems"(3) by simp
    then have "k = 1" by (simp add: k_def utf8_len_def)
    then show ?thesis using k(4) 0 by simp
  next
    case (Suc j)
    have ascii: "byte (s ! j) < 128" "j < length s" using "2.prems"(2,3) Suc by simp_all
    have "k - 1 \<le> j"
    proof (rule ccontr)
      assume "\<not> k - 1 \<le> j"
      then have "is_cont (take (k - 1) s ! j)" using k(3) ascii(2) by (auto simp: list_all_length)
      then show False using ascii(1) \<open>\<not> k - 1 \<le> j\<close> by (simp add: is_cont_def)
    qed
    moreover have "j - (k - 1) < length (drop (k - 1) s)" "byte (drop (k - 1) s ! (j - (k - 1))) < 128"
      using ascii \<open>k - 1 \<le> j\<close> by simp_all
    then have "utf8_valid (drop (Suc (j - (k - 1))) (drop (k - 1) s))"
      using "2.IH" [of k "j - (k - 1)"] k by (simp add: k_def)
    ultimately show ?thesis using Suc by (simp add: Suc_diff_le)
  qed
qed simp

lemma utf8_boundary:
  assumes "utf8_valid (drop i s)" "i \<le> length s"
  shows "is_char_boundary s i"
proof (cases "i < length s")
  case True
  then have "drop i s = s ! i # drop (Suc i) s" by (simp add: Cons_nth_drop_Suc)
  then have "\<not> is_cont (s ! i)" using assms(1) utf8_valid_head by metis
  then show ?thesis using True by (simp add: is_char_boundary_def)
qed (use assms(2) in \<open>simp add: is_char_boundary_def\<close>)

section \<open>The buffer loses and reorders nothing\<close>

lemma boundary_char_ascii: "boundary_char c \<Longrightarrow> byte c < 128"
  by (auto simp: boundary_char_def byte_def)

lemma find_last_word_boundary_spec:
  "find_last_word_boundary s = 0 \<or> (\<exists>i < length s. find_last_word_boundary s = Suc i \<and> boundary_char (s ! i))"
proof (cases "filter (\<lambda>i. boundary_char (s ! i)) (rev [0..<length s])")
  case (Cons i js)
  then have "i \<in> set (filter (\<lambda>i. boundary_char (s ! i)) (rev [0..<length s]))" by simp
  then have "i < length s \<and> boundary_char (s ! i)"
    by (simp only: set_filter set_rev set_upt mem_Collect_eq atLeastLessThan_iff)
  then show ?thesis using Cons by (simp add: find_last_word_boundary_def)
qed (simp add: find_last_word_boundary_def)

lemma try_flush_cases:
  assumes "utf8_valid (sb_buffer b)"
  obtains (kept) "try_flush now b = Some (None, b)"
  | (flushed) f r where "sb_buffer b = f @ r" "f \<noteq> []" "utf8_valid r"
      "try_flush now b = Some (Some f, b\<lparr>sb_buffer := r, last_flush := now, flush_count := flush_count b + 1\<rparr>)"
      "min_flush_interval b \<le> now - last_flush b"
proof (cases "sb_buffer b = [] \<or> now - last_flush b < min_flush_interval b")
  case True
  then show ?thesis using kept by (auto simp: try_flush_def)
next
  case False
  consider "find_last_word_boundary (sb_buffer b) = 0"
    | i where "i < length (sb_buffer b)" "find_last_word_boundary (sb_buffer b) = Suc i" "boundary_char (sb_buffer b ! i)"
    using find_last_word_boundary_spec [of "sb_buffer b"] by (elim disjE exE conjE) simp_all
  then show ?thesis
  proof cases
    case 1
    show ?thesis
    proof (cases "length (sb_buffer b) > 500")
      case True
      then show ?thesis
        using False 1 by (intro flushed [of "sb_buffer b" "[]"]) (simp_all add: try_flush_def)
    next
      case False2: False
      then show ?thesis using False 1 by (intro kept) (simp add: try_flush_def)
    qed
  next
    case (2 i)
    let ?s = "sb_buffer b"
    have valid: "utf8_valid (drop (Suc i) ?s)"
      using utf8_valid_after_ascii [OF assms 2(1)] boundary_char_ascii [OF 2(3)] .
    then have "is_char_boundary ?s (Suc i)" using utf8_boundary 2(1) by simp
    then have "try_flush now b = Some (Some (take (Suc i) ?s),
        b\<lparr>sb_buffer := drop (Suc i) ?s, last_flush := now, flush_count := flush_count b + 1\<rparr>)"
      using False 2(2) by (simp add: try_flush_def slice_to_def slice_from_def)
    then show ?thesis using False 2(1) valid by (intro flushed [of "take (Suc i) ?s" "drop (Suc i) ?s"]) auto
  qed
qed

text \<open>One life of a buffer: tokens pushed, flushes attempted, with the texts released.\<close>

datatype stream_event = Push string | TryFlush nat | FlushAll nat

fun sb_run :: "stream_buffer \<Rightarrow> stream_event list \<Rightarrow> (string list \<times> stream_buffer) option" where
  "sb_run b [] = Some ([], b)"
| "sb_run b (Push t # es) = sb_run (sb_push t b) es"
| "sb_run b (TryFlush now # es) = do {
     (out, b') \<leftarrow> try_flush now b;
     (outs, b'') \<leftarrow> sb_run b' es;
     Some ((case out of None \<Rightarrow> [] | Some f \<Rightarrow> [f]) @ outs, b'') }"
| "sb_run b (FlushAll now # es) = do {
     let (out, b') = flush_all now b;
     (outs, b'') \<leftarrow> sb_run b' es;
     Some ((case out of None \<Rightarrow> [] | Some f \<Rightarrow> [f]) @ outs, b'') }"

fun pushed :: "stream_event list \<Rightarrow> string list" where
  "pushed [] = []"
| "pushed (Push t # es) = t # pushed es"
| "pushed (_ # es) = pushed es"

lemma sb_run_conserves:
  "utf8_valid (sb_buffer b) \<Longrightarrow> list_all utf8_valid (pushed es) \<Longrightarrow>
     \<exists>outs b'. sb_run b es = Some (outs, b') \<and> concat outs @ sb_buffer b' = sb_buffer b @ concat (pushed es)
       \<and> [] \<notin> set outs \<and> flush_count b' = flush_count b + length outs
       \<and> total_chars b' = total_chars b + length (concat (pushed es))"
proof (induction es arbitrary: b)
  case (Cons e es)
  show ?case
  proof (cases e)
    case (Push t)
    have "utf8_valid (sb_buffer (sb_push t b))"
      using Cons.prems Push by (simp add: sb_push_def utf8_valid_append)
    from Cons.IH [OF this] Cons.prems show ?thesis by (auto simp: Push sb_push_def)
  next
    case (TryFlush now)
    show ?thesis
    proof (cases rule: try_flush_cases [OF Cons.prems(1), of now, case_names kept flushed])
      case kept
      then show ?thesis using Cons.IH [OF Cons.prems(1)] Cons.prems(2) TryFlush by auto
    next
      case (flushed f r)
      let ?b = "b\<lparr>sb_buffer := r, last_flush := now, flush_count := flush_count b + 1\<rparr>"
      have "utf8_valid (sb_buffer ?b)" using flushed by simp
      from Cons.IH [OF this] Cons.prems(2) obtain outs b' where "sb_run ?b es = Some (outs, b')"
        "concat outs @ sb_buffer b' = r @ concat (pushed es)" "[] \<notin> set outs"
        "flush_count b' = flush_count b + 1 + length outs"
        "total_chars b' = total_chars b + length (concat (pushed es))" using TryFlush by auto
      then show ?thesis using flushed TryFlush by auto
    qed
  next
    case (FlushAll now)
    show ?thesis
    proof (cases "sb_buffer b = []")
      case True
      then show ?thesis using Cons.IH [OF Cons.prems(1)] Cons.prems(2) FlushAll by (auto simp: flush_all_def)
    next
      case False
      let ?b = "b\<lparr>sb_buffer := [], last_flush := now, flush_count := flush_count b + 1\<rparr>"
      have "utf8_valid (sb_buffer ?b)" by simp
      from Cons.IH [OF this] Cons.prems(2) obtain outs b' where "sb_run ?b es = Some (outs, b')"
        "concat outs @ sb_buffer b' = concat (pushed es)" "[] \<notin> set outs"
        "flush_count b' = flush_count b + 1 + length outs"
        "total_chars b' = total_chars b + length (concat (pushed es))" using FlushAll by auto
      then show ?thesis using False FlushAll by (auto simp: flush_all_def)
    qed
  qed
qed simp



text \<open>Notifications never fail, whatever the channel answers, and go to the notifier's own chat. A
  disabled notifier, and one without a channel, send nothing.\<close>

theorem notifications_best_effort:
  "snd (notify_tool_start send n tool) = Inr () \<and> snd (notify_tool_complete send n tool ok) = Inr ()
   \<and> snd (notify_status send n msg) = Inr ()
   \<and> (\<not> sn_enabled n \<or> \<not> sn_has_channel n \<longrightarrow> fst (notify_tool_start send n tool) = None
        \<and> fst (notify_tool_complete send n tool ok) = None \<and> fst (notify_status send n msg) = None)
   \<and> (\<forall>m \<in> set_option (fst (notify_tool_start send n tool)) \<union> set_option (fst (notify_status send n msg)).
        out_chat_id m = sn_chat_id n)"
  by (auto simp: notify_tool_start_def notify_tool_complete_def notify_status_def send_status_def Let_def split: sum.split)

theorem notifications_best_effort_witness:
  "fst (notify_status (\<lambda>_. Inl (Channel ''down'')) notifier_disabled ''hi'') = None"
proof -
  have "\<not> sn_enabled notifier_disabled" by (simp add: notifier_disabled_def)
  then show ?thesis
    using notifications_best_effort [of "\<lambda>_. Inl (Channel ''down'')" notifier_disabled "[]" True "''hi''"] by blast
qed

end
