(* ===== verification/Durations.thy ===== *)
theory Durations
  imports Skyclaw_Types
begin

text \<open>
  Duration texts such as \<open>30m\<close> (\<open>crates/skyclaw-automation/src/duration.rs\<close>). A
  \<open>Duration::from_secs\<close> is its number of seconds; the multiplication wraps in 64 bits.
\<close>

definition duration_unit :: "string \<Rightarrow> string \<times> u64" where
  "duration_unit s = (case strip_suffix_char CHR ''d'' s of Some n \<Rightarrow> (n, 86400)
     | None \<Rightarrow> (case strip_suffix_char CHR ''h'' s of Some n \<Rightarrow> (n, 3600)
     | None \<Rightarrow> (case strip_suffix_char CHR ''m'' s of Some n \<Rightarrow> (n, 60)
     | None \<Rightarrow> (case strip_suffix_char CHR ''s'' s of Some n \<Rightarrow> (n, 1)
     | None \<Rightarrow> (s, 1)))))"

definition parse_duration :: "string \<Rightarrow> string + u64" where
  "parse_duration s =
     (let s = trim s in
      if s = [] then Inl ''empty duration string''
      else let (num_str, multiplier) = duration_unit s in
        case parse_uint 64 (trim num_str) of
          None \<Rightarrow> Inl (''invalid duration number: '' @ quoted num_str)
        | Some v \<Rightarrow> let value = (of_nat v :: u64) in
            if value = 0 then Inl ''duration must be > 0''
            else Inr (value * multiplier))"

text \<open>The units a text can name, with their seconds.\<close>

definition unit_texts :: "(string \<times> nat) list" where
  "unit_texts = [(''d'', 86400), (''h'', 3600), (''m'', 60), (''s'', 1), ([], 1)]"

lemma strip_suffix_char_snoc [simp]: "strip_suffix_char c (s @ [d]) = (if c = d then Some s else None)"
  by (simp add: strip_suffix_char_def)

lemma duration_unit_digits:
  assumes "(u, k) \<in> set unit_texts" "t \<noteq> []" "list_all is_ascii_digit t" "u = [] \<longrightarrow> b = 0"
  shows "duration_unit (t @ replicate b (CHR '' '') @ u) = (t @ replicate b (CHR '' ''), of_nat k)"
proof (cases "u = []")
  case True
  obtain t' d where "t = t' @ [d]" "is_ascii_digit d" using assms(2,3) by (cases t rule: rev_cases) auto
  moreover have "d \<notin> {CHR ''d'', CHR ''h'', CHR ''m'', CHR ''s''}"
    using \<open>is_ascii_digit d\<close> by (auto simp: is_ascii_digit_def byte_def)
  ultimately show ?thesis using assms(1,4) True by (auto simp: unit_texts_def duration_unit_def)
next
  case False
  have "duration_unit ((t @ replicate b (CHR '' '')) @ u) = (t @ replicate b (CHR '' ''), of_nat k)"
    using assms(1) False by (auto simp: unit_texts_def duration_unit_def simp del: append_assoc)
  then show ?thesis by simp
qed

lemma printable_unit: "(u, k) \<in> set unit_texts \<Longrightarrow> u \<noteq> [] \<Longrightarrow> printable (last u)"
  by (auto simp: unit_texts_def printable_def byte_def)

lemma parse_duration_units:
  assumes "(u, k) \<in> set unit_texts" "0 < n" "n < 2 ^ 64" "u = [] \<longrightarrow> b = 0"
  shows "parse_duration (replicate a (CHR '' '') @ (nat_str n @ replicate b (CHR '' '') @ u) @ replicate c (CHR '' ''))
    = Inr (of_nat (n * k))"
proof -
  let ?s = "nat_str n @ replicate b (CHR '' '') @ u"
  have ds: "nat_str n \<noteq> []" "list_all is_ascii_digit (nat_str n)" using nat_str_digits by auto
  then have ends: "printable (hd (nat_str n))" "printable (last (nat_str n))" by (auto simp: list_all_iff)
  have s: "?s \<noteq> []" "printable (hd ?s)" using ds ends by auto
  moreover have "printable (last ?s)"
    using ends ds(1) printable_unit [OF assms(1)] assms(4) by (cases "u = []") auto
  ultimately have "trim (replicate a (CHR '' '') @ ?s @ replicate c (CHR '' '')) = ?s" by (rule trim_blanks)
  moreover have "trim (nat_str n @ replicate b (CHR '' '')) = nat_str n"
    using trim_blanks [OF ds(1) ends, of 0 b] by simp
  moreover have "(of_nat n :: u64) \<noteq> 0"
  proof -
    have "unat (of_nat n :: u64) = n" using assms(3) by (simp add: unat_of_nat)
    then show ?thesis using assms(2) by auto
  qed
  ultimately show ?thesis
    using s(1) parse_nat_str [OF assms(3)] duration_unit_digits [OF assms(1) ds assms(4)]
    by (simp add: parse_duration_def)
qed

text \<open>A positive decimal number of at most 64 bits, blanks and a unit, with blanks around them, is
  read as that many units of seconds, modulo \<open>2 ^ 64\<close>: the right value exactly when it fits.\<close>

theorem duration_roundtrip:
  assumes "(u, k) \<in> set unit_texts" "0 < n" "n < 2 ^ 64" "u = [] \<longrightarrow> b = 0"
  shows "\<exists>d. parse_duration (replicate a (CHR '' '') @ (nat_str n @ replicate b (CHR '' '') @ u) @ replicate c (CHR '' ''))
      = Inr d \<and> unat d = n * k mod 2 ^ 64"
  using parse_duration_units [OF assms] by (intro exI [of _ "of_nat (n * k)"] conjI) (simp_all add: unat_of_nat del: of_nat_mult)

theorem duration_roundtrip_witness:
  "\<exists>d. parse_duration (replicate 1 (CHR '' '') @ (nat_str 90 @ replicate 1 (CHR '' '') @ ''m'') @ replicate 0 (CHR '' ''))
     = Inr d \<and> unat d = 5400"
proof -
  have "(''m'', 60) \<in> set unit_texts" by (simp add: unit_texts_def)
  from duration_roundtrip [OF this, of 90 1 1 0] show ?thesis by simp
qed

text \<open>A number of days whose seconds wrap to zero passes the check against zero.\<close>

lemma zero_duration_accepted: "parse_duration (nat_str (2 ^ 57) @ ''d'') = Inr 0"
proof -
  have "(''d'', 86400) \<in> set unit_texts" by (simp add: unit_texts_def)
  then have "parse_duration (nat_str (2 ^ 57) @ ''d'') = Inr (of_nat (2 ^ 57 * 86400))"
    using parse_duration_units [of "''d''" 86400 "2 ^ 57" 0 0 0] by simp
  moreover have "(2::nat) ^ 57 * 86400 = 675 * 2 ^ LENGTH(64)" by simp
  then have "(of_nat (2 ^ 57 * 86400) :: u64) = 0" by (metis dvd_triv_right word_of_nat_eq_0_iff)
  ultimately show ?thesis by simp
qed

end
