(* ===== verification/Plain_Text.thy ===== *)
theory Plain_Text
  imports Skyclaw_Types
begin

text \<open>
  A plain text format for lists of texts and for JSON values, with its reader. The program
  uses other formats, of crates that are parameters here; this one shows that what is asked of
  those parameters can be had, and runs the models on concrete values.
\<close>

section \<open>Lists of texts\<close>

definition enc_str :: "string \<Rightarrow> string" where
  "enc_str s = concat (map (\<lambda>c. [CHR ''x'', c]) s) @ '';''"

fun dec_strs :: "string \<Rightarrow> string \<Rightarrow> string list" where
  "dec_strs acc [] = []"
| "dec_strs acc (a # r) =
     (if a = CHR '';'' then acc # dec_strs [] r
      else case r of [] \<Rightarrow> [] | c # r' \<Rightarrow> if a = CHR ''x'' then dec_strs (acc @ [c]) r' else [])"

lemma dec_strs_enc: "dec_strs acc (enc_str s @ r) = (acc @ s) # dec_strs [] r"
  by (induction s arbitrary: acc) (simp_all add: enc_str_def)

lemma dec_strs_concat: "dec_strs [] (concat (map enc_str ss) @ r) = ss @ dec_strs [] r"
  by (induction ss) (simp_all add: dec_strs_enc)

section \<open>JSON values\<close>

fun toks :: "json \<Rightarrow> string list" where
  "toks JNull = [''n'']"
| "toks (JBool b) = [if b then ''t'' else ''f'']"
| "toks (JNumber s) = [''d'', s]"
| "toks (JString s) = [''s'', s]"
| "toks (JArray js) = ''a'' # concat (map toks js) @ [''e'']"
| "toks (JObject kvs) = ''o'' # concat (map (\<lambda>kv. ''k'' # fst kv # toks (snd kv)) kvs) @ [''e'']"

text \<open>The reader takes as many steps as its first argument says.\<close>

fun read_toks :: "nat \<Rightarrow> string list \<Rightarrow> (json \<times> string list) option"
  and read_items :: "nat \<Rightarrow> string list \<Rightarrow> (json list \<times> string list) option"
  and read_fields :: "nat \<Rightarrow> string list \<Rightarrow> ((string \<times> json) list \<times> string list) option" where
  "read_toks (Suc n) (t # r) =
     (if t = ''n'' then Some (JNull, r) else if t = ''t'' then Some (JBool True, r)
      else if t = ''f'' then Some (JBool False, r)
      else if t = ''d'' then (case r of [] \<Rightarrow> None | s # r \<Rightarrow> Some (JNumber s, r))
      else if t = ''s'' then (case r of [] \<Rightarrow> None | s # r \<Rightarrow> Some (JString s, r))
      else if t = ''a'' then map_option (\<lambda>(js, r). (JArray js, r)) (read_items n r)
      else if t = ''o'' then map_option (\<lambda>(kvs, r). (JObject kvs, r)) (read_fields n r)
      else None)"
| "read_toks _ _ = None"
| "read_items (Suc n) (t # r) =
     (if t = ''e'' then Some ([], r)
      else case read_toks n (t # r) of None \<Rightarrow> None
        | Some (j, r) \<Rightarrow> map_option (\<lambda>(js, r). (j # js, r)) (read_items n r))"
| "read_items _ _ = None"
| "read_fields (Suc n) (t # r) =
     (if t = ''e'' then Some ([], r)
      else case r of [] \<Rightarrow> None | k # r \<Rightarrow> (case read_toks n r of None \<Rightarrow> None
        | Some (j, r) \<Rightarrow> map_option (\<lambda>(kvs, r). ((k, j) # kvs, r)) (read_fields n r)))"
| "read_fields _ _ = None"

lemma toks_Cons: "\<exists>t ts. toks j = t # ts \<and> t \<noteq> ''e''"
  by (cases j) auto

lemma read_items_toks:
  assumes "\<And>j n r. j \<in> set js \<Longrightarrow> 2 * length (toks j) \<le> n \<Longrightarrow> read_toks n (toks j @ r) = Some (j, r)"
    and "2 * length (concat (map toks js)) < n"
  shows "read_items n (concat (map toks js) @ ''e'' # r) = Some (js, r)"
  using assms
proof (induction js arbitrary: n)
  case Nil
  then show ?case by (cases n) simp_all
next
  case (Cons j js)
  obtain m where n: "n = Suc m" using Cons.prems(2) by (cases n) auto
  obtain t ts where t: "toks j = t # ts" "t \<noteq> ''e''" using toks_Cons by blast
  have "read_toks m (toks j @ concat (map toks js) @ ''e'' # r) = Some (j, concat (map toks js) @ ''e'' # r)"
    by (rule Cons.prems(1)) (use Cons.prems(2) n in simp_all)
  moreover have "read_items m (concat (map toks js) @ ''e'' # r) = Some (js, r)"
    by (rule Cons.IH) (use Cons.prems n t in simp_all)
  ultimately show ?case using t n by simp
qed

lemma read_fields_toks:
  assumes "\<And>j n r. j \<in> snd ` set kvs \<Longrightarrow> 2 * length (toks j) \<le> n \<Longrightarrow> read_toks n (toks j @ r) = Some (j, r)"
    and "2 * length (concat (map (\<lambda>kv. ''k'' # fst kv # toks (snd kv)) kvs)) < n"
  shows "read_fields n (concat (map (\<lambda>kv. ''k'' # fst kv # toks (snd kv)) kvs) @ ''e'' # r) = Some (kvs, r)"
  using assms
proof (induction kvs arbitrary: n)
  case Nil
  then show ?case by (cases n) simp_all
next
  case (Cons kv kvs)
  obtain m where n: "n = Suc m" using Cons.prems(2) by (cases n) auto
  let ?rest = "concat (map (\<lambda>kv. ''k'' # fst kv # toks (snd kv)) kvs) @ ''e'' # r"
  have "read_toks m (toks (snd kv) @ ?rest) = Some (snd kv, ?rest)"
    by (rule Cons.prems(1)) (use Cons.prems(2) n in simp_all)
  moreover have "read_fields m ?rest = Some (kvs, r)" by (rule Cons.IH) (use Cons.prems n in simp_all)
  ultimately show ?case using n by simp
qed

lemma read_toks_toks: "2 * length (toks j) \<le> n \<Longrightarrow> read_toks n (toks j @ r) = Some (j, r)"
proof (induction j arbitrary: n r rule: toks.induct)
  case (5 js)
  then obtain m where "n = Suc m" by (cases n) auto
  then show ?case using 5 read_items_toks [of js m r] by simp
next
  case (6 kvs)
  then obtain m where "n = Suc m" by (cases n) auto
  moreover have "read_toks n (toks j @ r) = Some (j, r)" if "j \<in> snd ` set kvs" "2 * length (toks j) \<le> n" for j n r
    using 6(1) that by auto
  ultimately show ?case using 6(2) read_fields_toks [of kvs m r] by simp
qed (case_tac n; simp)+

definition plain_json :: "json \<Rightarrow> string" where
  "plain_json j = concat (map enc_str (toks j))"

definition read_json :: "string \<Rightarrow> string + json" where
  "read_json s = (let ts = dec_strs [] s in
     case read_toks (2 * length ts) ts of None \<Rightarrow> Inl ''not a value'' | Some (j, _) \<Rightarrow> Inr j)"

lemma read_plain_json [simp]: "read_json (plain_json j) = Inr j"
  using read_toks_toks [of j "2 * length (toks j)" "[]"] dec_strs_concat [of "toks j" "[]"]
  by (simp add: read_json_def plain_json_def)

section \<open>Numbers\<close>

definition plain_int :: "int \<Rightarrow> string" where
  "plain_int i = (if i < 0 then ''-'' @ nat_str (nat (- i)) else nat_str (nat i))"

definition read_int :: "string \<Rightarrow> string + int" where
  "read_int s = (case strip_prefix ''-'' s of
      Some t \<Rightarrow> (case digits_val 0 t of None \<Rightarrow> Inl ''not a number'' | Some n \<Rightarrow> Inr (- int n))
    | None \<Rightarrow> (case digits_val 0 s of None \<Rightarrow> Inl ''not a number'' | Some n \<Rightarrow> Inr (int n)))"

lemma read_plain_int [simp]: "read_int (plain_int i) = Inr i"
proof -
  have v: "digits_val 0 (nat_str n) = Some n" for n using digits_val_nat_str_acc [of n "[]"] by (simp add: nat_str_def)
  have p: "\<not> prefix ''-'' (nat_str n)" for n
  proof -
    obtain d ds where "nat_str n = d # ds" "is_ascii_digit d" using nat_str_digits [of n] by (cases "nat_str n") auto
    then show ?thesis by (auto simp: is_ascii_digit_def byte_def)
  qed
  show ?thesis by (simp add: read_int_def plain_int_def v p strip_prefix_def)
qed

end
