(* ===== verification/Vault.thy ===== *)
theory Vault
  imports Plain_Text
begin

text \<open>
  The secrets store (\<open>crates/skyclaw-vault/src/local.rs\<close>) and the resolver of \<open>vault://\<close>
  addresses (\<open>resolver.rs\<close>). The vault keeps the encrypted secrets in a map in memory and
  writes the whole map to one file after every change; the key is in a second file.

  The cipher, base64 and JSON are code of other crates: parameters, gathered in
  \<open>primitives\<close>, with what the vault relies on in \<open>primitives_ok\<close>. A file operation takes a
  parameter that says how it fails; a write that fails leaves any content behind.
\<close>

section \<open>Primitives\<close>

record stored_secret =
  ss_nonce :: string
  ss_ciphertext :: string
  ss_created_at :: string
  ss_updated_at :: string

type_synonym secret_map = "(string, stored_secret) hmap"

record primitives =
  seal :: "u8 list \<Rightarrow> u8 list \<Rightarrow> u8 list \<Rightarrow> string + u8 list"
  unseal :: "u8 list \<Rightarrow> u8 list \<Rightarrow> u8 list \<Rightarrow> string + u8 list"
  b64_encode :: "u8 list \<Rightarrow> string"
  b64_decode :: "string \<Rightarrow> string + u8 list"
  to_json :: "secret_map \<Rightarrow> string"
  from_json :: "string \<Rightarrow> string + secret_map"

text \<open>
  Decryption and decoding invert encryption and encoding; a map is read back from its JSON
  text as a map with the same entries, in any order; the text of a map is not blank.
\<close>

definition primitives_ok :: "primitives \<Rightarrow> bool" where
  "primitives_ok p \<longleftrightarrow>
     (\<forall>key nonce plain ct. seal p key nonce plain = Inr ct \<longrightarrow> unseal p key nonce ct = Inr plain)
     \<and> (\<forall>bs. b64_decode p (b64_encode p bs) = Inr bs)
     \<and> (\<forall>m. hm_ok m \<longrightarrow> (\<exists>m'. from_json p (to_json p m) = Inr m' \<and> hm_ok m' \<and> hm_get m' = hm_get m))
     \<and> (\<forall>m. trim (to_json p m) \<noteq> [])"

text \<open>A file is its content, or \<open>None\<close>. A failed write gives its error and what it left.\<close>

type_synonym 'a write_fault = "(string \<times> 'a option) option"

definition write_file :: "'a write_fault \<Rightarrow> 'a \<Rightarrow> (string + unit) \<times> 'a option" where
  "write_file wr x = (case wr of None \<Rightarrow> (Inr (), Some x) | Some (e, rest) \<Rightarrow> (Inl e, rest))"

section \<open>The local vault\<close>

record local_vault =
  vault_file :: "string option"
  key_file :: "u8 list option"
  vault_cache :: secret_map

definition read_key :: "string option \<Rightarrow> local_vault \<Rightarrow> u8 list result" where
  "read_key rf v = (case rf of
      Some e \<Rightarrow> Inl (Vault (''failed to read vault key: '' @ e))
    | None \<Rightarrow> (case key_file v of
        None \<Rightarrow> Inl (Vault (''failed to read vault key: No such file or directory''))
      | Some bs \<Rightarrow> if length bs = 32 then Inr bs else Inl (Vault ''vault key must be exactly 32 bytes'')))"

text \<open>The key is generated when its file does not seem to exist: a failing probe counts as absence.\<close>

definition ensure_key :: "bool \<Rightarrow> u8 list \<Rightarrow> u8 list write_fault \<Rightarrow> local_vault \<Rightarrow> unit result \<times> local_vault" where
  "ensure_key probe_ok fresh wr v =
     (if probe_ok \<and> key_file v \<noteq> None then (Inr (), v)
      else let (r, f) = write_file wr fresh
        in (map_error (\<lambda>e. Vault (''failed to write vault key: '' @ e)) r, v\<lparr>key_file := f\<rparr>))"

definition load :: "primitives \<Rightarrow> bool \<Rightarrow> string option \<Rightarrow> local_vault \<Rightarrow> unit result \<times> local_vault" where
  "load p probe_ok rf v = (case vault_file v of
      None \<Rightarrow> (Inr (), v)
    | Some data \<Rightarrow>
        if \<not> probe_ok then (Inr (), v)
        else case rf of
          Some e \<Rightarrow> (Inl (Vault (''failed to read vault file: '' @ e)), v)
        | None \<Rightarrow>
            if trim data = [] then (Inr (), v)
            else case from_json p data of
              Inl e \<Rightarrow> (Inl (Vault (''corrupt vault file: '' @ e)), v)
            | Inr m \<Rightarrow> (Inr (), v\<lparr>vault_cache := m\<rparr>))"

definition flush :: "primitives \<Rightarrow> string write_fault \<Rightarrow> local_vault \<Rightarrow> unit result \<times> local_vault" where
  "flush p wr v =
     (let (r, f) = write_file wr (to_json p (vault_cache v))
      in (map_error (\<lambda>e. Vault (''failed to write vault file: '' @ e)) r, v\<lparr>vault_file := f\<rparr>))"

text \<open>What the world answers while a vault is opened.\<close>

record open_world =
  dir_fault :: "string option"
  key_probe_ok :: bool
  fresh_key :: "u8 list"
  key_write :: "u8 list write_fault"
  vault_probe_ok :: bool
  vault_read :: "string option"

definition with_dir :: "primitives \<Rightarrow> open_world \<Rightarrow> string option \<Rightarrow> u8 list option \<Rightarrow> unit result \<times> local_vault" where
  "with_dir p w vf kf =
     (let v = \<lparr>vault_file = vf, key_file = kf, vault_cache = []\<rparr> in
      case dir_fault w of
        Some e \<Rightarrow> (Inl (Vault (''failed to create vault directory: '' @ e)), v)
      | None \<Rightarrow> (case ensure_key (key_probe_ok w) (fresh_key w) (key_write w) v of
          (Inl e, v) \<Rightarrow> (Inl e, v)
        | (Inr _, v) \<Rightarrow> load p (vault_probe_ok w) (vault_read w) v))"

definition vault_new :: "primitives \<Rightarrow> open_world \<Rightarrow> string option \<Rightarrow> string option \<Rightarrow> u8 list option \<Rightarrow>
    unit result \<times> local_vault option" where
  "vault_new p w home vf kf = (case home of
      None \<Rightarrow> (Inl (Vault ''cannot determine home directory''), None)
    | Some _ \<Rightarrow> (let (r, v) = with_dir p w vf kf in (r, Some v)))"

text \<open>Storing, reading and deleting secrets.\<close>

definition store_secret :: "primitives \<Rightarrow> string option \<Rightarrow> string write_fault \<Rightarrow> u8 list \<Rightarrow> string \<Rightarrow>
    string \<Rightarrow> u8 list \<Rightarrow> local_vault \<Rightarrow> unit result \<times> local_vault" where
  "store_secret p rf wr nonce now key plain v = (case read_key rf v of
      Inl e \<Rightarrow> (Inl e, v)
    | Inr raw_key \<Rightarrow> (case seal p raw_key nonce plain of
        Inl e \<Rightarrow> (Inl (Vault (''encryption failed: '' @ e)), v)
      | Inr ct \<Rightarrow>
          let created_at = (case hm_get (vault_cache v) key of Some s \<Rightarrow> ss_created_at s | None \<Rightarrow> now);
              s = \<lparr>ss_nonce = b64_encode p nonce, ss_ciphertext = b64_encode p ct,
                   ss_created_at = created_at, ss_updated_at = now\<rparr>
          in flush p wr (v\<lparr>vault_cache := hm_insert key s (vault_cache v)\<rparr>)))"

definition open_secret :: "primitives \<Rightarrow> string option \<Rightarrow> local_vault \<Rightarrow> stored_secret \<Rightarrow> u8 list result" where
  "open_secret p rf v s =
     bind_result (map_error (\<lambda>e. Vault (''bad nonce base64: '' @ e)) (b64_decode p (ss_nonce s))) (\<lambda>nonce.
     if length nonce \<noteq> 12 then Inl (Vault ''nonce must be 12 bytes'')
     else bind_result (map_error (\<lambda>e. Vault (''bad ciphertext base64: '' @ e)) (b64_decode p (ss_ciphertext s))) (\<lambda>ct.
     bind_result (read_key rf v) (\<lambda>raw_key.
     map_error (\<lambda>e. Vault (''decryption failed: '' @ e)) (unseal p raw_key nonce ct))))"

definition get_secret :: "primitives \<Rightarrow> string option \<Rightarrow> string \<Rightarrow> local_vault \<Rightarrow> u8 list option result" where
  "get_secret p rf key v = (case hm_get (vault_cache v) key of
      None \<Rightarrow> Inr None
    | Some s \<Rightarrow> bind_result (open_secret p rf v s) (\<lambda>plain. Inr (Some plain)))"

definition delete_secret :: "primitives \<Rightarrow> string write_fault \<Rightarrow> string \<Rightarrow> local_vault \<Rightarrow> unit result \<times> local_vault" where
  "delete_secret p wr key v = flush p wr (v\<lparr>vault_cache := hm_remove key (vault_cache v)\<rparr>)"

definition list_keys :: "local_vault \<Rightarrow> string list" where
  "list_keys v = sort (hm_keys (vault_cache v))"

definition has_key :: "string \<Rightarrow> local_vault \<Rightarrow> bool" where
  "has_key key v \<longleftrightarrow> hm_get (vault_cache v) key \<noteq> None"

definition local_vault_key :: "string \<Rightarrow> string result" where
  "local_vault_key uri = (case strip_prefix ''vault://skyclaw/'' uri of
      None \<Rightarrow> Inl (Vault (''invalid vault URI: '' @ uri))
    | Some rest \<Rightarrow> if rest = [] then Inl (Vault ''vault URI has empty key'') else Inr rest)"

definition resolve_uri :: "primitives \<Rightarrow> string option \<Rightarrow> string \<Rightarrow> local_vault \<Rightarrow> u8 list option result" where
  "resolve_uri p rf uri v = bind_result (local_vault_key uri) (\<lambda>key. get_secret p rf key v)"

section \<open>The resolver\<close>

definition VAULT_SCHEME :: string where "VAULT_SCHEME = ''vault://''"

definition VAULT_AUTHORITY :: string where "VAULT_AUTHORITY = ''skyclaw''"

record vault_uri =
  uri_authority :: string
  uri_key :: string

definition parse_vault_uri :: "string \<Rightarrow> vault_uri result" where
  "parse_vault_uri uri = (case strip_prefix VAULT_SCHEME uri of
      None \<Rightarrow> Inl (Vault (''not a vault URI: '' @ uri))
    | Some rest \<Rightarrow> (case split_once CHR ''/'' rest of
        None \<Rightarrow> Inl (Vault (''vault URI missing key path: '' @ uri))
      | Some (authority, key) \<Rightarrow>
          if authority \<noteq> VAULT_AUTHORITY
          then Inl (Vault (''unsupported vault authority '' @ [CHR 0x22] @ authority @ [CHR 0x22]
                    @ '', expected '' @ [CHR 0x22] @ VAULT_AUTHORITY @ [CHR 0x22]))
          else if key = [] then Inl (Vault ''vault URI has empty key'')
          else Inr \<lparr>uri_authority = authority, uri_key = key\<rparr>))"

definition is_vault_uri :: "string \<Rightarrow> bool" where
  "is_vault_uri s \<longleftrightarrow> starts_with VAULT_SCHEME s"

definition resolve :: "(string \<Rightarrow> 'v \<Rightarrow> u8 list option result) \<Rightarrow> 'v \<Rightarrow> string \<Rightarrow> u8 list option result" where
  "resolve get vault uri = bind_result (parse_vault_uri uri) (\<lambda>parsed. get (uri_key parsed) vault)"

section \<open>The vault as a map\<close>

text \<open>The secrets a vault holds, and when each of them can be read.\<close>

definition secrets :: "primitives \<Rightarrow> local_vault \<Rightarrow> string \<Rightarrow> u8 list option" where
  "secrets p v key = (case hm_get (vault_cache v) key of
      None \<Rightarrow> None
    | Some s \<Rightarrow> (case open_secret p None v s of Inl _ \<Rightarrow> None | Inr plain \<Rightarrow> Some plain))"

definition vault_ok :: "primitives \<Rightarrow> local_vault \<Rightarrow> bool" where
  "vault_ok p v \<longleftrightarrow> hm_ok (vault_cache v)
     \<and> (\<forall>key s. hm_get (vault_cache v) key = Some s \<longrightarrow> (\<exists>plain. open_secret p None v s = Inr plain))"

lemma primitives_okD:
  assumes "primitives_ok p"
  shows "seal p raw nonce plain = Inr ct \<Longrightarrow> unseal p raw nonce ct = Inr plain"
    and "b64_decode p (b64_encode p bs) = Inr bs"
    and "hm_ok m \<Longrightarrow> \<exists>m'. from_json p (to_json p m) = Inr m' \<and> hm_ok m' \<and> hm_get m' = hm_get m"
    and "trim (to_json p m) \<noteq> []"
  using assms by (auto simp: primitives_ok_def)

lemma open_secret_cong: "key_file v = key_file v' \<Longrightarrow> open_secret p rf v = open_secret p rf v'"
proof (rule ext)
  fix s
  assume k: "key_file v = key_file v'"
  have "read_key rf v = read_key rf v'" unfolding read_key_def k ..
  then show "open_secret p rf v s = open_secret p rf v' s" unfolding open_secret_def by (simp only:)
qed

lemma secrets_cong:
  assumes "key_file v = key_file v'" "hm_get (vault_cache v) = hm_get (vault_cache v')"
  shows "secrets p v = secrets p v'"
  by (simp add: fun_eq_iff secrets_def assms open_secret_cong [OF assms(1)] cong: option.case_cong)

lemma flush_fields:
  "vault_cache (snd (flush p wr v)) = vault_cache v" "key_file (snd (flush p wr v)) = key_file v"
  "fst (flush p wr v) = Inr () \<longleftrightarrow> wr = None" "vault_file (snd (flush p None v)) = Some (to_json p (vault_cache v))"
  by (auto simp: flush_def write_file_def Let_def map_error_def split: option.splits)

lemma get_secret_secrets: "vault_ok p v \<Longrightarrow> get_secret p None key v = Inr (secrets p v key)"
  by (force simp: get_secret_def secrets_def vault_ok_def split: option.splits)

lemma secrets_dom: "vault_ok p v \<Longrightarrow> dom (secrets p v) = set (hm_keys (vault_cache v))"
proof (rule set_eqI)
  fix key
  assume ok: "vault_ok p v"
  have "key \<in> set (hm_keys (vault_cache v)) \<longleftrightarrow> hm_get (vault_cache v) key \<noteq> None"
    by (simp add: hm_get_None_iff)
  then show "key \<in> dom (secrets p v) \<longleftrightarrow> key \<in> set (hm_keys (vault_cache v))"
    using ok by (force simp: secrets_def vault_ok_def)
qed

lemma open_sealed:
  assumes "primitives_ok p" "key_file v = Some raw" "length raw = 32" "length nonce = 12" "seal p raw nonce plain = Inr ct"
  shows "open_secret p None v \<lparr>ss_nonce = b64_encode p nonce, ss_ciphertext = b64_encode p ct,
      ss_created_at = c, ss_updated_at = u\<rparr> = Inr plain"
  using assms(2-) primitives_okD(1) [OF assms(1,5)] by (simp add: open_secret_def read_key_def primitives_okD(2) [OF assms(1)])

lemma store_secret_spec:
  assumes "primitives_ok p" "vault_ok p v" "key_file v = Some raw" "length raw = 32" "length nonce = 12"
    and "seal p raw nonce plain = Inr ct"
  shows "vault_ok p (snd (store_secret p None wr nonce now key plain v))"
    and "secrets p (snd (store_secret p None wr nonce now key plain v)) = (secrets p v)(key \<mapsto> plain)"
    and "fst (store_secret p None wr nonce now key plain v) = Inr () \<longleftrightarrow> wr = None"
    and "key_file (snd (store_secret p None wr nonce now key plain v)) = Some raw"
    and "vault_file (snd (store_secret p None None nonce now key plain v))
      = Some (to_json p (vault_cache (snd (store_secret p None None nonce now key plain v))))"
proof -
  define s where "s = \<lparr>ss_nonce = b64_encode p nonce, ss_ciphertext = b64_encode p ct,
    ss_created_at = (case hm_get (vault_cache v) key of Some s \<Rightarrow> ss_created_at s | None \<Rightarrow> now), ss_updated_at = now\<rparr>"
  have st: "store_secret p None wr nonce now key plain v = flush p wr (v\<lparr>vault_cache := hm_insert key s (vault_cache v)\<rparr>)"
    for wr using assms(3,4,6) by (simp add: store_secret_def read_key_def s_def)
  let ?v = "snd (store_secret p None wr nonce now key plain v)"
  have c: "vault_cache ?v = hm_insert key s (vault_cache v)" and k: "key_file ?v = key_file v"
    by (simp_all add: st flush_fields)
  have o: "open_secret p None ?v = open_secret p None v" by (rule open_secret_cong [OF k])
  have s: "open_secret p None v s = Inr plain" unfolding s_def by (rule open_sealed [OF assms(1,3-)])
  show "vault_ok p ?v" using assms(2) s by (auto simp: vault_ok_def c o)
  show "secrets p ?v = (secrets p v)(key \<mapsto> plain)" by (simp add: fun_eq_iff secrets_def c o s cong: option.case_cong)
  show "key_file ?v = Some raw" using k assms(3) by simp
  show "fst (store_secret p None wr nonce now key plain v) = Inr () \<longleftrightarrow> wr = None"
    by (simp add: st flush_fields)
  show "vault_file (snd (store_secret p None None nonce now key plain v))
      = Some (to_json p (vault_cache (snd (store_secret p None None nonce now key plain v))))"
    by (simp add: st flush_fields)
qed

lemma delete_secret_spec:
  assumes "vault_ok p v"
  shows "vault_ok p (snd (delete_secret p wr key v))"
    and "secrets p (snd (delete_secret p wr key v)) = (secrets p v)(key := None)"
    and "fst (delete_secret p wr key v) = Inr () \<longleftrightarrow> wr = None"
    and "key_file (snd (delete_secret p wr key v)) = key_file v"
    and "vault_file (snd (delete_secret p None key v)) = Some (to_json p (vault_cache (snd (delete_secret p None key v))))"
proof -
  let ?v = "snd (delete_secret p wr key v)"
  have c: "vault_cache ?v = hm_remove key (vault_cache v)" and k: "key_file ?v = key_file v"
    by (simp_all add: delete_secret_def flush_fields)
  have o: "open_secret p None ?v = open_secret p None v" by (rule open_secret_cong [OF k])
  show "vault_ok p ?v" using assms by (auto simp: vault_ok_def c o split: if_splits)
  show "secrets p ?v = (secrets p v)(key := None)" by (simp add: fun_eq_iff secrets_def c o cong: option.case_cong)
  show "key_file ?v = key_file v" by (rule k)
qed (simp_all add: delete_secret_def flush_fields)

text \<open>The vault is a map from keys to secrets: storing binds the key (also when the file cannot be
  written, which is reported), deleting unbinds it, reading returns what is bound, and the keys
  are listed in order, each once. Every secret stays readable.\<close>

theorem vault_refines_map:
  assumes "primitives_ok p" "vault_ok p v" "key_file v = Some raw" "length raw = 32" "length nonce = 12"
    and "seal p raw nonce plain = Inr ct"
  shows "vault_ok p (snd (store_secret p None wr nonce now key plain v))
    \<and> secrets p (snd (store_secret p None wr nonce now key plain v)) = (secrets p v)(key \<mapsto> plain)
    \<and> (fst (store_secret p None wr nonce now key plain v) = Inr () \<longleftrightarrow> wr = None)
    \<and> vault_ok p (snd (delete_secret p wr key v))
    \<and> secrets p (snd (delete_secret p wr key v)) = (secrets p v)(key := None)
    \<and> get_secret p None k v = Inr (secrets p v k)
    \<and> (has_key k v \<longleftrightarrow> k \<in> dom (secrets p v))
    \<and> set (list_keys v) = dom (secrets p v) \<and> sorted (list_keys v) \<and> distinct (list_keys v)"
proof -
  have "has_key k v \<longleftrightarrow> k \<in> dom (secrets p v)"
    using secrets_dom [OF assms(2)] by (simp add: has_key_def hm_get_None_iff)
  moreover have "set (list_keys v) = dom (secrets p v)" "distinct (list_keys v)"
    using assms(2) secrets_dom [OF assms(2)] by (simp_all add: list_keys_def vault_ok_def hm_ok_keys)
  ultimately show ?thesis
    using store_secret_spec(1-3) [OF assms] delete_secret_spec(1,2) [OF assms(2)] get_secret_secrets [OF assms(2)]
    by (simp add: list_keys_def)
qed

section \<open>Restarting\<close>

text \<open>A vault in use: what is stored and deleted while the files can be written.\<close>

datatype vault_event =
    Stored "u8 list" string string "u8 list"
  | Deleted string

fun vault_step :: "primitives \<Rightarrow> local_vault \<Rightarrow> vault_event \<Rightarrow> local_vault" where
  "vault_step p v (Stored nonce now key plain) = snd (store_secret p None None nonce now key plain v)"
| "vault_step p v (Deleted key) = snd (delete_secret p None key v)"

text \<open>The secret last stored and not deleted since, from the events, newest first.\<close>

fun last_secret :: "string \<Rightarrow> vault_event list \<Rightarrow> u8 list option" where
  "last_secret k [] = None"
| "last_secret k (Stored _ _ key plain # es) = (if k = key then Some plain else last_secret k es)"
| "last_secret k (Deleted key # es) = (if k = key then None else last_secret k es)"

fun sealable :: "primitives \<Rightarrow> u8 list \<Rightarrow> vault_event \<Rightarrow> bool" where
  "sealable p raw (Stored nonce _ _ plain) \<longleftrightarrow> length nonce = 12 \<and> (case seal p raw nonce plain of Inl _ \<Rightarrow> False | Inr _ \<Rightarrow> True)"
| "sealable p raw (Deleted _) \<longleftrightarrow> True"

definition good_world :: "open_world \<Rightarrow> bool" where
  "good_world w \<longleftrightarrow> dir_fault w = None \<and> key_probe_ok w \<and> key_write w = None \<and> vault_probe_ok w
     \<and> vault_read w = None \<and> length (fresh_key w) = 32"

definition in_step :: "primitives \<Rightarrow> u8 list \<Rightarrow> (string \<Rightarrow> u8 list option) \<Rightarrow> local_vault \<Rightarrow> bool" where
  "in_step p raw m v \<longleftrightarrow> vault_ok p v \<and> key_file v = Some raw \<and> secrets p v = m
     \<and> (vault_file v = Some (to_json p (vault_cache v)) \<or> vault_file v = None \<and> vault_cache v = [])"

lemma in_step_open_fresh:
  assumes "good_world w"
  shows "in_step p (fresh_key w) (\<lambda>_. None) (snd (with_dir p w None None))"
  using assms by (simp add: good_world_def in_step_def with_dir_def ensure_key_def write_file_def load_def
    vault_ok_def secrets_def fun_eq_iff)

lemma in_step_event:
  assumes "primitives_ok p" "length raw = 32" "sealable p raw e" "in_step p raw (\<lambda>k. last_secret k es) v"
  shows "in_step p raw (\<lambda>k. last_secret k (e # es)) (vault_step p v e)"
proof (cases e)
  case (Stored nonce now key plain)
  from assms(3) Stored obtain ct where ct: "length nonce = 12" "seal p raw nonce plain = Inr ct"
    by (auto split: sum.splits)
  have v: "vault_ok p v" "key_file v = Some raw" "secrets p v = (\<lambda>k. last_secret k es)"
    using assms(4) by (simp_all add: in_step_def)
  note st = store_secret_spec [OF assms(1) v(1,2) assms(2) ct]
  show ?thesis using Stored v st(1,2,4,5) by (auto simp: in_step_def fun_eq_iff)
next
  case (Deleted key)
  have v: "vault_ok p v" "key_file v = Some raw" "secrets p v = (\<lambda>k. last_secret k es)"
    using assms(4) by (simp_all add: in_step_def)
  note dl = delete_secret_spec [OF v(1)]
  show ?thesis using Deleted v dl(1,2,4,5) by (auto simp: in_step_def fun_eq_iff)
qed

lemma in_step_run:
  assumes "primitives_ok p" "good_world w" "list_all (sealable p (fresh_key w)) es"
  shows "in_step p (fresh_key w) (\<lambda>k. last_secret k (rev es)) (foldl (vault_step p) (snd (with_dir p w None None)) es)"
  using assms(3)
proof (induction es rule: rev_induct)
  case Nil
  then show ?case using in_step_open_fresh [OF assms(2)] by simp
next
  case (snoc e es)
  then show ?case using in_step_event [OF assms(1), of "fresh_key w"] assms(2) by (simp add: good_world_def)
qed

lemma in_step_reopen:
  assumes "primitives_ok p" "good_world w" "in_step p raw m v"
  shows "fst (with_dir p w (vault_file v) (key_file v)) = Inr () \<and> vault_ok p (snd (with_dir p w (vault_file v) (key_file v)))
    \<and> secrets p (snd (with_dir p w (vault_file v) (key_file v))) = m"
proof -
  let ?w = "snd (with_dir p w (vault_file v) (key_file v))"
  have v: "vault_ok p v" "key_file v = Some raw" "secrets p v = m"
    and f: "vault_file v = Some (to_json p (vault_cache v)) \<or> vault_file v = None \<and> vault_cache v = []"
    using assms(3) by (simp_all add: in_step_def)
  have ok: "hm_ok (vault_cache v)" using v(1) by (simp add: vault_ok_def)
  obtain m' where m': "from_json p (to_json p (vault_cache v)) = Inr m'" "hm_ok m'" "hm_get m' = hm_get (vault_cache v)"
    using primitives_okD(3) [OF assms(1) ok] by blast
  from f have "fst (with_dir p w (vault_file v) (key_file v)) = Inr () \<and> key_file ?w = key_file v
      \<and> hm_ok (vault_cache ?w) \<and> hm_get (vault_cache ?w) = hm_get (vault_cache v)"
    using assms(2) v(2) m' primitives_okD(4) [OF assms(1)]
    by (elim disjE) (simp_all add: good_world_def with_dir_def ensure_key_def load_def)
  then have w: "fst (with_dir p w (vault_file v) (key_file v)) = Inr ()" "key_file ?w = key_file v"
      "hm_ok (vault_cache ?w)" "hm_get (vault_cache ?w) = hm_get (vault_cache v)" by blast+
  have "vault_ok p ?w" using v(1) unfolding vault_ok_def w(4) open_secret_cong [OF w(2)] using w(3) by blast
  then show ?thesis using w(1) secrets_cong [OF w(2,4)] v(3) by simp
qed


text \<open>The two readers of vault addresses agree: both accept exactly the texts
  \<open>vault://skyclaw/\<close> followed by a key, and find the same key.\<close>

theorem vault_uri_parsers_agree:
  "(parse_vault_uri uri = Inr u \<longleftrightarrow> uri_authority u = ''skyclaw'' \<and> local_vault_key uri = Inr (uri_key u))
   \<and> (local_vault_key uri = Inr key \<longleftrightarrow> key \<noteq> [] \<and> uri = ''vault://skyclaw/'' @ key)
   \<and> (is_vault_uri (''vault://skyclaw/'' @ key))"
proof -
  have local: "local_vault_key uri = Inr key \<longleftrightarrow> key \<noteq> [] \<and> uri = ''vault://skyclaw/'' @ key" for key
  proof -
    have "local_vault_key uri = Inr key \<longleftrightarrow> key \<noteq> [] \<and> strip_prefix ''vault://skyclaw/'' uri = Some key"
      unfolding local_vault_key_def by (cases "strip_prefix ''vault://skyclaw/'' uri") (auto simp del: strip_prefix_Some)
    then show ?thesis unfolding strip_prefix_Some .
  qed
  have "parse_vault_uri uri = Inr u \<longleftrightarrow> uri_authority u = ''skyclaw'' \<and> uri_key u \<noteq> []
      \<and> uri = ''vault://skyclaw/'' @ uri_key u"
  proof -
    have "parse_vault_uri uri = Inr u \<longleftrightarrow> uri_authority u = ''skyclaw'' \<and> uri_key u \<noteq> []
        \<and> (\<exists>rest. strip_prefix ''vault://'' uri = Some rest \<and> split_once CHR ''/'' rest = Some (''skyclaw'', uri_key u))"
      unfolding parse_vault_uri_def VAULT_SCHEME_def VAULT_AUTHORITY_def
      by (cases u) (auto simp del: strip_prefix_Some split: option.splits prod.splits)
    then show ?thesis unfolding strip_prefix_Some split_once_Some by auto
  qed
  then show ?thesis using local by (auto simp: is_vault_uri_def starts_with_def VAULT_SCHEME_def)
qed

section \<open>A run\<close>

text \<open>Concrete primitives: a cipher that adds the key's first byte, and a plain text format.\<close>

fun secret_fields :: "secret_map \<Rightarrow> string list" where
  "secret_fields [] = []"
| "secret_fields ((k, s) # m) = k # ss_nonce s # ss_ciphertext s # ss_created_at s # ss_updated_at s # secret_fields m"

fun of_fields :: "string list \<Rightarrow> secret_map" where
  "of_fields (k # n # c # a # u # r) =
     (k, \<lparr>ss_nonce = n, ss_ciphertext = c, ss_created_at = a, ss_updated_at = u\<rparr>) # of_fields r"
| "of_fields _ = []"

definition demo_primitives :: primitives where
  "demo_primitives = \<lparr>
     seal = (\<lambda>key nonce plain. Inr (map (\<lambda>b. b + key ! 0) plain)),
     unseal = (\<lambda>key nonce ct. Inr (map (\<lambda>b. b - key ! 0) ct)),
     b64_encode = map (\<lambda>b. char_of (unat b)), b64_decode = (\<lambda>s. Inr (map (\<lambda>c. of_nat (byte c)) s)),
     to_json = (\<lambda>m. concat (map enc_str (secret_fields m)) @ ''}''),
     from_json = (\<lambda>s. Inr (of_fields (dec_strs [] s)))\<rparr>"

lemma of_secret_fields: "of_fields (secret_fields m) = m"
  by (induction m rule: secret_fields.induct) simp_all

lemma demo_primitives_ok: "primitives_ok demo_primitives"
proof -
  have byte: "(of_nat (unat b mod 256) :: u8) = b" for b :: u8
  proof -
    have "unat b < 256" using unsigned_less [of b, where ?'a = nat] by simp
    then have "unat b mod 256 = unat b" by simp
    then show ?thesis by simp
  qed
  have hd: "printable (hd (concat (map enc_str ss) @ ''}''))" for ss
  proof (cases ss)
    case (Cons t ts)
    then show ?thesis by (cases t) (simp_all add: enc_str_def printable_def byte_def)
  qed (simp add: printable_def byte_def)
  have "trim (concat (map enc_str ss) @ ''}'') = concat (map enc_str ss) @ ''}''" for ss
    by (rule trim_printable) (use hd in \<open>simp_all add: printable_def byte_def\<close>)
  then show ?thesis
    by (simp add: primitives_ok_def demo_primitives_def dec_strs_concat [where r = "''}''", simplified] of_secret_fields comp_def byte)
qed

definition demo_world :: open_world where
  "demo_world = \<lparr>dir_fault = None, key_probe_ok = True, fresh_key = replicate 32 7, key_write = None,
     vault_probe_ok = True, vault_read = None\<rparr>"

lemma demo_world_good: "good_world demo_world"
  by (simp add: demo_world_def good_world_def)

theorem vault_refines_map_witness:
  "secrets demo_primitives (snd (store_secret demo_primitives None None (replicate 12 5) ''now'' ''key'' [1, 2, 3]
     (snd (with_dir demo_primitives demo_world None None)))) ''key'' = Some [1, 2, 3]"
proof -
  let ?v = "snd (with_dir demo_primitives demo_world None None)"
  have v: "vault_ok demo_primitives ?v" "key_file ?v = Some (fresh_key demo_world)"
    using in_step_open_fresh [OF demo_world_good, of demo_primitives] by (simp_all add: in_step_def)
  have raw: "length (fresh_key demo_world) = 32" by (simp add: demo_world_def)
  have nonce: "length (replicate 12 (5 :: u8)) = 12" by simp
  have "seal demo_primitives (fresh_key demo_world) (replicate 12 5) [1, 2, 3] = Inr [8, 9, 10]"
    by (simp add: demo_primitives_def demo_world_def)
  from vault_refines_map [OF demo_primitives_ok v raw nonce this] show ?thesis by simp
qed


text \<open>A probe that fails while the vault is opened counts as a missing file: the key is replaced, and the
  secrets on disk are not loaded, so that the next change overwrites them.\<close>

lemma failed_probe_replaces_key:
  "key_file (snd (with_dir p (demo_world\<lparr>key_probe_ok := False\<rparr>) vf (Some key))) = Some (replicate 32 7)"
  by (simp add: with_dir_def demo_world_def ensure_key_def write_file_def load_def Let_def
    split: option.splits sum.splits)

lemma failed_probe_loses_secrets:
  "let (r, v) = with_dir p (demo_world\<lparr>vault_probe_ok := False\<rparr>) (Some data) (Some key);
       (r', v') = delete_secret p None ''gone'' v
   in r = Inr () \<and> r' = Inr () \<and> vault_file v' = Some (to_json p [])"
  by (simp add: with_dir_def demo_world_def ensure_key_def load_def delete_secret_def flush_def write_file_def hm_remove_def)

end
