(* ===== verification/Tenants.thy ===== *)
theory Tenants
  imports Skyclaw_Types Paths
begin

text \<open>
  Tenants (\<open>crates/skyclaw-core/src/tenant_impl.rs\<close>): which tenant a user belongs to, the
  directories of a tenant, and its daily rate limit. The current day is a parameter of each
  operation, and so is whether the lock is poisoned. A path is its list of components.
\<close>

section \<open>State\<close>

record tenant_config =
  tenant_id :: string
  allowed_users :: "(string \<times> string) list"
  workspace_name :: string
  max_tasks_per_day :: u32
  max_storage_mb :: u64
  max_api_calls_per_day :: u32

record rate_limit_state =
  call_count :: u32
  day_epoch :: u64

record tenant_manager =
  base_path :: path
  tenants :: "(string, tenant_config) hmap"
  rate_limits :: "(string, rate_limit_state) hmap"
  default_tenant :: string

definition rate_limit_new :: "u64 \<Rightarrow> rate_limit_state" where
  "rate_limit_new today = \<lparr>call_count = 0, day_epoch = today\<rparr>"

definition current_day_epoch :: "nat option \<Rightarrow> u64" where
  "current_day_epoch since_epoch = (case since_epoch of None \<Rightarrow> 0 | Some secs \<Rightarrow> of_nat secs div 86400)"

definition tenant_manager_new :: "path \<Rightarrow> tenant_config list \<Rightarrow> string \<Rightarrow> tenant_manager" where
  "tenant_manager_new base ts dt =
     \<lparr>base_path = base, tenants = hm_collect tenant_id ts, rate_limits = [], default_tenant = dt\<rparr>"

definition tenant_config_of :: "tenant_manager \<Rightarrow> string \<Rightarrow> tenant_config option" where
  "tenant_config_of m t = hm_get (tenants m) t"

section \<open>Directories\<close>

definition tenant_workspace_path :: "tenant_manager \<Rightarrow> string \<Rightarrow> path" where
  "tenant_workspace_path m t = path_join (path_join (base_path m) (components t)) (components ''workspace'')"

definition memory_db_path :: "tenant_manager \<Rightarrow> string \<Rightarrow> path" where
  "memory_db_path m t = path_join (path_join (base_path m) (components t)) (components ''memory.db'')"

definition vault_path :: "tenant_manager \<Rightarrow> string \<Rightarrow> path" where
  "vault_path m t = path_join (path_join (base_path m) (components t)) (components ''vault'')"

text \<open>\<open>create_dir_all\<close> is \<open>mkdir\<close>, which may fail; the second result lists the directories asked for.\<close>

definition ensure_workspace :: "(path \<Rightarrow> string option) \<Rightarrow> tenant_manager \<Rightarrow> string \<Rightarrow> unit result \<times> path list" where
  "ensure_workspace mkdir m t =
     (let workspace = tenant_workspace_path m t; vault = vault_path m t in
      case mkdir workspace of
        Some e \<Rightarrow> (Inl (Io (''Failed to create workspace directory: '' @ e)), [workspace])
      | None \<Rightarrow> (case mkdir vault of
          Some e \<Rightarrow> (Inl (Io (''Failed to create vault directory: '' @ e)), [workspace, vault])
        | None \<Rightarrow> (Inr (), [workspace, vault])))"

section \<open>Users\<close>

definition resolve_tenant :: "tenant_manager \<Rightarrow> string \<Rightarrow> string \<Rightarrow> string result" where
  "resolve_tenant m channel user =
     (case List.find (\<lambda>c. (channel, user) \<in> set (allowed_users c)) (hm_values (tenants m)) of
        Some c \<Rightarrow> Inr (tenant_id c)
      | None \<Rightarrow> Inr (default_tenant m))"

section \<open>Rate limits\<close>

definition daily_limit :: "tenant_manager \<Rightarrow> string \<Rightarrow> u32" where
  "daily_limit m t = (case hm_get (tenants m) t of Some c \<Rightarrow> max_api_calls_per_day c | None \<Rightarrow> - 1)"

definition current_call_count :: "u64 \<Rightarrow> string \<Rightarrow> tenant_manager \<Rightarrow> u32" where
  "current_call_count today t m = (case hm_get (rate_limits m) t of
      Some s \<Rightarrow> if day_epoch s = today then call_count s else 0
    | None \<Rightarrow> 0)"

definition check_rate_limit :: "bool \<Rightarrow> u64 \<Rightarrow> string \<Rightarrow> tenant_manager \<Rightarrow> bool result \<times> tenant_manager" where
  "check_rate_limit poisoned today t m =
     (let limit = daily_limit m t in
      if poisoned then (Inl (Internal ''Rate-limit lock poisoned''), m)
      else
        let s = (case hm_get (rate_limits m) t of Some s \<Rightarrow> s | None \<Rightarrow> rate_limit_new today);
            s = (if day_epoch s \<noteq> today then s\<lparr>call_count := 0, day_epoch := today\<rparr> else s)
        in if limit \<le> call_count s
           then (Inr False, m\<lparr>rate_limits := hm_insert t s (rate_limits m)\<rparr>)
           else (Inr True, m\<lparr>rate_limits := hm_insert t (s\<lparr>call_count := call_count s + 1\<rparr>) (rate_limits m)\<rparr>))"

section \<open>The factory\<close>

definition default_max_tasks_per_day :: u32 where "default_max_tasks_per_day = 1000"

definition default_max_storage_mb :: u64 where "default_max_storage_mb = 1024"

definition default_max_api_calls_per_day :: u32 where "default_max_api_calls_per_day = 5000"

definition create_tenant_manager :: tenant_manager where
  "create_tenant_manager = tenant_manager_new (components ''./tenants'')
     [\<lparr>tenant_id = ''default'', allowed_users = [], workspace_name = ''default'',
       max_tasks_per_day = default_max_tasks_per_day, max_storage_mb = default_max_storage_mb,
       max_api_calls_per_day = default_max_api_calls_per_day\<rparr>]
     ''default''"

section \<open>Properties\<close>

text \<open>The answers to a sequence of rate-limit checks, each of a tenant on a day.\<close>

fun run_checks :: "tenant_manager \<Rightarrow> (string \<times> u64) list \<Rightarrow> bool result list \<times> tenant_manager" where
  "run_checks m [] = ([], m)"
| "run_checks m ((t, today) # es) =
     (let (r, m1) = check_rate_limit False today t m; (rs, m2) = run_checks m1 es in (r # rs, m2))"

lemma run_checks_snoc:
  "run_checks m (es @ [(t, today)]) =
     (let (rs, m1) = run_checks m es; (r, m2) = check_rate_limit False today t m1 in (rs @ [r], m2))"
  by (induction m es rule: run_checks.induct) (auto simp: Let_def split: prod.splits)

text \<open>The counter of a tenant counts the calls granted on the latest day it was asked about.\<close>

definition counts :: "(string \<times> u64) list \<Rightarrow> tenant_manager \<Rightarrow> string \<Rightarrow> bool" where
  "counts es m t \<longleftrightarrow> (case hm_get (rate_limits m) t of
      None \<Rightarrow> \<forall>d. (t, d) \<notin> set es
    | Some s \<Rightarrow> unat (call_count s) = min (unat (daily_limit m t)) (count_list es (t, day_epoch s))
        \<and> (t, day_epoch s) \<in> set es \<and> (\<forall>d. (t, d) \<in> set es \<longrightarrow> d \<le> day_epoch s))"

text \<open>The state a check works on: the stored one, or a fresh one on a new day.\<close>

definition rolled :: "u64 \<Rightarrow> string \<Rightarrow> tenant_manager \<Rightarrow> rate_limit_state" where
  "rolled today t m = \<lparr>call_count = current_call_count today t m, day_epoch = today\<rparr>"

lemma check_rate_limit_rolled:
  "check_rate_limit False today t m =
     (let s = rolled today t m in
      if daily_limit m t \<le> call_count s then (Inr False, m\<lparr>rate_limits := hm_insert t s (rate_limits m)\<rparr>)
      else (Inr True, m\<lparr>rate_limits := hm_insert t (s\<lparr>call_count := call_count s + 1\<rparr>) (rate_limits m)\<rparr>))"
proof -
  define s where "s = (case hm_get (rate_limits m) t of Some s \<Rightarrow> s | None \<Rightarrow> rate_limit_new today)"
  have "(if day_epoch s \<noteq> today then s\<lparr>call_count := 0, day_epoch := today\<rparr> else s) = rolled today t m"
    by (cases s) (auto simp: s_def rolled_def current_call_count_def rate_limit_new_def split: option.splits)
  then show ?thesis unfolding check_rate_limit_def s_def [symmetric] by (simp add: Let_def)
qed

lemma current_count:
  assumes "counts es m t" "\<And>d. (t, d) \<in> set es \<Longrightarrow> d \<le> today"
  shows "unat (current_call_count today t m) = min (unat (daily_limit m t)) (count_list es (t, today))"
proof (cases "hm_get (rate_limits m) t")
  case None
  then have "count_list es (t, today) = 0" using assms(1) by (simp add: counts_def count_list_0_iff)
  then show ?thesis using None by (simp add: current_call_count_def)
next
  case (Some s)
  show ?thesis
  proof (cases "day_epoch s = today")
    case False
    have "day_epoch s \<le> today" using assms Some by (simp add: counts_def)
    then have "(t, today) \<notin> set es" using assms(1) Some False by (auto simp: counts_def)
    then show ?thesis using Some False by (simp add: current_call_count_def count_list_0_iff)
  qed (use assms(1) Some in \<open>simp add: counts_def current_call_count_def\<close>)
qed

lemma check_counts:
  assumes "\<And>t. counts es m t" "\<And>d. d \<in> snd ` set es \<Longrightarrow> d \<le> today"
  shows "fst (check_rate_limit False today t m) = Inr (count_list es (t, today) < unat (daily_limit m t))"
    and "counts (es @ [(t, today)]) (snd (check_rate_limit False today t m)) t'"
    and "tenants (snd (check_rate_limit False today t m)) = tenants m"
proof -
  have days: "d \<le> today" if "(t, d) \<in> set es" for t d using assms(2) [of d] that by force
  have cc: "unat (current_call_count today t m) = min (unat (daily_limit m t)) (count_list es (t, today))"
    by (rule current_count [OF assms(1) days])
  have granted: "\<not> daily_limit m t \<le> current_call_count today t m \<longleftrightarrow> count_list es (t, today) < unat (daily_limit m t)"
    by (auto simp: word_le_nat_alt cc)
  show "fst (check_rate_limit False today t m) = Inr (count_list es (t, today) < unat (daily_limit m t))"
    using granted by (auto simp: check_rate_limit_rolled rolled_def Let_def)
  show "tenants (snd (check_rate_limit False today t m)) = tenants m"
    by (simp add: check_rate_limit_rolled Let_def)
  show "counts (es @ [(t, today)]) (snd (check_rate_limit False today t m)) t'"
  proof (cases "t' = t")
    case False
    then show ?thesis using assms(1) [of t']
      by (simp add: counts_def check_rate_limit_rolled Let_def daily_limit_def split: option.splits)
  next
    case True
    show ?thesis
    proof (cases "daily_limit m t \<le> current_call_count today t m")
      case full: True
      then have "unat (daily_limit m t) \<le> count_list es (t, today)" using granted by auto
      then show ?thesis using full True cc days
        by (auto simp: counts_def check_rate_limit_rolled rolled_def Let_def daily_limit_def)
    next
      case False
      then have lt: "count_list es (t, today) < unat (daily_limit m t)" using granted by auto
      then have "unat (current_call_count today t m + 1) = count_list es (t, today) + 1"
        using cc unat_u32_less [of "daily_limit m t"] by simp
      then show ?thesis using False True lt days
        by (auto simp: counts_def check_rate_limit_rolled rolled_def Let_def daily_limit_def)
    qed
  qed
qed

lemma run_checks_exact:
  assumes "sorted (map snd es)" "rate_limits m = []"
  shows "fst (run_checks m es) = map (\<lambda>i. Inr (count_list (take i es) (es ! i) < unat (daily_limit m (fst (es ! i))))) [0..<length es]
    \<and> (\<forall>t. counts es (snd (run_checks m es)) t) \<and> tenants (snd (run_checks m es)) = tenants m"
  using assms(1)
proof (induction es rule: rev_induct)
  case Nil
  then show ?case by (simp add: counts_def assms(2))
next
  case (snoc e es)
  obtain t today where e: "e = (t, today)" by (cases e)
  have IH: "fst (run_checks m es) = map (\<lambda>i. Inr (count_list (take i es) (es ! i) < unat (daily_limit m (fst (es ! i))))) [0..<length es]"
      "\<And>t. counts es (snd (run_checks m es)) t" "tenants (snd (run_checks m es)) = tenants m"
    using snoc by (simp_all add: sorted_append)
  have days: "d \<le> today" if "d \<in> snd ` set es" for d using snoc.prems that e by (auto simp: sorted_append)
  note step = check_counts [where t = t and today = today and es = es and m = "snd (run_checks m es)", OF IH(2) days]
  have lim: "daily_limit (snd (run_checks m es)) t = daily_limit m t" by (simp add: daily_limit_def IH(3))
  have run: "run_checks m (es @ [e]) = (fst (run_checks m es) @ [fst (check_rate_limit False today t (snd (run_checks m es)))],
      snd (check_rate_limit False today t (snd (run_checks m es))))"
    by (simp add: e run_checks_snoc Let_def split_beta)
  have s: "snd (run_checks m (es @ [e])) = snd (check_rate_limit False today t (snd (run_checks m es)))"
    unfolding run by simp
  have "\<forall>t'. counts (es @ [e]) (snd (run_checks m (es @ [e]))) t'" unfolding s using step(2) by (simp add: e)
  moreover have "tenants (snd (run_checks m (es @ [e]))) = tenants m" unfolding s using step(3) IH(3) by simp
  moreover have "fst (run_checks m (es @ [e])) =
      map (\<lambda>i. Inr (count_list (take i (es @ [e])) ((es @ [e]) ! i) < unat (daily_limit m (fst ((es @ [e]) ! i))))) [0..<length (es @ [e])]"
    unfolding run fst_conv IH(1) using step(1) by (simp add: lim e nth_append)
  ultimately show ?case by blast
qed

text \<open>The rate limit is exact: when the days do not run backwards, a check grants the call exactly
  when fewer checks than the tenant's daily limit were made for that tenant on that day before
  it; so each tenant gets the first calls of each day, up to its limit, whatever the others do.\<close>

theorem rate_limit_exact:
  assumes "sorted (map snd es)"
  shows "fst (run_checks (tenant_manager_new base ts dt) es)
    = map (\<lambda>i. Inr (count_list (take i es) (es ! i) < unat (daily_limit (tenant_manager_new base ts dt) (fst (es ! i)))))
        [0..<length es]"
  using run_checks_exact [OF assms, of "tenant_manager_new base ts dt"] by (simp add: tenant_manager_new_def)

text \<open>Tenants whose identifiers are different plain directory names are isolated: every path of the
  one lies below its own directory, and none below the other's.\<close>

theorem tenant_isolation:
  assumes "components a = [Normal x]" "components b = [Normal y]" "x \<noteq> y"
    and "p = tenant_workspace_path m a \<or> p = memory_db_path m a \<or> p = vault_path m a"
  shows "path_starts_with p (path_join (base_path m) (components a))
    \<and> \<not> path_starts_with p (path_join (base_path m) (components b))"
proof -
  have join: "path_join d [Normal n] = d @ [Normal n]" for d n by (simp add: path_join_def path_absolute_def)
  have "components ''workspace'' = [Normal ''workspace'']" "components ''memory.db'' = [Normal ''memory.db'']"
    "components ''vault'' = [Normal ''vault'']" by code_simp+
  then obtain n where "p = base_path m @ [Normal x, Normal n]"
    using assms(1,4) join unfolding tenant_workspace_path_def memory_db_path_def vault_path_def by auto
  then show ?thesis using assms(1-3) by (simp add: join path_starts_with_def)
qed

text \<open>A user who is allowed by exactly one tenant belongs to it, whatever the order in which the
  tenants are looked at; a user whom none allows belongs to the default tenant.\<close>

theorem resolve_tenant_correct:
  assumes "\<And>k c. hm_get (tenants m) k = Some c \<Longrightarrow> tenant_id c = k" "hm_ok (tenants m)"
    and "\<And>k k' c c'. hm_get (tenants m) k = Some c \<Longrightarrow> hm_get (tenants m) k' = Some c' \<Longrightarrow>
       (channel, user) \<in> set (allowed_users c) \<inter> set (allowed_users c') \<Longrightarrow> k = k'"
  shows "resolve_tenant m channel user = Inr t \<longleftrightarrow>
    (\<exists>c. hm_get (tenants m) t = Some c \<and> (channel, user) \<in> set (allowed_users c))
    \<or> t = default_tenant m \<and> (\<nexists>k c. hm_get (tenants m) k = Some c \<and> (channel, user) \<in> set (allowed_users c))"
proof -
  have vals: "c \<in> set (hm_values (tenants m)) \<longleftrightarrow> (\<exists>k. hm_get (tenants m) k = Some c)" for c
    using assms(2) by (force simp: hm_values_def hm_get_Some_iff)
  show ?thesis
  proof (cases "List.find (\<lambda>c. (channel, user) \<in> set (allowed_users c)) (hm_values (tenants m))")
    case None
    then have "(channel, user) \<notin> set (allowed_users c)" if "hm_get (tenants m) k = Some c" for k c
      using vals that by (auto simp: find_None_iff)
    then show ?thesis using None by (auto simp: resolve_tenant_def)
  next
    case (Some c)
    then have c: "(channel, user) \<in> set (allowed_users c)" "c \<in> set (hm_values (tenants m))"
      using find_Some_mem by fast+
    then obtain k where k: "hm_get (tenants m) k = Some c" using vals by blast
    then have "tenant_id c = k" by (rule assms(1))
    then show ?thesis using Some k c(1) assms(3) by (auto simp: resolve_tenant_def)
  qed
qed

section \<open>A manager\<close>

definition demo_tenant :: "string \<Rightarrow> (string \<times> string) list \<Rightarrow> u32 \<Rightarrow> tenant_config" where
  "demo_tenant t us n = \<lparr>tenant_id = t, allowed_users = us, workspace_name = t, max_tasks_per_day = 10,
     max_storage_mb = 1, max_api_calls_per_day = n\<rparr>"

definition demo_manager :: tenant_manager where
  "demo_manager = tenant_manager_new (components ''/srv/tenants'')
     [demo_tenant ''acme'' [(''slack'', ''u1'')] 1, demo_tenant ''beta'' [(''slack'', ''u2'')] 5] ''default''"

theorem rate_limit_exact_witness:
  "fst (run_checks demo_manager [(''acme'', 7), (''acme'', 7), (''beta'', 7), (''acme'', 8)])
    = [Inr True, Inr False, Inr True, Inr True]"
proof -
  let ?es = "[(''acme'', 7), (''acme'', 7), (''beta'', 7), (''acme'', 8)] :: (string \<times> u64) list"
  let ?spec = "map (\<lambda>i. Inr (count_list (take i ?es) (?es ! i) < unat (daily_limit demo_manager (fst (?es ! i))))) [0..<length ?es] :: bool result list"
  have "sorted (map snd ?es)" by code_simp
  then have "fst (run_checks demo_manager ?es) = ?spec" unfolding demo_manager_def by (rule rate_limit_exact)
  also have "?spec = [Inr True, Inr False, Inr True, Inr True]" by code_simp
  finally show ?thesis .
qed

theorem tenant_isolation_witness:
  "\<not> path_starts_with (vault_path demo_manager ''acme'') (path_join (base_path demo_manager) (components ''beta''))"
  by (rule tenant_isolation [of "''acme''" "''acme''" "''beta''" "''beta''", THEN conjunct2]) (code_simp | simp)+

theorem resolve_tenant_correct_witness: "resolve_tenant demo_manager ''slack'' ''u2'' = Inr ''beta''"
proof -
  have m: "tenants demo_manager = [(''acme'', demo_tenant ''acme'' [(''slack'', ''u1'')] 1), (''beta'', demo_tenant ''beta'' [(''slack'', ''u2'')] 5)]"
    by code_simp
  show ?thesis
    by (subst resolve_tenant_correct)
      (auto simp: m hm_get_Cons hm_ok_def demo_tenant_def split: if_splits)
qed

text \<open>The directory name of a tenant's configuration is not used, and an identifier that is a path
  leaves the base directory.\<close>

lemma workspace_name_unused:
  "tenant_workspace_path (m\<lparr>tenants := ts\<rparr>) t = tenant_workspace_path m t"
  by (simp add: tenant_workspace_path_def)

lemma tenant_id_escapes:
  "tenant_workspace_path demo_manager ''/etc'' = components ''/etc/workspace''
   \<and> walk [] (tenant_workspace_path demo_manager ''../..'') = [''workspace'']"
  by code_simp

end
