(* ===== verification/Rust_Float.thy ===== *)
theory Rust_Float
  imports Rust_Str Complex_Main
begin

text \<open>
  Floating point numbers. A finite \<open>f32\<close> or \<open>f64\<close> is its rational value, and an operation is
  the exact one followed by the rounding of IEEE 754: to the nearest number of 24 or of 53
  significant bits, ties to the even one. Numbers outside the normal range (an overflow, a
  subnormal number, a NaN) are not modelled: the program computes with prices, token counts and
  fractions of a token budget.
\<close>

type_synonym f64 = rat
type_synonym f32 = rat

function bit_length :: "int \<Rightarrow> int" where
  "bit_length n = (if n \<le> 0 then 0 else 1 + bit_length (n div 2))"
  by auto
termination by (relation "measure nat") auto

declare bit_length.simps [simp del]

text \<open>The exponent of the leading bit.\<close>

definition ilog2 :: "rat \<Rightarrow> int" where
  "ilog2 x =
     (let (n, d) = quotient_of x;
          e = bit_length n - bit_length d
      in if 2 powi e \<le> x then e else e - 1)"

definition round_even :: "rat \<Rightarrow> int" where
  "round_even x =
     (let f = \<lfloor>x\<rfloor>; r = x - of_int f
      in if r < 1 / 2 \<or> (r = 1 / 2 \<and> even f) then f else f + 1)"

definition round_bits :: "nat \<Rightarrow> rat \<Rightarrow> rat" where
  "round_bits p x =
     (if x = 0 then 0
      else let u = 2 powi (ilog2 \<bar>x\<bar> - int p + 1) in of_int (round_even (x / u)) * u)"

abbreviation to_f32 :: "rat \<Rightarrow> f32" where
  "to_f32 \<equiv> round_bits 24"

abbreviation to_f64 :: "rat \<Rightarrow> f64" where
  "to_f64 \<equiv> round_bits 53"

text \<open>\<open>x as u64\<close> and \<open>x as usize\<close>: truncate, and saturate at the ends of the type.\<close>

definition f64_as_u64 :: "f64 \<Rightarrow> u64" where
  "f64_as_u64 x = (if x < 0 then 0 else if 2 ^ 64 \<le> x then - 1 else of_int \<lfloor>x\<rfloor>)"

definition float_as_usize :: "rat \<Rightarrow> nat" where
  "float_as_usize x = (if x < 0 then 0 else if 2 ^ 64 \<le> x then 2 ^ 64 - 1 else nat \<lfloor>x\<rfloor>)"

text \<open>\<open>{:.k}\<close> for a number that is not negative: the exact value, rounded to \<open>k\<close> decimals.\<close>

definition fixed :: "nat \<Rightarrow> rat \<Rightarrow> string" where
  "fixed k x =
     (let n = nat (round_even (x * 10 ^ k)); frac = nat_str (n mod 10 ^ k)
      in nat_str (n div 10 ^ k) @ ''.'' @ replicate (k - length frac) (CHR ''0'') @ frac)"

section \<open>Rounding\<close>

lemma bit_length_nonneg: "0 \<le> bit_length n"
  by (induction n rule: bit_length.induct) (subst bit_length.simps, simp)

lemma bit_length_bounds: "0 < n \<Longrightarrow> 2 ^ nat (bit_length n - 1) \<le> n \<and> n < 2 ^ nat (bit_length n)"
proof (induction n rule: bit_length.induct)
  case (1 n)
  show ?case
  proof (cases "n = 1")
    case True
    then show ?thesis by (simp add: bit_length.simps)
  next
    case False
    define b where "b = nat (bit_length (n div 2))"
    have "0 < n div 2" using 1(2) False by auto
    then have "2 ^ (b - 1) \<le> n div 2" "n div 2 < 2 ^ b" using 1
      by (auto simp: b_def nat_diff_distrib' bit_length_nonneg)
    moreover have "b \<noteq> 0" using calculation \<open>0 < n div 2\<close> by (cases b) auto
    moreover have "nat (bit_length n) = Suc b" "nat (bit_length n - 1) = b"
      using 1(2) bit_length_nonneg [of "n div 2"] by (simp_all add: b_def bit_length.simps [of n])
    ultimately show ?thesis by (cases b) auto
  qed
qed

lemma round_even_bounds: "of_int (round_even x) - 1 / 2 \<le> x \<and> x \<le> of_int (round_even x) + 1 / 2"
proof -
  have "of_int \<lfloor>x\<rfloor> \<le> x" "x < of_int \<lfloor>x\<rfloor> + 1" by linarith+
  then show ?thesis unfolding round_even_def Let_def by (simp split: if_splits; linarith)
qed

lemma round_even_of_int [simp]: "round_even (of_int n) = n"
  by (simp add: round_even_def)

lemma round_even_nonneg: "0 \<le> x \<Longrightarrow> 0 \<le> round_even x"
  using floor_mono [of 0 x] by (auto simp: round_even_def Let_def)

lemma round_bits_nonneg: "0 \<le> x \<Longrightarrow> 0 \<le> round_bits p x"
  by (auto simp: round_bits_def Let_def intro!: mult_nonneg_nonneg round_even_nonneg divide_nonneg_nonneg)

lemma round_bits_0 [simp]: "round_bits p 0 = 0"
  by (simp add: round_bits_def)

text \<open>A rounding moves a number by half a unit of its last place at most.\<close>

lemma round_bits_error: "\<bar>round_bits p x - x\<bar> \<le> 2 powi (ilog2 \<bar>x\<bar> - int p + 1) / 2"
proof (cases "x = 0")
  case False
  define u :: rat where "u = 2 powi (ilog2 \<bar>x\<bar> - int p + 1)"
  have u: "0 < u" by (simp add: u_def)
  have "round_bits p x - x = (of_int (round_even (x / u)) - x / u) * u"
    using False u by (simp add: round_bits_def Let_def u_def left_diff_distrib)
  moreover have "\<bar>of_int (round_even (x / u)) - x / u\<bar> \<le> 1 / 2"
    using round_even_bounds [of "x / u"] by (metis abs_le_iff add.commute diff_le_eq minus_diff_eq)
  ultimately show ?thesis
    using u mult_right_mono [of "\<bar>of_int (round_even (x / u)) - x / u\<bar>" "1 / 2" u]
    by (simp add: abs_mult u_def)
qed simp

section \<open>Rounding keeps the order\<close>

lemma ilog2_bounds:
  assumes "0 < x"
  shows "2 powi ilog2 x \<le> x \<and> x < 2 powi (ilog2 x + 1)"
proof -
  obtain n d where q: "quotient_of x = (n, d)" by fastforce
  define b c where "b = bit_length n" and "c = bit_length d"
  have d: "0 < d" and x: "x = of_int n / of_int d"
    using quotient_of_denom_pos [OF q] quotient_of_div [OF q] by auto
  then have n: "0 < n" using assms by (simp add: zero_less_divide_iff)
  have pos: "0 < b" "0 < c"
    using n d bit_length_nonneg [of "n div 2"] bit_length_nonneg [of "d div 2"]
    by (simp_all add: b_def c_def bit_length.simps [of n] bit_length.simps [of d])
  have pow: "2 powi k = (of_int (2 ^ nat k) :: rat)" if "0 \<le> k" for k
    using that by (simp add: power_int_def)
  have B: "2 powi (b - 1) \<le> (of_int n :: rat)" "of_int n < (2 powi b :: rat)"
    using bit_length_bounds [OF n] pos unfolding b_def [symmetric]
    by (simp_all add: pow del: of_int_power)
  have C: "2 powi (c - 1) \<le> (of_int d :: rat)" "of_int d < (2 powi c :: rat)"
    using bit_length_bounds [OF d] pos unfolding c_def [symmetric]
    by (simp_all add: pow del: of_int_power)
  have "2 powi (b - c - 1) = (2 powi (b - 1) / 2 powi c :: rat)"
    by (simp add: algebra_simps flip: power_int_diff)
  also have "\<dots> \<le> of_int n / of_int d" using B(1) C(2) n d by (intro frac_le) auto
  finally have lo: "2 powi (b - c - 1) \<le> x" by (simp add: x)
  have "of_int n / of_int d < (2 powi b / 2 powi (c - 1) :: rat)"
    using B(2) C(1) n by (intro frac_less) auto
  also have "\<dots> = 2 powi (b - c + 1)" by (simp add: algebra_simps flip: power_int_diff)
  finally have "x < 2 powi (b - c + 1)" by (simp add: x)
  with lo show ?thesis by (simp add: ilog2_def q b_def c_def Let_def)
qed

lemma ilog2_mono:
  assumes "0 < x" "x \<le> y"
  shows "ilog2 x \<le> ilog2 y"
proof (rule ccontr)
  assume "\<not> ilog2 x \<le> ilog2 y"
  then have "2 powi (ilog2 y + 1) \<le> (2 powi ilog2 x :: rat)" by (intro power_int_increasing) auto
  then show False using ilog2_bounds [of x] ilog2_bounds [of y] assms by linarith
qed

lemma round_even_mono: "x \<le> y \<Longrightarrow> round_even x \<le> round_even y"
proof (cases "\<lfloor>x\<rfloor> = \<lfloor>y\<rfloor>")
  case True
  assume "x \<le> y"
  with True show ?thesis by (auto simp: round_even_def Let_def)
next
  case False
  assume "x \<le> y"
  then have "\<lfloor>x\<rfloor> < \<lfloor>y\<rfloor>" using False floor_mono [of x y] by simp
  then show ?thesis by (auto simp: round_even_def Let_def)
qed

text \<open>The unit of the last place of a number whose leading bit has exponent \<open>e\<close>.\<close>

lemma round_bits_pos: "0 < x \<Longrightarrow>
    round_bits p x = of_int (round_even (x / 2 powi (ilog2 x - int p + 1))) * 2 powi (ilog2 x - int p + 1)"
  by (simp add: round_bits_def Let_def)

lemma power_unit: "of_int (2 ^ n) * 2 powi s = (2 powi (int n + s) :: rat)"
  by (simp add: power_int_add)

text \<open>A number with at most \<open>p\<close> significant bits stays as it is.\<close>

lemma round_bits_exact:
  assumes "x = of_int m * 2 powi s" "0 < m" "m \<le> 2 ^ p" "0 < p"
  shows "round_bits p x = x"
proof -
  define e where "e = ilog2 x"
  have x: "0 < x" using assms by simp
  have top: "x \<le> 2 powi (int p + s)"
    using assms(3) by (simp add: assms(1) power_int_add del: of_int_le_numeral_power_cancel_iff
        flip: of_int_le_iff [where ?'a = rat])
  have bounds: "2 powi e \<le> x" "x < 2 powi (e + 1)" using ilog2_bounds [OF x] by (simp_all add: e_def)
  have "e \<le> int p + s"
    using power_int_strict_increasing [of "int p + s" e "2 :: rat"] bounds(1) top by (cases "e \<le> int p + s") auto
  have "\<exists>k. x / 2 powi (e - int p + 1) = of_int k"
  proof (cases "e = int p + s")
    case True
    then have "x = 2 powi e" using bounds(1) top by simp
    then have "x / 2 powi (e - int p + 1) = 2 powi (int p - 1)" by (simp flip: power_int_diff)
    also have "\<dots> = of_int (2 ^ (p - 1))" using assms(4) by (simp add: power_int_def nat_diff_distrib)
    finally show ?thesis by blast
  next
    case False
    then have "0 \<le> s - (e - int p + 1)" using \<open>e \<le> int p + s\<close> by simp
    moreover have "x / 2 powi (e - int p + 1) = of_int m * 2 powi (s - (e - int p + 1))"
      by (simp add: assms(1) power_int_diff)
    ultimately have "x / 2 powi (e - int p + 1) = of_int (m * 2 ^ nat (s - (e - int p + 1)))"
      by (simp add: power_int_def)
    then show ?thesis by blast
  qed
  then obtain k where k: "x / 2 powi (e - int p + 1) = of_int k" by blast
  have "round_bits p x = x / 2 powi (e - int p + 1) * 2 powi (e - int p + 1)"
    unfolding round_bits_pos [OF x] e_def [symmetric] k round_even_of_int ..
  then show ?thesis by simp
qed

lemma round_bits_frame:
  assumes "0 < x" "0 < p"
  defines "k \<equiv> round_even (x / 2 powi (ilog2 x - int p + 1))"
  shows "2 ^ (p - 1) \<le> k" "k \<le> 2 ^ p"
proof -
  define u :: rat where "u = 2 powi (ilog2 x - int p + 1)"
  have u: "0 < u" by (simp add: u_def)
  have "2 powi ilog2 x / u = 2 powi (int p - 1)" "2 powi (ilog2 x + 1) / u = 2 powi int p"
    by (simp_all add: u_def flip: power_int_diff)
  then have e: "2 powi ilog2 x / u = of_int (2 ^ (p - 1))" "2 powi (ilog2 x + 1) / u = of_int (2 ^ p)"
    using assms(2) by (simp_all add: power_int_def nat_diff_distrib)
  have "of_int (2 ^ (p - 1)) \<le> x / u" "x / u \<le> of_int (2 ^ p)"
    unfolding e [symmetric] using ilog2_bounds [OF assms(1)] u by (auto intro!: divide_right_mono)
  then have "round_even (of_int (2 ^ (p - 1))) \<le> k" "k \<le> round_even (of_int (2 ^ p))"
    unfolding k_def u_def [symmetric] by (blast intro: round_even_mono)+
  then show "2 ^ (p - 1) \<le> k" "k \<le> 2 ^ p" by (simp_all del: of_int_power)
qed

lemma round_bits_idem: "0 \<le> x \<Longrightarrow> 0 < p \<Longrightarrow> round_bits p (round_bits p x) = round_bits p x"
proof (cases "x = 0")
  case False
  assume *: "0 \<le> x" "0 < p"
  then have x: "0 < x" using False by simp
  have "(0 :: int) < 2 ^ (p - 1)" by simp
  also note round_bits_frame(1) [OF x *(2)]
  finally show ?thesis
    by (intro round_bits_exact [OF round_bits_pos [OF x]] round_bits_frame(2) [OF x *(2)] *(2))
qed simp

lemma round_bits_mono:
  assumes "0 \<le> x" "x \<le> y" "0 < p"
  shows "round_bits p x \<le> round_bits p y"
proof (cases "x = 0")
  case True
  then show ?thesis using assms round_bits_nonneg by simp
next
  case False
  then have x: "0 < x" and y: "0 < y" using assms by simp_all
  show ?thesis
  proof (cases "ilog2 x = ilog2 y")
    case True
    have "round_even (x / 2 powi (ilog2 y - int p + 1)) \<le> round_even (y / 2 powi (ilog2 y - int p + 1))"
      by (intro round_even_mono divide_right_mono assms) simp
    then show ?thesis by (simp add: round_bits_pos x y True)
  next
    case False
    then have less: "ilog2 x + 1 \<le> ilog2 y" using ilog2_mono [OF x assms(2)] by simp
    have "round_bits p x \<le> of_int (2 ^ p) * 2 powi (ilog2 x - int p + 1)"
      unfolding round_bits_pos [OF x] using round_bits_frame(2) [OF x assms(3)]
      by (intro mult_right_mono) (simp_all del: of_int_power)
    also have "\<dots> = 2 powi (ilog2 x + 1)" unfolding power_unit by simp
    also have "\<dots> \<le> 2 powi ilog2 y" using less by (intro power_int_increasing) auto
    also have "\<dots> = of_int (2 ^ (p - 1)) * 2 powi (ilog2 y - int p + 1)"
      unfolding power_unit using assms(3) by (simp add: of_nat_diff)
    also have "\<dots> \<le> round_bits p y"
      unfolding round_bits_pos [OF y] using round_bits_frame(1) [OF y assms(3)]
      by (intro mult_right_mono) (simp_all del: of_int_power)
    finally show ?thesis .
  qed
qed

lemma round_bits_le_1: "0 \<le> x \<Longrightarrow> x \<le> 1 \<Longrightarrow> 0 < p \<Longrightarrow> round_bits p x \<le> 1"
  using round_bits_mono [of x 1 p] round_bits_exact [of 1 1 0 p] by simp

end
