(* ===== verification/Memory_Store.thy ===== *)
theory Memory_Store
  imports Skyclaw_Types Rust_Float
begin

text \<open>
  The memory of the agent: the data and the interface of
  \<open>crates/skyclaw-core/src/traits/memory.rs\<close>. \<open>memory_ops\<close> is the trait, with the
  backend's state (and whatever makes it fail) as the type parameter; \<open>memory_contract\<close> is what a
  client may rely on.
\<close>

section \<open>Entries\<close>

datatype memory_entry_type = Conversation | LongTerm | DailyLog | SkillEntry | Knowledge

record memory_entry =
  me_id :: string
  me_content :: string
  me_metadata :: json
  me_timestamp :: int
  me_session_id :: "string option"
  me_type :: memory_entry_type

record search_opts =
  so_limit :: nat
  vector_weight :: f32
  keyword_weight :: f32
  session_filter :: "string option"
  entry_type_filter :: "memory_entry_type option"

definition search_opts_default :: search_opts where
  "search_opts_default = \<lparr>so_limit = 10, vector_weight = to_f32 (7 / 10), keyword_weight = to_f32 (3 / 10),
     session_filter = None, entry_type_filter = None\<rparr>"

fun entry_type_to_str :: "memory_entry_type \<Rightarrow> string" where
  "entry_type_to_str Conversation = ''conversation''"
| "entry_type_to_str LongTerm = ''long_term''"
| "entry_type_to_str DailyLog = ''daily_log''"
| "entry_type_to_str SkillEntry = ''skill''"
| "entry_type_to_str Knowledge = ''knowledge''"

definition str_to_entry_type :: "string \<Rightarrow> memory_entry_type result" where
  "str_to_entry_type s =
     (if s = ''conversation'' then Inr Conversation
      else if s = ''long_term'' then Inr LongTerm
      else if s = ''daily_log'' then Inr DailyLog
      else if s = ''skill'' then Inr SkillEntry
      else if s = ''knowledge'' then Inr Knowledge
      else Inl (Memory (''Unknown entry type: '' @ s)))"

lemma str_to_entry_type_inverse [simp]: "str_to_entry_type (entry_type_to_str t) = Inr t"
  by (cases t) (simp_all add: str_to_entry_type_def)

lemma entry_type_to_str_inj [simp]: "entry_type_to_str t = entry_type_to_str u \<longleftrightarrow> t = u"
  by (metis Inr_inject str_to_entry_type_inverse)

section \<open>The interface\<close>

record 'm memory_ops =
  store_op :: "memory_entry \<Rightarrow> 'm \<Rightarrow> unit result \<times> 'm"
  search_op :: "string \<Rightarrow> search_opts \<Rightarrow> 'm \<Rightarrow> memory_entry list result \<times> 'm"
  get_op :: "string \<Rightarrow> 'm \<Rightarrow> memory_entry option result \<times> 'm"
  delete_op :: "string \<Rightarrow> 'm \<Rightarrow> unit result \<times> 'm"
  sessions_op :: "'m \<Rightarrow> string list result \<times> 'm"
  history_op :: "string \<Rightarrow> nat \<Rightarrow> 'm \<Rightarrow> memory_entry list result \<times> 'm"

text \<open>
  The contract: a backend is a map from identifiers to entries. An operation that succeeds has
  its effect; one that fails has its effect or none; nothing else changes the map.
\<close>

locale memory_contract =
  fixes ops :: "'m memory_ops"
    and invar :: "'m \<Rightarrow> bool"
    and contents :: "'m \<Rightarrow> string \<Rightarrow> memory_entry option"
  assumes store_effect: "invar m \<Longrightarrow> contents (snd (store_op ops e m)) = (contents m)(me_id e \<mapsto> e)
        \<or> fst (store_op ops e m) \<noteq> Inr () \<and> contents (snd (store_op ops e m)) = contents m"
    and delete_effect: "invar m \<Longrightarrow> contents (snd (delete_op ops i m)) = (contents m)(i := None)
        \<or> fst (delete_op ops i m) \<noteq> Inr () \<and> contents (snd (delete_op ops i m)) = contents m"
    and get_answer: "invar m \<Longrightarrow> fst (get_op ops i m) = Inr r \<Longrightarrow> r = contents m i"
    and read_only: "invar m \<Longrightarrow> contents (snd (get_op ops i m)) = contents m"
      "invar m \<Longrightarrow> contents (snd (search_op ops q so m)) = contents m"
      "invar m \<Longrightarrow> contents (snd (sessions_op ops m)) = contents m"
      "invar m \<Longrightarrow> contents (snd (history_op ops i n m)) = contents m"
    and invar_kept: "invar m \<Longrightarrow> invar (snd (store_op ops e m))" "invar m \<Longrightarrow> invar (snd (delete_op ops i m))"
      "invar m \<Longrightarrow> invar (snd (get_op ops i m))" "invar m \<Longrightarrow> invar (snd (search_op ops q so m))"
      "invar m \<Longrightarrow> invar (snd (sessions_op ops m))" "invar m \<Longrightarrow> invar (snd (history_op ops i n m))"

end
