(* ===== verification/Sqlite_Memory.thy ===== *)
theory Sqlite_Memory
  imports Memory_Store Plain_Text
begin

text \<open>
  The SQLite backend (\<open>crates/skyclaw-memory/src/sqlite.rs\<close>): one table, here the list of its
  rows, with \<open>id\<close> as primary key, and the statements the code sends. The database is a
  parameter: \<open>db_script\<close> says what it answers to the coming statements (nothing more to say means
  that it answers well); a statement that times out has been executed or not. The texts of JSON
  values and time stamps are made by other crates: a \<open>codec\<close>. Rows with equal time stamps come
  in insertion order, which SQL leaves open.
\<close>

section \<open>The table\<close>

record memory_row =
  mr_id :: string
  mr_content :: string
  mr_metadata :: string
  mr_timestamp :: string
  mr_session_id :: "string option"
  mr_entry_type :: string

record codec =
  json_text :: "json \<Rightarrow> string"
  json_parse :: "string \<Rightarrow> string + json"
  ts_text :: "int \<Rightarrow> string"
  ts_parse :: "string \<Rightarrow> string + int"

definition codec_ok :: "codec \<Rightarrow> bool" where
  "codec_ok c \<longleftrightarrow> (\<forall>j. json_parse c (json_text c j) = Inr j) \<and> (\<forall>t. ts_parse c (ts_text c t) = Inr t)"

definition memory_row_to_entry :: "codec \<Rightarrow> memory_row \<Rightarrow> memory_entry result" where
  "memory_row_to_entry c row =
     bind_result (map_error Serialization (json_parse c (mr_metadata row))) (\<lambda>metadata.
     bind_result (map_error (\<lambda>e. Memory (''Invalid timestamp: '' @ e)) (ts_parse c (mr_timestamp row))) (\<lambda>timestamp.
     bind_result (str_to_entry_type (mr_entry_type row)) (\<lambda>entry_type.
     Inr \<lparr>me_id = mr_id row, me_content = mr_content row, me_metadata = metadata, me_timestamp = timestamp,
          me_session_id = mr_session_id row, me_type = entry_type\<rparr>)))"

definition row_of_entry :: "codec \<Rightarrow> memory_entry \<Rightarrow> memory_row" where
  "row_of_entry c e = \<lparr>mr_id = me_id e, mr_content = me_content e, mr_metadata = json_text c (me_metadata e),
     mr_timestamp = ts_text c (me_timestamp e), mr_session_id = me_session_id e,
     mr_entry_type = entry_type_to_str (me_type e)\<rparr>"

section \<open>Statements\<close>

datatype db_answer = DbOk | DbFails string | DbTimesOut bool

record sqlite_db =
  mem_rows :: "memory_row list"
  db_script :: "db_answer list"

definition next_answer :: "sqlite_db \<Rightarrow> db_answer \<times> sqlite_db" where
  "next_answer s = (case db_script s of [] \<Rightarrow> (DbOk, s) | a # as \<Rightarrow> (a, s\<lparr>db_script := as\<rparr>))"

definition timed_out :: skyclaw_error where
  "timed_out = Memory ''Database operation timed out after 5 seconds''"

definition run_write :: "(memory_row list \<Rightarrow> memory_row list) \<Rightarrow> sqlite_db \<Rightarrow> db_answer \<times> sqlite_db" where
  "run_write f s = (case next_answer s of (a, s') \<Rightarrow>
     (a, if a = DbOk \<or> a = DbTimesOut True then s'\<lparr>mem_rows := f (mem_rows s')\<rparr> else s'))"

definition run_read :: "string \<Rightarrow> (memory_row list \<Rightarrow> 'a result) \<Rightarrow> sqlite_db \<Rightarrow> 'a result \<times> sqlite_db" where
  "run_read what f s = (case next_answer s of
      (DbOk, s') \<Rightarrow> (f (mem_rows s'), s')
    | (DbFails e, s') \<Rightarrow> (Inl (Memory (what @ '': '' @ e)), s')
    | (DbTimesOut _, s') \<Rightarrow> (Inl timed_out, s'))"

text \<open>\<open>INSERT OR REPLACE\<close>: a row with the same key goes, the new row comes last.\<close>

definition insert_or_replace :: "memory_row \<Rightarrow> memory_row list \<Rightarrow> memory_row list" where
  "insert_or_replace r rs = filter (\<lambda>r'. mr_id r' \<noteq> mr_id r) rs @ [r]"

text \<open>\<open>LIKE\<close>: letter case of ASCII letters is ignored, a percent sign stands for any text, an
  underscore for one character.\<close>

fun sql_like :: "string \<Rightarrow> string \<Rightarrow> bool" where
  "sql_like [] s \<longleftrightarrow> s = []"
| "sql_like (p # ps) [] \<longleftrightarrow> p = CHR ''%'' \<and> sql_like ps []"
| "sql_like (p # ps) (c # s) \<longleftrightarrow>
     (if p = CHR ''%'' then sql_like ps (c # s) \<or> sql_like (p # ps) s
      else if p = CHR ''_'' then sql_like ps (dropWhile is_cont s)
      else ascii_lower p = ascii_lower c \<and> sql_like ps s)"

section \<open>Operations\<close>

definition is_busy :: "string \<Rightarrow> bool" where
  "is_busy e \<longleftrightarrow> str_contains ''database is locked'' e \<or> str_contains ''SQLITE_BUSY'' e"

text \<open>The retry loop of \<open>store\<close>, by the attempts that are left: three at first.\<close>

definition MAX_RETRIES :: nat where "MAX_RETRIES = 3"

fun store_attempts :: "nat \<Rightarrow> memory_row \<Rightarrow> sqlite_db \<Rightarrow> unit result \<times> sqlite_db" where
  "store_attempts 0 row s = (Inr (), s)"
| "store_attempts (Suc n) row s = (case run_write (insert_or_replace row) s of
      (DbOk, s') \<Rightarrow> (Inr (), s')
    | (DbTimesOut _, s') \<Rightarrow> (Inl timed_out, s')
    | (DbFails e, s') \<Rightarrow>
        if 0 < n \<and> is_busy e then store_attempts n row s'
        else (Inl (Memory (''Failed to store entry: '' @ e)), s'))"

definition sqlite_store :: "codec \<Rightarrow> memory_entry \<Rightarrow> sqlite_db \<Rightarrow> unit result \<times> sqlite_db" where
  "sqlite_store c e s = store_attempts MAX_RETRIES (row_of_entry c e) s"

definition search_matches :: "string list \<Rightarrow> search_opts \<Rightarrow> memory_row \<Rightarrow> bool" where
  "search_matches words opts r \<longleftrightarrow>
     list_all (\<lambda>w. let pattern = ''%'' @ w @ ''%'' in sql_like pattern (mr_content r) \<or> sql_like pattern (mr_id r)) words
     \<and> (case session_filter opts of None \<Rightarrow> True | Some sid \<Rightarrow> mr_session_id r = Some sid)
     \<and> (case entry_type_filter opts of None \<Rightarrow> True | Some t \<Rightarrow> mr_entry_type r = entry_type_to_str t)"

text \<open>The limit is bound as a text, which must be a 64-bit integer.\<close>

definition sqlite_search :: "codec \<Rightarrow> string \<Rightarrow> search_opts \<Rightarrow> sqlite_db \<Rightarrow> memory_entry list result \<times> sqlite_db" where
  "sqlite_search c q opts s = run_read ''Search failed'' (\<lambda>rows.
     if (2 :: int) ^ 63 \<le> int (so_limit opts) then Inl (Memory ''Search failed: datatype mismatch'')
     else collect_results (map (memory_row_to_entry c) (take (so_limit opts)
       (rev (sort_key mr_timestamp (filter (search_matches (split_whitespace q) opts) rows)))))) s"

definition sqlite_get :: "codec \<Rightarrow> string \<Rightarrow> sqlite_db \<Rightarrow> memory_entry option result \<times> sqlite_db" where
  "sqlite_get c i s = run_read ''Failed to get entry'' (\<lambda>rows. case List.find (\<lambda>r. mr_id r = i) rows of
      None \<Rightarrow> Inr None
    | Some r \<Rightarrow> bind_result (memory_row_to_entry c r) (\<lambda>e. Inr (Some e))) s"

definition sqlite_delete :: "string \<Rightarrow> sqlite_db \<Rightarrow> unit result \<times> sqlite_db" where
  "sqlite_delete i s = (case run_write (filter (\<lambda>r. mr_id r \<noteq> i)) s of
      (DbOk, s') \<Rightarrow> (Inr (), s')
    | (DbFails e, s') \<Rightarrow> (Inl (Memory (''Failed to delete entry: '' @ e)), s')
    | (DbTimesOut _, s') \<Rightarrow> (Inl timed_out, s'))"

definition sqlite_sessions :: "sqlite_db \<Rightarrow> string list result \<times> sqlite_db" where
  "sqlite_sessions s = run_read ''Failed to list sessions''
     (\<lambda>rows. Inr (sort (remdups (List.map_filter mr_session_id rows)))) s"

text \<open>The limit is cast to a signed integer: a negative one means no limit.\<close>

definition sqlite_history :: "codec \<Rightarrow> string \<Rightarrow> nat \<Rightarrow> sqlite_db \<Rightarrow> memory_entry list result \<times> sqlite_db" where
  "sqlite_history c sid limit s = run_read ''Failed to get session history'' (\<lambda>rows.
     let rs = sort_key mr_timestamp (filter (\<lambda>r. mr_session_id r = Some sid) rows)
     in collect_results (map (memory_row_to_entry c) (if (2 :: int) ^ 63 \<le> int limit then rs else take limit rs))) s"

definition sqlite_ops :: "codec \<Rightarrow> sqlite_db memory_ops" where
  "sqlite_ops c = \<lparr>store_op = sqlite_store c, search_op = sqlite_search c, get_op = sqlite_get c,
     delete_op = sqlite_delete, sessions_op = sqlite_sessions, history_op = sqlite_history c\<rparr>"

section \<open>The table as a map\<close>

definition entries_of :: "codec \<Rightarrow> sqlite_db \<Rightarrow> memory_entry list" where
  "entries_of c s = List.map_filter (\<lambda>r. case memory_row_to_entry c r of Inl _ \<Rightarrow> None | Inr e \<Rightarrow> Some e) (mem_rows s)"

definition sqlite_contents :: "codec \<Rightarrow> sqlite_db \<Rightarrow> string \<Rightarrow> memory_entry option" where
  "sqlite_contents c s i = List.find (\<lambda>e. me_id e = i) (entries_of c s)"

definition sqlite_invar :: "codec \<Rightarrow> sqlite_db \<Rightarrow> bool" where
  "sqlite_invar c s \<longleftrightarrow> codec_ok c \<and> (\<exists>es. mem_rows s = map (row_of_entry c) es \<and> distinct (map me_id es))"

lemma row_roundtrip [simp]: "codec_ok c \<Longrightarrow> memory_row_to_entry c (row_of_entry c e) = Inr e"
  by (simp add: memory_row_to_entry_def row_of_entry_def codec_ok_def)

lemma row_of_entry_id [simp]: "mr_id (row_of_entry c e) = me_id e"
  by (simp add: row_of_entry_def)

lemma sqlite_invarE:
  assumes "sqlite_invar c s"
  obtains es where "codec_ok c" "mem_rows s = map (row_of_entry c) es" "distinct (map me_id es)" "entries_of c s = es"
proof -
  from assms obtain es where es: "codec_ok c" "mem_rows s = map (row_of_entry c) es" "distinct (map me_id es)"
    unfolding sqlite_invar_def by blast
  have "entries_of c s = es" using es(1) by (simp add: entries_of_def es(2) List.map_filter_def comp_def)
  with es that show ?thesis by blast
qed

lemma sqlite_invarI:
  "codec_ok c \<Longrightarrow> mem_rows s = map (row_of_entry c) es \<Longrightarrow> distinct (map me_id es) \<Longrightarrow> sqlite_invar c s"
  by (auto simp: sqlite_invar_def)

lemma sqlite_same_rows:
  assumes "mem_rows s' = mem_rows s"
  shows "sqlite_invar c s' = sqlite_invar c s" "sqlite_contents c s' = sqlite_contents c s"
  by (simp_all add: assms sqlite_invar_def sqlite_contents_def entries_of_def fun_eq_iff)

lemma insert_or_replace_entries:
  "insert_or_replace (row_of_entry c e) (map (row_of_entry c) es)
    = map (row_of_entry c) (filter (\<lambda>e'. me_id e' \<noteq> me_id e) es @ [e])"
  by (simp add: insert_or_replace_def filter_map comp_def)

lemma find_replaced:
  "List.find (\<lambda>e. me_id e = i) (filter (\<lambda>e'. me_id e' \<noteq> me_id x) es @ [x])
    = (if i = me_id x then Some x else List.find (\<lambda>e. me_id e = i) es)"
  by (induction es) auto

lemma find_removed:
  "List.find (\<lambda>e. me_id e = i) (filter (\<lambda>e'. me_id e' \<noteq> k) es) = (if i = k then None else List.find (\<lambda>e. me_id e = i) es)"
  by (induction es) auto

lemma sqlite_replaced:
  assumes "sqlite_invar c s" "mem_rows s' = insert_or_replace (row_of_entry c e) (mem_rows s)"
  shows "sqlite_invar c s'" "sqlite_contents c s' = (sqlite_contents c s)(me_id e \<mapsto> e)"
proof -
  obtain es where es: "codec_ok c" "mem_rows s = map (row_of_entry c) es" "distinct (map me_id es)" "entries_of c s = es"
    using assms(1) by (rule sqlite_invarE)
  let ?es = "filter (\<lambda>e'. me_id e' \<noteq> me_id e) es @ [e]"
  have rows: "mem_rows s' = map (row_of_entry c) ?es" by (simp only: assms(2) es(2) insert_or_replace_entries)
  moreover have "distinct (map me_id ?es)" using es(3) by (auto simp: distinct_map_filter)
  ultimately show "sqlite_invar c s'" by (rule sqlite_invarI [OF es(1)])
  have "entries_of c s' = ?es" using es(1) by (simp add: entries_of_def rows List.map_filter_def comp_def)
  then show "sqlite_contents c s' = (sqlite_contents c s)(me_id e \<mapsto> e)"
    by (simp add: fun_eq_iff sqlite_contents_def es(4) find_replaced)
qed

lemma sqlite_removed:
  assumes "sqlite_invar c s" "mem_rows s' = filter (\<lambda>r. mr_id r \<noteq> i) (mem_rows s)"
  shows "sqlite_invar c s'" "sqlite_contents c s' = (sqlite_contents c s)(i := None)"
proof -
  obtain es where es: "codec_ok c" "mem_rows s = map (row_of_entry c) es" "distinct (map me_id es)" "entries_of c s = es"
    using assms(1) by (rule sqlite_invarE)
  have rows: "mem_rows s' = map (row_of_entry c) (filter (\<lambda>e. me_id e \<noteq> i) es)"
    by (simp add: assms(2) es(2) filter_map comp_def)
  moreover have "distinct (map me_id (filter (\<lambda>e. me_id e \<noteq> i) es))" using es(3) by (rule distinct_map_filter)
  ultimately show "sqlite_invar c s'" by (rule sqlite_invarI [OF es(1)])
  have "entries_of c s' = filter (\<lambda>e. me_id e \<noteq> i) es"
    using es(1) by (simp add: entries_of_def rows List.map_filter_def comp_def)
  then show "sqlite_contents c s' = (sqlite_contents c s)(i := None)"
    by (simp add: fun_eq_iff sqlite_contents_def es(4) find_removed)
qed

lemma next_answer_rows [simp]: "mem_rows (snd (next_answer s)) = mem_rows s"
  by (simp add: next_answer_def split: list.splits)

lemma run_read_rows [simp]: "mem_rows (snd (run_read what f s)) = mem_rows s"
  using next_answer_rows [of s] by (cases "next_answer s") (auto simp: run_read_def split: db_answer.splits)

lemma run_write_rows:
  "mem_rows (snd (run_write f s)) = (if fst (run_write f s) = DbOk \<or> fst (run_write f s) = DbTimesOut True
     then f (mem_rows s) else mem_rows s)"
  using next_answer_rows [of s] by (cases "next_answer s") (auto simp: run_write_def)

lemma store_attempts_rows:
  assumes "0 < n"
  shows "mem_rows (snd (store_attempts n row s)) = insert_or_replace row (mem_rows s)
    \<or> fst (store_attempts n row s) \<noteq> Inr () \<and> mem_rows (snd (store_attempts n row s)) = mem_rows s"
  using assms
proof (induction n arbitrary: s)
  case (Suc n)
  obtain a s' where w: "run_write (insert_or_replace row) s = (a, s')" by (cases "run_write (insert_or_replace row) s")
  then have r: "mem_rows s' = (if a = DbOk \<or> a = DbTimesOut True then insert_or_replace row (mem_rows s) else mem_rows s)"
    using run_write_rows [of "insert_or_replace row" s] by simp
  show ?case using Suc.IH [of s'] r by (cases a) (auto simp: w)
qed simp

lemma sqlite_delete_rows:
  "mem_rows (snd (sqlite_delete i s)) = filter (\<lambda>r. mr_id r \<noteq> i) (mem_rows s)
    \<or> fst (sqlite_delete i s) \<noteq> Inr () \<and> mem_rows (snd (sqlite_delete i s)) = mem_rows s"
proof -
  obtain a s' where w: "run_write (filter (\<lambda>r. mr_id r \<noteq> i)) s = (a, s')" by (cases "run_write (filter (\<lambda>r. mr_id r \<noteq> i)) s")
  then have "mem_rows s' = (if a = DbOk \<or> a = DbTimesOut True then filter (\<lambda>r. mr_id r \<noteq> i) (mem_rows s) else mem_rows s)"
    using run_write_rows [of "filter (\<lambda>r. mr_id r \<noteq> i)" s] by simp
  then show ?thesis by (cases a) (auto simp: sqlite_delete_def w)
qed

lemma sqlite_get_answer:
  assumes "sqlite_invar c s" "fst (sqlite_get c i s) = Inr r"
  shows "r = sqlite_contents c s i"
proof -
  obtain es where es: "codec_ok c" "mem_rows s = map (row_of_entry c) es" "distinct (map me_id es)" "entries_of c s = es"
    using assms(1) by (rule sqlite_invarE)
  have f: "List.find (\<lambda>r. mr_id r = i) (map (row_of_entry c) es) = map_option (row_of_entry c) (List.find (\<lambda>e. me_id e = i) es)"
    by (induction es) auto
  obtain a s' where a: "next_answer s = (a, s')" by (cases "next_answer s")
  then have "mem_rows s' = mem_rows s" using next_answer_rows [of s] by simp
  then show ?thesis
    using assms(2) f es(1,2,4) by (cases a; cases "List.find (\<lambda>e. me_id e = i) es")
      (auto simp: sqlite_get_def run_read_def a sqlite_contents_def)
qed

lemma sqlite_store_effect:
  assumes "sqlite_invar c s"
  shows "sqlite_contents c (snd (sqlite_store c e s)) = (sqlite_contents c s)(me_id e \<mapsto> e)
      \<or> fst (sqlite_store c e s) \<noteq> Inr () \<and> sqlite_contents c (snd (sqlite_store c e s)) = sqlite_contents c s"
    and "sqlite_invar c (snd (sqlite_store c e s))"
proof -
  let ?s' = "snd (sqlite_store c e s)"
  have rows: "mem_rows ?s' = insert_or_replace (row_of_entry c e) (mem_rows s)
      \<or> fst (sqlite_store c e s) \<noteq> Inr () \<and> mem_rows ?s' = mem_rows s"
    unfolding sqlite_store_def by (rule store_attempts_rows) (simp add: MAX_RETRIES_def)
  then show "sqlite_contents c ?s' = (sqlite_contents c s)(me_id e \<mapsto> e)
      \<or> fst (sqlite_store c e s) \<noteq> Inr () \<and> sqlite_contents c ?s' = sqlite_contents c s"
    using sqlite_replaced(2) [OF assms] sqlite_same_rows(2) by blast
  from rows show "sqlite_invar c ?s'"
    using sqlite_replaced(1) [OF assms] sqlite_same_rows(1) assms by blast
qed

lemma sqlite_delete_effect:
  assumes "sqlite_invar c s"
  shows "sqlite_contents c (snd (sqlite_delete i s)) = (sqlite_contents c s)(i := None)
      \<or> fst (sqlite_delete i s) \<noteq> Inr () \<and> sqlite_contents c (snd (sqlite_delete i s)) = sqlite_contents c s"
    and "sqlite_invar c (snd (sqlite_delete i s))"
  using sqlite_delete_rows [of i s] sqlite_removed [OF assms] sqlite_same_rows assms by blast+

lemma sqlite_reads_rows:
  "mem_rows (snd (sqlite_get c i s)) = mem_rows s" "mem_rows (snd (sqlite_search c q so s)) = mem_rows s"
  "mem_rows (snd (sqlite_sessions s)) = mem_rows s" "mem_rows (snd (sqlite_history c sid n s)) = mem_rows s"
  by (simp_all add: sqlite_get_def sqlite_search_def sqlite_sessions_def sqlite_history_def)

lemmas sqlite_reads = sqlite_reads_rows [THEN sqlite_same_rows(1)] sqlite_reads_rows [THEN sqlite_same_rows(2)]

interpretation sq: memory_contract "sqlite_ops c" "sqlite_invar c" "sqlite_contents c" for c
  by unfold_locales
    (simp_all add: sqlite_ops_def sqlite_store_effect sqlite_delete_effect sqlite_get_answer sqlite_reads)

section \<open>Searching\<close>

definition plain_word :: "string \<Rightarrow> bool" where
  "plain_word w \<longleftrightarrow> CHR ''%'' \<notin> set w \<and> CHR ''_'' \<notin> set w"

lemma like_percent [simp]: "sql_like ''%'' s"
  by (induction s) simp_all

lemma like_prefix: "plain_word p \<Longrightarrow> sql_like (p @ ''%'') s \<longleftrightarrow> prefix (to_lowercase p) (to_lowercase s)"
proof (induction p arbitrary: s)
  case (Cons a p)
  then show ?case by (cases s) (auto simp: plain_word_def to_lowercase_def)
qed (simp add: to_lowercase_def)

text \<open>A pattern between percent signs finds its text anywhere, in any letter case.\<close>

lemma like_contains:
  assumes "plain_word p"
  shows "sql_like (''%'' @ p @ ''%'') s \<longleftrightarrow> str_contains (to_lowercase p) (to_lowercase s)"
proof (induction s)
  case Nil
  then show ?case using like_prefix [OF assms, of "[]"] by (simp add: to_lowercase_def)
next
  case (Cons c s)
  have "sql_like (''%'' @ p @ ''%'') (c # s) \<longleftrightarrow> prefix (to_lowercase p) (to_lowercase (c # s))
      \<or> sql_like (''%'' @ p @ ''%'') s"
    using like_prefix [OF assms, of "c # s"] by simp
  then show ?case using Cons by (simp add: to_lowercase_def)
qed

definition found :: "string list \<Rightarrow> search_opts \<Rightarrow> memory_entry \<Rightarrow> bool" where
  "found words opts e \<longleftrightarrow>
     (\<forall>w \<in> set words. str_contains (to_lowercase w) (to_lowercase (me_content e))
        \<or> str_contains (to_lowercase w) (to_lowercase (me_id e)))
     \<and> (session_filter opts \<noteq> None \<longrightarrow> me_session_id e = session_filter opts)
     \<and> (entry_type_filter opts \<noteq> None \<longrightarrow> Some (me_type e) = entry_type_filter opts)"

lemma search_matches_found:
  assumes "list_all plain_word words"
  shows "search_matches words opts (row_of_entry c e) \<longleftrightarrow> found words opts e"
proof -
  have "list_all (\<lambda>w. let pattern = ''%'' @ w @ ''%'' in sql_like pattern (me_content e) \<or> sql_like pattern (me_id e)) words
      \<longleftrightarrow> (\<forall>w \<in> set words. str_contains (to_lowercase w) (to_lowercase (me_content e))
        \<or> str_contains (to_lowercase w) (to_lowercase (me_id e)))"
    using assms like_contains unfolding Let_def list_all_iff by blast
  then show ?thesis
    unfolding search_matches_def found_def by (auto simp: row_of_entry_def split: option.splits)
qed

text \<open>The first elements of a list in descending order.\<close>

lemma take_descending:
  fixes f :: "'a \<Rightarrow> 'b::linorder" and xs :: "'a list"
  defines "ys \<equiv> rev (sort_key f xs)"
  shows "sorted_wrt (\<lambda>x y. f y \<le> f x) (take n ys)"
    and "x \<in> set xs \<Longrightarrow> x \<notin> set (take n ys) \<Longrightarrow> y \<in> set (take n ys) \<Longrightarrow> f x \<le> f y"
    and "set (take n ys) \<subseteq> set xs" and "length (take n ys) = min n (length xs)"
proof -
  have "sorted (map f (sort_key f xs))" by simp
  then have "sorted_wrt (\<lambda>x y. f y \<le> f x) ys" unfolding ys_def by (simp add: sorted_wrt_rev sorted_wrt_map)
  then have split: "sorted_wrt (\<lambda>x y. f y \<le> f x) (take n ys @ drop n ys)" by simp
  then show "sorted_wrt (\<lambda>x y. f y \<le> f x) (take n ys)" unfolding sorted_wrt_append by blast
  have ys: "set ys = set xs" by (simp add: ys_def)
  show "f x \<le> f y" if "x \<in> set xs" "x \<notin> set (take n ys)" "y \<in> set (take n ys)"
  proof -
    have "x \<in> set (take n ys @ drop n ys)" using that(1) ys by simp
    then have "x \<in> set (drop n ys)" using that(2) by (simp only: set_append Un_iff) blast
    then show ?thesis using split that(3) unfolding sorted_wrt_append by blast
  qed
  show "set (take n ys) \<subseteq> set xs" using ys set_take_subset [of n ys] by simp
  show "length (take n ys) = min n (length xs)" by (simp add: ys_def min.commute)
qed

lemma sqlite_search_entries:
  assumes "sqlite_invar c s" "db_script s = []" "so_limit opts < 2 ^ 63" "list_all plain_word (split_whitespace q)"
  shows "fst (sqlite_search c q opts s) = Inr (take (so_limit opts) (rev (sort_key (\<lambda>e. ts_text c (me_timestamp e))
    (filter (found (split_whitespace q) opts) (entries_of c s)))))"
proof -
  obtain es where es: "codec_ok c" "mem_rows s = map (row_of_entry c) es" "distinct (map me_id es)" "entries_of c s = es"
    using assms(1) by (rule sqlite_invarE)
  let ?found = "filter (found (split_whitespace q) opts) es"
  have "filter (search_matches (split_whitespace q) opts) (mem_rows s) = map (row_of_entry c) ?found"
    by (simp add: es(2) filter_map comp_def search_matches_found [OF assms(4)])
  then have sorted: "sort_key mr_timestamp (filter (search_matches (split_whitespace q) opts) (mem_rows s))
      = map (row_of_entry c) (sort_key (\<lambda>e. ts_text c (me_timestamp e)) ?found)"
    by (simp add: sort_key_map row_of_entry_def)
  have coll: "collect_results (map (memory_row_to_entry c) (map (row_of_entry c) xs)) = Inr xs" for xs
    by (simp add: collect_results_Inr es(1))
  have "fst (sqlite_search c q opts s) = collect_results (map (memory_row_to_entry c) (take (so_limit opts)
      (rev (sort_key mr_timestamp (filter (search_matches (split_whitespace q) opts) (mem_rows s))))))"
    using assms(2,3) by (simp add: sqlite_search_def run_read_def next_answer_def)
  then show ?thesis unfolding sorted es(4) rev_map take_map coll .
qed

lemma sqlite_contents_entries:
  assumes "sqlite_invar c s"
  shows "e \<in> set (entries_of c s) \<longleftrightarrow> sqlite_contents c s (me_id e) = Some e"
proof -
  obtain es where es: "distinct (map me_id es)" "entries_of c s = es" using assms by (rule sqlite_invarE)
  have "e \<in> set es \<longleftrightarrow> List.find (\<lambda>e'. me_id e' = me_id e) es = Some e"
    using es(1) by (induction es) (auto simp: image_iff)
  then show ?thesis by (simp add: sqlite_contents_def es(2))
qed


lemma store_attempts_retries:
  assumes "0 < n" "db_script s = map DbFails es @ DbOk # rest" "list_all is_busy es"
  shows "length es < n \<and> store_attempts n row s = (Inr (), s\<lparr>mem_rows := insert_or_replace row (mem_rows s), db_script := rest\<rparr>)
    \<or> n \<le> length es \<and> fst (store_attempts n row s) = Inl (Memory (''Failed to store entry: '' @ es ! (n - 1)))
      \<and> mem_rows (snd (store_attempts n row s)) = mem_rows s"
  using assms
proof (induction n arbitrary: s es)
  case (Suc n)
  show ?case
  proof (cases es)
    case Nil
    then show ?thesis using Suc.prems by (simp add: run_write_def next_answer_def)
  next
    case (Cons x xs)
    let ?s = "s\<lparr>db_script := map DbFails xs @ DbOk # rest\<rparr>"
    have w: "run_write (insert_or_replace row) s = (DbFails x, ?s)"
      using Suc.prems(2) by (simp add: run_write_def next_answer_def Cons)
    have "0 < n \<Longrightarrow> length xs < n \<and> store_attempts n row ?s = (Inr (), ?s\<lparr>mem_rows := insert_or_replace row (mem_rows ?s), db_script := rest\<rparr>)
        \<or> n \<le> length xs \<and> fst (store_attempts n row ?s) = Inl (Memory (''Failed to store entry: '' @ xs ! (n - 1)))
          \<and> mem_rows (snd (store_attempts n row ?s)) = mem_rows ?s"
      by (rule Suc.IH) (use Suc.prems Cons in simp_all)
    then show ?thesis using Suc.prems(3) w Cons by (cases n) auto
  qed
qed simp

text \<open>Storing survives a busy database: of the three attempts the first two may find the database
  locked. Then the entry is stored; otherwise the error is reported and nothing changes.\<close>

theorem sqlite_store_retries:
  assumes "sqlite_invar c s" "db_script s = map DbFails es @ DbOk # rest" "list_all is_busy es"
  shows "if length es < MAX_RETRIES
    then fst (sqlite_store c e s) = Inr () \<and> sqlite_contents c (snd (sqlite_store c e s)) = (sqlite_contents c s)(me_id e \<mapsto> e)
    else fst (sqlite_store c e s) = Inl (Memory (''Failed to store entry: '' @ es ! (MAX_RETRIES - 1)))
      \<and> sqlite_contents c (snd (sqlite_store c e s)) = sqlite_contents c s"
proof -
  have "0 < MAX_RETRIES" by (simp add: MAX_RETRIES_def)
  from store_attempts_retries [OF this assms(2,3), of "row_of_entry c e"] show ?thesis
  proof (elim disjE conjE)
    assume st: "length es < MAX_RETRIES" "store_attempts MAX_RETRIES (row_of_entry c e) s
      = (Inr (), s\<lparr>mem_rows := insert_or_replace (row_of_entry c e) (mem_rows s), db_script := rest\<rparr>)"
    have "sqlite_contents c (s\<lparr>mem_rows := insert_or_replace (row_of_entry c e) (mem_rows s), db_script := rest\<rparr>)
        = (sqlite_contents c s)(me_id e \<mapsto> e)"
      by (rule sqlite_replaced(2) [OF assms(1)]) simp
    then show ?thesis using st(1) unfolding sqlite_store_def st(2) by simp
  next
    assume st: "MAX_RETRIES \<le> length es"
        "fst (store_attempts MAX_RETRIES (row_of_entry c e) s) = Inl (Memory (''Failed to store entry: '' @ es ! (MAX_RETRIES - 1)))"
        "mem_rows (snd (store_attempts MAX_RETRIES (row_of_entry c e) s)) = mem_rows s"
    show ?thesis using st(1,2) sqlite_same_rows(2) [OF st(3)] unfolding sqlite_store_def by simp
  qed
qed

text \<open>C37: The backend is a map from identifiers to entries: an operation that succeeds has exactly its
  effect on the map, one that fails has it or none, a lookup that succeeds returns what the map
  holds, and the table stays well formed whatever the database answers.\<close>

theorem sqlite_refines_map:
  assumes "sqlite_invar c s"
  shows "(sqlite_contents c (snd (sqlite_store c e s)) = (sqlite_contents c s)(me_id e \<mapsto> e)
      \<or> fst (sqlite_store c e s) \<noteq> Inr () \<and> sqlite_contents c (snd (sqlite_store c e s)) = sqlite_contents c s)
    \<and> (sqlite_contents c (snd (sqlite_delete i s)) = (sqlite_contents c s)(i := None)
      \<or> fst (sqlite_delete i s) \<noteq> Inr () \<and> sqlite_contents c (snd (sqlite_delete i s)) = sqlite_contents c s)
    \<and> (fst (sqlite_get c i s) = Inr r \<longrightarrow> r = sqlite_contents c s i)
    \<and> sqlite_contents c (snd (sqlite_get c i s)) = sqlite_contents c s
    \<and> sqlite_invar c (snd (sqlite_store c e s)) \<and> sqlite_invar c (snd (sqlite_delete i s))"
  using sq.store_effect [OF assms, of e] sq.delete_effect [OF assms, of i] sq.get_answer [OF assms, of i r]
    sq.read_only(1) [OF assms, of i] sq.invar_kept(1) [OF assms, of e] sq.invar_kept(2) [OF assms, of i]
  by (simp add: sqlite_ops_def)

section \<open>Runs\<close>

definition plain_codec :: codec where
  "plain_codec = \<lparr>json_text = plain_json, json_parse = read_json, ts_text = plain_int, ts_parse = read_int\<rparr>"

lemma plain_codec_ok: "codec_ok plain_codec"
  by (simp add: codec_ok_def plain_codec_def)

definition memo :: "string \<Rightarrow> string \<Rightarrow> int \<Rightarrow> memory_entry" where
  "memo i t n = \<lparr>me_id = i, me_content = t, me_metadata = JNull, me_timestamp = n, me_session_id = Some ''s1'',
     me_type = Conversation\<rparr>"

definition demo_db :: "db_answer list \<Rightarrow> sqlite_db" where
  "demo_db script = \<lparr>mem_rows = map (row_of_entry plain_codec) [memo ''n1'' ''the Cat sleeps'' 1, memo ''n2'' ''a dog'' 2],
     db_script = script\<rparr>"

lemma demo_db_invar: "sqlite_invar plain_codec (demo_db script)"
  by (rule sqlite_invarI [OF plain_codec_ok, of _ "[memo ''n1'' ''the Cat sleeps'' 1, memo ''n2'' ''a dog'' 2]"])
    (simp_all add: demo_db_def memo_def)

lemma demo_db_script [simp]: "db_script (demo_db script) = script"
  by (simp add: demo_db_def)


theorem sqlite_store_retries_witness:
  "fst (sqlite_store plain_codec (memo ''n3'' ''new'' 3)
     (demo_db (map DbFails [''database is locked'', ''database is locked''] @ [DbOk]))) = Inr ()"
proof -
  have "list_all is_busy [''database is locked'', ''database is locked'']" by code_simp
  from sqlite_store_retries [OF demo_db_invar demo_db_script this, of "memo ''n3'' ''new'' 3"]
  show ?thesis by (simp add: MAX_RETRIES_def)
qed

theorem sqlite_refines_map_witness:
  "sqlite_contents plain_codec (snd (sqlite_store plain_codec (memo ''n3'' ''new'' 3) (demo_db []))) ''n1''
    = sqlite_contents plain_codec (demo_db []) ''n1''"
proof -
  have "me_id (memo ''n3'' ''new'' 3) \<noteq> ''n1''" by (simp add: memo_def)
  with sqlite_refines_map [OF demo_db_invar, of "memo ''n3'' ''new'' 3" "[]", THEN conjunct1] show ?thesis
    by (elim disjE) simp_all
qed

end
