(* ===== verification/Failover.thy ===== *)
theory Failover
  imports Sqlite_Memory
begin

text \<open>
  The resilient memory (\<open>crates/skyclaw-memory/src/failover.rs\<close>): a decorator of any backend that
  keeps a copy of what is stored in a cache, answers from it when the backend fails, and after a
  number of consecutive failures probes the backend and writes the cache back. The backend is
  its operations \<open>ops\<close> and its state, the field \<open>rm_primary\<close>. The count of entries that could not be
  written back is a natural number: a cache has fewer than \<open>2 ^ 32\<close> entries.
\<close>

section \<open>State\<close>

datatype memory_health_status = Healthy | Degraded string | FailedHealth bool

record failover_config =
  fc_max_consecutive_failures :: u32

definition failover_config_default :: failover_config where
  "failover_config_default = \<lparr>fc_max_consecutive_failures = 3\<rparr>"

record inner_state =
  in_failures :: u32
  repair_attempted :: bool
  in_cache :: "(string, memory_entry) hmap"

definition inner_new :: inner_state where
  "inner_new = \<lparr>in_failures = 0, repair_attempted = False, in_cache = []\<rparr>"

record 'm resilient =
  rm_primary :: 'm
  rm_inner :: inner_state
  rm_config :: failover_config

definition rm_with_config :: "'m \<Rightarrow> failover_config \<Rightarrow> 'm resilient" where
  "rm_with_config primary config = \<lparr>rm_primary = primary, rm_inner = inner_new, rm_config = config\<rparr>"

definition rm_new :: "'m \<Rightarrow> 'm resilient" where
  "rm_new primary = rm_with_config primary failover_config_default"

abbreviation set_cache :: "(string, memory_entry) hmap \<Rightarrow> 'm resilient \<Rightarrow> 'm resilient" where
  "set_cache m s \<equiv> s\<lparr>rm_inner := (rm_inner s)\<lparr>in_cache := m\<rparr>\<rparr>"

definition health_status :: "'m resilient \<Rightarrow> memory_health_status" where
  "health_status s =
     (if in_failures (rm_inner s) = 0 then Healthy
      else if repair_attempted (rm_inner s) then FailedHealth True
      else Degraded (nat_str (unat (in_failures (rm_inner s))) @ '' consecutive failure(s) on primary backend''))"

definition rm_failure_count :: "'m resilient \<Rightarrow> u32" where
  "rm_failure_count s = in_failures (rm_inner s)"

section \<open>Failures and repair\<close>

definition rm_record_success :: "'m resilient \<Rightarrow> 'm resilient" where
  "rm_record_success s =
     (if 0 < in_failures (rm_inner s)
      then s\<lparr>rm_inner := (rm_inner s)\<lparr>in_failures := 0, repair_attempted := False\<rparr>\<rparr> else s)"

definition rm_record_failure :: "'m resilient \<Rightarrow> bool \<times> 'm resilient" where
  "rm_record_failure s =
     (let count = in_failures (rm_inner s) + 1
      in (fc_max_consecutive_failures (rm_config s) \<le> count \<and> \<not> repair_attempted (rm_inner s),
          s\<lparr>rm_inner := (rm_inner s)\<lparr>in_failures := count\<rparr>\<rparr>))"

fun sync_entries :: "'m memory_ops \<Rightarrow> memory_entry list \<Rightarrow> 'm \<Rightarrow> nat \<times> 'm" where
  "sync_entries ops [] p = (0, p)"
| "sync_entries ops (e # es) p =
     (let (r, p1) = store_op ops e p; (failed, p2) = sync_entries ops es p1
      in (case r of Inl _ \<Rightarrow> failed + 1 | Inr _ \<Rightarrow> failed, p2))"

definition sync_cache_to_primary :: "'m memory_ops \<Rightarrow> 'm resilient \<Rightarrow> unit result \<times> 'm resilient" where
  "sync_cache_to_primary ops s =
     (let entries = hm_values (in_cache (rm_inner s)) in
      if entries = [] then (Inr (), s)
      else let (failed, p) = sync_entries ops entries (rm_primary s); s = s\<lparr>rm_primary := p\<rparr> in
        if 0 < failed
        then (Inl (Memory (''Failed to sync '' @ nat_str failed @ ''/'' @ nat_str (length entries)
                @ '' cached entries to primary'')), s)
        else (Inr (), set_cache [] s))"

definition attempt_repair :: "'m memory_ops \<Rightarrow> 'm resilient \<Rightarrow> unit result \<times> 'm resilient" where
  "attempt_repair ops s = (case sessions_op ops (rm_primary s) of
      (Inr _, p) \<Rightarrow> (case sync_cache_to_primary ops (s\<lparr>rm_primary := p\<rparr>) of
          (Inl e, s) \<Rightarrow> (Inl e, s)
        | (Inr _, s) \<Rightarrow> (Inr (), s\<lparr>rm_inner := (rm_inner s)\<lparr>in_failures := 0, repair_attempted := False\<rparr>\<rparr>))
    | (Inl e, p) \<Rightarrow>
        (Inl (Memory (''Primary backend repair failed: '' @ show_error e)),
         s\<lparr>rm_primary := p, rm_inner := (rm_inner s)\<lparr>repair_attempted := True,
            in_failures := (if in_failures (rm_inner s) = 0 then 1 else in_failures (rm_inner s))\<rparr>\<rparr>))"

text \<open>What every operation does after the primary failed.\<close>

definition after_failure :: "'m memory_ops \<Rightarrow> 'm resilient \<Rightarrow> 'm resilient" where
  "after_failure ops s =
     (let (should_repair, s) = rm_record_failure s in if should_repair then snd (attempt_repair ops s) else s)"

section \<open>Operations\<close>

definition rm_store :: "'m memory_ops \<Rightarrow> memory_entry \<Rightarrow> 'm resilient \<Rightarrow> unit result \<times> 'm resilient" where
  "rm_store ops e s =
     (let s = set_cache (hm_insert (me_id e) e (in_cache (rm_inner s))) s in
      case store_op ops e (rm_primary s) of
        (Inr _, p) \<Rightarrow> (Inr (), rm_record_success (s\<lparr>rm_primary := p\<rparr>))
      | (Inl _, p) \<Rightarrow> (Inr (), after_failure ops (s\<lparr>rm_primary := p\<rparr>)))"

definition rm_get :: "'m memory_ops \<Rightarrow> string \<Rightarrow> 'm resilient \<Rightarrow> memory_entry option result \<times> 'm resilient" where
  "rm_get ops i s = (case hm_get (in_cache (rm_inner s)) i of
      Some e \<Rightarrow> (Inr (Some e), s)
    | None \<Rightarrow> (case get_op ops i (rm_primary s) of
        (Inr r, p) \<Rightarrow> (Inr r, rm_record_success (s\<lparr>rm_primary := p\<rparr>))
      | (Inl _, p) \<Rightarrow> (Inr None, after_failure ops (s\<lparr>rm_primary := p\<rparr>))))"

definition passes_session :: "search_opts \<Rightarrow> memory_entry \<Rightarrow> bool" where
  "passes_session opts e \<longleftrightarrow> (case session_filter opts of None \<Rightarrow> True | Some sid \<Rightarrow> me_session_id e = Some sid)"

fun merge_cached :: "string \<Rightarrow> search_opts \<Rightarrow> memory_entry list \<Rightarrow> memory_entry list \<Rightarrow> memory_entry list" where
  "merge_cached q opts results [] = results"
| "merge_cached q opts results (e # es) =
     merge_cached q opts
       (if str_contains q (me_content e) \<and> me_id e \<notin> me_id ` set results \<and> passes_session opts e
        then results @ [e] else results) es"

definition rm_search :: "'m memory_ops \<Rightarrow> string \<Rightarrow> search_opts \<Rightarrow> 'm resilient \<Rightarrow>
    memory_entry list result \<times> 'm resilient" where
  "rm_search ops q opts s = (case search_op ops q opts (rm_primary s) of
      (Inr results, p) \<Rightarrow>
        (let s = rm_record_success (s\<lparr>rm_primary := p\<rparr>)
         in (Inr (take (so_limit opts) (merge_cached q opts results (hm_values (in_cache (rm_inner s))))), s))
    | (Inl _, p) \<Rightarrow>
        (let s = after_failure ops (s\<lparr>rm_primary := p\<rparr>)
         in (Inr (take (so_limit opts) (sort_key (\<lambda>e. - me_timestamp e)
               (filter (\<lambda>e. str_contains q (me_content e) \<and> passes_session opts e)
                 (hm_values (in_cache (rm_inner s)))))), s)))"

definition rm_delete :: "'m memory_ops \<Rightarrow> string \<Rightarrow> 'm resilient \<Rightarrow> unit result \<times> 'm resilient" where
  "rm_delete ops i s =
     (let s = set_cache (hm_remove i (in_cache (rm_inner s))) s in
      case delete_op ops i (rm_primary s) of
        (Inr _, p) \<Rightarrow> (Inr (), rm_record_success (s\<lparr>rm_primary := p\<rparr>))
      | (Inl _, p) \<Rightarrow> (Inr (), after_failure ops (s\<lparr>rm_primary := p\<rparr>)))"

definition rm_list_sessions :: "'m memory_ops \<Rightarrow> 'm resilient \<Rightarrow> string list result \<times> 'm resilient" where
  "rm_list_sessions ops s = (case sessions_op ops (rm_primary s) of
      (Inr sessions, p) \<Rightarrow> (Inr sessions, rm_record_success (s\<lparr>rm_primary := p\<rparr>))
    | (Inl _, p) \<Rightarrow>
        (let s = after_failure ops (s\<lparr>rm_primary := p\<rparr>)
         in (Inr (sort (remdups (List.map_filter me_session_id (hm_values (in_cache (rm_inner s)))))), s)))"

definition rm_get_session_history :: "'m memory_ops \<Rightarrow> string \<Rightarrow> nat \<Rightarrow> 'm resilient \<Rightarrow>
    memory_entry list result \<times> 'm resilient" where
  "rm_get_session_history ops sid limit s = (case history_op ops sid limit (rm_primary s) of
      (Inr history, p) \<Rightarrow> (Inr history, rm_record_success (s\<lparr>rm_primary := p\<rparr>))
    | (Inl _, p) \<Rightarrow>
        (let s = after_failure ops (s\<lparr>rm_primary := p\<rparr>)
         in (Inr (take limit (sort_key me_timestamp
               (filter (\<lambda>e. me_session_id e = Some sid) (hm_values (in_cache (rm_inner s)))))), s)))"

section \<open>Runs\<close>

datatype rm_event =
    RStore memory_entry | RGet string | RSearch string search_opts | RDelete string
  | RSessions | RHistory string nat | RRepair

fun rm_step :: "'m memory_ops \<Rightarrow> 'm resilient \<Rightarrow> rm_event \<Rightarrow> 'm resilient" where
  "rm_step ops s (RStore e) = snd (rm_store ops e s)"
| "rm_step ops s (RGet i) = snd (rm_get ops i s)"
| "rm_step ops s (RSearch q opts) = snd (rm_search ops q opts s)"
| "rm_step ops s (RDelete i) = snd (rm_delete ops i s)"
| "rm_step ops s RSessions = snd (rm_list_sessions ops s)"
| "rm_step ops s (RHistory sid n) = snd (rm_get_session_history ops sid n s)"
| "rm_step ops s RRepair = snd (attempt_repair ops s)"

text \<open>The entry last stored under an identifier and not deleted since; the events are newest first.\<close>

fun latest :: "string \<Rightarrow> rm_event list \<Rightarrow> memory_entry option" where
  "latest i [] = None"
| "latest i (RStore e # es) = (if me_id e = i then Some e else latest i es)"
| "latest i (RDelete j # es) = (if j = i then None else latest i es)"
| "latest i (_ # es) = latest i es"

text \<open>Every wanted entry is in the cache, or absent from it and in the primary.\<close>

definition keeps :: "('m \<Rightarrow> bool) \<Rightarrow> ('m \<Rightarrow> string \<Rightarrow> memory_entry option) \<Rightarrow> 'm resilient \<Rightarrow>
    (string \<Rightarrow> memory_entry option) \<Rightarrow> bool" where
  "keeps invar contents s wanted \<longleftrightarrow> invar (rm_primary s) \<and> hm_ok (in_cache (rm_inner s))
     \<and> (\<forall>i e. hm_get (in_cache (rm_inner s)) i = Some e \<longrightarrow> me_id e = i)
     \<and> (\<forall>i e. wanted i = Some e \<longrightarrow> hm_get (in_cache (rm_inner s)) i = Some e
          \<or> hm_get (in_cache (rm_inner s)) i = None \<and> contents (rm_primary s) i = Some e)"

context memory_contract
begin

lemma keeps_cong:
  assumes "keeps invar contents s w" "in_cache (rm_inner s') = in_cache (rm_inner s)"
    and "invar (rm_primary s')" "contents (rm_primary s') = contents (rm_primary s)"
  shows "keeps invar contents s' w"
  using assms by (simp add: keeps_def)

lemma sync_entries_effect:
  assumes "invar p"
  shows "invar (snd (sync_entries ops es p))
    \<and> (\<forall>i. i \<notin> me_id ` set es \<longrightarrow> contents (snd (sync_entries ops es p)) i = contents p i)
    \<and> (fst (sync_entries ops es p) = 0 \<longrightarrow> distinct (map me_id es) \<longrightarrow>
         (\<forall>e \<in> set es. contents (snd (sync_entries ops es p)) (me_id e) = Some e))"
  using assms
proof (induction es arbitrary: p)
  case (Cons x es)
  let ?p = "snd (store_op ops x p)"
  have inv: "invar ?p" using Cons.prems by (rule invar_kept)
  note IH = Cons.IH [OF inv]
  have step: "snd (sync_entries ops (x # es) p) = snd (sync_entries ops es ?p)"
    by (simp add: split_beta Let_def)
  have zero: "fst (sync_entries ops es ?p) = 0 \<and> fst (store_op ops x p) = Inr ()"
    if "fst (sync_entries ops (x # es) p) = 0"
    using that by (auto simp: split_beta Let_def split: sum.splits)
  have "contents (snd (sync_entries ops es ?p)) i = contents p i" if "i \<notin> me_id ` set (x # es)" for i
    using that IH store_effect [OF Cons.prems, of x] by auto
  moreover have "contents (snd (sync_entries ops es ?p)) (me_id e) = Some e"
    if z: "fst (sync_entries ops (x # es) p) = 0" and d: "distinct (map me_id (x # es))" and e: "e \<in> set (x # es)" for e
  proof (cases "e = x")
    case True
    then have "me_id e \<notin> me_id ` set es" using d by simp
    then show ?thesis using True IH store_effect [OF Cons.prems, of x] zero [OF z] by auto
  next
    case False
    then show ?thesis using IH zero [OF z] d e by simp
  qed
  ultimately show ?case unfolding step using IH by blast
qed simp

lemma keeps_sync:
  assumes "keeps invar contents s w"
  shows "keeps invar contents (snd (sync_cache_to_primary ops s)) w"
proof -
  let ?es = "hm_values (in_cache (rm_inner s))"
  obtain n p where sync: "sync_entries ops ?es (rm_primary s) = (n, p)" by fastforce
  have s: "invar (rm_primary s)" "hm_ok (in_cache (rm_inner s))"
    "\<And>i e. hm_get (in_cache (rm_inner s)) i = Some e \<Longrightarrow> me_id e = i"
    "\<And>i e. w i = Some e \<Longrightarrow> hm_get (in_cache (rm_inner s)) i = Some e
        \<or> hm_get (in_cache (rm_inner s)) i = None \<and> contents (rm_primary s) i = Some e"
    using assms by (auto simp: keeps_def)
  have val: "e \<in> set ?es \<longleftrightarrow> hm_get (in_cache (rm_inner s)) (me_id e) = Some e" for e
  proof
    assume "e \<in> set ?es"
    then obtain k where "(k, e) \<in> set (in_cache (rm_inner s))" by (auto simp: hm_values_def)
    then have "hm_get (in_cache (rm_inner s)) k = Some e" using s(2) by (simp add: hm_get_Some_iff)
    moreover from this have "me_id e = k" by (rule s(3))
    ultimately show "hm_get (in_cache (rm_inner s)) (me_id e) = Some e" by simp
  next
    assume "hm_get (in_cache (rm_inner s)) (me_id e) = Some e"
    then show "e \<in> set ?es" by (force dest: hm_get_SomeD simp: hm_values_def)
  qed
  have ids: "i \<in> me_id ` set ?es \<longleftrightarrow> hm_get (in_cache (rm_inner s)) i \<noteq> None" for i
  proof
    assume "i \<in> me_id ` set ?es"
    then obtain e where "e \<in> set ?es" "i = me_id e" by blast
    then show "hm_get (in_cache (rm_inner s)) i \<noteq> None" using val by simp
  next
    assume "hm_get (in_cache (rm_inner s)) i \<noteq> None"
    then obtain e where e: "hm_get (in_cache (rm_inner s)) i = Some e" by blast
    then have "me_id e = i" by (rule s(3))
    then show "i \<in> me_id ` set ?es" using e val [of e] by blast
  qed
  have keys: "map me_id ?es = map fst (in_cache (rm_inner s))"
  proof -
    have "me_id (snd ke) = fst ke" if "ke \<in> set (in_cache (rm_inner s))" for ke
      by (rule s(3)) (use that s(2) in \<open>simp add: hm_get_Some_iff\<close>)
    then show ?thesis by (simp add: hm_values_def)
  qed
  have d: "distinct (map me_id ?es)" using s(2) unfolding keys by (simp add: hm_ok_def)
  note eff = sync_entries_effect [OF s(1), of ?es, unfolded sync snd_conv fst_conv]
  have uncached: "contents p i = contents (rm_primary s) i" if "hm_get (in_cache (rm_inner s)) i = None" for i
    using eff ids that by blast
  show ?thesis
  proof (cases "?es = [] \<or> n \<noteq> 0")
    case True
    then show ?thesis
    proof (cases "?es = []")
      case False
      then have "snd (sync_cache_to_primary ops s) = s\<lparr>rm_primary := p\<rparr>"
        using True by (simp add: sync_cache_to_primary_def sync Let_def)
      moreover have "hm_get (in_cache (rm_inner s)) i = Some e
          \<or> hm_get (in_cache (rm_inner s)) i = None \<and> contents p i = Some e" if "w i = Some e" for i e
        using s(4) [OF that] uncached [of i] by auto
      ultimately show ?thesis using s(2,3) eff by (simp add: keeps_def)
    qed (use assms in \<open>simp add: sync_cache_to_primary_def Let_def\<close>)
  next
    case False
    then have eq: "snd (sync_cache_to_primary ops s) = set_cache [] (s\<lparr>rm_primary := p\<rparr>)"
      by (simp add: sync_cache_to_primary_def sync Let_def)
    have "contents p i = Some e" if "w i = Some e" for i e
    proof -
      from s(4) [OF that] show ?thesis
      proof
        assume "hm_get (in_cache (rm_inner s)) i = Some e"
        then have "e \<in> set ?es" "me_id e = i" using val s(3) by auto
        then show ?thesis using eff False d by auto
      qed (use uncached in simp)
    qed
    then show ?thesis using eff unfolding eq by (simp add: keeps_def)
  qed
qed

lemma keeps_primary:
  assumes "keeps invar contents s w" "invar p" "contents p = contents (rm_primary s)"
  shows "keeps invar contents (s\<lparr>rm_primary := p\<rparr>) w"
  using assms by (simp add: keeps_def)

lemma keeps_counters [simp]:
  "keeps invar contents (s\<lparr>rm_inner := (rm_inner s)\<lparr>in_failures := n, repair_attempted := r\<rparr>\<rparr>) w
    \<longleftrightarrow> keeps invar contents s w"
  "keeps invar contents (s\<lparr>rm_inner := (rm_inner s)\<lparr>in_failures := n\<rparr>\<rparr>) w \<longleftrightarrow> keeps invar contents s w"
  by (simp_all add: keeps_def)

lemma keeps_invar: "keeps invar contents s w \<Longrightarrow> invar (rm_primary s)"
  by (simp add: keeps_def)

lemma keeps_repair:
  assumes "keeps invar contents s w"
  shows "keeps invar contents (snd (attempt_repair ops s)) w"
proof -
  obtain r p where p: "sessions_op ops (rm_primary s) = (r, p)" by fastforce
  have kp: "keeps invar contents (s\<lparr>rm_primary := p\<rparr>) w"
    using assms read_only(3) [OF keeps_invar [OF assms]] invar_kept(5) [OF keeps_invar [OF assms]] p
    by (intro keeps_primary) simp_all
  show ?thesis
  proof (cases r)
    case (Inl e)
    then show ?thesis using kp by (simp add: attempt_repair_def p keeps_def)
  next
    case (Inr x)
    obtain r' s' where s': "sync_cache_to_primary ops (s\<lparr>rm_primary := p\<rparr>) = (r', s')" by fastforce
    then have "keeps invar contents s' w" using keeps_sync [OF kp] by simp
    then show ?thesis using Inr by (cases r') (simp_all add: attempt_repair_def p s')
  qed
qed

lemma keeps_success [simp]: "keeps invar contents (rm_record_success s) w \<longleftrightarrow> keeps invar contents s w"
  by (simp add: rm_record_success_def)

lemma keeps_failure: "keeps invar contents s w \<Longrightarrow> keeps invar contents (after_failure ops s) w"
  by (simp add: after_failure_def rm_record_failure_def Let_def keeps_repair)

lemma keepsD:
  assumes "keeps invar contents s w" "w i = Some e"
  shows "hm_get (in_cache (rm_inner s)) i = Some e
    \<or> hm_get (in_cache (rm_inner s)) i = None \<and> contents (rm_primary s) i = Some e"
  using assms unfolding keeps_def by blast

text \<open>An operation on the identifier \<open>k\<close> leaves the others alone.\<close>

lemma keeps_change:
  assumes "keeps invar contents s w" "invar p" "hm_ok m" "\<And>i. i \<noteq> k \<Longrightarrow> contents p i = contents (rm_primary s) i"
    and "\<And>i. i \<noteq> k \<Longrightarrow> hm_get m i = hm_get (in_cache (rm_inner s)) i" "\<And>e. hm_get m k = Some e \<Longrightarrow> me_id e = k"
    and "w' = w(k := hm_get m k)"
  shows "keeps invar contents ((set_cache m s)\<lparr>rm_primary := p\<rparr>) w'"
proof -
  have "me_id e = i" if "hm_get m i = Some e" for i e
    using that assms(1,5,6) by (cases "i = k") (auto simp: keeps_def)
  moreover have "hm_get m i = Some e \<or> hm_get m i = None \<and> contents p i = Some e" if "w' i = Some e" for i e
    using that keepsD [OF assms(1), of i e] assms(4,5,7) by (cases "i = k") auto
  ultimately show ?thesis using assms(2,3) by (simp add: keeps_def)
qed

lemma keeps_store:
  assumes "keeps invar contents s w"
  shows "keeps invar contents (snd (rm_store ops e s)) (w(me_id e \<mapsto> e))"
proof -
  obtain r p where p: "store_op ops e (rm_primary s) = (r, p)" by fastforce
  have inv: "invar (rm_primary s)" by (rule keeps_invar [OF assms])
  have "contents p = contents (rm_primary s) \<or> contents p = (contents (rm_primary s))(me_id e \<mapsto> e)" "invar p"
    using store_effect [OF inv, of e] invar_kept(1) [OF inv, of e] p by auto
  then have "keeps invar contents
      ((set_cache (hm_insert (me_id e) e (in_cache (rm_inner s))) s)\<lparr>rm_primary := p\<rparr>) (w(me_id e \<mapsto> e))"
    using assms by (intro keeps_change [where k = "me_id e", OF assms]) (auto simp: keeps_def)
  then show ?thesis by (cases r) (simp_all add: rm_store_def p keeps_failure)
qed

lemma keeps_delete:
  assumes "keeps invar contents s w"
  shows "keeps invar contents (snd (rm_delete ops i s)) (w(i := None))"
proof -
  obtain r p where p: "delete_op ops i (rm_primary s) = (r, p)" by fastforce
  have inv: "invar (rm_primary s)" by (rule keeps_invar [OF assms])
  have "contents p = contents (rm_primary s) \<or> contents p = (contents (rm_primary s))(i := None)" "invar p"
    using delete_effect [OF inv, of i] invar_kept(2) [OF inv, of i] p by auto
  then have "keeps invar contents
      ((set_cache (hm_remove i (in_cache (rm_inner s))) s)\<lparr>rm_primary := p\<rparr>) (w(i := None))"
    using assms by (intro keeps_change [where k = i, OF assms]) (auto simp: keeps_def)
  then show ?thesis by (cases r) (simp_all add: rm_delete_def p keeps_failure)
qed

lemma keeps_reads:
  assumes "keeps invar contents s w"
  shows "keeps invar contents (snd (rm_get ops i s)) w" "keeps invar contents (snd (rm_search ops q so s)) w"
    "keeps invar contents (snd (rm_list_sessions ops s)) w"
    "keeps invar contents (snd (rm_get_session_history ops sid n s)) w"
proof -
  have inv: "invar (rm_primary s)" by (rule keeps_invar [OF assms])
  have k: "keeps invar contents (s\<lparr>rm_primary := p\<rparr>) w"
    if "invar p" "contents p = contents (rm_primary s)" for p
    by (rule keeps_primary [OF assms that])
  note kk = k [OF invar_kept(3) [OF inv] read_only(1) [OF inv], of i] k [OF invar_kept(4) [OF inv] read_only(2) [OF inv], of q so]
    k [OF invar_kept(5) [OF inv] read_only(3) [OF inv]] k [OF invar_kept(6) [OF inv] read_only(4) [OF inv], of sid n]
  show "keeps invar contents (snd (rm_get ops i s)) w"
    using assms kk(1) by (auto simp: rm_get_def keeps_failure split: option.splits prod.splits sum.splits)
  show "keeps invar contents (snd (rm_search ops q so s)) w"
    using kk(2) by (auto simp: rm_search_def Let_def keeps_failure split: prod.splits sum.splits)
  show "keeps invar contents (snd (rm_list_sessions ops s)) w"
    using kk(3) by (auto simp: rm_list_sessions_def Let_def keeps_failure split: prod.splits sum.splits)
  show "keeps invar contents (snd (rm_get_session_history ops sid n s)) w"
    using kk(4) by (auto simp: rm_get_session_history_def Let_def keeps_failure split: prod.splits sum.splits)
qed

lemma keeps_run:
  assumes "invar p"
  shows "keeps invar contents (foldl (rm_step ops) (rm_with_config p cfg) es) (\<lambda>i. latest i (rev es))"
proof (induction es rule: rev_induct)
  case Nil
  then show ?case using assms by (simp add: keeps_def rm_with_config_def inner_new_def)
next
  case (snoc ev es)
  let ?s = "foldl (rm_step ops) (rm_with_config p cfg) es" and ?w = "\<lambda>i. latest i (rev es)"
  have "keeps invar contents (rm_step ops ?s ev) (\<lambda>i. latest i (ev # rev es))"
  proof (cases ev)
    case (RStore e)
    have "(\<lambda>i. latest i (ev # rev es)) = ?w(me_id e \<mapsto> e)" using RStore by (simp add: fun_eq_iff)
    then show ?thesis using RStore keeps_store [OF snoc] by simp
  next
    case (RDelete i)
    have "(\<lambda>i. latest i (ev # rev es)) = ?w(i := None)" using RDelete by (simp add: fun_eq_iff)
    then show ?thesis using RDelete keeps_delete [OF snoc] by simp
  qed (use snoc in \<open>simp_all add: keeps_reads keeps_repair\<close>)
  then show ?case by simp
qed

lemma keeps_then_get:
  assumes "keeps invar contents s w" "w i = Some e" "fst (get_op ops i (rm_primary s)) = Inr r"
  shows "fst (rm_get ops i s) = Inr (Some e)"
proof (cases "hm_get (in_cache (rm_inner s)) i")
  case None
  then have "contents (rm_primary s) i = Some e" using keepsD [OF assms(1,2)] by simp
  moreover have "r = contents (rm_primary s) i" using get_answer [OF keeps_invar [OF assms(1)] assms(3)] .
  moreover obtain p where "get_op ops i (rm_primary s) = (Inr r, p)"
    using assms(3) by (cases "get_op ops i (rm_primary s)") simp
  ultimately show ?thesis using None by (simp add: rm_get_def)
next
  case (Some e')
  then have "e' = e" using keepsD [OF assms(1,2)] by simp
  then show ?thesis using Some by (simp add: rm_get_def)
qed

end

section \<open>Properties\<close>

text \<open>C15: Nothing that was stored is lost, however often the SQLite backend fails: after any sequence of
  operations and repairs, a lookup that the backend answers returns the entry last stored
  under the identifier and not deleted since.\<close>

theorem resilient_read_your_writes:
  assumes "sqlite_invar c db" "s = foldl (rm_step (sqlite_ops c)) (rm_with_config db cfg) es"
    and "latest i (rev es) = Some e" "fst (sqlite_get c i (rm_primary s)) = Inr r"
  shows "fst (rm_get (sqlite_ops c) i s) = Inr (Some e)"
proof (rule sq.keeps_then_get)
  show "keeps (sqlite_invar c) (sqlite_contents c) s (\<lambda>i. latest i (rev es))"
    unfolding assms(2) by (rule sq.keeps_run [OF assms(1)])
  show "fst (get_op (sqlite_ops c) i (rm_primary s)) = Inr r" using assms(4) by (simp add: sqlite_ops_def)
qed (rule assms(3))

text \<open>The resilient memory never reports an error, whatever backend it wraps and whatever that
  answers; a search returns at most as many entries as its limit.\<close>

theorem resilient_never_fails:
  "fst (rm_store ops e s) = Inr () \<and> fst (rm_delete ops i s) = Inr ()
   \<and> (\<exists>r. fst (rm_get ops i s) = Inr r) \<and> (\<exists>sids. fst (rm_list_sessions ops s) = Inr sids)
   \<and> (\<exists>es. fst (rm_get_session_history ops sid n s) = Inr es)
   \<and> (\<exists>es. fst (rm_search ops q opts s) = Inr es \<and> length es \<le> so_limit opts)"
  by (auto simp: rm_store_def rm_delete_def rm_get_def rm_list_sessions_def rm_get_session_history_def rm_search_def Let_def
    split: option.splits prod.splits sum.splits)

section \<open>Runs and gaps\<close>

definition failing :: "nat \<Rightarrow> db_answer list" where
  "failing n = replicate n (DbFails ''disk I/O error'')"

theorem resilient_read_your_writes_witness:
  "fst (rm_get (sqlite_ops plain_codec) ''n3'' (foldl (rm_step (sqlite_ops plain_codec))
     (rm_with_config (demo_db (failing 4)) failover_config_default)
     [RStore (memo ''n3'' ''new'' 3), RDelete ''n1'', RSessions, RGet ''n2''])) = Inr (Some (memo ''n3'' ''new'' 3))"
proof (rule resilient_read_your_writes [OF demo_db_invar refl])
  show "latest ''n3'' (rev [RStore (memo ''n3'' ''new'' 3), RDelete ''n1'', RSessions, RGet ''n2''])
      = Some (memo ''n3'' ''new'' 3)" by (simp add: memo_def)
  show "fst (sqlite_get plain_codec ''n3'' (rm_primary (foldl (rm_step (sqlite_ops plain_codec))
     (rm_with_config (demo_db (failing 4)) failover_config_default)
     [RStore (memo ''n3'' ''new'' 3), RDelete ''n1'', RSessions, RGet ''n2'']))) = Inr None" by code_simp
qed

text \<open>A deletion that the backend refuses is reported as done, and the entry is found again.\<close>

lemma delete_resurrects:
  "let ops = sqlite_ops plain_codec; s = rm_new (demo_db [DbFails ''disk I/O error'']) in
   fst (rm_delete ops ''n1'' s) = Inr () \<and> fst (rm_get ops ''n1'' (snd (rm_delete ops ''n1'' s))) = Inr (Some (memo ''n1'' ''the Cat sleeps'' 1))"
  by code_simp

text \<open>An entry that could only be cached stays out of the backend when that answers again.\<close>

lemma unsynced_after_recovery:
  "let s = foldl (rm_step (sqlite_ops plain_codec)) (rm_new (demo_db (failing 1))) [RStore (memo ''n3'' ''new'' 3), RSessions]
   in health_status s = Healthy \<and> sqlite_contents plain_codec (rm_primary s) ''n3'' = None"
  by code_simp

text \<open>Entries that come from the cache are not filtered by their type.\<close>

lemma type_filter_ignored:
  "let s = rm_step (sqlite_ops plain_codec) (rm_new (demo_db [])) (RStore (memo ''n3'' ''new'' 3));
       opts = search_opts_default\<lparr>entry_type_filter := Some SkillEntry\<rparr>
   in fst (rm_search (sqlite_ops plain_codec) ''new'' opts s) = Inr [memo ''n3'' ''new'' 3]"
  by code_simp

text \<open>The failing search that triggers a successful repair answers from the cache the repair has emptied.\<close>

lemma search_after_repair_empty:
  "let s = rm_step (sqlite_ops plain_codec)
         (rm_with_config (demo_db [DbOk, DbFails ''disk I/O error'']) \<lparr>fc_max_consecutive_failures = 1\<rparr>) (RStore (memo ''n3'' ''new'' 3));
       (r, s') = rm_search (sqlite_ops plain_codec) ''new'' search_opts_default s
   in r = Inr [] \<and> sqlite_contents plain_codec (rm_primary s') ''n3'' = Some (memo ''n3'' ''new'' 3)"
  by code_simp

end
