(* ===== verification/Orchestrator.thy ===== *)
theory Orchestrator
  imports Skyclaw_Types
begin

text \<open>
  The container orchestrator (\<open>crates/skyclaw-core/src/orchestrator_impl.rs\<close>, interface in
  \<open>traits/orchestrator.rs\<close>). The Docker daemon is a parameter: its calls on a state of its own.
  Provisioning is split where the code releases its lock: the check of the cap, and the calls with
  the final insertion, so that concurrent requests can be interleaved.
\<close>

section \<open>Data\<close>

record resource_limits =
  memory_mb :: u64
  cpu_millicores :: u64

record agent_spec =
  spec_name :: string
  spec_image :: string
  spec_env :: "(string, string) hmap"
  spec_resources :: resource_limits

record agent_instance =
  ai_id :: string
  ai_name :: string
  ai_status :: string
  ai_url :: "string option"

record container_create_request =
  cr_name :: string
  cr_image :: string
  cr_env :: "string list"
  cr_memory_bytes :: u64
  cr_cpu_period :: u64
  cr_cpu_quota :: u64
  cr_privileged :: bool

record container_inspect =
  ci_id :: string
  ci_status :: string

record 'd docker_client =
  create_container :: "container_create_request \<Rightarrow> 'd \<Rightarrow> string result \<times> 'd"
  start_container :: "string \<Rightarrow> 'd \<Rightarrow> unit result \<times> 'd"
  stop_container :: "string \<Rightarrow> 'd \<Rightarrow> unit result \<times> 'd"
  remove_container :: "string \<Rightarrow> 'd \<Rightarrow> unit result \<times> 'd"
  inspect_container :: "string \<Rightarrow> 'd \<Rightarrow> container_inspect result \<times> 'd"

record 'd docker_orchestrator =
  do_docker :: 'd
  docker_host :: string
  max_instances :: u32
  instances :: "(string, agent_instance) hmap"

definition orchestrator_new :: "'d \<Rightarrow> string \<Rightarrow> u32 \<Rightarrow> 'd docker_orchestrator" where
  "orchestrator_new d host n = \<lparr>do_docker = d, docker_host = host, max_instances = n, instances = []\<rparr>"

definition instance_count :: "'d docker_orchestrator \<Rightarrow> nat" where
  "instance_count s = length (instances s)"

definition build_create_request :: "agent_spec \<Rightarrow> container_create_request" where
  "build_create_request spec = \<lparr>
     cr_name = spec_name spec, cr_image = spec_image spec,
     cr_env = map (\<lambda>(k, v). k @ ''='' @ v) (spec_env spec),
     cr_memory_bytes = memory_mb (spec_resources spec) * 1024 * 1024,
     cr_cpu_period = 100000, cr_cpu_quota = cpu_millicores (spec_resources spec) * 100,
     cr_privileged = False\<rparr>"

section \<open>Provisioning\<close>

definition provision_check :: "'d docker_orchestrator \<Rightarrow> unit result" where
  "provision_check s =
     (let count = (of_nat (length (instances s)) :: u32) in
      if max_instances s \<le> count
      then Inl (Internal (''Max instances limit reached ('' @ nat_str (unat count) @ ''/'' @ nat_str (unat (max_instances s)) @ '')''))
      else Inr ())"

definition provision_commit :: "'d docker_client \<Rightarrow> agent_spec \<Rightarrow> 'd docker_orchestrator \<Rightarrow>
    agent_instance result \<times> 'd docker_orchestrator" where
  "provision_commit dc spec s = (case create_container dc (build_create_request spec) (do_docker s) of
      (Inl e, d) \<Rightarrow> (Inl e, s\<lparr>do_docker := d\<rparr>)
    | (Inr cid, d) \<Rightarrow> (case start_container dc cid d of
        (Inl e, d) \<Rightarrow> (Inl e, s\<lparr>do_docker := d\<rparr>)
      | (Inr _, d) \<Rightarrow>
          let inst = \<lparr>ai_id = cid, ai_name = spec_name spec, ai_status = ''running'', ai_url = None\<rparr>
          in (Inr inst, s\<lparr>do_docker := d, instances := hm_insert cid inst (instances s)\<rparr>)))"

definition provision :: "'d docker_client \<Rightarrow> agent_spec \<Rightarrow> 'd docker_orchestrator \<Rightarrow>
    agent_instance result \<times> 'd docker_orchestrator" where
  "provision dc spec s = (case provision_check s of
      Inl e \<Rightarrow> (Inl e, s)
    | Inr _ \<Rightarrow> provision_commit dc spec s)"

section \<open>Scaling, destroying, health\<close>

definition is_replica :: "string \<Rightarrow> agent_instance \<Rightarrow> bool" where
  "is_replica base i \<longleftrightarrow> ai_name i = base \<or> starts_with (base @ ''-'') (ai_name i)"

fun scale_down :: "'d docker_client \<Rightarrow> string \<Rightarrow> u32 \<Rightarrow> u32 \<Rightarrow> string list \<Rightarrow> 'd docker_orchestrator \<Rightarrow>
    unit result \<times> 'd docker_orchestrator" where
  "scale_down dc keep to_remove removed [] s = (Inr (), s)"
| "scale_down dc keep to_remove removed (i # is) s =
     (if to_remove \<le> removed then (Inr (), s)
      else if i = keep then scale_down dc keep to_remove removed is s
      else case stop_container dc i (do_docker s) of
        (Inl e, d) \<Rightarrow> (Inl e, s\<lparr>do_docker := d\<rparr>)
      | (Inr _, d) \<Rightarrow> (case remove_container dc i d of
          (Inl e, d) \<Rightarrow> (Inl e, s\<lparr>do_docker := d\<rparr>)
        | (Inr _, d) \<Rightarrow> scale_down dc keep to_remove (removed + 1) is
            (s\<lparr>do_docker := d, instances := hm_remove i (instances s)\<rparr>)))"

definition scale :: "'d docker_client \<Rightarrow> agent_instance \<Rightarrow> u32 \<Rightarrow> 'd docker_orchestrator \<Rightarrow>
    unit result \<times> 'd docker_orchestrator" where
  "scale dc inst replicas s =
     (if replicas = 0
      then (Inl (Internal ''Replicas must be at least 1; use destroy() to remove an instance''), s)
      else
        let current = map ai_id (filter (is_replica (ai_name inst)) (hm_values (instances s)));
            current_count = (of_nat (length current) :: u32)
        in if replicas = current_count then (Inr (), s)
        else if current_count < replicas then
          let to_add = replicas - current_count; total_after = of_nat (length (instances s)) + to_add in
          if max_instances s < total_after
          then (Inl (Internal (''Scaling to '' @ nat_str (unat replicas) @ '' replicas would exceed max instances (''
                  @ nat_str (unat total_after) @ ''/'' @ nat_str (unat (max_instances s)) @ '')'')), s)
          else (Inl (Internal (''Scale up from '' @ nat_str (unat current_count) @ '' to '' @ nat_str (unat replicas)
                  @ '' requires calling provision() for each new replica (Docker does not have native replica sets)'')), s)
        else scale_down dc (ai_id inst) (current_count - replicas) 0 (rev current) s)"

definition destroy :: "'d docker_client \<Rightarrow> agent_instance \<Rightarrow> 'd docker_orchestrator \<Rightarrow>
    unit result \<times> 'd docker_orchestrator" where
  "destroy dc inst s = (case stop_container dc (ai_id inst) (do_docker s) of
      (Inl e, d) \<Rightarrow> (Inl e, s\<lparr>do_docker := d\<rparr>)
    | (Inr _, d) \<Rightarrow> (case remove_container dc (ai_id inst) d of
        (Inl e, d) \<Rightarrow> (Inl e, s\<lparr>do_docker := d\<rparr>)
      | (Inr _, d) \<Rightarrow> (Inr (), s\<lparr>do_docker := d, instances := hm_remove (ai_id inst) (instances s)\<rparr>)))"

definition health :: "'d docker_client \<Rightarrow> agent_instance \<Rightarrow> 'd docker_orchestrator \<Rightarrow>
    bool result \<times> 'd docker_orchestrator" where
  "health dc inst s = (case inspect_container dc (ai_id inst) (do_docker s) of
      (Inl e, d) \<Rightarrow> (Inl e, s\<lparr>do_docker := d\<rparr>)
    | (Inr c, d) \<Rightarrow> (Inr (ci_status c = ''running''),
        s\<lparr>do_docker := d, instances := (case hm_get (instances s) (ai_id inst) of
            None \<Rightarrow> instances s
          | Some t \<Rightarrow> hm_insert (ai_id inst) (t\<lparr>ai_status := ci_status c\<rparr>) (instances s))\<rparr>))"

section \<open>The other backend and the factory\<close>

definition kubernetes_stub :: "'a result" where
  "kubernetes_stub = Inl (Internal ''Kubernetes orchestrator not yet implemented'')"

definition unimplemented_client :: "unit docker_client" where
  "unimplemented_client = \<lparr>
     create_container = (\<lambda>_ d. (Inl (Internal (''No DockerClient configured '' @ em_dash
        @ '' inject a real client via DockerOrchestrator::new()'')), d)),
     start_container = (\<lambda>_ d. (Inl (Internal ''No DockerClient configured''), d)),
     stop_container = (\<lambda>_ d. (Inl (Internal ''No DockerClient configured''), d)),
     remove_container = (\<lambda>_ d. (Inl (Internal ''No DockerClient configured''), d)),
     inspect_container = (\<lambda>_ d. (Inl (Internal ''No DockerClient configured''), d))\<rparr>"

datatype orchestrator = Docker "unit docker_orchestrator" | Kubernetes string

definition create_orchestrator :: "string \<Rightarrow> (string, string) hmap \<Rightarrow> orchestrator result" where
  "create_orchestrator backend config =
     (if backend = ''docker'' then
        let host = (case hm_get config ''docker_host'' of Some h \<Rightarrow> h | None \<Rightarrow> ''unix:///var/run/docker.sock'');
            n = (case Option.bind (hm_get config ''max_instances'') (parse_uint 32) of Some n \<Rightarrow> of_nat n | None \<Rightarrow> 10)
        in Inr (Docker (orchestrator_new () host n))
      else if backend = ''kubernetes'' then
        Inr (Kubernetes (case hm_get config ''kubeconfig'' of Some k \<Rightarrow> k | None \<Rightarrow> ''~/.kube/config''))
      else Inl (Config (''Unknown orchestrator backend: '' @ backend)))"

section \<open>Invariant\<close>

definition orch_ok :: "'d docker_orchestrator \<Rightarrow> bool" where
  "orch_ok s \<longleftrightarrow> hm_ok (instances s) \<and> (\<forall>kv \<in> set (instances s). ai_id (snd kv) = fst kv)
     \<and> length (instances s) \<le> unat (max_instances s)"

lemma hm_remove_filter: "hm_remove k m = filter (\<lambda>kv. fst kv \<noteq> k) m"
  unfolding hm_remove_def AList.delete_eq by (rule filter_cong) auto

lemma orch_ok_remove: "orch_ok s \<Longrightarrow> orch_ok (s\<lparr>do_docker := d, instances := hm_remove i (instances s)\<rparr>)"
  using le_trans [OF length_filter_le [of "\<lambda>kv. fst kv \<noteq> i" "instances s"]]
  by (auto simp: orch_ok_def hm_remove_filter hm_ok_def distinct_map_filter)

lemma orch_ok_docker: "orch_ok s \<Longrightarrow> orch_ok (s\<lparr>do_docker := d\<rparr>)"
  by (simp add: orch_ok_def)

lemma set_hm_insert_id:
  "\<forall>kv \<in> set m. ai_id (snd kv) = fst kv \<Longrightarrow> ai_id i = k \<Longrightarrow> \<forall>kv \<in> set (hm_insert k i m). ai_id (snd kv) = fst kv"
  using set_hm_insert [of k i m] by auto

lemma orch_ok_provision:
  assumes "orch_ok s"
  shows "orch_ok (snd (provision dc spec s))"
proof (cases "provision_check s")
  case (Inl e)
  then show ?thesis using assms by (simp add: provision_def)
next
  case (Inr u)
  have "length (instances s) < 2 ^ 32" using assms unat_u32_less [of "max_instances s"] by (simp add: orch_ok_def)
  then have "unat (of_nat (length (instances s)) :: u32) = length (instances s)" by (simp add: unat_of_nat)
  then have less: "length (instances s) < unat (max_instances s)"
    using Inr by (auto simp: provision_check_def Let_def word_le_nat_alt split: if_splits)
  have ok: "hm_ok (instances s)" "\<forall>kv \<in> set (instances s). ai_id (snd kv) = fst kv"
    using assms by (simp_all add: orch_ok_def)
  have "orch_ok (s\<lparr>do_docker := d, instances := hm_insert k i (instances s)\<rparr>)" if "ai_id i = k" for d k i
    using set_hm_insert_id [OF ok(2) that] ok(1) hm_length_insert [OF ok(1), of k i] less by (simp add: orch_ok_def)
  then show ?thesis using Inr assms
    by (auto simp: provision_def provision_commit_def Let_def orch_ok_docker split: prod.splits sum.splits)
qed

lemma orch_ok_scale_down: "orch_ok s \<Longrightarrow> orch_ok (snd (scale_down dc keep n removed is s))"
proof (induction dc keep n removed "is" s rule: scale_down.induct)
  case (2 dc keep n removed i "is" s)
  then show ?case by (auto simp: orch_ok_docker orch_ok_remove split: prod.splits sum.splits)
qed simp

lemma orch_ok_health: "orch_ok s \<Longrightarrow> orch_ok (snd (health dc inst s))"
proof -
  assume s: "orch_ok s"
  have ok: "hm_ok (instances s)" "\<forall>kv \<in> set (instances s). ai_id (snd kv) = fst kv" using s by (simp_all add: orch_ok_def)
  have upd: "orch_ok (s\<lparr>do_docker := d, instances := hm_insert (ai_id inst) (t\<lparr>ai_status := st\<rparr>) (instances s)\<rparr>)"
    if t: "hm_get (instances s) (ai_id inst) = Some t" for d t st
  proof -
    have "ai_id t = ai_id inst" using ok(2) hm_get_SomeD [OF t] by fastforce
    then have "\<forall>kv \<in> set (hm_insert (ai_id inst) (t\<lparr>ai_status := st\<rparr>) (instances s)). ai_id (snd kv) = fst kv"
      by (intro set_hm_insert_id [OF ok(2)]) simp
    moreover have "ai_id inst \<in> set (hm_keys (instances s))" using t hm_get_None_iff [of "instances s" "ai_id inst"] by auto
    ultimately show ?thesis using s by (simp add: orch_ok_def hm_length_insert)
  qed
  show ?thesis using s upd
    by (auto simp: health_def orch_ok_docker split: prod.splits sum.splits option.splits)
qed

lemma orchestrator_scale_ok: "orch_ok s \<Longrightarrow> orch_ok (snd (scale dc inst r s))"
  by (simp add: scale_def Let_def orch_ok_scale_down)

text \<open>The cap holds: with any Docker daemon, no operation that runs alone makes the number of tracked
  instances exceed the maximum, and each instance stays tracked under its own identifier.\<close>

theorem orchestrator_cap:
  assumes "orch_ok s"
  shows "orch_ok (orchestrator_new d host n) \<and> orch_ok (snd (provision dc spec s)) \<and> orch_ok (snd (scale dc inst r s))
    \<and> orch_ok (snd (destroy dc inst s)) \<and> orch_ok (snd (health dc inst s))"
proof -
  have "orch_ok (snd (destroy dc inst s))"
    using assms by (auto simp: destroy_def orch_ok_docker orch_ok_remove split: prod.splits sum.splits)
  moreover have "orch_ok (orchestrator_new d host n)" by (simp add: orch_ok_def orchestrator_new_def)
  ultimately show ?thesis using orch_ok_provision [OF assms] orch_ok_health [OF assms]
    orchestrator_scale_ok [OF assms] by blast
qed

section \<open>Scaling down\<close>

definition docker_works :: "'d docker_client \<Rightarrow> bool" where
  "docker_works dc \<longleftrightarrow> (\<forall>i d. fst (stop_container dc i d) = Inr () \<and> fst (remove_container dc i d) = Inr ())"

lemma scale_down_removes:
  assumes "docker_works dc" "removed \<le> n"
  shows "fst (scale_down dc keep n removed is s) = Inr ()
    \<and> instances (snd (scale_down dc keep n removed is s)) =
        filter (\<lambda>kv. fst kv \<notin> set (take (unat n - unat removed) (filter (\<lambda>i. i \<noteq> keep) is))) (instances s)"
  using assms(2)
proof (induction "is" arbitrary: removed s)
  case (Cons i "is")
  show ?case
  proof (cases "n \<le> removed")
    case True
    then have "unat n \<le> unat removed" by (simp add: word_le_nat_alt)
    then show ?thesis using True by simp
  next
    case False
    then have less: "unat removed < unat n" by (simp add: word_le_nat_alt)
    show ?thesis
    proof (cases "i = keep")
      case True
      then show ?thesis using False Cons by simp
    next
      case ne: False
      obtain d where d: "stop_container dc i (do_docker s) = (Inr (), d)"
        using assms(1) unfolding docker_works_def by (metis prod.collapse)
      obtain d' where d': "remove_container dc i d = (Inr (), d')"
        using assms(1) unfolding docker_works_def by (metis prod.collapse)
      let ?s = "s\<lparr>do_docker := d', instances := hm_remove i (instances s)\<rparr>"
      have suc: "unat (removed + 1) = unat removed + 1" using less unat_u32_less [of n] by simp
      then have "removed + 1 \<le> n" using less by (simp add: word_le_nat_alt)
      note IH = Cons.IH [OF this, of ?s]
      have step: "scale_down dc keep n removed (i # is) s = scale_down dc keep n (removed + 1) is ?s"
        using False ne by (simp add: d d')
      have "unat n - unat removed = Suc (unat n - unat (removed + 1))" using less suc by simp
      then have "take (unat n - unat removed) (filter (\<lambda>i. i \<noteq> keep) (i # is))
          = i # take (unat n - unat (removed + 1)) (filter (\<lambda>i. i \<noteq> keep) is)" using ne by simp
      then show ?thesis unfolding step using IH by (auto simp: hm_remove_filter intro!: filter_cong)
    qed
  qed
qed simp

lemma length_filter_remove:
  assumes "distinct xs" "distinct rs" "set rs \<subseteq> set xs"
  shows "length (filter (\<lambda>x. x \<notin> set rs) xs) = length xs - length rs"
proof -
  have "length (filter (\<lambda>x. x \<notin> set rs) xs) = card (set xs - set rs)"
    by (subst distinct_card [symmetric]) (use assms(1) in \<open>auto intro: arg_cong [where f = card]\<close>)
  then show ?thesis using assms by (simp add: card_Diff_subset distinct_card)
qed

definition replicas_of :: "string \<Rightarrow> 'd docker_orchestrator \<Rightarrow> agent_instance list" where
  "replicas_of base s = filter (is_replica base) (hm_values (instances s))"

lemma replica_ids:
  assumes "orch_ok s"
  shows "map ai_id (replicas_of base s) = map fst (filter (\<lambda>kv. is_replica base (snd kv)) (instances s))"
    and "distinct (map ai_id (replicas_of base s))"
proof -
  have ids: "\<forall>kv \<in> set (instances s). ai_id (snd kv) = fst kv" and d: "hm_ok (instances s)"
    using assms by (simp_all add: orch_ok_def)
  show eq: "map ai_id (replicas_of base s) = map fst (filter (\<lambda>kv. is_replica base (snd kv)) (instances s))"
    using ids by (simp add: replicas_of_def hm_values_def filter_map comp_def)
  show "distinct (map ai_id (replicas_of base s))"
    unfolding eq using d by (simp add: hm_ok_def distinct_map_filter)
qed

lemma length_filter_neq: "distinct xs \<Longrightarrow> length xs - 1 \<le> length (filter (\<lambda>x. x \<noteq> k) xs)"
proof (cases "k \<in> set xs")
  case False
  then have "filter (\<lambda>x. x \<noteq> k) xs = xs" by (intro filter_True) auto
  then show ?thesis by simp
qed (use length_filter_remove [of xs "[k]"] in auto)

lemma hm_get_filter_keys: "hm_get (filter (\<lambda>kv. fst kv \<notin> A) m) k = (if k \<in> A then None else hm_get m k)"
  by (induction m) (auto simp: hm_get_Cons)

text \<open>Scaling down is exact: with a Docker daemon that does what it is told, scaling an instance to
  between one and the present number of its replicas succeeds and leaves exactly that many of
  them; the instance itself, and every instance that is not a replica by its name, stay.\<close>

theorem scale_down_exact:
  assumes "orch_ok s" "docker_works dc" "0 < r" "unat r \<le> length (replicas_of (ai_name inst) s)"
  defines "s' \<equiv> snd (scale dc inst r s)"
  shows "fst (scale dc inst r s) = Inr () \<and> length (replicas_of (ai_name inst) s') = unat r
    \<and> hm_get (instances s') (ai_id inst) = hm_get (instances s) (ai_id inst)
    \<and> (\<forall>k i. hm_get (instances s) k = Some i \<and> \<not> is_replica (ai_name inst) i \<longrightarrow> hm_get (instances s') k = Some i)"
proof -
  let ?base = "ai_name inst"
  let ?current = "map ai_id (replicas_of ?base s)"
  let ?count = "of_nat (length ?current) :: u32"
  have ok: "hm_ok (instances s)" using assms(1) by (simp add: orch_ok_def)
  have "length (replicas_of ?base s) \<le> length (instances s)"
    unfolding replicas_of_def hm_values_def by (metis length_filter_le length_map)
  then have "length ?current < 2 ^ 32" using assms(1) unat_u32_less [of "max_instances s"] by (simp add: orch_ok_def)
  then have count: "unat ?count = length ?current" by (simp add: unat_of_nat)
  have le: "r \<le> ?count" using assms(4) count by (simp add: word_le_nat_alt)
  show ?thesis
  proof (cases "r = ?count")
    case True
    then have "scale dc inst r s = (Inr (), s)" using assms(3) by (auto simp: scale_def replicas_of_def Let_def)
    then show ?thesis using True count by (simp add: s'_def)
  next
    case False
    let ?rem = "take (length ?current - unat r) (filter (\<lambda>i. i \<noteq> ai_id inst) (rev ?current))"
    have eq: "scale dc inst r s = scale_down dc (ai_id inst) (?count - r) 0 (rev ?current) s"
      using False le assms(3) by (auto simp: scale_def replicas_of_def Let_def not_less)
    have "unat (?count - r) = length ?current - unat r" using le count by (simp add: unat_sub)
    then have run: "fst (scale dc inst r s) = Inr ()" "instances s' = filter (\<lambda>kv. fst kv \<notin> set ?rem) (instances s)"
      using scale_down_removes [OF assms(2), of 0 "?count - r" "ai_id inst" "rev ?current" s] by (simp_all add: eq s'_def)
    have dist: "distinct ?current" by (rule replica_ids(2) [OF assms(1)])
    have "length ?current - 1 \<le> length (filter (\<lambda>i. i \<noteq> ai_id inst) (rev ?current))"
      using length_filter_neq [of "rev ?current" "ai_id inst"] dist by simp
    moreover have "1 \<le> unat r" using assms(3) by (simp add: unat_gt_0 Suc_le_eq)
    ultimately have len: "length ?rem = length ?current - unat r" by simp
    have rem: "distinct ?rem" "set ?rem \<subseteq> set ?current - {ai_id inst}"
      using dist set_take_subset [of "length ?current - unat r" "filter (\<lambda>i. i \<noteq> ai_id inst) (rev ?current)"]
      by auto
    have "orch_ok s'" unfolding s'_def using orchestrator_scale_ok assms(1) by blast
    then have "map ai_id (replicas_of ?base s') = filter (\<lambda>i. i \<notin> set ?rem) ?current"
      unfolding replica_ids(1) [OF assms(1)] replica_ids(1) [OF \<open>orch_ok s'\<close>] run(2)
      by (simp add: filter_map comp_def conj_commute)
    then have "length (replicas_of ?base s') = length (filter (\<lambda>i. i \<notin> set ?rem) ?current)" by (metis length_map)
    also have "\<dots> = unat r"
      using length_filter_remove [OF dist rem(1)] rem(2) len assms(4) by auto
    finally have replicas: "length (replicas_of ?base s') = unat r" .
    have get: "hm_get (instances s') k = (if k \<in> set ?rem then None else hm_get (instances s) k)" for k
      unfolding run(2) by (rule hm_get_filter_keys)
    have "k \<notin> set ?rem" if "hm_get (instances s) k = Some i" "\<not> is_replica ?base i" for k i
    proof
      assume "k \<in> set ?rem"
      then have "k \<in> set ?current" using rem(2) by blast
      then obtain j where "(k, j) \<in> set (instances s)" "is_replica ?base j"
        unfolding replica_ids(1) [OF assms(1)] by auto
      then show False using that hm_get_Some_iff [OF ok, of k j] by simp
    qed
    then show ?thesis using run(1) replicas get rem(2) by auto
  qed
qed

section \<open>A daemon, and gaps\<close>

text \<open>A daemon that numbers its containers and lists those that exist; \<open>broken\<close> says that none starts.\<close>

record demo_docker =
  dd_next :: nat
  dd_containers :: "string list"

definition demo_client :: "bool \<Rightarrow> demo_docker docker_client" where
  "demo_client broken = \<lparr>
     create_container = (\<lambda>req d. let i = ''c'' @ nat_str (dd_next d) in
       (Inr i, d\<lparr>dd_next := dd_next d + 1, dd_containers := i # dd_containers d\<rparr>)),
     start_container = (\<lambda>i d. (if broken then Inl (Internal ''no space left on device'') else Inr (), d)),
     stop_container = (\<lambda>i d. (Inr (), d)),
     remove_container = (\<lambda>i d. (Inr (), d\<lparr>dd_containers := removeAll i (dd_containers d)\<rparr>)),
     inspect_container = (\<lambda>i d. (Inr \<lparr>ci_id = i, ci_status = ''running''\<rparr>, d))\<rparr>"

definition demo_spec :: "string \<Rightarrow> agent_spec" where
  "demo_spec n = \<lparr>spec_name = n, spec_image = ''agent'', spec_env = [],
     spec_resources = \<lparr>memory_mb = 64, cpu_millicores = 500\<rparr>\<rparr>"

definition demo_instance :: "string \<Rightarrow> string \<Rightarrow> agent_instance" where
  "demo_instance i n = \<lparr>ai_id = i, ai_name = n, ai_status = ''running'', ai_url = None\<rparr>"

definition demo_orchestrator :: "u32 \<Rightarrow> string list \<Rightarrow> demo_docker docker_orchestrator" where
  "demo_orchestrator n names =
     \<lparr>do_docker = \<lparr>dd_next = length names, dd_containers = []\<rparr>, docker_host = [], max_instances = n,
      instances = map (\<lambda>i. (''c'' @ nat_str i, demo_instance (''c'' @ nat_str i) (names ! i))) [0..<length names]\<rparr>"

lemma demo_client_works: "docker_works (demo_client broken)"
  by (simp add: docker_works_def demo_client_def)

lemma demo_orchestrator_ok: "length names \<le> unat n \<Longrightarrow> orch_ok (demo_orchestrator n names)"
  by (simp add: orch_ok_def demo_orchestrator_def hm_ok_def comp_def demo_instance_def distinct_map inj_on_def)

theorem orchestrator_cap_witness:
  "orch_ok (snd (provision (demo_client False) (demo_spec ''web'') (demo_orchestrator 3 [''web''])))"
proof -
  have "orch_ok (demo_orchestrator 3 [''web''])" by (rule demo_orchestrator_ok) simp
  then show ?thesis by (rule orchestrator_cap [THEN conjunct2, THEN conjunct1])
qed

theorem scale_down_exact_witness:
  "length (replicas_of ''web'' (snd (scale (demo_client False) (demo_instance ''c0'' ''web'') 1
     (demo_orchestrator 5 [''web'', ''web-1'', ''web-2'', ''db''])))) = 1"
proof -
  have len: "length (replicas_of ''web'' (demo_orchestrator 5 [''web'', ''web-1'', ''web-2'', ''db''])) = 3" by code_simp
  have "orch_ok (demo_orchestrator 5 [''web'', ''web-1'', ''web-2'', ''db''])" by (rule demo_orchestrator_ok) simp
  from scale_down_exact [OF this demo_client_works, of 1 "demo_instance ''c0'' ''web''" False] len show ?thesis
    by (simp add: demo_instance_def)
qed

text \<open>Two requests that both pass the check before either is counted exceed the cap.\<close>

lemma concurrent_provision_exceeds:
  "let s = demo_orchestrator 2 [''web'']; c = demo_client False;
       s1 = snd (provision_commit c (demo_spec ''a'') s); s2 = snd (provision_commit c (demo_spec ''b'') s1)
   in provision_check s = Inr () \<and> instance_count s2 = 3 \<and> max_instances s2 = 2"
  by code_simp

text \<open>An agent whose name merely starts with the base name and a hyphen counts as its replica, and goes.\<close>

lemma scale_removes_namesake:
  "let s = snd (scale (demo_client False) (demo_instance ''c0'' ''web'') 1 (demo_orchestrator 5 [''web'', ''web-admin'']))
   in hm_get (instances s) ''c1'' = None"
  by code_simp

text \<open>A container that was created and cannot be started is neither tracked nor removed.\<close>

lemma failed_start_leaks:
  "let s = snd (provision (demo_client True) (demo_spec ''web'') (demo_orchestrator 5 []))
   in instance_count s = 0 \<and> dd_containers (do_docker s) = [''c0'']"
  by code_simp

end
