(* ===== verification/Learning.thy ===== *)
theory Learning
  imports Skyclaw_Types
begin

text \<open>
  Learnings from a finished task (\<open>skyclaw-agent/src/learning.rs\<close>): the tools that were used,
  the errors they met and the outcome are read off the history and put in a lesson.
\<close>

section \<open>Learnings\<close>

datatype task_outcome = SuccessOutcome | FailureOutcome | PartialOutcome

record task_learning =
  task_type :: string
  approach :: "string list"
  outcome :: task_outcome
  lesson :: string
  tl_timestamp :: int

fun debug_outcome :: "task_outcome \<Rightarrow> string" where
  "debug_outcome SuccessOutcome = ''Success''"
| "debug_outcome FailureOutcome = ''Failure''"
| "debug_outcome PartialOutcome = ''Partial''"

definition infer_task_type :: "string list \<Rightarrow> string" where
  "infer_task_type tools =
     (if tools = [] then ''conversation''
      else let has_shell = ''shell'' \<in> set tools;
               has_browser = ''browser'' \<in> set tools;
               has_file = list_ex (starts_with ''file'') tools;
               has_web = ''web_fetch'' \<in> set tools
           in if has_shell \<and> has_browser then ''shell+browser''
              else if has_shell \<and> has_file then ''shell+file''
              else if has_shell \<and> has_web then ''shell+web''
              else if has_shell then ''shell''
              else if has_browser then ''browser''
              else if has_file \<and> has_web then ''file+web''
              else if has_file then ''file''
              else if has_web then ''web''
              else join ''+'' tools)"

text \<open>\<open>iter.find_map(f)\<close>.\<close>

fun find_map :: "('a \<Rightarrow> 'b option) \<Rightarrow> 'a list \<Rightarrow> 'b option" where
  "find_map f [] = None"
| "find_map f (x # xs) = (case f x of Some y \<Rightarrow> Some y | None \<Rightarrow> find_map f xs)"

fun text_of_part :: "content_part \<Rightarrow> string option" where
  "text_of_part (PText t) = Some t"
| "text_of_part _ = None"

fun first_text :: "message_content \<Rightarrow> string option" where
  "first_text (Text t) = Some t"
| "first_text (Parts ps) = find_map text_of_part ps"

definition final_text :: "chat_message list \<Rightarrow> string" where
  "final_text h = to_lowercase
     (case find_map (\<lambda>m. if msg_role m = Assistant then first_text (msg_content m) else None) (rev h) of
        None \<Rightarrow> [] | Some t \<Rightarrow> t)"

definition success_indicators :: "string list" where
  "success_indicators = [''successfully'', ''completed'', ''done'', ''finished'', ''created'', ''deployed'', ''installed'']"

definition failure_indicators :: "string list" where
  "failure_indicators = [''failed'', ''error'', ''unable to'', ''cannot'', ''couldn't'', ''impossible'']"

definition determine_outcome :: "chat_message list \<Rightarrow> (string \<times> string) list \<Rightarrow> task_outcome" where
  "determine_outcome h failures =
     (let has_success = list_ex (\<lambda>s. str_contains s (final_text h)) success_indicators;
          has_failure = list_ex (\<lambda>s. str_contains s (final_text h)) failure_indicators
      in if has_success \<and> \<not> has_failure \<and> length failures \<le> 1 then SuccessOutcome
         else if has_failure \<and> \<not> has_success then FailureOutcome
         else if failures \<noteq> [] then PartialOutcome
         else SuccessOutcome)"

text \<open>The arrow of the texts, in UTF-8.\<close>

abbreviation arrow :: string where
  "arrow \<equiv> [CHR 0xE2, CHR 0x86, CHR 0x92]"

definition generate_lesson ::
    "string \<Rightarrow> string list \<Rightarrow> (string \<times> string) list \<Rightarrow> bool \<Rightarrow> task_outcome \<Rightarrow> string" where
  "generate_lesson tt tools failures had_rotation oc =
     join '' ''
       ((case oc of
           SuccessOutcome \<Rightarrow> [''Task type '' @ quoted tt @ '' succeeded using: ''
             @ join ('' '' @ arrow @ '' '') tools @ ''.'']
         | FailureOutcome \<Rightarrow> [''Task type '' @ quoted tt @ '' failed.'']
         | PartialOutcome \<Rightarrow> [''Task type '' @ quoted tt @ '' partially completed with ''
             @ nat_str (length failures) @ '' error(s).''])
        @ (if failures \<noteq> [] then [''Errors encountered: '' @ join ''; '' (map snd (take 3 failures))] else [])
        @ (if had_rotation
           then [''Strategy rotation was triggered '' @ em_dash @ '' initial approach failed repeatedly.'']
           else []))"

definition extract_tool_name_from_result :: "string \<Rightarrow> string" where
  "extract_tool_name_from_result content =
     (if str_contains ''command'' content \<or> str_contains ''exit code'' content \<or> str_contains ''$ '' content
      then ''shell''
      else if str_contains ''file'' content \<or> str_contains ''path'' content then ''file''
      else if str_contains ''http'' content \<or> str_contains ''url'' content \<or> str_contains ''fetch'' content
      then ''web_fetch''
      else [])"

text \<open>\<^const>\<open>None\<close> is the panic of the slice.\<close>

definition truncate_error :: "string \<Rightarrow> nat \<Rightarrow> string option" where
  "truncate_error content max_len =
     (if length content \<le> max_len then Some content
      else map_option (\<lambda>s. s @ ''...'') (slice_to content max_len))"

section \<open>Reading the history\<close>

record scan =
  sc_tools :: "string list"
  sc_failures :: "(string \<times> string) list"
  sc_successes :: "string list"
  sc_rotation :: bool

definition add_new :: "'a \<Rightarrow> 'a list \<Rightarrow> 'a list" where
  "add_new x xs = (if x \<in> set xs then xs else xs @ [x])"

fun scan_use :: "scan \<Rightarrow> content_part \<Rightarrow> scan" where
  "scan_use s (ToolUse _ name _) = s\<lparr>sc_tools := add_new name (sc_tools s)\<rparr>"
| "scan_use s _ = s"

fun scan_result :: "scan \<Rightarrow> content_part \<Rightarrow> scan option" where
  "scan_result s (ToolResult _ content is_error _) =
     map_option (\<lambda>s. if str_contains ''[STRATEGY ROTATION]'' content then s\<lparr>sc_rotation := True\<rparr> else s)
       (let name = extract_tool_name_from_result content
        in if is_error
           then map_option (\<lambda>snippet. s\<lparr>sc_failures := sc_failures s @ [(name, snippet)]\<rparr>)
                  (truncate_error content 100)
           else Some (if name \<noteq> [] then s\<lparr>sc_successes := sc_successes s @ [name]\<rparr> else s))"
| "scan_result s _ = Some s"

text \<open>\<open>for x in xs\<close> with a body that may panic.\<close>

fun fold_panic :: "('s \<Rightarrow> 'a \<Rightarrow> 's option) \<Rightarrow> 's \<Rightarrow> 'a list \<Rightarrow> 's option" where
  "fold_panic f s [] = Some s"
| "fold_panic f s (x # xs) = (case f s x of None \<Rightarrow> None | Some s' \<Rightarrow> fold_panic f s' xs)"

definition scan_message :: "scan \<Rightarrow> chat_message \<Rightarrow> scan option" where
  "scan_message s m = (case (msg_role m, msg_content m) of
      (Assistant, Parts ps) \<Rightarrow> Some (foldl scan_use s ps)
    | (RoleTool, Parts ps) \<Rightarrow> fold_panic scan_result s ps
    | _ \<Rightarrow> Some s)"

definition scan_history :: "chat_message list \<Rightarrow> scan option" where
  "scan_history h =
     fold_panic scan_message \<lparr>sc_tools = [], sc_failures = [], sc_successes = [], sc_rotation = False\<rparr> h"

definition extract_learnings :: "int \<Rightarrow> chat_message list \<Rightarrow> task_learning list option" where
  "extract_learnings now h = map_option (\<lambda>s.
     if sc_tools s = [] then []
     else let tt = infer_task_type (sc_tools s);
              oc = determine_outcome h (sc_failures s);
              l = generate_lesson tt (sc_tools s) (sc_failures s) (sc_rotation s) oc
          in if l \<noteq> []
             then [\<lparr>task_type = tt, approach = sc_tools s, outcome = oc, lesson = l, tl_timestamp = now\<rparr>]
             else []) (scan_history h)"

section \<open>Texts\<close>

fun outcome_str :: "task_outcome \<Rightarrow> string" where
  "outcome_str SuccessOutcome = ''OK''"
| "outcome_str FailureOutcome = ''FAIL''"
| "outcome_str PartialOutcome = ''PARTIAL''"

definition learning_line :: "nat \<times> task_learning \<Rightarrow> string" where
  "learning_line = (\<lambda>(i, l). ''  '' @ nat_str (i + 1) @ ''. ['' @ outcome_str (outcome l) @ ''] ''
     @ task_type l @ '': '' @ lesson l)"

definition format_learnings_context :: "task_learning list \<Rightarrow> string" where
  "format_learnings_context ls =
     (if ls = [] then []
      else join nl (''Past task learnings (apply where relevant):'' # map learning_line (take 5 (enumerate 0 ls))))"

definition serialize_learning :: "(int \<Rightarrow> string) \<Rightarrow> task_learning \<Rightarrow> string" where
  "serialize_learning to_rfc3339 l =
     ''learning:'' @ to_rfc3339 (tl_timestamp l) @ nl @ task_type l @ nl @ ''tools: '' @ join '', '' (approach l)
     @ nl @ ''outcome: '' @ debug_outcome (outcome l) @ nl @ ''lesson: '' @ lesson l"

section \<open>When the extraction panics\<close>

lemma truncate_error_None:
  "truncate_error content n = None \<longleftrightarrow> n < length content \<and> \<not> is_char_boundary content n"
  by (auto simp: truncate_error_def slice_to_def)

lemma fold_panic_None:
  assumes "\<And>s x. f s x = None \<longleftrightarrow> bad x"
  shows "fold_panic f s xs = None \<longleftrightarrow> list_ex bad xs"
proof (induction xs arbitrary: s)
  case (Cons x xs)
  then show ?case using assms [of s x] by (cases "f s x") auto
qed simp

text \<open>A failed result whose text has more than 100 bytes and no character that starts at the
  hundredth.\<close>

fun bad_result :: "content_part \<Rightarrow> bool" where
  "bad_result (ToolResult _ content is_error _) \<longleftrightarrow>
     is_error \<and> 100 < length content \<and> \<not> is_char_boundary content 100"
| "bad_result _ \<longleftrightarrow> False"

fun bad_message :: "chat_message \<Rightarrow> bool" where
  "bad_message m = (case msg_content m of Parts ps \<Rightarrow> msg_role m = RoleTool \<and> list_ex bad_result ps | _ \<Rightarrow> False)"

lemma scan_result_None: "scan_result s p = None \<longleftrightarrow> bad_result p"
  by (cases p) (auto simp: Let_def truncate_error_None)

lemma fold_scan_None: "fold_panic scan_result s ps = None \<longleftrightarrow> list_ex bad_result ps"
  by (rule fold_panic_None) (rule scan_result_None)

lemma scan_message_None: "scan_message s m = None \<longleftrightarrow> bad_message m"
  by (auto simp: fold_scan_None scan_message_def split: role.splits message_content.splits)

text \<open>The extraction of learnings, which runs after every final reply, panics exactly when
  the history holds a failed tool result with more than 100 bytes whose hundredth byte is
  inside a character.\<close>

theorem extract_learnings_panics_iff:
  "extract_learnings now h = None \<longleftrightarrow> list_ex bad_message h"
  unfolding extract_learnings_def scan_history_def option.map_disc_iff
  by (rule fold_panic_None) (rule scan_message_None)

section \<open>What is extracted\<close>

text \<open>The tools of a history, each once, in the order of their first use.\<close>

fun used_name :: "content_part \<Rightarrow> string option" where
  "used_name (ToolUse _ name _) = Some name"
| "used_name _ = None"

fun message_uses :: "chat_message \<Rightarrow> string list" where
  "message_uses m = (case msg_content m of
      Parts ps \<Rightarrow> if msg_role m = Assistant then List.map_filter used_name ps else []
    | _ \<Rightarrow> [])"

definition first_uses :: "string list \<Rightarrow> string list" where
  "first_uses xs = rev (remdups (rev xs))"

lemma first_uses_snoc: "first_uses (xs @ [x]) = add_new x (first_uses xs)"
  by (simp add: first_uses_def add_new_def)

lemma scan_use_tools: "sc_tools s = first_uses xs \<Longrightarrow>
    sc_tools (foldl scan_use s ps) = first_uses (xs @ List.map_filter used_name ps)"
proof (induction ps arbitrary: s xs)
  case (Cons p ps)
  show ?case
  proof (cases "used_name p")
    case None
    then have "scan_use s p = s" by (cases p) auto
    then show ?thesis using Cons None by (simp add: map_filter_def)
  next
    case (Some n)
    then have "sc_tools (scan_use s p) = first_uses (xs @ [n])"
      using Cons.prems by (cases p) (auto simp: first_uses_snoc)
    from Cons.IH [OF this] show ?thesis using Some by (simp add: map_filter_def)
  qed
qed (simp add: map_filter_def)

lemma scan_result_tools: "scan_result s p = Some s' \<Longrightarrow> sc_tools s' = sc_tools s"
  by (cases p) (auto simp: Let_def split: if_splits)

lemma fold_scan_result_tools: "fold_panic scan_result s ps = Some s' \<Longrightarrow> sc_tools s' = sc_tools s"
  by (induction ps arbitrary: s) (auto split: option.splits dest: scan_result_tools)

lemma scan_message_tools: "scan_message s m = Some s' \<Longrightarrow> sc_tools s = first_uses xs \<Longrightarrow>
    sc_tools s' = first_uses (xs @ message_uses m)"
  using scan_use_tools fold_scan_result_tools
  by (auto simp: scan_message_def split: role.splits message_content.splits)

lemma scan_history_tools: "fold_panic scan_message s h = Some s' \<Longrightarrow> sc_tools s = first_uses xs \<Longrightarrow>
    sc_tools s' = first_uses (xs @ concat (map message_uses h))"
proof (induction h arbitrary: s xs)
  case (Cons m h)
  then obtain s1 where s1: "scan_message s m = Some s1" "fold_panic scan_message s1 h = Some s'"
    by (auto split: option.splits)
  then show ?case using Cons.IH [OF s1(2) scan_message_tools [OF s1(1) Cons.prems(2)]] by simp
qed simp

lemma join_nonempty: "x \<noteq> [] \<Longrightarrow> join sep (x # xs) \<noteq> []"
  by (cases xs) auto

lemma lesson_nonempty: "generate_lesson tt tools failures rot oc \<noteq> []"
  by (cases oc) (simp_all add: generate_lesson_def join_nonempty)

text \<open>Unless it panics, the extraction returns nothing for a conversation that called no tool,
  and otherwise exactly one learning, whose approach lists every tool the assistant called,
  once, in the order of the first calls.\<close>

theorem extract_learnings_correct:
  assumes "extract_learnings now h = Some ls"
  shows "map approach ls = (if concat (map message_uses h) = [] then []
      else [first_uses (concat (map message_uses h))])"
proof -
  obtain s where s: "scan_history h = Some s" using assms by (auto simp: extract_learnings_def)
  have "sc_tools s = first_uses ([] @ concat (map message_uses h))"
    using s unfolding scan_history_def by (rule scan_history_tools) (simp add: first_uses_def)
  then show ?thesis
    using assms s by (auto simp: extract_learnings_def Let_def lesson_nonempty first_uses_def)
qed

definition demo_use :: chat_message where
  "demo_use = \<lparr>msg_role = Assistant, msg_content = Parts
     [ToolUse ''1'' ''shell'' JNull, ToolUse ''2'' ''file_read'' JNull, ToolUse ''3'' ''shell'' JNull]\<rparr>"

theorem extract_learnings_correct_witness:
  "map approach (the (extract_learnings 0 [demo_use])) = [[''shell'', ''file_read'']]"
proof -
  have "extract_learnings 0 [demo_use] \<noteq> None"
    by (simp add: extract_learnings_def scan_history_def scan_message_def demo_use_def)
  then obtain ls where ls: "extract_learnings 0 [demo_use] = Some ls" by auto
  show ?thesis
    using extract_learnings_correct [OF ls] ls
    by (simp add: demo_use_def first_uses_def map_filter_def)
qed

end
