(* ===== verification/Context.thy ===== *)
theory Context
  imports Learning Memory_Store Rust_Float
begin

text \<open>
  The context builder (\<open>skyclaw-agent/src/context.rs\<close>): the request for the provider is put
  together from the session's history, what the memory knows and the tools, within a token
  budget. A tool is what its three getters return; what serde and chrono print and parse are
  the fields of \<open>context_env\<close>; the memory is any \<open>memory_ops\<close>, whose state is threaded through
  the three searches.
\<close>

section \<open>Requests\<close>

record tool_definition =
  td_name :: string
  td_description :: string
  td_parameters :: json

record completion_request =
  cr_model :: string
  cr_messages :: "chat_message list"
  cr_tools :: "tool_definition list"
  cr_max_tokens :: "u32 option"
  cr_temperature :: "f32 option"
  cr_system :: "string option"

record usage =
  us_input_tokens :: u32
  us_output_tokens :: u32
  us_cost_usd :: f64

record completion_response =
  cs_id :: string
  cs_content :: "content_part list"
  cs_stop_reason :: "string option"
  cs_usage :: usage

record context_env =
  json_text :: "json \<Rightarrow> string"
  minute_text :: "int \<Rightarrow> string"
  parse_learning :: "string \<Rightarrow> task_learning option"

definition MAX_RECENT_MESSAGES :: nat where
  "MAX_RECENT_MESSAGES = 60"

definition MIN_RECENT_MESSAGES :: nat where
  "MIN_RECENT_MESSAGES = 30"

definition IMAGE_TOKEN_ESTIMATE :: nat where
  "IMAGE_TOKEN_ESTIMATE = 1000"

definition MEMORY_BUDGET_FRACTION :: f32 where
  "MEMORY_BUDGET_FRACTION = to_f32 (15 / 100)"

definition LEARNING_BUDGET_FRACTION :: f32 where
  "LEARNING_BUDGET_FRACTION = to_f32 (5 / 100)"

text \<open>\<open>((budget as f32) * fraction) as usize\<close>.\<close>

definition budget_share :: "nat \<Rightarrow> f32 \<Rightarrow> nat" where
  "budget_share budget fraction = float_as_usize (to_f32 (to_f32 (of_nat budget) * fraction))"

definition estimate_tokens :: "string \<Rightarrow> nat" where
  "estimate_tokens s = length s div 4"

fun estimate_part_tokens :: "(json \<Rightarrow> string) \<Rightarrow> content_part \<Rightarrow> nat" where
  "estimate_part_tokens jt (PText t) = estimate_tokens t"
| "estimate_part_tokens jt (ToolUse _ _ input) = estimate_tokens (jt input)"
| "estimate_part_tokens jt (ToolResult _ content _ _) = estimate_tokens content"
| "estimate_part_tokens jt (Image _ _) = IMAGE_TOKEN_ESTIMATE"

definition estimate_message_tokens :: "(json \<Rightarrow> string) \<Rightarrow> chat_message \<Rightarrow> nat" where
  "estimate_message_tokens jt m = (case msg_content m of
      Text t \<Rightarrow> estimate_tokens t
    | Parts ps \<Rightarrow> sum_list (map (estimate_part_tokens jt) ps))"

definition messages_tokens :: "(json \<Rightarrow> string) \<Rightarrow> chat_message list \<Rightarrow> nat" where
  "messages_tokens jt ms = sum_list (map (estimate_message_tokens jt) ms)"

text \<open>\<open>model_supports_vision\<close>, of \<open>runtime.rs\<close>.\<close>

definition model_supports_vision :: "string \<Rightarrow> bool" where
  "model_supports_vision model =
     (let m = to_lowercase model
      in if starts_with ''glm-'' m then str_contains ''v'' m \<and> \<not> starts_with ''glm-5'' m
         else if starts_with ''minimax'' m then False
         else if starts_with ''gpt-3'' m then False
         else True)"

definition system_message :: "string \<Rightarrow> chat_message" where
  "system_message t = \<lparr>msg_role = System, msg_content = Text t\<rparr>"

section \<open>Helpers\<close>

text \<open>
  The text before the last character that starts at byte \<open>n\<close> or earlier. The slice cannot panic.
\<close>

definition cut_at :: "nat \<Rightarrow> string \<Rightarrow> string" where
  "cut_at n t = take (last_start_upto n t) t"

lemma cut_at_slice: "slice_to t (last_start_upto n t) = Some (cut_at n t)"
  by (simp add: slice_to_def cut_at_def)

text \<open>The left-right arrow of the texts, in UTF-8.\<close>

abbreviation both_ways :: string where
  "both_ways \<equiv> [CHR 0xE2, CHR 0x86, CHR 0x94]"

definition thread_text :: "message_content \<Rightarrow> string option" where
  "thread_text c = (case c of
      Text t \<Rightarrow> Some t
    | Parts ps \<Rightarrow> (let texts = List.map_filter text_of_part ps
        in if texts = [] then None else Some (join '' '' texts)))"

definition digest_entry :: "chat_message \<Rightarrow> string option" where
  "digest_entry m =
     (if msg_role m = User \<or> msg_role m = Assistant
      then (let role_label = (if msg_role m = User then ''User'' else ''Assistant'')
        in case thread_text (msg_content m) of
            None \<Rightarrow> None
          | Some text \<Rightarrow>
              (let trimmed = trim text
               in if trimmed = [] then None
                  else (let display = (if msg_role m = Assistant \<and> 200 < length trimmed
                              then cut_at 200 trimmed @ ''...'' else trimmed)
                    in Some (role_label @ '': '' @ display))))
      else None)"

definition build_chat_digest :: "chat_message list \<Rightarrow> chat_message option" where
  "build_chat_digest messages =
     (let entries = List.map_filter digest_entry messages;
          user_count = length (filter (\<lambda>m. msg_role m = User) messages);
          max_entries = 30;
          start = length entries - max_entries
      in if user_count < 2 then None
         else Some (system_message (
            ''=== CHAT HISTORY (human conversation thread) ==='' @ nl
            @ ''Below is the User '' @ both_ways @ '' Assistant conversation WITHOUT tool outputs.'' @ nl
            @ ''Use this to stay grounded in what the user asked and what you replied.'' @ nl
            @ ''The full tool execution logs follow in the message history below.'' @ nl
            @ nl
            @ join nl (drop start entries) @ nl
            @ nl
            @ ''=== END CHAT HISTORY ==='')))"

definition extract_latest_query :: "chat_message list \<Rightarrow> string" where
  "extract_latest_query h =
     (case find_map (\<lambda>m. first_text (msg_content m)) (rev h) of None \<Rightarrow> [] | Some t \<Rightarrow> t)"

definition topic_of :: "chat_message \<Rightarrow> string option" where
  "topic_of m = (case msg_content m of
      Text t \<Rightarrow> if msg_role m = User \<and> 5 < length t
        then Some (if 50 < length t then cut_at 50 t else t) else None
    | Parts _ \<Rightarrow> None)"

definition tools_of :: "string list \<Rightarrow> chat_message \<Rightarrow> string list" where
  "tools_of tools m = (case msg_content m of
      Text _ \<Rightarrow> tools
    | Parts ps \<Rightarrow> foldl (\<lambda>ts p. case used_name p of None \<Rightarrow> ts | Some n \<Rightarrow> add_new n ts) tools ps)"

definition generate_dropped_summary :: "chat_message list \<Rightarrow> nat \<Rightarrow> string" where
  "generate_dropped_summary dropped_msgs count =
     (let tools_used = foldl tools_of [] dropped_msgs;
          topics = List.map_filter topic_of dropped_msgs
      in join '', '' ([''[Earlier context: '' @ nat_str count @ '' messages dropped'']
           @ (if topics \<noteq> [] then [''discussed: '' @ join ''; '' (take 3 topics)] else [])
           @ (if tools_used \<noteq> [] then [''tools used: '' @ join '', '' tools_used] else [])) @ '']'')"

definition build_system_prompt :: "string option \<Rightarrow> tool_definition list \<Rightarrow> session_context \<Rightarrow> string option" where
  "build_system_prompt custom tools session = (case custom of
      Some s \<Rightarrow> Some s
    | None \<Rightarrow> Some (
''You are SkyClaw, a cloud-native AI agent runtime. You control a computer through messaging apps.'' @ nl
          @ nl
          @ ''You have access to these tools: '' @ join '', '' (map td_name tools) @ nl
          @ nl
          @ ''Workspace: All file operations use the workspace directory at '' @ workspace_path session @ ''.'' @ nl
          @ ''Files sent by the user are automatically saved here.'' @ nl
          @ nl
          @ ''File protocol:'' @ nl
          @ ''- Received files are saved to the workspace automatically '' @ em_dash @ '' use file_read to read them'' @ nl
          @ ''- To send a file to the user, use send_file with just the path (chat_id is automatic)'' @ nl
          @ ''- Use file_write to create files in the workspace, then send_file to deliver them'' @ nl
          @ ''- Paths are relative to the workspace directory'' @ nl
          @ nl
          @ ''Guidelines:'' @ nl
          @ ''- Use the shell tool to run commands, install packages, manage services, check system status'' @ nl
          @ ''- Use file tools to read, write, and list files in the workspace'' @ nl
          @ ''- Use web_fetch to look up documentation, check APIs, or research information'' @ nl
          @ ''- Be concise in responses '' @ em_dash @ '' the user is on a messaging app'' @ nl
          @ ''- When a task requires multiple steps, execute them sequentially using tools'' @ nl
          @ ''- If a command fails, read the error and try to fix it'' @ nl
          @ ''- Never expose secrets, API keys, or sensitive data in responses'' @ nl
          @ nl
          @ ''Verification:'' @ nl
          @ ''After every tool execution, you MUST verify the result before proceeding:'' @ nl
          @ ''- Check that commands succeeded (exit code 0, expected output)'' @ nl
          @ ''- Verify file operations by reading back what was written'' @ nl
          @ ''- Test endpoints after deployment'' @ nl
          @ ''- Never assume success '' @ em_dash @ '' verify with evidence'' @ nl
          @ nl
          @ ''DONE criteria:'' @ nl
          @ ''For compound tasks (multiple steps), define what DONE looks like before executing:'' @ nl
          @ ''- List specific, verifiable conditions that must ALL be true when complete'' @ nl
          @ ''- After completing all steps, verify each condition before declaring done'' @ nl
          @ ''- Report completion with evidence for each condition'' @ nl
          @ nl
          @ ''Self-correction:'' @ nl
          @ ''If an approach fails repeatedly, do NOT retry the same way:'' @ nl
          @ ''- Analyze why the approach fails'' @ nl
          @ ''- Generate alternative approaches'' @ nl
          @ ''- Execute the most promising alternative'' @ nl
          @ ''- If no alternatives exist, ask the user for guidance''))"
section \<open>What the memory knows\<close>

definition memory_line :: "context_env \<Rightarrow> memory_entry \<Rightarrow> string" where
  "memory_line env e = ''['' @ minute_text env (me_timestamp e) @ ''] '' @ me_content e"

definition knowledge_line :: "memory_entry \<Rightarrow> string" where
  "knowledge_line e = (let key = (case Option.bind (json_get (me_metadata e) ''user_key'') json_str of
        None \<Rightarrow> ''?'' | Some k \<Rightarrow> k)
     in ''- '' @ key @ '': '' @ me_content e)"

text \<open>Each search gives the messages it adds, the tokens it counts for them, and the memory.\<close>

definition recall_memory :: "context_env \<Rightarrow> 'm memory_ops \<Rightarrow> session_context \<Rightarrow> string \<Rightarrow> nat \<Rightarrow> 'm \<Rightarrow>
    (chat_message list \<times> nat) \<times> 'm" where
  "recall_memory env ops session query memory_budget m =
     (if query = [] then (([], 0), m)
      else case search_op ops query
             (search_opts_default\<lparr>so_limit := 5, session_filter := Some (session_id session)\<rparr>) m of
          (Inl _, m') \<Rightarrow> (([], 0), m')
        | (Inr entries, m') \<Rightarrow>
            (let memory_text = join nl (map (memory_line env) entries);
                 tokens = estimate_tokens memory_text + 10
             in if entries \<noteq> [] \<and> tokens \<le> memory_budget
                then (([system_message (''Relevant context from memory:'' @ nl @ memory_text)], tokens), m')
                else (([], 0), m')))"

definition recall_knowledge :: "'m memory_ops \<Rightarrow> nat \<Rightarrow> 'm \<Rightarrow> (chat_message list \<times> nat) \<times> 'm" where
  "recall_knowledge ops knowledge_budget m =
     (case search_op ops [] (search_opts_default\<lparr>so_limit := 10, entry_type_filter := Some Knowledge\<rparr>) m of
        (Inl _, m') \<Rightarrow> (([], 0), m')
      | (Inr entries, m') \<Rightarrow>
          (let knowledge_entries = filter (\<lambda>e. me_type e = Knowledge) entries;
               knowledge_text = join nl (map knowledge_line knowledge_entries);
               tokens = estimate_tokens knowledge_text + 10
           in if knowledge_entries \<noteq> [] \<and> tokens \<le> knowledge_budget \<and> knowledge_text \<noteq> []
              then (([system_message (''=== YOUR PERSISTENT KNOWLEDGE ==='' @ nl
                  @ ''These are facts you previously saved with memory_manage:'' @ nl
                  @ knowledge_text @ nl
                  @ ''=== END KNOWLEDGE ==='')], tokens), m')
              else (([], 0), m')))"

definition recall_learnings :: "context_env \<Rightarrow> 'm memory_ops \<Rightarrow> string \<Rightarrow> nat \<Rightarrow> 'm \<Rightarrow>
    (chat_message list \<times> nat) \<times> 'm" where
  "recall_learnings env ops query learning_budget m =
     (if query = [] then (([], 0), m)
      else case search_op ops ''learning:'' (search_opts_default\<lparr>so_limit := 5\<rparr>) m of
          (Inl _, m') \<Rightarrow> (([], 0), m')
        | (Inr entries, m') \<Rightarrow>
            (let learnings = List.map_filter (\<lambda>e. parse_learning env (me_content e)) entries;
                 formatted = format_learnings_context learnings;
                 tokens = estimate_tokens formatted
             in if learnings \<noteq> [] \<and> tokens \<le> learning_budget \<and> formatted \<noteq> []
                then (([system_message formatted], tokens), m')
                else (([], 0), m')))"

section \<open>The history\<close>

text \<open>
  The recent messages are the last \<open>recent_count\<close>; of the older ones at most \<open>max_turns * 2\<close>
  are considered (a product of \<open>usize\<close>), from the newest on, until the budget is used up.
\<close>

definition recent_count :: "nat \<Rightarrow> nat" where
  "recent_count n = max (min n MAX_RECENT_MESSAGES) (min n MIN_RECENT_MESSAGES)"

definition older_history :: "nat \<Rightarrow> nat \<Rightarrow> chat_message list \<Rightarrow> chat_message list" where
  "older_history max_turns older_end h =
     (let limit = (max_turns * 2) mod 2 ^ 64
      in if 0 < max_turns \<and> limit < older_end
         then drop (older_end - limit) (take older_end h)
         else take older_end h)"

text \<open>The messages from the newest on; the result is in the order of the history, with whether
  the walk stopped early.\<close>

fun walk_older :: "('a \<Rightarrow> nat) \<Rightarrow> nat \<Rightarrow> nat \<Rightarrow> 'a list \<Rightarrow> 'a list \<Rightarrow> 'a list \<times> bool" where
  "walk_older cost budget used kept [] = (kept, False)"
| "walk_older cost budget used kept (m # ms) =
     (if budget < used + cost m then (kept, True)
      else walk_older cost budget (used + cost m) (m # kept) ms)"

fun is_image :: "content_part \<Rightarrow> bool" where
  "is_image (Image _ _) = True"
| "is_image _ = False"

definition strip_images :: "chat_message \<Rightarrow> chat_message" where
  "strip_images m = (case msg_content m of
      Text _ \<Rightarrow> m
    | Parts ps \<Rightarrow> (let kept = filter (\<lambda>p. \<not> is_image p) ps
        in case kept of
             [PText t] \<Rightarrow> m\<lparr>msg_content := Text t\<rparr>
           | _ \<Rightarrow> m\<lparr>msg_content := Parts kept\<rparr>))"

definition strip_for :: "string \<Rightarrow> chat_message list \<Rightarrow> chat_message list" where
  "strip_for model ms = (if model_supports_vision model then ms else map strip_images ms)"

section \<open>The request\<close>

text \<open>The categories of the budget.\<close>

record context_parts =
  cp_system :: "string option"
  cp_fixed_tokens :: nat
  cp_summary :: "chat_message list"
  cp_digest :: "chat_message list"
  cp_knowledge :: "chat_message list"
  cp_memory :: "chat_message list"
  cp_learnings :: "chat_message list"
  cp_older :: "chat_message list"
  cp_recent :: "chat_message list"

text \<open>The tokens of the system prompt and of the tool definitions, and the overhead.\<close>

definition fixed_tokens :: "context_env \<Rightarrow> string option \<Rightarrow> tool_definition list \<Rightarrow> nat" where
  "fixed_tokens env system tools =
     (let system_tokens = (case system of None \<Rightarrow> 0 | Some s \<Rightarrow> estimate_tokens s);
          tool_def_tokens = sum_list (map (\<lambda>t. estimate_tokens (td_name t) + estimate_tokens (td_description t)
            + estimate_tokens (json_text env (td_parameters t))) tools);
          overhead = 500
      in system_tokens + tool_def_tokens + overhead)"

definition gather_context :: "context_env \<Rightarrow> 'm memory_ops \<Rightarrow> session_context \<Rightarrow> tool_definition list \<Rightarrow>
    string option \<Rightarrow> nat \<Rightarrow> nat \<Rightarrow> 'm \<Rightarrow> context_parts \<times> 'm" where
  "gather_context env ops session tools system_prompt max_turns budget m =
     (let system = build_system_prompt system_prompt tools session;
          fixed = fixed_tokens env system tools;
          h = sess_history session;
          recent_start = length h - recent_count (length h);
          recent = drop recent_start h;
          recent_tokens = messages_tokens (json_text env) recent;
          available = budget - (fixed + recent_tokens);
          memory_budget = min (budget_share budget MEMORY_BUDGET_FRACTION) available;
          query = extract_latest_query h;
          ((memory_msgs, memory_used), m1) = recall_memory env ops session query memory_budget m;
          knowledge_budget = min (memory_budget - memory_used) 2000;
          ((knowledge_msgs, knowledge_used), m2) = recall_knowledge ops knowledge_budget m1;
          remaining = available - (memory_used + knowledge_used);
          learning_budget = min (budget_share budget LEARNING_BUDGET_FRACTION) remaining;
          ((learning_msgs, learning_used), m3) = recall_learnings env ops query learning_budget m2;
          used = fixed + recent_tokens + memory_used + knowledge_used + learning_used;
          history_budget = budget - used;
          older = older_history max_turns recent_start h;
          (kept, stopped) = walk_older (estimate_message_tokens (json_text env)) history_budget 0 [] (rev older);
          dropped = (if stopped then length older - length kept else 0);
          summary = (if 0 < dropped
            then [system_message (generate_dropped_summary (take (recent_start - length kept) h) dropped)] else [])
      in (\<lparr>cp_system = system, cp_fixed_tokens = fixed, cp_summary = summary,
           cp_digest = (case build_chat_digest (kept @ recent) of None \<Rightarrow> [] | Some d \<Rightarrow> [d]),
           cp_knowledge = knowledge_msgs, cp_memory = memory_msgs, cp_learnings = learning_msgs,
           cp_older = kept, cp_recent = recent\<rparr>, m3))"

definition build_context :: "context_env \<Rightarrow> 'm memory_ops \<Rightarrow> session_context \<Rightarrow> tool_definition list \<Rightarrow>
    string \<Rightarrow> string option \<Rightarrow> nat \<Rightarrow> nat \<Rightarrow> 'm \<Rightarrow> completion_request \<times> 'm" where
  "build_context env ops session tools model system_prompt max_turns max_context_tokens m =
     (case gather_context env ops session tools system_prompt max_turns max_context_tokens m of (p, m') \<Rightarrow>
        (let messages = cp_summary p @ cp_digest p @ cp_knowledge p @ cp_memory p @ cp_learnings p
               @ cp_older p @ cp_recent p
         in (\<lparr>cr_model = model, cr_messages = strip_for model messages, cr_tools = tools,
              cr_max_tokens = Some 4096, cr_temperature = Some (to_f32 (7 / 10)), cr_system = cp_system p\<rparr>, m')))"

section \<open>What is kept of the history\<close>

lemma walk_older_kept:
  "walk_older cost budget used kept ms = (kept', stopped) \<Longrightarrow>
   \<exists>n. kept' = rev (take n ms) @ kept \<and> (used + sum_list (map cost (take n ms)) \<le> max budget used)"
proof (induction ms arbitrary: used kept)
  case Nil
  then show ?case by (auto intro: exI [of _ 0])
next
  case (Cons m ms)
  show ?case
  proof (cases "budget < used + cost m")
    case True
    then show ?thesis using Cons.prems by (auto intro: exI [of _ 0])
  next
    case False
    then have "walk_older cost budget (used + cost m) (m # kept) ms = (kept', stopped)" using Cons.prems by simp
    from Cons.IH [OF this] obtain n where "kept' = rev (take n ms) @ m # kept"
        "used + cost m + sum_list (map cost (take n ms)) \<le> max budget (used + cost m)"
      by blast
    then show ?thesis using False by (intro exI [of _ "Suc n"]) auto
  qed
qed

lemma older_history_drop: "\<exists>k. older_history max_turns older_end h = drop k (take older_end h)"
  by (auto simp: older_history_def Let_def intro: exI [of _ 0])

lemma rev_take_rev: "rev (take n (rev xs)) = drop (length xs - n) xs"
  by (simp add: take_rev)

lemma kept_suffix:
  assumes "walk_older cost budget 0 [] (rev (older_history max_turns older_end h)) = (kept, stopped)"
    and "older_end \<le> length h"
  obtains n where "kept @ drop older_end h = drop n h" "n \<le> older_end" "sum_list (map cost kept) \<le> budget"
proof -
  obtain k where k: "older_history max_turns older_end h = drop k (take older_end h)"
    using older_history_drop by blast
  obtain n where n: "kept = rev (take n (rev (drop k (take older_end h))))"
      "sum_list (map cost (take n (rev (drop k (take older_end h))))) \<le> budget"
    using walk_older_kept [OF assms(1)] k by auto
  define j where "j = min older_end (k + (length (drop k (take older_end h)) - n))"
  have "kept = drop j (take older_end h)"
    using n(1) assms(2) by (auto simp: rev_take_rev j_def min_def add.commute)
  then have "kept @ drop older_end h = drop j h"
    using append_take_drop_id [of older_end h] assms(2)
    by (metis (no_types, lifting) drop_append j_def length_take min.cobounded1 min.absorb2 diff_is_0_eq' drop_0)
  moreover have "sum_list (map cost kept) \<le> budget"
    unfolding n(1) rev_map [symmetric] sum_list_rev by (rule n(2))
  ultimately show thesis using that [of j] by (simp add: j_def)
qed

lemma recent_count_eq [simp]: "recent_count n = min n 60"
  by (simp add: recent_count_def MAX_RECENT_MESSAGES_def MIN_RECENT_MESSAGES_def)

section \<open>What the memory adds\<close>

definition injected :: "chat_message list \<Rightarrow> bool" where
  "injected ms \<longleftrightarrow> (\<exists>ts. ms = map system_message ts)"

lemma injected_simps [simp]: "injected []" "injected [system_message t]"
  "injected (xs @ ys) \<longleftrightarrow> injected xs \<and> injected ys"
proof -
  show "injected []" by (simp add: injected_def)
  show "injected [system_message t]" unfolding injected_def by (rule exI [of _ "[t]"]) simp
  show "injected (xs @ ys) \<longleftrightarrow> injected xs \<and> injected ys"
    unfolding injected_def by (auto simp: append_eq_map_conv map_append [symmetric] simp del: map_append)
qed

lemma message_tokens_system [simp]:
  "messages_tokens jt [] = 0"
  "messages_tokens jt [system_message t] = estimate_tokens t"
  "messages_tokens jt (xs @ ys) = messages_tokens jt xs + messages_tokens jt ys"
  by (simp_all add: messages_tokens_def estimate_message_tokens_def system_message_def)

lemma recall_memory_spec:
  "recall_memory env ops session query budget m = ((ms, used), m') \<Longrightarrow>
   injected ms \<and> used \<le> budget \<and> messages_tokens jt ms \<le> used"
  by (auto simp: recall_memory_def Let_def estimate_tokens_def split: if_splits prod.splits sum.splits)

lemma recall_knowledge_spec:
  "recall_knowledge ops budget m = ((ms, used), m') \<Longrightarrow>
   injected ms \<and> used \<le> budget \<and> messages_tokens jt ms \<le> used + 19"
  by (auto simp: recall_knowledge_def Let_def estimate_tokens_def split: if_splits prod.splits sum.splits)

lemma recall_learnings_spec:
  "recall_learnings env ops query budget m = ((ms, used), m') \<Longrightarrow>
   injected ms \<and> used \<le> budget \<and> messages_tokens jt ms \<le> used"
  by (auto simp: recall_learnings_def Let_def split: if_splits prod.splits sum.splits)

text \<open>Each share is taken out of what the earlier ones left.\<close>

lemma shares_sum:
  "mu \<le> b - f \<Longrightarrow> ku \<le> b - f - mu \<Longrightarrow> lu \<le> b - (f + (mu + ku)) \<Longrightarrow>
   old \<le> b - (f + mu + ku + lu) \<Longrightarrow> f + mu + ku + lu + old \<le> max b (f :: nat)"
  by linarith

text \<open>The parts, and what each category used: \<open>mu\<close>, \<open>ku\<close> and \<open>lu\<close>.\<close>

lemma gather_context_pieces:
  fixes env :: context_env and budget :: nat
  assumes g: "gather_context env ops session tools system_prompt max_turns budget m = (p, m')"
  defines "h \<equiv> sess_history session"
    and "jt \<equiv> json_text env"
    and "full \<equiv> cp_fixed_tokens p + messages_tokens (json_text env) (cp_recent p)"
  obtains mu ku lu st where
    "injected (cp_summary p @ cp_digest p @ cp_knowledge p @ cp_memory p @ cp_learnings p)"
    "cp_recent p = drop (length h - 60) h"
    "mu \<le> budget - full" "ku \<le> budget - full - mu" "lu \<le> budget - (full + (mu + ku))"
    "messages_tokens jt (cp_memory p) \<le> mu" "messages_tokens jt (cp_knowledge p) \<le> ku + 19"
    "messages_tokens jt (cp_learnings p) \<le> lu"
    "walk_older (estimate_message_tokens jt) (budget - (full + mu + ku + lu)) 0 []
       (rev (older_history max_turns (length h - 60) h)) = (cp_older p, st)"
proof -
  define rs where "rs = length h - recent_count (length h)"
  define fixed where "fixed = fixed_tokens env (build_system_prompt system_prompt tools session) tools"
  define avail where "avail = budget - (fixed + messages_tokens jt (drop rs h))"
  define mb where "mb = min (budget_share budget MEMORY_BUDGET_FRACTION) avail"
  obtain mm mu m1 where mem: "recall_memory env ops session (extract_latest_query h) mb m = ((mm, mu), m1)"
    by (metis prod.exhaust)
  obtain km ku m2 where kno: "recall_knowledge ops (min (mb - mu) 2000) m1 = ((km, ku), m2)"
    by (metis prod.exhaust)
  obtain lm lu m3 where lea: "recall_learnings env ops (extract_latest_query h)
      (min (budget_share budget LEARNING_BUDGET_FRACTION) (avail - (mu + ku))) m2 = ((lm, lu), m3)"
    by (metis prod.exhaust)
  define hb where "hb = budget - (fixed + messages_tokens jt (drop rs h) + mu + ku + lu)"
  obtain kept st where walk: "walk_older (estimate_message_tokens jt) hb 0 []
      (rev (older_history max_turns rs h)) = (kept, st)"
    by (metis prod.exhaust)
  note folds = h_def [symmetric] jt_def [symmetric] rs_def [symmetric] fixed_def [symmetric]
    avail_def [symmetric] mb_def [symmetric] hb_def [symmetric]
  have p: "cp_fixed_tokens p = fixed" "cp_knowledge p = km" "cp_memory p = mm" "cp_learnings p = lm"
      "cp_older p = kept" "cp_recent p = drop rs h" "injected (cp_summary p)" "injected (cp_digest p)"
    using g unfolding gather_context_def Let_def
    by (simp_all only: folds mem kno lea walk prod.case prod.inject)
      (auto simp: build_chat_digest_def Let_def split: option.splits if_splits)
  note specs = recall_memory_spec [OF mem, of jt] recall_knowledge_spec [OF kno, of jt]
    recall_learnings_spec [OF lea, of jt]
  have "rs = length h - 60" by (simp add: rs_def min_def)
  moreover have "full = fixed + messages_tokens jt (drop rs h)" by (simp add: full_def p jt_def)
  moreover have "mu \<le> avail" "ku \<le> avail - mu" using specs by (simp_all add: mb_def) linarith
  ultimately show thesis
    using that [of mu ku lu st] specs walk by (simp add: p avail_def hb_def)
qed

lemma gather_context_injected:
  "gather_context env ops session tools system_prompt max_turns budget m = (p, m') \<Longrightarrow>
   injected (cp_summary p @ cp_digest p @ cp_knowledge p @ cp_memory p @ cp_learnings p)"
  by (erule gather_context_pieces)

lemma gather_context_suffix:
  assumes "gather_context env ops session tools system_prompt max_turns budget m = (p, m')"
  shows "\<exists>n \<le> length (sess_history session) - 60. cp_older p @ cp_recent p = drop n (sess_history session)"
  using assms by (rule gather_context_pieces) (metis kept_suffix diff_le_self)

lemma gather_context_tokens:
  assumes "gather_context env ops session tools system_prompt max_turns budget m = (p, m')"
  shows "cp_fixed_tokens p + messages_tokens (json_text env)
           (cp_knowledge p @ cp_memory p @ cp_learnings p @ cp_older p @ cp_recent p)
         \<le> max budget (cp_fixed_tokens p + messages_tokens (json_text env) (cp_recent p)) + 19"
  using assms
proof (rule gather_context_pieces)
  let ?full = "cp_fixed_tokens p + messages_tokens (json_text env) (cp_recent p)"
  let ?h = "sess_history session"
  fix mu ku lu st
  assume used: "mu \<le> budget - ?full" "ku \<le> budget - ?full - mu" "lu \<le> budget - (?full + (mu + ku))"
    and msgs: "messages_tokens (json_text env) (cp_memory p) \<le> mu"
      "messages_tokens (json_text env) (cp_knowledge p) \<le> ku + 19"
      "messages_tokens (json_text env) (cp_learnings p) \<le> lu"
    and walk: "walk_older (estimate_message_tokens (json_text env)) (budget - (?full + mu + ku + lu)) 0 []
       (rev (older_history max_turns (length ?h - 60) ?h)) = (cp_older p, st)"
  have "messages_tokens (json_text env) (cp_older p) \<le> budget - (?full + mu + ku + lu)"
    using walk by (rule kept_suffix) (simp_all add: messages_tokens_def)
  from shares_sum [OF used this] msgs show ?thesis by simp
qed

section \<open>The request\<close>

lemma build_context_parts:
  assumes "gather_context env ops session tools system_prompt max_turns max_context_tokens m = (p, m')"
  shows "cr_messages (fst (build_context env ops session tools model system_prompt max_turns max_context_tokens m))
    = strip_for model ((cp_summary p @ cp_digest p @ cp_knowledge p @ cp_memory p @ cp_learnings p)
        @ cp_older p @ cp_recent p)"
  using assms by (simp add: build_context_def)

lemma build_context_messages:
  obtains added n where "n \<le> length (sess_history session) - 60"
    "cr_messages (fst (build_context env ops session tools model system_prompt max_turns max_context_tokens m))
       = strip_for model (map system_message added @ drop n (sess_history session))"
proof -
  obtain p m' where g: "gather_context env ops session tools system_prompt max_turns max_context_tokens m = (p, m')"
    by (metis prod.exhaust)
  obtain added where "cp_summary p @ cp_digest p @ cp_knowledge p @ cp_memory p @ cp_learnings p
      = map system_message added"
    using gather_context_injected [OF g] unfolding injected_def by blast
  moreover obtain n where "n \<le> length (sess_history session) - 60"
      "cp_older p @ cp_recent p = drop n (sess_history session)"
    using gather_context_suffix [OF g] by blast
  ultimately show ?thesis using build_context_parts [OF g, of model] that by metis
qed

text \<open>C6: The messages of a request are system texts the builder adds, followed by a suffix of the
  session's history, which holds at least the last 60 messages, in order and without a gap; for
  a model without vision the image parts are taken out of them. No message of the history is
  sent twice, reordered or altered otherwise, whatever the memory answers.\<close>

theorem context_request_correct:
  "\<exists>added n. n \<le> length (sess_history session) - 60 \<and>
     cr_messages (fst (build_context env ops session tools model system_prompt max_turns max_context_tokens m))
       = strip_for model (map system_message added @ drop n (sess_history session))"
  by (metis build_context_messages)

text \<open>The categories the budget counts (the system prompt, the tools and the overhead, the
  memory's messages and the history) stay within the token budget, or within what the fixed part
  and the 60 recent messages take alone if that is more; up to 19 tokens,
  since of the 113 bytes around the knowledge only 10 tokens are counted.\<close>

theorem context_budget:
  "(let p = fst (gather_context env ops session tools system_prompt max_turns budget m)
    in cp_fixed_tokens p + messages_tokens (json_text env)
         (cp_knowledge p @ cp_memory p @ cp_learnings p @ cp_older p @ cp_recent p)
       \<le> max budget (cp_fixed_tokens p + messages_tokens (json_text env) (cp_recent p)) + 19)"
  using gather_context_tokens [of env ops session tools system_prompt max_turns budget m]
  by (simp add: Let_def) (metis prod.collapse)

fun has_image :: "chat_message \<Rightarrow> bool" where
  "has_image m = (case msg_content m of Text _ \<Rightarrow> False | Parts ps \<Rightarrow> list_ex is_image ps)"

lemma strip_images_none: "\<not> has_image (strip_images m)"
proof (cases "msg_content m")
  case (Parts ps)
  obtain kept where kept: "filter (\<lambda>p. \<not> is_image p) ps = kept" by blast
  then have "\<not> list_ex is_image kept" by (auto simp: list_ex_iff)
  then show ?thesis using Parts kept
    by (auto simp: strip_images_def split: list.splits content_part.splits)
qed (simp add: strip_images_def)

text \<open>A model without vision is never sent an image, not even one of the old history.\<close>

theorem context_no_images:
  assumes "\<not> model_supports_vision model"
  shows "\<not> list_ex has_image
    (cr_messages (fst (build_context env ops session tools model system_prompt max_turns max_context_tokens m)))"
  using assms strip_images_none
  by (auto simp: build_context_def strip_for_def list_ex_iff Let_def split: prod.splits)

definition demo_session :: session_context where
  "demo_session = \<lparr>session_id = ''s'', sess_channel = ''cli'', sess_chat_id = ''c'', sess_user_id = ''u'',
     sess_history = [\<lparr>msg_role = User, msg_content = Parts [PText ''hello'', Image ''image/png'' ''AA'']\<rparr>],
     workspace_path = ''/w''\<rparr>"

definition demo_context_env :: context_env where
  "demo_context_env = \<lparr>json_text = (\<lambda>_. ''{}''), minute_text = (\<lambda>_. ''2026-03-01 10:00''), parse_learning = (\<lambda>_. None)\<rparr>"

text \<open>A memory that is down.\<close>

definition demo_memory :: "unit memory_ops" where
  "demo_memory = \<lparr>store_op = (\<lambda>_ m. (Inl (Memory ''down''), m)), search_op = (\<lambda>_ _ m. (Inl (Memory ''down''), m)),
     get_op = (\<lambda>_ m. (Inl (Memory ''down''), m)), delete_op = (\<lambda>_ m. (Inl (Memory ''down''), m)),
     sessions_op = (\<lambda>m. (Inl (Memory ''down''), m)), history_op = (\<lambda>_ _ m. (Inl (Memory ''down''), m))\<rparr>"

theorem context_no_images_witness:
  "\<not> list_ex has_image (cr_messages (fst (build_context demo_context_env demo_memory demo_session []
     ''glm-4.7-flash'' (Some ''hi'') 200 30000 ())))"
  by (rule context_no_images) code_simp

section \<open>Gaps\<close>

text \<open>The header speaks of the 2 to 4 most recent messages; the code keeps 60, and the
  constant for at least 30 never matters.\<close>

lemma recent_is_sixty: "recent_count n = min n 60"
  by simp

text \<open>The query of the memory search is documented as the user's latest; it is the latest
  text of any role, here that of the injected DONE prompt.\<close>

lemma latest_query_any_role: "extract_latest_query (h @ [user_msg, system_message t]) = t"
  by (simp add: extract_latest_query_def system_message_def)

text \<open>
  Where the recent messages fill the budget the older ones go, even the call whose
  result is the first message that stays: the request then answers a call it does not contain.
\<close>

lemma result_without_its_call:
  assumes "gather_context env ops session tools system_prompt 200 budget m = (p, m')"
    and "sess_history session = older @ call # recent" "length recent = 60"
    and "budget \<le> cp_fixed_tokens p + messages_tokens (json_text env) recent"
    and "0 < estimate_message_tokens (json_text env) call"
  shows "cp_older p @ cp_recent p = recent"
proof -
  let ?h = "sess_history session"
  have len: "length ?h - 60 = Suc (length older)" using assms(2,3) by simp
  have rec: "cp_recent p = recent"
    using assms(1) by (rule gather_context_pieces) (simp add: assms(2,3))
  obtain st where w: "walk_older (estimate_message_tokens (json_text env)) 0 0 []
      (rev (older_history 200 (length ?h - 60) ?h)) = (cp_older p, st)"
    using assms(1) by (rule gather_context_pieces) (use assms(4) rec in auto)
  have "\<exists>xs. older_history 200 (length ?h - 60) ?h = xs @ [call]"
    unfolding len by (auto simp: older_history_def assms(2) Let_def Suc_diff_le)
  then show ?thesis using w rec assms(5) by auto
qed

text \<open>Messages cut by \<open>max_turns\<close> leave no summary: nothing says that they were dropped.\<close>

lemma turn_limit_silent:
  assumes "snd (walk_older cost budget 0 [] (rev (older_history max_turns n h))) = False"
  shows "fst (walk_older cost budget 0 [] (rev (older_history max_turns n h))) = older_history max_turns n h"
proof -
  have "snd (walk_older cost budget u ks ms) = False \<Longrightarrow> fst (walk_older cost budget u ks ms) = rev ms @ ks" for u ks and ms :: "chat_message list"
    by (induction ms arbitrary: u ks) (auto split: if_splits)
  from this [OF assms] show ?thesis by simp
qed

end
