(* ===== verification/Budget.thy ===== *)
theory Budget
  imports Rust_Float Skyclaw_Types
begin

text \<open>
  The budget tracker (\<open>skyclaw-agent/src/budget.rs\<close>): prices by the model's name, the cost of
  a call, and the counters that stop the agent once the configured spend is reached.
\<close>

section \<open>Prices\<close>

record model_pricing =
  input_per_million :: f64
  output_per_million :: f64

definition pricing :: "rat \<Rightarrow> rat \<Rightarrow> model_pricing" where
  "pricing i out = \<lparr>input_per_million = to_f64 i, output_per_million = to_f64 out\<rparr>"

definition get_pricing :: "string \<Rightarrow> model_pricing" where
  "get_pricing model =
     (let m = to_lowercase model; has = (\<lambda>p. str_contains p m)
      in if has ''opus'' \<and> (has ''4-6'' \<or> has ''4-5'' \<or> has ''4.5'' \<or> has ''4.6'') then pricing 5 25
         else if has ''opus'' then pricing 5 25
         else if has ''sonnet'' \<and> (has ''4-6'' \<or> has ''4-5'' \<or> has ''4.5'' \<or> has ''4.6'' \<or> has ''sonnet-4'')
           then pricing 3 15
         else if has ''sonnet'' then pricing 3 15
         else if has ''haiku'' \<and> (has ''4-5'' \<or> has ''4.5'') then pricing 1 5
         else if has ''haiku'' \<and> (has ''3-5'' \<or> has ''3.5'') then pricing (80 / 100) 4
         else if has ''haiku'' then pricing 1 5
         else if has ''gpt-5.2'' \<or> has ''gpt-5-2'' then pricing (175 / 100) 14
         else if has ''gpt-5'' \<and> \<not> has ''gpt-5.2'' \<and> \<not> has ''gpt-5-2'' then pricing (125 / 100) 10
         else if has ''gpt-4o-mini'' then pricing (15 / 100) (60 / 100)
         else if has ''gpt-4o'' then pricing (250 / 100) 10
         else if has ''gpt-4'' then pricing (250 / 100) 10
         else if m = ''o3'' \<or> starts_with ''o3-'' m then pricing 2 8
         else if m = ''o4-mini'' \<or> starts_with ''o4-mini'' m then pricing (110 / 100) (440 / 100)
         else if has ''gemini-2.5-pro'' \<or> has ''gemini-2-5-pro'' then pricing (125 / 100) 10
         else if has ''gemini-2.5-flash'' \<or> has ''gemini-2-5-flash'' then pricing (30 / 100) (250 / 100)
         else if has ''gemini-2.0-flash'' \<or> has ''gemini-2-0-flash'' then pricing (10 / 100) (40 / 100)
         else if has ''gemini'' then pricing (30 / 100) (250 / 100)
         else if has ''grok-4'' \<and> has ''fast'' then pricing (20 / 100) (50 / 100)
         else if has ''grok-4-1'' \<and> \<not> has ''fast'' then pricing 3 15
         else if has ''grok-4'' then pricing 3 15
         else if has ''grok-3'' \<and> has ''fast'' then pricing (20 / 100) (50 / 100)
         else if has ''grok-3'' then pricing 3 15
         else if has ''grok'' then pricing 3 15
         else if has ''minimax'' \<or> starts_with ''m2'' m then pricing (30 / 100) (120 / 100)
         else if has ''llama'' \<or> has ''mistral'' \<or> has ''qwen'' \<or> has ''phi'' \<or> has ''codellama''
           \<or> has ''glm'' then pricing 0 0
         else pricing 3 15)"

definition calculate_cost :: "u32 \<Rightarrow> u32 \<Rightarrow> model_pricing \<Rightarrow> f64" where
  "calculate_cost input_tokens output_tokens p =
     (let input_cost = to_f64 (to_f64 (of_nat (unat input_tokens) / 1000000) * input_per_million p);
          output_cost = to_f64 (to_f64 (of_nat (unat output_tokens) / 1000000) * output_per_million p)
      in to_f64 (input_cost + output_cost))"

section \<open>The tracker\<close>

record budget_tracker =
  cumulative_micro_cents :: u64
  max_micro_cents :: u64
  total_input_tokens :: u64
  total_output_tokens :: u64

text \<open>\<open>(usd.max(0.0) * MICRO_CENTS_PER_USD) as u64\<close>.\<close>

definition micro_cents :: "f64 \<Rightarrow> u64" where
  "micro_cents usd = f64_as_u64 (to_f64 (max usd 0 * 100000000))"

definition bt_new :: "f64 \<Rightarrow> budget_tracker" where
  "bt_new max_spend_usd = \<lparr>cumulative_micro_cents = 0, max_micro_cents = micro_cents max_spend_usd,
     total_input_tokens = 0, total_output_tokens = 0\<rparr>"

definition record_usage :: "u32 \<Rightarrow> u32 \<Rightarrow> f64 \<Rightarrow> budget_tracker \<Rightarrow> budget_tracker" where
  "record_usage input_tokens output_tokens cost_usd b =
     b\<lparr>cumulative_micro_cents := cumulative_micro_cents b + micro_cents cost_usd,
       total_input_tokens := total_input_tokens b + ucast input_tokens,
       total_output_tokens := total_output_tokens b + ucast output_tokens\<rparr>"

definition micro_cents_usd :: "u64 \<Rightarrow> f64" where
  "micro_cents_usd m = to_f64 (to_f64 (of_nat (unat m)) / 100000000)"

definition check_budget :: "budget_tracker \<Rightarrow> string + unit" where
  "check_budget b =
     (if max_micro_cents b = 0 then Inr ()
      else if max_micro_cents b \<le> cumulative_micro_cents b
      then Inl (''Budget exceeded: $'' @ fixed 4 (micro_cents_usd (cumulative_micro_cents b)) @ '' spent of $''
             @ fixed 2 (micro_cents_usd (max_micro_cents b))
             @ '' limit. Increase `max_spend_usd` in config or set to 0 for unlimited, then restart.'')
      else Inr ())"

definition total_spend_usd :: "budget_tracker \<Rightarrow> f64" where
  "total_spend_usd b = micro_cents_usd (cumulative_micro_cents b)"

definition max_spend_usd :: "budget_tracker \<Rightarrow> f64" where
  "max_spend_usd b = micro_cents_usd (max_micro_cents b)"

definition total_tokens :: "budget_tracker \<Rightarrow> u64 \<times> u64" where
  "total_tokens b = (total_input_tokens b, total_output_tokens b)"

section \<open>The counters are sums\<close>

record api_call =
  ac_input :: u32
  ac_output :: u32
  ac_cost :: f64

definition record_call :: "budget_tracker \<Rightarrow> api_call \<Rightarrow> budget_tracker" where
  "record_call b c = record_usage (ac_input c) (ac_output c) (ac_cost c) b"

definition spent :: "api_call list \<Rightarrow> nat" where
  "spent cs = sum_list (map (\<lambda>c. unat (micro_cents (ac_cost c))) cs)"

lemma record_usage_simps [simp]:
  "cumulative_micro_cents (record_usage i out c b) = cumulative_micro_cents b + micro_cents c"
  "max_micro_cents (record_usage i out c b) = max_micro_cents b"
  by (simp_all add: record_usage_def)

lemma record_calls_max [simp]: "max_micro_cents (foldl record_call b cs) = max_micro_cents b"
  by (induction cs arbitrary: b) (simp_all add: record_call_def)

lemma record_calls_cumulative:
  "unat (cumulative_micro_cents b) + spent cs < 2 ^ 64
   \<Longrightarrow> unat (cumulative_micro_cents (foldl record_call b cs)) = unat (cumulative_micro_cents b) + spent cs"
proof (induction cs arbitrary: b)
  case (Cons c cs)
  have "unat (cumulative_micro_cents (record_call b c))
      = unat (cumulative_micro_cents b) + unat (micro_cents (ac_cost c))"
    using Cons.prems by (simp add: record_call_def spent_def unat_word_ariths)
  then show ?case using Cons.IH [of "record_call b c"] Cons.prems by (simp add: spent_def)
qed (simp add: spent_def)

lemma check_budget_iff:
  "check_budget b = Inr () \<longleftrightarrow> max_micro_cents b = 0 \<or> cumulative_micro_cents b < max_micro_cents b"
  by (auto simp: check_budget_def)

text \<open>C40: The budget tracker stops a run of calls exactly when a limit was configured and the
  micro-cents of the calls made, each rounded down, reach it; without a limit it never does. (As
  long as the counter, which holds 184 billion dollars, does not wrap.)\<close>

theorem budget_exact:
  assumes "spent cs < 2 ^ 64"
  shows "check_budget (foldl record_call (bt_new limit) cs) = Inr ()
    \<longleftrightarrow> micro_cents limit = 0 \<or> spent cs < unat (micro_cents limit)"
  using record_calls_cumulative [of "bt_new limit" cs] assms
  by (simp add: check_budget_iff bt_new_def word_less_nat_alt)

lemma one_usd: "uint (micro_cents 1) = 100000000" "uint (micro_cents (1 / 2)) = 50000000"
  by code_simp+

theorem budget_exact_witness:
  "check_budget (foldl record_call (bt_new (1 / 2)) [\<lparr>ac_input = 1000, ac_output = 500, ac_cost = 1 / 2\<rparr>])
     \<noteq> Inr ()"
proof -
  have "micro_cents (1 / 2) \<noteq> 0" using one_usd(2) by (metis uint_0_eq zero_neq_numeral)
  then show ?thesis
    using budget_exact [of "[\<lparr>ac_input = 1000, ac_output = 500, ac_cost = 1 / 2\<rparr>]" "1 / 2"]
      unat_u64_less [of "micro_cents (1 / 2)"]
    by (simp add: spent_def)
qed

text \<open>A model whose name contains one of the names of open-weight families costs nothing,
  whoever serves it: with such a model no limit ever stops the agent.\<close>

lemma zero_priced: "calculate_cost i out (pricing 0 0) = 0"
  by (simp add: calculate_cost_def pricing_def)

lemma free_by_name: "get_pricing ''meta-llama/llama-3.1-405b'' = pricing 0 0"
  "get_pricing ''glm-4.6v'' = pricing 0 0"
  by code_simp+

end
