(* ===== verification/Agent_Runtime.thy ===== *)
theory Agent_Runtime
  imports Context Budget Tool_Executor Self_Correction Done_Criteria Circuit_Breaker Task_Queue
begin

text \<open>
  The agent's main loop (\<open>skyclaw-agent/src/runtime.rs\<close>): \<open>process_message\<close> puts the user's
  message in the history and asks the provider until it answers without a tool call, running
  the tools it calls in between. The components it composes are those of the other theories.
  What is outside the agent (the provider, the memory, the tools, files, clocks, the task
  queue's database, the messages other tasks leave) acts on a world \<open>'w\<close> through the fields of
  \<open>agent_env\<close>. The model runs one message; no other task touches the breaker, the budget or the
  task queue meanwhile. \<^const>\<open>None\<close> is a panic.
\<close>

section \<open>Messages and results\<close>

record attachment_ref =
  att_file_id :: string
  att_file_name :: "string option"
  att_mime_type :: "string option"
  att_size :: "nat option"

record inbound_message =
  in_id :: string
  in_channel :: string
  in_chat_id :: string
  in_user_id :: string
  in_username :: "string option"
  in_text :: "string option"
  in_attachments :: "attachment_ref list"
  in_reply_to :: "string option"
  in_timestamp :: int

record turn_usage =
  tu_api_calls :: u32
  tu_input_tokens :: u32
  tu_output_tokens :: u32
  tu_tools_used :: u32
  tu_total_cost_usd :: f64
  tu_provider :: string
  tu_model :: string

definition turn_usage_default :: turn_usage where
  "turn_usage_default = \<lparr>tu_api_calls = 0, tu_input_tokens = 0, tu_output_tokens = 0, tu_tools_used = 0,
     tu_total_cost_usd = 0, tu_provider = [], tu_model = []\<rparr>"

definition IMAGE_MIME_TYPES :: "string list" where
  "IMAGE_MIME_TYPES = [''image/jpeg'', ''image/png'', ''image/gif'', ''image/webp'']"

definition MAX_TOOL_OUTPUT_CHARS :: nat where
  "MAX_TOOL_OUTPUT_CHARS = 30000"

section \<open>The agent and what it works with\<close>

text \<open>
  \<open>pending_peek\<close> locks the shared map (\<^const>\<open>None\<close>: the lock is poisoned), \<open>pending_put\<close> writes
  it back; both are absent when the caller gives no queue. \<open>history_json\<close> may fail.
\<close>

record 'w agent_env =
  provider_name :: string
  provider_complete :: "completion_request \<Rightarrow> 'w \<Rightarrow> completion_response result \<times> 'w"
  agent_memory :: "'w memory_ops"
  ctx_env :: context_env
  canonical :: "'w \<Rightarrow> canonicalize"
  read_bytes :: "path \<Rightarrow> 'w \<Rightarrow> string + string"
  base64_encode :: "string \<Rightarrow> string"
  instant_now :: "'w \<Rightarrow> instant"
  utc_now :: "'w \<Rightarrow> int"
  rfc3339_now :: "'w \<Rightarrow> string"
  fresh_uuid :: "'w \<Rightarrow> string \<times> 'w"
  queue_fault :: "'w \<Rightarrow> string option \<times> 'w"
  interrupt_flag :: "('w \<Rightarrow> bool) option"
  pending_peek :: "('w \<Rightarrow> (string, string list) hmap option) option"
  pending_put :: "(string, string list) hmap \<Rightarrow> 'w \<Rightarrow> 'w"
  history_json :: "chat_message list \<Rightarrow> string option"
  learning_json :: "task_learning \<Rightarrow> string"

record 'w agent_runtime =
  ar_tools :: "'w tool list"
  ar_describe :: "'w tool \<Rightarrow> string \<times> json"
  ar_model :: string
  ar_system_prompt :: "string option"
  ar_max_turns :: nat
  ar_max_context_tokens :: nat
  ar_max_tool_rounds :: nat
  ar_max_task_duration :: duration
  ar_verification_enabled :: bool
  ar_max_consecutive_failures :: nat
  ar_has_queue :: bool
  ar_pricing :: model_pricing

text \<open>What changes: the breaker, the budget and the queue, the session, and the world.\<close>

record 'w agent_state =
  as_breaker :: circuit_breaker
  as_budget :: budget_tracker
  as_queue :: task_queue
  as_session :: session_context
  as_world :: 'w

definition agent_with_limits :: "'w tool list \<Rightarrow> ('w tool \<Rightarrow> string \<times> json) \<Rightarrow> string \<Rightarrow> string option \<Rightarrow>
    nat \<Rightarrow> nat \<Rightarrow> nat \<Rightarrow> nat \<Rightarrow> f64 \<Rightarrow> 'w agent_runtime \<times> circuit_breaker \<times> budget_tracker" where
  "agent_with_limits tools describe model system_prompt max_turns max_context_tokens max_tool_rounds
      max_task_duration_secs spend_limit =
     (\<lparr>ar_tools = tools, ar_describe = describe, ar_model = model, ar_system_prompt = system_prompt,
       ar_max_turns = max_turns, ar_max_context_tokens = max_context_tokens,
       ar_max_tool_rounds = max_tool_rounds, ar_max_task_duration = secs max_task_duration_secs,
       ar_verification_enabled = True, ar_max_consecutive_failures = 2, ar_has_queue = False,
       ar_pricing = get_pricing model\<rparr>, cb_default, bt_new spend_limit)"

definition agent_new :: "'w tool list \<Rightarrow> ('w tool \<Rightarrow> string \<times> json) \<Rightarrow> string \<Rightarrow> string option \<Rightarrow>
    'w agent_runtime \<times> circuit_breaker \<times> budget_tracker" where
  "agent_new tools describe model system_prompt =
     (\<lparr>ar_tools = tools, ar_describe = describe, ar_model = model, ar_system_prompt = system_prompt,
       ar_max_turns = 200, ar_max_context_tokens = 30000, ar_max_tool_rounds = 200,
       ar_max_task_duration = secs 1800, ar_verification_enabled = True,
       ar_max_consecutive_failures = 2, ar_has_queue = False,
       ar_pricing = get_pricing model\<rparr>, cb_default, bt_new 0)"

definition with_task_queue :: "'w agent_runtime \<Rightarrow> 'w agent_runtime" where
  "with_task_queue a = a\<lparr>ar_has_queue := True\<rparr>"

definition tool_definition_of :: "'w agent_runtime \<Rightarrow> 'w tool \<Rightarrow> tool_definition" where
  "tool_definition_of a t = \<lparr>td_name = tool_name t, td_description = fst (ar_describe a t),
     td_parameters = snd (ar_describe a t)\<rparr>"

definition saturating_add :: "u32 \<Rightarrow> u32 \<Rightarrow> u32" where
  "saturating_add x y = (if 2 ^ 32 \<le> unat x + unat y then - 1 else x + y)"

section \<open>The user's message\<close>

definition attachment_text :: "attachment_ref \<Rightarrow> string" where
  "attachment_text a =
     (let name = (case att_file_name a of None \<Rightarrow> ''file'' | Some n \<Rightarrow> n);
          mime = (case att_mime_type a of None \<Rightarrow> ''unknown type'' | Some t \<Rightarrow> t)
      in ''[Attached: '' @ name @ '' ('' @ mime @ '')]'')"

text \<open>\<^const>\<open>None\<close>: the message is empty.\<close>

definition message_text :: "inbound_message \<Rightarrow> string option" where
  "message_text msg =
     (let descs = (if in_attachments msg \<noteq> []
          then Some (join '' '' (map attachment_text (in_attachments msg))) else None)
      in case in_text msg of
           Some t \<Rightarrow> if trim t \<noteq> [] then Some t else descs
         | None \<Rightarrow> descs)"

definition load_image :: "'w agent_env \<Rightarrow> session_context \<Rightarrow> 'w \<Rightarrow> attachment_ref \<Rightarrow> content_part option" where
  "load_image env session w att =
     (let mime = (case att_mime_type att of None \<Rightarrow> [] | Some t \<Rightarrow> t)
      in if mime \<notin> set IMAGE_MIME_TYPES then None
         else case att_file_name att of
             None \<Rightarrow> None
           | Some file_name \<Rightarrow>
               (case read_bytes env (path_join (components (workspace_path session)) (components file_name)) w of
                  Inl _ \<Rightarrow> None
                | Inr bytes \<Rightarrow> Some (Image mime (base64_encode env bytes))))"

text \<open>The text and the images of the message, after the check that the model has vision.\<close>

definition vision_check :: "string \<Rightarrow> content_part list \<Rightarrow> string \<Rightarrow> content_part list \<times> string" where
  "vision_check model image_parts user_text =
     (if image_parts \<noteq> [] \<and> \<not> model_supports_vision model
      then ([], ''['' @ nat_str (length image_parts) @ '' image(s) received but your current model (''
             @ model @ '') does not support vision. Switch to a vision-capable model to analyze images. ''
             @ ''Examples: claude-sonnet-4-6, gpt-5.2, gemini-3-flash-preview, glm-4.6v-flash]''
             @ nl @ nl @ user_text)
      else (image_parts, user_text))"

definition user_message :: "content_part list \<Rightarrow> string \<Rightarrow> chat_message" where
  "user_message image_parts user_text = \<lparr>msg_role = User,
     msg_content = (if image_parts = [] then Text user_text else Parts (PText user_text # image_parts))\<rparr>"

section \<open>A round of tools\<close>

text \<open>The content of a result and whether it is an error.\<close>

definition tool_content :: "tool_output result \<Rightarrow> (string \<times> bool) option" where
  "tool_content r = (case r of
      Inr out \<Rightarrow>
        if MAX_TOOL_OUTPUT_CHARS < length (to_content out)
        then map_option (\<lambda>truncated. (truncated @ ''...'' @ nl @ nl @ ''[Output truncated '' @ em_dash @ '' ''
               @ nat_str (length (to_content out)) @ '' chars total]'', to_is_error out))
             (slice_to (to_content out) MAX_TOOL_OUTPUT_CHARS)
        else Some (to_content out, to_is_error out)
    | Inl e \<Rightarrow> Some (''Tool execution error: '' @ show_error e, True))"

text \<open>What the tracker makes of a result.\<close>

definition track_result :: "string \<Rightarrow> string \<times> bool \<Rightarrow> failure_tracker \<Rightarrow> (string \<times> failure_tracker) option" where
  "track_result name r tracker = (case r of (content, is_error) \<Rightarrow>
     (if is_error
      then let tracker' = ft_record_failure name content tracker
           in map_option (\<lambda>prompt. (case prompt of None \<Rightarrow> content | Some p \<Rightarrow> content @ p, tracker'))
                (format_rotation_prompt tracker' name)
      else Some (content, ft_record_success name tracker)))"

type_synonym tool_use = "string \<times> string \<times> json"

fun run_tools :: "'w agent_runtime \<Rightarrow> 'w agent_env \<Rightarrow> session_context \<Rightarrow> tool_use list \<Rightarrow>
    u32 \<Rightarrow> failure_tracker \<Rightarrow> 'w \<Rightarrow> (content_part list \<times> u32 \<times> failure_tracker \<times> 'w) option" where
  "run_tools a env session [] used tracker w = Some ([], used, tracker, w)"
| "run_tools a env session ((use_id, name, arguments) # uses) used tracker w =
     (case execute_tool (canonical env) name arguments (ar_tools a) session w of
        (None, _) \<Rightarrow> None
      | (Some r, w1) \<Rightarrow>
          (case tool_content r of
             None \<Rightarrow> None
           | Some (content, is_error) \<Rightarrow>
               (case track_result name (content, is_error) tracker of
                  None \<Rightarrow> None
                | Some (content', tracker') \<Rightarrow>
                    map_option (\<lambda>(parts, rest). (ToolResult use_id content' is_error (Some name) # parts, rest))
                      (run_tools a env session uses (saturating_add used 1) tracker' w1))))"

text \<open>\<open>if let Some(ToolResult { content, .. }) = parts.last_mut() { content.push_str(s) }\<close>.\<close>

fun push_last :: "string \<Rightarrow> content_part list \<Rightarrow> content_part list" where
  "push_last s [] = []"
| "push_last s [ToolResult i c e n] = [ToolResult i (c @ s) e n]"
| "push_last s [p] = [p]"
| "push_last s (p # q # ps) = p # push_last s (q # ps)"

definition pending_line :: "nat \<times> string \<Rightarrow> string" where
  "pending_line = (\<lambda>(i, t). ''  '' @ nat_str (i + 1) @ ''. '' @ [CHR 0x22] @ t @ [CHR 0x22])"

definition pending_notice :: "string list \<Rightarrow> string" where
  "pending_notice msgs =
     nl @ nl @ ''---'' @ nl @ ''[PENDING MESSAGES '' @ em_dash
     @ '' the user sent new message(s) while you were working. ''
     @ ''Acknowledge with send_message and decide: finish current task or stop and respond.]'' @ nl
     @ join nl (map pending_line (enumerate 0 msgs))"

definition inject_pending :: "'w agent_env \<Rightarrow> string \<Rightarrow> content_part list \<Rightarrow> 'w \<Rightarrow> content_part list \<times> 'w" where
  "inject_pending env chat parts w = (case pending_peek env of
      None \<Rightarrow> (parts, w)
    | Some peek \<Rightarrow>
        (case peek w of
           None \<Rightarrow> (parts, w)
         | Some pm \<Rightarrow>
             (case hm_get pm chat of
                None \<Rightarrow> (parts, w)
              | Some msgs \<Rightarrow>
                  (let w' = pending_put env (hm_remove chat pm) w
                   in if msgs \<noteq> [] then (push_last (pending_notice msgs) parts, w') else (parts, w')))))"

definition verification_hint :: string where
  "verification_hint =
     nl @ nl @ ''[VERIFICATION REQUIRED] Review the tool output(s) above. Before proceeding:'' @ nl
     @ ''1. Did the action succeed? What evidence confirms this?'' @ nl
     @ ''2. If it failed, what went wrong? Do NOT retry the same approach.'' @ nl
     @ ''3. If uncertain, use a tool to verify (e.g., check file exists, read output, test endpoint).''"

definition inject_hint :: "'w agent_runtime \<Rightarrow> content_part list \<Rightarrow> content_part list" where
  "inject_hint a parts = (if ar_verification_enabled a then push_last verification_hint parts else parts)"

section \<open>The task queue\<close>

text \<open>Each operation draws what the database does from the world; an error is only logged.\<close>

definition queue_status :: "'w agent_runtime \<Rightarrow> 'w agent_env \<Rightarrow> string option \<Rightarrow> task_status \<Rightarrow>
    'w agent_state \<Rightarrow> 'w agent_state" where
  "queue_status a env tid status st = (case tid of
      Some i \<Rightarrow> if ar_has_queue a
        then (case queue_fault env (as_world st) of (fault, w) \<Rightarrow>
          st\<lparr>as_queue := snd (update_status fault (rfc3339_now env (as_world st)) i status (as_queue st)),
             as_world := w\<rparr>)
        else st
    | None \<Rightarrow> st)"

definition queue_create :: "'w agent_runtime \<Rightarrow> 'w agent_env \<Rightarrow> string \<Rightarrow> string \<Rightarrow>
    'w agent_state \<Rightarrow> string option \<times> 'w agent_state" where
  "queue_create a env chat goal st =
     (if \<not> ar_has_queue a then (None, st)
      else case fresh_uuid env (as_world st) of (uuid, w1) \<Rightarrow>
        (case queue_fault env w1 of (fault, w2) \<Rightarrow>
          (case create_task fault uuid (rfc3339_now env w1) chat goal (as_queue st) of
             (Inl _, q) \<Rightarrow> (None, st\<lparr>as_queue := q, as_world := w2\<rparr>)
           | (Inr i, q) \<Rightarrow>
               (Some i, queue_status a env (Some i) task_status.Running (st\<lparr>as_queue := q, as_world := w2\<rparr>)))))"

definition queue_checkpoint :: "'w agent_runtime \<Rightarrow> 'w agent_env \<Rightarrow> string option \<Rightarrow>
    'w agent_state \<Rightarrow> 'w agent_state" where
  "queue_checkpoint a env tid st = (case tid of
      Some i \<Rightarrow> if ar_has_queue a
        then (case history_json env (sess_history (as_session st)) of
            None \<Rightarrow> st
          | Some data \<Rightarrow> (case queue_fault env (as_world st) of (fault, w) \<Rightarrow>
              st\<lparr>as_queue := snd (checkpoint fault (rfc3339_now env (as_world st)) i data (as_queue st)),
                 as_world := w\<rparr>))
        else st
    | None \<Rightarrow> st)"

section \<open>The final reply\<close>

definition learning_entry :: "'w agent_env \<Rightarrow> session_context \<Rightarrow> string \<Rightarrow> int \<Rightarrow> task_learning \<Rightarrow> memory_entry" where
  "learning_entry env session uuid now l =
     \<lparr>me_id = ''learning:'' @ uuid, me_content = learning_json env l,
      me_metadata = JObject [(''type'', JString ''learning''), (''task_type'', JString (task_type l)),
        (''outcome'', JString (debug_outcome (outcome l)))],
      me_timestamp = now, me_session_id = Some (session_id session), me_type = LongTerm\<rparr>"

fun store_learnings :: "'w agent_env \<Rightarrow> session_context \<Rightarrow> task_learning list \<Rightarrow> 'w \<Rightarrow> 'w" where
  "store_learnings env session [] w = w"
| "store_learnings env session (l # ls) w =
     (case fresh_uuid env w of (uuid, w1) \<Rightarrow>
        store_learnings env session ls
          (snd (store_op (agent_memory env) (learning_entry env session uuid (utc_now env w1) l) w1)))"

definition push_history :: "chat_message \<Rightarrow> 'w agent_state \<Rightarrow> 'w agent_state" where
  "push_history m st = st\<lparr>as_session := (as_session st)\<lparr>sess_history := sess_history (as_session st) @ [m]\<rparr>\<rparr>"

text \<open>The reply, the memory and the queue; \<^const>\<open>None\<close> if the extraction of learnings panics.\<close>

definition finish_reply :: "'w agent_runtime \<Rightarrow> 'w agent_env \<Rightarrow> string option \<Rightarrow> bool \<Rightarrow> string list \<Rightarrow>
    'w agent_state \<Rightarrow> (string \<times> 'w agent_state) option" where
  "finish_reply a env tid is_compound text_parts st =
     (let reply_text = join nl text_parts
            @ (if is_compound then format_verification_prompt dc_new else []);
          st1 = push_history \<lparr>msg_role = Assistant, msg_content = Text reply_text\<rparr> st
      in map_option (\<lambda>learnings. (reply_text, queue_status a env tid task_status.Completed
             (st1\<lparr>as_world := store_learnings env (as_session st1) learnings (as_world st1)\<rparr>)))
           (extract_learnings (utc_now env (as_world st1)) (sess_history (as_session st1))))"

section \<open>The loop\<close>

record turn =
  tn_api_calls :: u32
  tn_input_tokens :: u32
  tn_output_tokens :: u32
  tn_tools_used :: u32
  tn_cost_usd :: f64

definition turn_new :: turn where
  "turn_new = \<lparr>tn_api_calls = 0, tn_input_tokens = 0, tn_output_tokens = 0, tn_tools_used = 0, tn_cost_usd = 0\<rparr>"

definition turn_usage_of :: "'w agent_runtime \<Rightarrow> 'w agent_env \<Rightarrow> turn \<Rightarrow> turn_usage" where
  "turn_usage_of a env t = \<lparr>tu_api_calls = tn_api_calls t, tu_input_tokens = tn_input_tokens t,
     tu_output_tokens = tn_output_tokens t, tu_tools_used = tn_tools_used t,
     tu_total_cost_usd = tn_cost_usd t, tu_provider = provider_name env, tu_model = ar_model a\<rparr>"

definition reply_to :: "inbound_message \<Rightarrow> string \<Rightarrow> parse_mode option \<Rightarrow> outbound_message" where
  "reply_to msg text mode = \<lparr>out_chat_id = in_chat_id msg, out_text = text, out_reply_to = Some (in_id msg),
     out_parse_mode = mode\<rparr>"

type_synonym 'w outcome = "(outbound_message \<times> turn_usage) result \<times> 'w agent_state"

datatype 'w round = Panic | Return "'w outcome" | Continue turn failure_tracker "'w agent_state"

definition count_usage :: "completion_response \<Rightarrow> f64 \<Rightarrow> turn \<Rightarrow> turn" where
  "count_usage resp call_cost t =
     t\<lparr>tn_api_calls := saturating_add (tn_api_calls t) 1,
       tn_input_tokens := saturating_add (tn_input_tokens t) (us_input_tokens (cs_usage resp)),
       tn_output_tokens := saturating_add (tn_output_tokens t) (us_output_tokens (cs_usage resp)),
       tn_cost_usd := to_f64 (tn_cost_usd t + call_cost)\<rparr>"

fun tool_use_of :: "content_part \<Rightarrow> tool_use option" where
  "tool_use_of (ToolUse i name input) = Some (i, name, input)"
| "tool_use_of _ = None"

text \<open>What follows a response.\<close>

definition handle_response :: "'w agent_runtime \<Rightarrow> 'w agent_env \<Rightarrow> inbound_message \<Rightarrow> string option \<Rightarrow> bool \<Rightarrow>
    completion_response \<Rightarrow> turn \<Rightarrow> failure_tracker \<Rightarrow> 'w agent_state \<Rightarrow> 'w round" where
  "handle_response a env msg tid is_compound resp t tracker st =
     (let text_parts = List.map_filter text_of_part (cs_content resp);
          tool_uses = List.map_filter tool_use_of (cs_content resp)
      in if tool_uses = []
         then (case finish_reply a env tid is_compound text_parts st of
                 None \<Rightarrow> Panic
               | Some (reply, st') \<Rightarrow> Return (Inr (reply_to msg reply None, turn_usage_of a env t), st'))
         else let st1 = push_history \<lparr>msg_role = Assistant, msg_content = Parts (cs_content resp)\<rparr> st
              in (case run_tools a env (as_session st1) tool_uses (tn_tools_used t) tracker (as_world st1) of
                    None \<Rightarrow> Panic
                  | Some (parts, used, tracker', w1) \<Rightarrow>
                      (case inject_pending env (in_chat_id msg) parts w1 of (parts1, w2) \<Rightarrow>
                         Continue (t\<lparr>tn_tools_used := used\<rparr>) tracker'
                           (queue_checkpoint a env tid
                             (push_history \<lparr>msg_role = RoleTool, msg_content = Parts (inject_hint a parts1)\<rparr>
                               (st1\<lparr>as_world := w2\<rparr>))))))"

text \<open>One round, after the checks of the loop's head.\<close>

definition agent_round :: "'w agent_runtime \<Rightarrow> 'w agent_env \<Rightarrow> inbound_message \<Rightarrow> string option \<Rightarrow> bool \<Rightarrow>
    turn \<Rightarrow> failure_tracker \<Rightarrow> 'w agent_state \<Rightarrow> 'w round" where
  "agent_round a env msg tid is_compound t tracker st0 =
     (case build_context (ctx_env env) (agent_memory env) (as_session st0) (map (tool_definition_of a) (ar_tools a))
             (ar_model a) (ar_system_prompt a) (ar_max_turns a) (ar_max_context_tokens a) (as_world st0) of
        (request, w1) \<Rightarrow>
          (case check_budget (as_budget st0) of
             Inl budget_err \<Rightarrow>
               Return (Inr (reply_to msg budget_err (Some Plain), turn_usage_of a env t), st0\<lparr>as_world := w1\<rparr>)
           | Inr _ \<Rightarrow>
               (case cb_can_execute (instant_now env w1) (as_breaker st0) of
                  (False, cb) \<Rightarrow>
                    Return (Inr (reply_to msg
                        (''The AI provider is currently unavailable. I'' @ [CHR 0x27]
                         @ ''ll retry automatically when it recovers.'') (Some Plain), turn_usage_of a env t),
                      st0\<lparr>as_world := w1, as_breaker := cb\<rparr>)
                | (True, cb) \<Rightarrow>
                    (case provider_complete env request w1 of
                       (Inl e, w2) \<Rightarrow>
                         (case cb_record_failure (instant_now env w2) cb of
                            (True, _) \<Rightarrow> Panic
                          | (False, cb') \<Rightarrow> Return (Inl e, st0\<lparr>as_world := w2, as_breaker := cb'\<rparr>))
                     | (Inr resp, w2) \<Rightarrow>
                         (let inp = us_input_tokens (cs_usage resp);
                              outp = us_output_tokens (cs_usage resp);
                              call_cost = calculate_cost inp outp (ar_pricing a)
                          in handle_response a env msg tid is_compound resp (count_usage resp call_cost t) tracker
                               (st0\<lparr>as_world := w2, as_breaker := cb_record_success cb,
                                    as_budget := record_usage inp outp call_cost (as_budget st0)\<rparr>))))))"

definition interrupted_text :: string where
  "interrupted_text = ''I was interrupted to handle a new message. I'' @ [CHR 0x27]
     @ ''ll pick up where I left off if needed.''"

definition exhausted_text :: string where
  "exhausted_text = ''I reached the maximum number of tool execution steps. Here is what I have so far. ''
     @ ''Please let me know if you need me to continue.''"

text \<open>
  The loop, with the rounds that are left: \<open>max_tool_rounds\<close> at first. The checks at its head come
  in the order of the code: the interrupt, the time, the rounds.
\<close>

fun agent_loop :: "'w agent_runtime \<Rightarrow> 'w agent_env \<Rightarrow> inbound_message \<Rightarrow> string option \<Rightarrow> bool \<Rightarrow> instant \<Rightarrow>
    nat \<Rightarrow> turn \<Rightarrow> failure_tracker \<Rightarrow> 'w agent_state \<Rightarrow> 'w outcome option" where
  "agent_loop a env msg tid is_compound task_start rounds_left t tracker st =
     (if (case interrupt_flag env of None \<Rightarrow> False | Some flag \<Rightarrow> flag (as_world st))
      then Some (Inr (reply_to msg interrupted_text (Some Plain), turn_usage_of a env t), st)
      else if ar_max_task_duration a < elapsed (instant_now env (as_world st)) task_start
      then Some (Inr (reply_to msg exhausted_text (Some Plain), turn_usage_of a env t), st)
      else case rounds_left of
          0 \<Rightarrow> Some (Inr (reply_to msg exhausted_text (Some Plain), turn_usage_of a env t), st)
        | Suc n \<Rightarrow>
            (case agent_round a env msg tid is_compound t tracker st of
               Panic \<Rightarrow> None
             | Return r \<Rightarrow> Some r
             | Continue t' tracker' st' \<Rightarrow> agent_loop a env msg tid is_compound task_start n t' tracker' st'))"

declare agent_loop.simps [simp del]

text \<open>The detected credentials are only logged; the detector has no part in the result.\<close>

definition process_message :: "'w agent_runtime \<Rightarrow> 'w agent_env \<Rightarrow> inbound_message \<Rightarrow> 'w agent_state \<Rightarrow>
    'w outcome option" where
  "process_message a env msg st =
     (case message_text msg of
        None \<Rightarrow> Some (Inr (reply_to msg ''I received an empty message. Please send some text or a file.'' None,
                  turn_usage_default), st)
      | Some text \<Rightarrow>
          (case vision_check (ar_model a)
                  (List.map_filter (load_image env (as_session st) (as_world st)) (in_attachments msg)) text of
             (image_parts, user_text) \<Rightarrow>
               (let st1 = push_history (user_message image_parts user_text) st;
                    is_compound = is_compound_task user_text;
                    st2 = (if is_compound then push_history (system_message (format_done_prompt user_text)) st1 else st1);
                    (tid, st3) = queue_create a env (in_chat_id msg) user_text st2
                in agent_loop a env msg tid is_compound (instant_now env (as_world st3)) (ar_max_tool_rounds a)
                     turn_new (ft_new (ar_max_consecutive_failures a)) st3)))"

section \<open>The history of a turn\<close>

text \<open>
  What the providers require of a history: each assistant message with tool calls is followed
  at once by a tool message that answers exactly these calls, in their order.
\<close>

fun result_ref :: "content_part \<Rightarrow> (string \<times> string option) option" where
  "result_ref (ToolResult i _ _ name) = Some (i, name)"
| "result_ref _ = None"

definition use_ref :: "tool_use \<Rightarrow> (string \<times> string option) option" where
  "use_ref = (\<lambda>(i, name, _). Some (i, Some name))"

fun answers :: "chat_message \<Rightarrow> chat_message \<Rightarrow> bool" where
  "answers m r = (case (msg_content m, msg_content r) of
      (Parts ps, Parts rs) \<Rightarrow>
        msg_role m = Assistant \<and> msg_role r = RoleTool \<and> List.map_filter tool_use_of ps \<noteq> [] \<and>
        map result_ref rs = map use_ref (List.map_filter tool_use_of ps)
    | _ \<Rightarrow> False)"

fun final_reply :: "chat_message \<Rightarrow> string option" where
  "final_reply m = (case msg_content m of
      Text t \<Rightarrow> if msg_role m = Assistant then Some t else None
    | Parts _ \<Rightarrow> None)"

fun rounds_ok :: "chat_message list \<Rightarrow> bool" where
  "rounds_ok [] = True"
| "rounds_ok [m] = (final_reply m \<noteq> None)"
| "rounds_ok (m # r # ms) = (answers m r \<and> rounds_ok ms)"

text \<open>The user's message, perhaps the DONE prompt, and the rounds.\<close>

fun turn_ok :: "chat_message list \<Rightarrow> bool" where
  "turn_ok [] = True"
| "turn_ok (u # ms) = (msg_role u = User \<and>
     (rounds_ok ms \<or> (case ms of [] \<Rightarrow> False | d # rest \<Rightarrow> msg_role d = System \<and> rounds_ok rest)))"

abbreviation hist :: "'w agent_state \<Rightarrow> chat_message list" where
  "hist st \<equiv> sess_history (as_session st)"

text \<open>The final reply of the messages a turn added, if it has one.\<close>

definition reply_of :: "chat_message list \<Rightarrow> string option" where
  "reply_of ms = (if ms = [] then None else final_reply (last ms))"

lemma run_tools_refs:
  "run_tools a env session uses used tracker w = Some (parts, rest) \<Longrightarrow> map result_ref parts = map use_ref uses"
proof (induction uses arbitrary: used tracker w parts rest)
  case (Cons u uses)
  then show ?case
    by (cases u) (auto simp: use_ref_def split: prod.splits option.splits)
qed simp

lemma push_last_refs [simp]: "map result_ref (push_last s ps) = map result_ref ps"
  by (induction s ps rule: push_last.induct) auto

lemma inject_pending_refs: "inject_pending env chat parts w = (parts', w') \<Longrightarrow> map result_ref parts' = map result_ref parts"
  by (auto simp: inject_pending_def Let_def split: option.splits if_splits)

lemma inject_hint_refs [simp]: "map result_ref (inject_hint a parts) = map result_ref parts"
  by (simp add: inject_hint_def)

lemma queue_session [simp]:
  "as_session (queue_status a env tid status st) = as_session st"
  "as_session (queue_checkpoint a env tid st) = as_session st"
  by (auto simp: queue_status_def queue_checkpoint_def split: option.splits prod.splits)

lemma queue_create_session: "queue_create a env chat goal st = (tid, st') \<Longrightarrow> as_session st' = as_session st"
  by (auto simp: queue_create_def split: prod.splits sum.splits if_splits)

lemma push_history_simps [simp]:
  "hist (push_history m st) = hist st @ [m]"
  "as_world (push_history m st) = as_world st"
  "as_queue (push_history m st) = as_queue st"
  "as_breaker (push_history m st) = as_breaker st"
  "as_budget (push_history m st) = as_budget st"
  by (simp_all add: push_history_def)

lemma finish_reply_history:
  "finish_reply a env tid is_compound texts st = Some (reply, st') \<Longrightarrow>
   hist st' = hist st @ [\<lparr>msg_role = Assistant, msg_content = Text reply\<rparr>]"
  by (auto simp: finish_reply_def Let_def)

text \<open>What a response adds to the history.\<close>

lemma handle_response_continue:
  assumes "handle_response a env msg tid is_compound resp t tracker st = Continue t' tracker' st'"
  obtains m r where "answers m r" "hist st' = hist st @ [m, r]" "tn_api_calls t' = tn_api_calls t"
proof -
  let ?uses = "List.map_filter tool_use_of (cs_content resp)"
  let ?m = "\<lparr>msg_role = Assistant, msg_content = Parts (cs_content resp)\<rparr>"
  have ne: "?uses \<noteq> []"
    using assms by (auto simp: handle_response_def Let_def split: option.splits if_splits)
  obtain parts used w1 parts1 w2 where
      run: "run_tools a env (as_session (push_history ?m st)) ?uses (tn_tools_used t) tracker
        (as_world (push_history ?m st)) = Some (parts, used, tracker', w1)"
    and inj: "inject_pending env (in_chat_id msg) parts w1 = (parts1, w2)"
    and st': "hist st' = hist st @ [?m, \<lparr>msg_role = RoleTool, msg_content = Parts (inject_hint a parts1)\<rparr>]"
    and t': "t' = t\<lparr>tn_tools_used := used\<rparr>"
    using assms ne
    by (auto simp: handle_response_def Let_def push_history_def split: option.splits prod.splits)
  show thesis
    using that [OF _ st'] ne run_tools_refs [OF run] inject_pending_refs [OF inj] by (simp add: t')
qed

lemma handle_response_return:
  assumes "handle_response a env msg tid is_compound resp t tracker st = Return (r, st')"
  obtains reply where "hist st' = hist st @ [\<lparr>msg_role = Assistant, msg_content = Text reply\<rparr>]"
    "r = Inr (reply_to msg reply None, turn_usage_of a env t)"
  using assms that
  by (auto simp: handle_response_def Let_def dest!: finish_reply_history split: option.splits if_splits prod.splits)

text \<open>A round adds a call and its results, or ends the turn, with or without a final reply.\<close>

lemma agent_round_continue:
  assumes "agent_round a env msg tid is_compound t tracker st = Continue t' tracker' st'"
  obtains m r where "answers m r" "hist st' = hist st @ [m, r]"
    "tn_api_calls t' = saturating_add (tn_api_calls t) 1"
  using assms unfolding agent_round_def
  by (auto simp: Let_def count_usage_def split: prod.splits sum.splits bool.splits
      elim!: handle_response_continue)

lemma agent_round_return:
  assumes "agent_round a env msg tid is_compound t tracker st = Return (r, st')"
  obtains "hist st' = hist st" "\<And>out u. r = Inr (out, u) \<Longrightarrow> u = turn_usage_of a env t"
  | reply u where "hist st' = hist st @ [\<lparr>msg_role = Assistant, msg_content = Text reply\<rparr>]"
      "r = Inr (reply_to msg reply None, u)" "tu_api_calls u = saturating_add (tn_api_calls t) 1"
  using assms unfolding agent_round_def
  by (auto simp: Let_def count_usage_def turn_usage_of_def split: prod.splits sum.splits bool.splits
      elim!: handle_response_return)

text \<open>The whole loop. \<open>calls\<close> counts what it added to the call counter.\<close>

fun assistant_count :: "chat_message list \<Rightarrow> nat" where
  "assistant_count ms = length (filter (\<lambda>m. msg_role m = Assistant) ms)"

lemma saturating_add_one: "unat x + 1 < 2 ^ 32 \<Longrightarrow> unat (saturating_add x 1) = unat x + 1"
  by (simp add: saturating_add_def unat_word_ariths)

lemma reply_of_simps [simp]:
  "reply_of [] = None" "reply_of [m] = final_reply m" "reply_of (m # r # ms) = (if ms = [] then final_reply r else reply_of ms)"
  by (simp_all add: reply_of_def)

lemma answers_roles: "answers m r \<Longrightarrow> msg_role m = Assistant \<and> msg_role r = RoleTool \<and> final_reply r = None"
  by (auto split: message_content.splits)

text \<open>What the result of a turn says of the messages the loop added: the reply it returns is the one
  in the history, and its usage counts the provider's answers.\<close>

fun outcome_ok :: "inbound_message \<Rightarrow> nat \<Rightarrow> chat_message list \<Rightarrow> (outbound_message \<times> turn_usage) result \<Rightarrow> bool" where
  "outcome_ok msg calls ms (Inl e) \<longleftrightarrow> reply_of ms = None"
| "outcome_ok msg calls ms (Inr (out, u)) \<longleftrightarrow> unat (tu_api_calls u) = calls + assistant_count ms \<and>
     (case reply_of ms of None \<Rightarrow> True | Some reply \<Rightarrow> out = reply_to msg reply None)"

lemma outcome_ok_Nil:
  "(\<And>out u. r = Inr (out, u) \<Longrightarrow> u = turn_usage_of a env t) \<Longrightarrow> outcome_ok msg (unat (tn_api_calls t)) [] r"
  by (cases "(msg, 0 :: nat, [] :: chat_message list, r)" rule: outcome_ok.cases) (auto simp: turn_usage_of_def)

lemma outcome_ok_round:
  assumes "outcome_ok msg (Suc calls) ms r" and "answers m r1"
  shows "outcome_ok msg calls (m # r1 # ms) r"
  using assms(1) answers_roles [OF assms(2)]
  by (cases "(msg, calls, ms, r)" rule: outcome_ok.cases) (auto simp del: answers.simps)

lemma agent_loop_history:
  assumes "agent_loop a env msg tid is_compound start n t tracker st = Some (r, st')"
    and "unat (tn_api_calls t) + n < 2 ^ 32"
  shows "\<exists>ms. hist st' = hist st @ ms \<and> rounds_ok ms \<and> assistant_count ms \<le> n
    \<and> outcome_ok msg (unat (tn_api_calls t)) ms r"
  using assms
proof (induction n arbitrary: t tracker st)
  case 0
  then have st': "st' = st" and u: "\<And>out u. r = Inr (out, u) \<Longrightarrow> u = turn_usage_of a env t"
    by (subst (asm) agent_loop.simps, auto split: if_splits)+
  show ?case using outcome_ok_Nil [OF u] st' by (intro exI [of _ "[]"]) simp
next
  case (Suc n)
  consider (stop) "st' = st" "\<And>out u. r = Inr (out, u) \<Longrightarrow> u = turn_usage_of a env t"
    | (ret) "agent_round a env msg tid is_compound t tracker st = Return (r, st')"
    | (cont) t1 tr1 st1 where "agent_round a env msg tid is_compound t tracker st = Continue t1 tr1 st1"
        "agent_loop a env msg tid is_compound start n t1 tr1 st1 = Some (r, st')"
    using Suc.prems(1) by (subst (asm) agent_loop.simps) (auto split: if_splits round.splits)
  then show ?case
  proof cases
    case stop
    then show ?thesis using outcome_ok_Nil [OF stop(2)] by (intro exI [of _ "[]"]) simp
  next
    case ret
    then show ?thesis
    proof (cases rule: agent_round_return)
      case 1
      then show ?thesis using outcome_ok_Nil [OF 1(2)] by (intro exI [of _ "[]"]) simp
    next
      case (2 reply u)
      then show ?thesis using Suc.prems(2)
        by (intro exI [of _ "[\<lparr>msg_role = Assistant, msg_content = Text reply\<rparr>]"]) (simp add: saturating_add_one)
    qed
  next
    case (cont t1 tr1 st1)
    from cont(1) obtain m r1 where m: "answers m r1" "hist st1 = hist st @ [m, r1]"
        "tn_api_calls t1 = saturating_add (tn_api_calls t) 1"
      by (rule agent_round_continue)
    then have calls: "unat (tn_api_calls t1) = Suc (unat (tn_api_calls t))"
      using Suc.prems(2) by (simp add: saturating_add_one)
    then obtain ms where "hist st' = hist st1 @ ms" "rounds_ok ms" "assistant_count ms \<le> n"
        "outcome_ok msg (Suc (unat (tn_api_calls t))) ms r"
      using Suc.IH [OF cont(2)] Suc.prems(2) by auto
    then show ?thesis
      using m answers_roles [OF m(1)] outcome_ok_round
      by (intro exI [of _ "m # r1 # ms"]) (simp del: answers.simps)
  qed
qed

lemma process_message_history:
  assumes "process_message a env msg st = Some (r, st')" and "ar_max_tool_rounds a < 2 ^ 32"
  shows "\<exists>new. hist st' = hist st @ new \<and> turn_ok new \<and> assistant_count new \<le> ar_max_tool_rounds a
    \<and> (new \<noteq> [] \<longrightarrow> outcome_ok msg 0 new r)"
proof (cases "message_text msg")
  case None
  then show ?thesis using assms(1) by (intro exI [of _ "[]"]) (simp add: process_message_def)
next
  case (Some body)
  obtain image_parts user_text where vc: "vision_check (ar_model a)
      (List.map_filter (load_image env (as_session st) (as_world st)) (in_attachments msg)) body
      = (image_parts, user_text)"
    by fastforce
  define pre where "pre = user_message image_parts user_text
    # (if is_compound_task user_text then [system_message (format_done_prompt user_text)] else [])"
  define st2 where "st2 = (let st1 = push_history (user_message image_parts user_text) st
    in if is_compound_task user_text then push_history (system_message (format_done_prompt user_text)) st1 else st1)"
  obtain tid st3 where q: "queue_create a env (in_chat_id msg) user_text st2 = (tid, st3)" by fastforce
  have "agent_loop a env msg tid (is_compound_task user_text) (instant_now env (as_world st3)) (ar_max_tool_rounds a)
      turn_new (ft_new (ar_max_consecutive_failures a)) st3 = Some (r, st')"
    using assms(1) Some vc q by (simp add: process_message_def st2_def Let_def)
  from agent_loop_history [OF this] assms(2) obtain ms where ms: "hist st' = hist st3 @ ms" "rounds_ok ms"
      "assistant_count ms \<le> ar_max_tool_rounds a" "outcome_ok msg 0 ms r"
    by (auto simp: turn_new_def)
  have "hist st3 = hist st @ pre"
    using queue_create_session [OF q] by (simp add: st2_def pre_def Let_def)
  moreover have "turn_ok (pre @ ms)" "assistant_count (pre @ ms) = assistant_count ms"
      "ms \<noteq> [] \<Longrightarrow> reply_of (pre @ ms) = reply_of ms" "ms = [] \<Longrightarrow> reply_of (pre @ ms) = None"
    using ms(2) by (auto simp: pre_def user_message_def system_message_def reply_of_def)
  moreover have "outcome_ok msg 0 (pre @ ms) r"
    using ms(4) calculation
    by (cases "(msg, 0 :: nat, ms, r)" rule: outcome_ok.cases; cases "ms = []") (auto simp del: assistant_count.simps)
  ultimately show ?thesis using ms(1,3) by (intro exI [of _ "pre @ ms"]) simp
qed

text \<open>C3: A message turns the history into itself and a new turn: the user's message, perhaps the DONE
  prompt, and at most \<open>max_tool_rounds\<close> assistant messages, where each one with tool calls is
  followed at once by the results of exactly these calls, in order. A reply taken from the provider is the
  last message of the history, and the usage counts the provider's answers. This holds whatever
  the provider, the tools, the memory and the database do.\<close>

theorem process_message_turn:
  assumes "process_message a env msg st = Some (r, st')" and "ar_max_tool_rounds a < 2 ^ 32"
  shows "\<exists>new. hist st' = hist st @ new \<and> turn_ok new \<and> assistant_count new \<le> ar_max_tool_rounds a
    \<and> (new \<noteq> [] \<longrightarrow> outcome_ok msg 0 new r)"
  using assms by (rule process_message_history)

section \<open>An agent at work\<close>

text \<open>The world counts the provider's calls: the first answer calls a tool, the next is text.\<close>

definition demo_response :: "content_part \<Rightarrow> completion_response" where
  "demo_response p = \<lparr>cs_id = ''r'', cs_content = [p], cs_stop_reason = None,
     cs_usage = \<lparr>us_input_tokens = 10, us_output_tokens = 5, us_cost_usd = 0\<rparr>\<rparr>"

definition demo_env :: "nat agent_env" where
  "demo_env = \<lparr>provider_name = ''demo'',
     provider_complete = (\<lambda>_ w. (Inr (demo_response (if w = 0 then ToolUse ''1'' ''clock'' JNull else PText ''noon'')), Suc w)),
     agent_memory = \<lparr>store_op = (\<lambda>_ m. (Inl (Memory ''down''), m)), search_op = (\<lambda>_ _ m. (Inl (Memory ''down''), m)),
       get_op = (\<lambda>_ m. (Inl (Memory ''down''), m)), delete_op = (\<lambda>_ m. (Inl (Memory ''down''), m)),
       sessions_op = (\<lambda>m. (Inl (Memory ''down''), m)), history_op = (\<lambda>_ _ m. (Inl (Memory ''down''), m))\<rparr>,
     ctx_env = demo_context_env, canonical = (\<lambda>_ p. Some p), read_bytes = (\<lambda>_ _. Inl ''no file''),
     base64_encode = id, instant_now = (\<lambda>_. 0), utc_now = (\<lambda>_. 0), rfc3339_now = (\<lambda>_. ''2026-03-01''),
     fresh_uuid = (\<lambda>w. (''t1'', w)), queue_fault = (\<lambda>w. (None, w)), interrupt_flag = None,
     pending_peek = None, pending_put = (\<lambda>_ w. w), history_json = (\<lambda>_. Some ''[]''), learning_json = (\<lambda>_. ''{}'')\<rparr>"

definition demo_msg :: inbound_message where
  "demo_msg = \<lparr>in_id = ''m1'', in_channel = ''cli'', in_chat_id = ''c'', in_user_id = ''u'', in_username = None,
     in_text = Some ''time?'', in_attachments = [], in_reply_to = None, in_timestamp = 0\<rparr>"

definition demo_agent :: "nat agent_runtime" where
  "demo_agent = with_task_queue (fst (agent_new [] (\<lambda>_. ([], JNull)) ''claude-sonnet-4-6'' (Some ''Be brief.'')))"

definition demo_state :: "nat agent_state" where
  "demo_state = \<lparr>as_breaker = cb_default, as_budget = bt_new 0, as_queue = [],
     as_session = demo_session\<lparr>sess_history := []\<rparr>, as_world = 0\<rparr>"

lemma demo_context:
  "snd (build_context (ctx_env demo_env) (agent_memory demo_env) session tools model sp turns budget w) = w"
  by (simp add: build_context_def gather_context_def recall_memory_def recall_knowledge_def recall_learnings_def
      demo_env_def Let_def split: prod.splits)

lemma micro_cents_0 [simp]: "micro_cents 0 = 0"
  by (simp add: micro_cents_def f64_as_u64_def)

lemma demo_ready [simp]:
  "check_budget (record_usage i out c (bt_new 0)) = Inr ()" "check_budget (bt_new 0) = Inr ()"
  "cb_can_execute now cb_default = (True, cb_default)"
  "cb_record_success cb_default = cb_default" "is_compound_task ''time?'' = False"
  by (simp_all add: check_budget_def bt_new_def cb_can_execute_def cb_record_success_def cb_default_def cb_new_def
      is_compound_task_def) code_simp?

lemma demo_env_simps [simp]:
  "provider_complete demo_env = (\<lambda>_ w. (Inr (demo_response (if w = 0 then ToolUse ''1'' ''clock'' JNull else PText ''noon'')), Suc w))"
  "instant_now demo_env = (\<lambda>_. 0)" "interrupt_flag demo_env = None" "pending_peek demo_env = None"
  "utc_now demo_env = (\<lambda>_. 0)" "canonical demo_env = (\<lambda>_ p. Some p)"
  by (simp_all add: demo_env_def)

lemma demo_agent_simps [simp]:
  "ar_tools demo_agent = []" "ar_verification_enabled demo_agent" "ar_max_tool_rounds demo_agent = 200"
  "ar_max_consecutive_failures demo_agent = 2" "ar_max_task_duration demo_agent = secs 1800"
  "ar_has_queue demo_agent" "ar_model demo_agent = ''claude-sonnet-4-6''"
  by (simp_all add: demo_agent_def with_task_queue_def agent_new_def)

lemma demo_usage [simp]:
  "cs_usage (demo_response p) = \<lparr>us_input_tokens = 10, us_output_tokens = 5, us_cost_usd = 0\<rparr>"
  "cs_content (demo_response p) = [p]"
  by (simp_all add: demo_response_def)

lemma case_prod_snd: "(case p of (_, y) \<Rightarrow> g y) = g (snd p)"
  by (cases p) simp

lemma demo_round:
  "check_budget (as_budget st) = Inr () \<Longrightarrow> as_breaker st = cb_default \<Longrightarrow>
   agent_round demo_agent demo_env demo_msg tid False t tracker st
     = (let p = demo_response (if as_world st = 0 then ToolUse ''1'' ''clock'' JNull else PText ''noon'');
            cost = calculate_cost 10 5 (ar_pricing demo_agent)
        in handle_response demo_agent demo_env demo_msg tid False p (count_usage p cost t) tracker
         (st\<lparr>as_world := Suc (as_world st), as_breaker := cb_default, as_budget := record_usage 10 5 cost (as_budget st)\<rparr>))"
  by (simp add: agent_round_def Let_def case_prod_snd demo_context)

definition demo_result :: content_part where
  "demo_result = ToolResult ''1'' (''Tool execution error: Tool execution error: Unknown tool: clock'' @ verification_hint)
     True (Some ''clock'')"

lemma demo_tool_round:
  "\<exists>t' tr'. handle_response demo_agent demo_env demo_msg tid False
      (demo_response (ToolUse ''1'' ''clock'' JNull)) t (ft_new 2) st
    = Continue t' tr' (queue_checkpoint demo_agent demo_env tid (push_history \<lparr>msg_role = RoleTool, msg_content = Parts [demo_result]\<rparr>
        (push_history \<lparr>msg_role = Assistant, msg_content = Parts [ToolUse ''1'' ''clock'' JNull]\<rparr> st)))"
  by (simp add: handle_response_def map_filter_def execute_tool_def tool_content_def track_result_def Let_def
      ft_record_failure_def ft_new_def format_rotation_prompt_def inject_pending_def inject_hint_def demo_result_def)

lemma demo_queue [simp]:
  "as_world (queue_checkpoint demo_agent demo_env tid st) = as_world st"
  "as_budget (queue_checkpoint demo_agent demo_env tid st) = as_budget st"
  "as_breaker (queue_checkpoint demo_agent demo_env tid st) = as_breaker st"
  by (auto simp: queue_checkpoint_def demo_env_def split: option.splits)

definition demo_history :: "chat_message list" where
  "demo_history = [user_message [] ''time?'',
     \<lparr>msg_role = Assistant, msg_content = Parts [ToolUse ''1'' ''clock'' JNull]\<rparr>,
     \<lparr>msg_role = RoleTool, msg_content = Parts [demo_result]\<rparr>]"

lemma demo_learnings:
  "\<exists>ls. extract_learnings 0 (demo_history @ [\<lparr>msg_role = Assistant, msg_content = Text ''noon''\<rparr>]) = Some ls"
proof -
  have "extract_learnings 0 (demo_history @ [\<lparr>msg_role = Assistant, msg_content = Text ''noon''\<rparr>]) \<noteq> None"
    by code_simp
  then show ?thesis by blast
qed

lemma demo_answer:
  assumes "hist st = demo_history"
  shows "\<exists>st'. handle_response demo_agent demo_env demo_msg tid False (demo_response (PText ''noon'')) t tr st
    = Return (Inr (reply_to demo_msg ''noon'' None, turn_usage_of demo_agent demo_env t), st')"
  using demo_learnings assms
  by (auto simp: handle_response_def map_filter_def finish_reply_def Let_def)

lemma demo_returns: "\<exists>u st'. process_message demo_agent demo_env demo_msg demo_state = Some (Inr (reply_to demo_msg ''noon'' None, u), st')"
proof -
  let ?st1 = "push_history (user_message [] ''time?'') demo_state"
  obtain tid st3 where q: "queue_create demo_agent demo_env ''c'' ''time?'' ?st1 = (tid, st3)" by fastforce
  have st3: "as_world st3 = 0" "as_budget st3 = bt_new 0" "as_breaker st3 = cb_default" "hist st3 = [user_message [] ''time?'']"
    using q by (auto simp: queue_create_def queue_status_def demo_env_def demo_state_def push_history_def
        create_task_def)
  obtain t1 tr1 st4 where r1: "agent_round demo_agent demo_env demo_msg tid False turn_new (ft_new 2) st3 = Continue t1 tr1 st4"
      "as_world st4 = 1" "\<exists>c. as_budget st4 = record_usage 10 5 c (bt_new 0)" "as_breaker st4 = cb_default"
      "hist st4 = demo_history"
    using demo_tool_round st3 by (fastforce simp: demo_round Let_def demo_history_def)
  obtain u st' where "agent_round demo_agent demo_env demo_msg tid False t1 tr1 st4
      = Return (Inr (reply_to demo_msg ''noon'' None, u), st')"
  proof -
    have "check_budget (as_budget st4) = Inr ()" using r1(3) by auto
    from demo_round [OF this r1(4)] r1(2) obtain t5 st5 where
      "agent_round demo_agent demo_env demo_msg tid False t1 tr1 st4
         = handle_response demo_agent demo_env demo_msg tid False (demo_response (PText ''noon'')) t5 tr1 st5"
      "as_session st5 = as_session st4"
      by (simp add: Let_def)
    then show ?thesis using that demo_answer [of st5 tid t5 tr1] r1(5) by auto
  qed
  moreover have "agent_loop demo_agent demo_env demo_msg tid False 0 (Suc n) t tr st
      = (case agent_round demo_agent demo_env demo_msg tid False t tr st of Panic \<Rightarrow> None | Return r \<Rightarrow> Some r
           | Continue t' tr' st' \<Rightarrow> agent_loop demo_agent demo_env demo_msg tid False 0 n t' tr' st')" for n t tr st
    by (subst agent_loop.simps) (simp add: elapsed_def)
  from this [of 199] this [of 198] calculation
  have "agent_loop demo_agent demo_env demo_msg tid False 0 200 turn_new (ft_new 2) st3
      = Some (Inr (reply_to demo_msg ''noon'' None, u), st')"
    using r1(1) by simp
  moreover have "message_text demo_msg = Some ''time?''" by code_simp
  ultimately show ?thesis using q by (auto simp: process_message_def vision_check_def demo_msg_def Let_def map_filter_def)
qed

theorem process_message_turn_witness:
  "\<exists>r st' new. process_message demo_agent demo_env demo_msg demo_state = Some (r, st') \<and> hist st' = new
    \<and> turn_ok new \<and> assistant_count new \<le> 200 \<and> (new \<noteq> [] \<longrightarrow> outcome_ok demo_msg 0 new r)"
proof -
  obtain r st' where run: "process_message demo_agent demo_env demo_msg demo_state = Some (r, st')"
    using demo_returns by blast
  have "ar_max_tool_rounds demo_agent = 200" "hist demo_state = []"
    by (simp_all add: demo_agent_def with_task_queue_def agent_new_def demo_state_def)
  then show ?thesis using process_message_turn [OF run] run by auto
qed

section \<open>When the provider is not asked\<close>

lemma load_image_provider [simp]: "load_image (env\<lparr>provider_complete := f\<rparr>) = load_image env"
  by (simp add: fun_eq_iff load_image_def Let_def cong: option.case_cong sum.case_cong)

lemma env_provider [simp]:
  "queue_status a (env\<lparr>provider_complete := f\<rparr>) = queue_status a env"
  "turn_usage_of a (env\<lparr>provider_complete := f\<rparr>) = turn_usage_of a env"
  by (simp_all add: fun_eq_iff queue_status_def turn_usage_of_def split: option.splits)

lemma queue_create_provider [simp]: "queue_create a (env\<lparr>provider_complete := f\<rparr>) = queue_create a env"
  by (simp add: fun_eq_iff queue_create_def cong: prod.case_cong sum.case_cong)

definition stopped :: "'w agent_env \<Rightarrow> 'w agent_state \<Rightarrow> bool" where
  "stopped env st \<longleftrightarrow> check_budget (as_budget st) \<noteq> Inr ()
     \<or> (\<forall>w. \<not> fst (cb_can_execute (instant_now env w) (as_breaker st)))"

lemma stopped_round:
  assumes "stopped env st"
  shows "agent_round a (env\<lparr>provider_complete := f\<rparr>) msg tid is_compound t tracker st
      = agent_round a env msg tid is_compound t tracker st"
    and "\<exists>r. agent_round a env msg tid is_compound t tracker st = Return r"
proof -
  obtain request w1 where ctx: "build_context (ctx_env env) (agent_memory env) (as_session st)
      (map (tool_definition_of a) (ar_tools a)) (ar_model a) (ar_system_prompt a) (ar_max_turns a)
      (ar_max_context_tokens a) (as_world st) = (request, w1)"
    by fastforce
  obtain ok cb where cb: "cb_can_execute (instant_now env w1) (as_breaker st) = (ok, cb)" by fastforce
  have "(\<exists>e. check_budget (as_budget st) = Inl e) \<or> \<not> ok"
    using assms cb unfolding stopped_def by (metis fst_conv old.unit.exhaust sum.exhaust)
  then show "agent_round a (env\<lparr>provider_complete := f\<rparr>) msg tid is_compound t tracker st
      = agent_round a env msg tid is_compound t tracker st"
    "\<exists>r. agent_round a env msg tid is_compound t tracker st = Return r"
    by (auto simp: agent_round_def ctx cb split: sum.splits)
qed

lemma stopped_loop:
  assumes "stopped env st"
  shows "agent_loop a (env\<lparr>provider_complete := f\<rparr>) msg tid is_compound start n t tracker st
    = agent_loop a env msg tid is_compound start n t tracker st"
proof -
  obtain r where "agent_round a env msg tid is_compound t tracker st = Return r"
    using stopped_round(2) [OF assms] by blast
  then show ?thesis
    using stopped_round(1) [OF assms, of a f msg tid is_compound t tracker]
    by (subst (1 2) agent_loop.simps) (simp split: nat.split)
qed

lemma queue_keeps [simp]:
  "as_budget (queue_status a env tid status st) = as_budget st"
  "as_breaker (queue_status a env tid status st) = as_breaker st"
  by (auto simp: queue_status_def split: option.splits prod.splits)

lemma queue_create_keeps:
  "queue_create a env chat goal st = (tid, st') \<Longrightarrow> as_budget st' = as_budget st \<and> as_breaker st' = as_breaker st"
  by (auto simp: queue_create_def split: prod.splits sum.splits if_splits)

text \<open>C5: When the budget is used up, or the breaker rejects calls for as long as the message is
  processed, the provider is not called: what \<open>process_message\<close> returns and does is the same with
  any other provider.\<close>

theorem provider_not_called:
  assumes "check_budget (as_budget st) \<noteq> Inr ()
     \<or> (\<forall>w. \<not> fst (cb_can_execute (instant_now env w) (as_breaker st)))"
  shows "process_message a (env\<lparr>provider_complete := f\<rparr>) msg st = process_message a env msg st"
proof -
  have "stopped env st3" if "queue_create a env chat goal st2 = (tid, st3)"
      "as_budget st2 = as_budget st" "as_breaker st2 = as_breaker st" for chat goal st2 tid st3
    using queue_create_keeps [OF that(1)] that(2,3) assms by (simp add: stopped_def)
  then show ?thesis
    by (auto simp: process_message_def Let_def stopped_loop split: option.split prod.split)
qed

definition spent_budget :: budget_tracker where
  "spent_budget = \<lparr>cumulative_micro_cents = 100, max_micro_cents = 100, total_input_tokens = 0, total_output_tokens = 0\<rparr>"

theorem provider_not_called_witness:
  "process_message demo_agent (demo_env\<lparr>provider_complete := \<lambda>_ w. (Inl (Provider ''down''), w)\<rparr>) demo_msg
     (demo_state\<lparr>as_budget := spent_budget\<rparr>)
   = process_message demo_agent demo_env demo_msg (demo_state\<lparr>as_budget := spent_budget\<rparr>)"
  by (rule provider_not_called) (simp add: check_budget_def spent_budget_def)

section \<open>The task of a message\<close>

text \<open>The row of task \<open>i\<close> has the status; the other rows are \<open>rest\<close>.\<close>

definition task_in :: "task_queue \<Rightarrow> string \<Rightarrow> task_status \<Rightarrow> task_row list \<Rightarrow> bool" where
  "task_in q i s rest \<longleftrightarrow> (\<exists>row. row_get q i = Some row \<and> tr_status row = as_str s)
     \<and> filter (\<lambda>r. tr_task_id r \<noteq> i) q = rest"

lemma update_rows_others:
  assumes "\<And>r. tr_task_id (f r) = tr_task_id r"
  shows "filter (\<lambda>r. tr_task_id r \<noteq> i) (update_rows i f q) = filter (\<lambda>r. tr_task_id r \<noteq> i) q"
  using assms by (induction q) (auto simp: update_rows_def)

lemma task_in_status:
  assumes "ar_has_queue a" "\<And>w. fst (queue_fault env w) = None" "task_in (as_queue st) i s rest"
  shows "task_in (as_queue (queue_status a env (Some i) s' st)) i s' rest"
  using assms(2) [of "as_world st"] assms(1,3)
  by (auto simp: queue_status_def task_in_def update_status_def row_get_update update_rows_others split: prod.splits)

lemma task_in_checkpoint:
  assumes "\<And>w. fst (queue_fault env w) = None" "task_in (as_queue st) i s rest"
  shows "task_in (as_queue (queue_checkpoint a env (Some i) st)) i s rest"
  using assms(1) [of "as_world st"] assms(2)
  by (auto simp: queue_checkpoint_def task_in_def checkpoint_def row_get_update update_rows_others
      split: prod.splits option.splits)

lemma task_in_create:
  assumes "ar_has_queue a" "\<And>w. fst (queue_fault env w) = None"
    and "fst (fresh_uuid env (as_world st)) = i" "i \<notin> set (map tr_task_id (as_queue st))"
  obtains st' where "queue_create a env chat goal st = (Some i, st')"
    "task_in (as_queue st') i task_status.Running (as_queue st)"
proof -
  obtain w1 where u: "fresh_uuid env (as_world st) = (i, w1)" using assms(3) by (metis prod.collapse)
  obtain w2 where f: "queue_fault env w1 = (None, w2)" using assms(2) [of w1] by (metis prod.collapse)
  define row where "row = \<lparr>tr_task_id = i, tr_chat_id = chat, tr_goal = goal, tr_status = ''pending'',
    tr_checkpoint_data = None, tr_created_at = rfc3339_now env w1, tr_updated_at = rfc3339_now env w1\<rparr>"
  have "task_in (as_queue (st\<lparr>as_queue := as_queue st @ [row], as_world := w2\<rparr>)) i task_status.Pending (as_queue st)"
    using assms(4) row_get_snoc [of row "as_queue st" i]
    by (auto simp: task_in_def row_def filter_id_conv)
  then have "task_in (as_queue (queue_status a env (Some i) task_status.Running
      (st\<lparr>as_queue := as_queue st @ [row], as_world := w2\<rparr>))) i task_status.Running (as_queue st)"
    using task_in_status assms(1,2) by blast
  then show thesis
    using that assms(1,4) u f by (simp add: queue_create_def create_task_def row_def)
qed

lemma task_in_finish:
  assumes "ar_has_queue a" "\<And>w. fst (queue_fault env w) = None" "task_in (as_queue st) i s rest"
    and "finish_reply a env (Some i) is_compound texts st = Some (reply, st')"
  shows "task_in (as_queue st') i task_status.Completed rest"
  using assms(3,4) by (auto simp: finish_reply_def Let_def intro!: task_in_status [OF assms(1,2)])

lemma task_in_handle:
  assumes "ar_has_queue a" "\<And>w. fst (queue_fault env w) = None" "task_in (as_queue st) i s rest"
  shows "handle_response a env msg (Some i) is_compound resp t tracker st = Continue t' tracker' st'
      \<Longrightarrow> task_in (as_queue st') i s rest"
    and "handle_response a env msg (Some i) is_compound resp t tracker st = Return (r, st')
      \<Longrightarrow> task_in (as_queue st') i task_status.Completed rest"
  using assms(3) task_in_finish [OF assms]
  by (auto simp: handle_response_def Let_def intro!: task_in_checkpoint [OF assms(2)]
      split: option.splits prod.splits if_splits)

lemma agent_round_cases:
  assumes "agent_round a env msg tid is_compound t tracker st = res"
  obtains "res = Panic"
  | r st' where "res = Return (r, st')" "as_session st' = as_session st" "as_queue st' = as_queue st"
  | resp t0 st0 where "res = handle_response a env msg tid is_compound resp t0 tracker st0"
      "as_session st0 = as_session st" "as_queue st0 = as_queue st"
  using assms unfolding agent_round_def
  by (auto simp: Let_def split: prod.splits sum.splits bool.splits)

lemma handle_response_reply:
  assumes "handle_response a env msg tid is_compound resp t tracker st = Return (r, st')"
  obtains reply where "hist st' = hist st @ [\<lparr>msg_role = Assistant, msg_content = Text reply\<rparr>]"
  using assms by (rule handle_response_return)

lemma task_in_loop:
  assumes "ar_has_queue a" "\<And>w. fst (queue_fault env w) = None"
    and "task_in (as_queue st) i task_status.Running rest"
    and "agent_loop a env msg (Some i) is_compound start n t tracker st = Some (r, st')"
  shows "\<exists>ms. hist st' = hist st @ ms
    \<and> task_in (as_queue st') i (if reply_of ms = None then task_status.Running else task_status.Completed) rest"
  using assms(3,4)
proof (induction n arbitrary: t tracker st)
  case 0
  then have "st' = st" by (subst (asm) agent_loop.simps) (auto split: if_splits)
  then show ?case using 0(1) by (intro exI [of _ "[]"]) simp
next
  case (Suc n)
  consider (stop) "st' = st"
    | (ret) "agent_round a env msg (Some i) is_compound t tracker st = Return (r, st')"
    | (cont) t1 tr1 st1 where "agent_round a env msg (Some i) is_compound t tracker st = Continue t1 tr1 st1"
        "agent_loop a env msg (Some i) is_compound start n t1 tr1 st1 = Some (r, st')"
    using Suc.prems(2) by (subst (asm) agent_loop.simps) (auto split: if_splits round.splits)
  then show ?case
  proof cases
    case stop
    then show ?thesis using Suc.prems(1) by (intro exI [of _ "[]"]) simp
  next
    case ret
    then show ?thesis
    proof (cases rule: agent_round_cases)
      case (2 r2 st2)
      then show ?thesis using Suc.prems(1) by (intro exI [of _ "[]"]) simp
    next
      case (3 resp t0 st0)
      then have h: "handle_response a env msg (Some i) is_compound resp t0 tracker st0 = Return (r, st')" by simp
      obtain reply where "hist st' = hist st @ [\<lparr>msg_role = Assistant, msg_content = Text reply\<rparr>]"
        using h 3(2) handle_response_reply by metis
      moreover have "task_in (as_queue st') i task_status.Completed rest"
        using task_in_handle(2) [OF assms(1,2) _ h] Suc.prems(1) 3(3) by simp
      ultimately show ?thesis
        by (intro exI [of _ "[\<lparr>msg_role = Assistant, msg_content = Text reply\<rparr>]"]) simp
    qed simp
  next
    case (cont t1 tr1 st1)
    from cont(1) obtain m r1 where m: "answers m r1" "hist st1 = hist st @ [m, r1]"
      by (rule agent_round_continue)
    have "task_in (as_queue st1) i task_status.Running rest"
      using cont(1)
    proof (cases rule: agent_round_cases)
      case (3 resp t0 st0)
      then show ?thesis using task_in_handle(1) [OF assms(1,2), of st0] Suc.prems(1) by metis
    qed simp_all
    then obtain ms where ms: "hist st' = hist st1 @ ms"
        "task_in (as_queue st') i (if reply_of ms = None then task_status.Running else task_status.Completed) rest"
      using Suc.IH [OF _ cont(2)] by blast
    show ?thesis
      using m ms answers_roles [OF m(1)] by (intro exI [of _ "m # r1 # ms"]) (cases "ms = []"; simp del: answers.simps)
  qed
qed

text \<open>C4: While the database works, the message's task is in the queue under a new identifier, next to
  the untouched tasks that were there; it ends completed when the turn ended in a reply of the
  provider and otherwise stays running, so that the next start recovers it: after a provider's
  error, an interrupt, a rejected call or too many rounds.\<close>

theorem task_follows_turn:
  assumes "process_message a env msg st = Some (r, st')" "message_text msg \<noteq> None"
    and "ar_has_queue a" "\<And>w. fst (queue_fault env w) = None"
    and "fst (fresh_uuid env (as_world st)) = i" "i \<notin> set (map tr_task_id (as_queue st))"
  shows "\<exists>new. hist st' = hist st @ new
    \<and> task_in (as_queue st') i (if reply_of new = None then task_status.Running else task_status.Completed) (as_queue st)"
proof -
  obtain body where body: "message_text msg = Some body" using assms(2) by blast
  obtain image_parts user_text where vc: "vision_check (ar_model a)
      (List.map_filter (load_image env (as_session st) (as_world st)) (in_attachments msg)) body
      = (image_parts, user_text)"
    by fastforce
  define pre where "pre = user_message image_parts user_text
    # (if is_compound_task user_text then [system_message (format_done_prompt user_text)] else [])"
  define st2 where "st2 = (let st1 = push_history (user_message image_parts user_text) st
    in if is_compound_task user_text then push_history (system_message (format_done_prompt user_text)) st1 else st1)"
  have st2: "as_world st2 = as_world st" "as_queue st2 = as_queue st" "hist st2 = hist st @ pre"
    by (simp_all add: st2_def pre_def Let_def)
  obtain st3 where q: "queue_create a env (in_chat_id msg) user_text st2 = (Some i, st3)"
      "task_in (as_queue st3) i task_status.Running (as_queue st)"
    using task_in_create [of a env st2 i] assms(3-6) st2 by metis
  have "agent_loop a env msg (Some i) (is_compound_task user_text) (instant_now env (as_world st3)) (ar_max_tool_rounds a)
      turn_new (ft_new (ar_max_consecutive_failures a)) st3 = Some (r, st')"
    using assms(1) body vc q(1) by (simp add: process_message_def st2_def Let_def)
  from task_in_loop [OF assms(3,4) q(2) this] obtain ms where ms: "hist st' = hist st3 @ ms"
      "task_in (as_queue st') i (if reply_of ms = None then task_status.Running else task_status.Completed) (as_queue st)"
    by blast
  have "reply_of (pre @ ms) = reply_of ms"
    by (cases "ms = []") (auto simp: pre_def user_message_def system_message_def reply_of_def)
  then show ?thesis
    using ms queue_create_session [OF q(1)] st2(3) by (intro exI [of _ "pre @ ms"]) simp
qed

theorem task_follows_turn_witness:
  "\<exists>r st' new. process_message demo_agent demo_env demo_msg demo_state = Some (r, st') \<and> hist st' = new
    \<and> task_in (as_queue st') ''t1'' (if reply_of new = None then task_status.Running else task_status.Completed) []"
proof -
  obtain r st' where run: "process_message demo_agent demo_env demo_msg demo_state = Some (r, st')"
    using demo_returns by blast
  have "message_text demo_msg \<noteq> None" by code_simp
  moreover have "\<And>w. fst (queue_fault demo_env w) = None" "fst (fresh_uuid demo_env (as_world demo_state)) = ''t1''"
    by (simp_all add: demo_env_def)
  moreover have "as_queue demo_state = []" "hist demo_state = []" by (simp_all add: demo_state_def)
  ultimately show ?thesis using task_follows_turn [OF run, of "''t1''"] run by auto
qed

section \<open>Gaps\<close>

text \<open>A tool's output of more than 30000 bytes panics the agent when the byte at the limit is
  inside a character.\<close>

lemma long_output_panics:
  "tool_content (Inr out) = None \<longleftrightarrow> 30000 < length (to_content out) \<and> \<not> is_char_boundary (to_content out) 30000"
  by (auto simp: tool_content_def MAX_TOOL_OUTPUT_CHARS_def slice_to_def)

text \<open>The list of DONE criteria is never filled, so the reminder for compound tasks is empty.\<close>

lemma reminder_empty: "finish_reply a env tid True texts st = finish_reply a env tid False texts st"
  by (simp add: finish_reply_def format_verification_prompt_def dc_is_empty_def dc_new_def)

text \<open>A failed tool's message gets the same prefix twice.\<close>

lemma prefix_twice:
  "tool_content (Inl (Tool s)) = Some (''Tool execution error: '' @ ''Tool execution error: '' @ s, True)"
  by (simp add: tool_content_def)

end
