(* ===== verification/Sse.thy ===== *)
theory Sse
  imports Skyclaw_Types
begin

text \<open>
  Server-sent events, as \<open>skyclaw-providers/src/anthropic.rs\<close> and \<open>openai_compat.rs\<close> read them:
  bytes arrive in pieces of any size, are decoded and appended to a buffer, and each complete
  event (up to an empty line) is taken out and handled. The two clients differ in the handler,
  here a parameter; the state of both is a list of tool calls under construction.
\<close>

section \<open>Decoding bytes\<close>

text \<open>\<open>String::from_utf8_lossy\<close>: each maximal part of an invalid character becomes U+FFFD.\<close>

definition char_head :: "char \<Rightarrow> string \<Rightarrow> bool \<times> nat" where
  "char_head a s =
     (let k = utf8_len a;
          m = (if utf8_second_ok a s then length (takeWhile is_cont (take (k - 1) s)) else 0)
      in (k \<noteq> 0 \<and> m = k - 1, m))"

function utf8_lossy :: "string \<Rightarrow> string" where
  "utf8_lossy [] = []"
| "utf8_lossy (a # s) =
     (if fst (char_head a s) then a # take (snd (char_head a s)) s else [CHR 0xEF, CHR 0xBF, CHR 0xBD])
     @ utf8_lossy (drop (snd (char_head a s)) s)"
  by pat_completeness simp_all
termination by (relation "measure length") (simp_all add: le_imp_less_Suc)

lemma char_head_valid:
  assumes "utf8_valid (a # s)"
  shows "char_head a s = (True, utf8_len a - 1)"
proof -
  have v: "utf8_len a \<noteq> 0" "utf8_len a - 1 \<le> length s" "list_all is_cont (take (utf8_len a - 1) s)"
      "1 < utf8_len a \<longrightarrow> utf8_second_ok a s"
    using assms by (simp_all add: Let_def)
  have "takeWhile is_cont (take (utf8_len a - 1) s) = take (utf8_len a - 1) s"
    using v(3) by (simp only: list_all_iff takeWhile_eq_all_conv)
  then have "length (takeWhile is_cont (take (utf8_len a - 1) s)) = utf8_len a - 1"
    using v(2) by (metis length_take min.absorb2)
  then show ?thesis using v(1,4) unfolding char_head_def Let_def
    by (cases "utf8_len a = 1") simp_all
qed

lemma utf8_lossy_valid: "utf8_valid s \<Longrightarrow> utf8_lossy s = s"
proof (induction s rule: utf8_valid.induct)
  case (2 a s)
  then show ?case using char_head_valid [OF 2(2)] by (simp add: Let_def)
qed simp

definition ascii :: "string \<Rightarrow> bool" where
  "ascii s \<longleftrightarrow> list_all (\<lambda>c. byte c < 128) s"

lemma utf8_valid_ascii: "ascii s \<Longrightarrow> utf8_valid s"
  by (induction s) (simp_all add: ascii_def utf8_len_def)

lemma utf8_valid_pieces: "ascii s \<Longrightarrow> list_all utf8_valid [take n s, drop n s]"
  by (auto simp: ascii_def list_all_iff intro!: utf8_valid_ascii dest!: in_set_takeD in_set_dropD)

section \<open>Events\<close>

record stream_chunk =
  ch_delta :: "string option"
  ch_tool_use :: "content_part option"
  ch_stop_reason :: "string option"

definition delta_chunk :: "string \<Rightarrow> stream_chunk result" where
  "delta_chunk t = Inr \<lparr>ch_delta = Some t, ch_tool_use = None, ch_stop_reason = None\<rparr>"

definition tool_chunk :: "content_part \<Rightarrow> stream_chunk result" where
  "tool_chunk p = Inr \<lparr>ch_delta = None, ch_tool_use = Some p, ch_stop_reason = None\<rparr>"

definition stop_chunk :: "string option \<Rightarrow> stream_chunk result" where
  "stop_chunk r = Inr \<lparr>ch_delta = None, ch_tool_use = None, ch_stop_reason = r\<rparr>"

text \<open>What a handler makes of an event: go on with the next (\<open>continue\<close>), return a chunk, or
  return nothing.\<close>

datatype 'x sse_step = Next "'x list" | Emit "stream_chunk result" "'x list" | Stop "'x list"

type_synonym 'x sse_handler = "string \<Rightarrow> 'x list \<Rightarrow> 'x sse_step"

text \<open>\<open>buffer.find("\n\n")\<close> and \<open>buffer.drain(..=i + 1)\<close>.\<close>

definition split_event :: "string \<Rightarrow> (string \<times> string) option" where
  "split_event buffer = map_option (\<lambda>i. (take (i + 2) buffer, drop (i + 2) buffer)) (str_find (nl @ nl) buffer)"

lemma split_event_Some:
  "split_event buffer = Some (e, rest) \<Longrightarrow> buffer = e @ rest \<and> length e \<ge> 2"
  using str_find_Some [of "nl @ nl" buffer] by (auto simp: split_event_def)

lemma split_event_shorter [simp]:
  "split_event buffer = Some (e, rest) \<Longrightarrow> length rest < length buffer"
  using split_event_Some by fastforce

function sse_extract :: "'x sse_handler \<Rightarrow> string \<Rightarrow> 'x list \<Rightarrow> stream_chunk result option \<times> string \<times> 'x list" where
  "sse_extract handle buffer blocks = (case split_event buffer of
      None \<Rightarrow> (None, buffer, blocks)
    | Some (e, rest) \<Rightarrow> (case handle e blocks of
          Next b \<Rightarrow> sse_extract handle rest b
        | Emit r b \<Rightarrow> (Some r, rest, b)
        | Stop b \<Rightarrow> (None, rest, b)))"
  by auto
termination by (relation "measure (\<lambda>(_, buffer, _). length buffer)") auto

declare sse_extract.simps [simp del]

lemma sse_extract_length:
  "sse_extract handle buffer blocks = (out, rest, b) \<Longrightarrow>
   length rest < length buffer \<or> rest = buffer \<and> b = blocks \<and> out = None"
proof (induction handle buffer blocks rule: sse_extract.induct)
  case (1 handle buffer blocks)
  show ?case
  proof (cases "split_event buffer")
    case None
    then show ?thesis using 1(2) by (simp add: sse_extract.simps [of handle buffer blocks])
  next
    case (Some p)
    then obtain e rest' where p: "split_event buffer = Some (e, rest')" by (cases p) auto
    show ?thesis
    proof (cases "handle e blocks")
      case (Next b')
      then have "sse_extract handle rest' b' = (out, rest, b)"
        using 1(2) p by (simp add: sse_extract.simps [of handle buffer blocks])
      from 1(1) [OF p refl Next this] show ?thesis using split_event_shorter [OF p] by auto
    qed (use 1(2) p split_event_shorter [OF p] in \<open>auto simp: sse_extract.simps [of handle buffer blocks]\<close>)
  qed
qed

text \<open>
  The stream as its consumer sees it, polled until it ends: a piece is an error of the connection
  or bytes. At the end, \<open>at_end\<close> says what becomes of each call still under construction
  (\<^const>\<open>None\<close>: nothing).
\<close>

function sse_stream :: "'x sse_handler \<Rightarrow> ('x \<Rightarrow> stream_chunk result) option \<Rightarrow> (string + string) list \<Rightarrow>
    string \<Rightarrow> 'x list \<Rightarrow> stream_chunk result list" where
  "sse_stream handle at_end pieces buffer blocks =
     (case sse_extract handle buffer blocks of
        (Some r, rest, b) \<Rightarrow> r # sse_stream handle at_end pieces rest b
      | (None, rest, b) \<Rightarrow> (case pieces of
            Inr bytes # ps \<Rightarrow> sse_stream handle at_end ps (rest @ utf8_lossy bytes) b
          | Inl e # ps \<Rightarrow> Inl (Provider (''Stream read error: '' @ e)) # sse_stream handle at_end ps rest b
          | [] \<Rightarrow> (case (at_end, b) of
                (Some f, x # xs) \<Rightarrow> f x # sse_stream handle at_end [] rest xs
              | _ \<Rightarrow> [])))"
  by auto
termination
  by (relation "measures [\<lambda>(_, _, ps, _, _). length ps, \<lambda>(_, _, _, buffer, _). length buffer,
        \<lambda>(_, _, _, _, blocks). length blocks]")
    (auto dest!: sse_extract_length [OF sym])

declare sse_stream.simps [simp del]

section \<open>The reference: all events of the whole text\<close>

function sse_events :: "string \<Rightarrow> string list" where
  "sse_events text = (case split_event text of None \<Rightarrow> [] | Some (e, rest) \<Rightarrow> e # sse_events rest)"
  by auto
termination by (relation "measure length") auto

declare sse_events.simps [simp del]

text \<open>What the events give, and the calls that are left; \<^const>\<open>None\<close> if an event follows one that
  returned nothing: when it is seen depends on the pieces.\<close>

fun run_events :: "('e \<Rightarrow> 'x list \<Rightarrow> 'x sse_step) \<Rightarrow> 'e list \<Rightarrow> 'x list \<Rightarrow> (stream_chunk result list \<times> 'x list) option" where
  "run_events handle [] b = Some ([], b)"
| "run_events handle (e # es) b = (case handle e b of
      Next b' \<Rightarrow> run_events handle es b'
    | Emit r b' \<Rightarrow> map_option (\<lambda>(rs, c). (r # rs, c)) (run_events handle es b')
    | Stop b' \<Rightarrow> if es = [] then Some ([], b') else None)"

lemma str_find_append: "str_find p s = Some i \<Longrightarrow> str_find p (s @ t) = Some i"
proof (induction s arbitrary: i)
  case (Cons c cs)
  show ?case
  proof (cases "prefix p (c # cs)")
    case True
    then have "prefix p ((c # cs) @ t)" by (rule prefix_prefix)
    then show ?thesis using True Cons.prems by auto
  next
    case False
    then obtain j where j: "str_find p cs = Some j" "i = Suc j" using Cons.prems by auto
    have "\<not> prefix p ((c # cs) @ t)"
    proof
      assume pre: "prefix p ((c # cs) @ t)"
      have "length p \<le> length (c # cs)" using str_find_Some [OF j(1)] by simp
      then show False using pre False by (metis append_eq_append_conv_if prefix_def take_is_prefix)
    qed
    then show ?thesis using j Cons.IH by simp
  qed
qed (simp split: if_splits, cases t, auto)

lemma split_event_append: "split_event s = Some (e, rest) \<Longrightarrow> split_event (s @ t) = Some (e, rest @ t)"
  using split_event_Some [of s e rest] str_find_append [of "nl @ nl" s _ t] str_find_Some [of "nl @ nl" s]
  by (auto simp: split_event_def)

text \<open>One extraction goes on with the events of the whole text where it stopped.\<close>

lemma sse_extract_run:
  assumes "run_events handle (sse_events (buffer @ t)) blocks = Some (rs, c)"
  shows "case sse_extract handle buffer blocks of
      (None, rest, b) \<Rightarrow> split_event rest = None \<and> run_events handle (sse_events (rest @ t)) b = Some (rs, c)
    | (Some r, rest, b) \<Rightarrow> \<exists>rs'. rs = r # rs' \<and> run_events handle (sse_events (rest @ t)) b = Some (rs', c)"
  using assms
proof (induction handle buffer blocks rule: sse_extract.induct)
  case (1 handle buffer blocks)
  show ?case
  proof (cases "split_event buffer")
    case None
    then show ?thesis using 1(2) by (simp add: sse_extract.simps [of handle buffer])
  next
    case (Some p)
    then obtain e rest where p: "split_event buffer = Some (e, rest)" by (cases p) auto
    then have ev: "sse_events (buffer @ t) = e # sse_events (rest @ t)"
      using split_event_append [OF p] by (subst sse_events.simps) simp
    show ?thesis
    proof (cases "handle e blocks")
      case (Next b)
      then show ?thesis using 1 p ev by (simp add: sse_extract.simps [of handle buffer])
    next
      case (Emit r b)
      then show ?thesis using 1(2) p ev by (auto simp: sse_extract.simps [of handle buffer])
    next
      case (Stop b)
      then have none: "sse_events (rest @ t) = []" and "rs = []" "c = b"
        using 1(2) ev by (auto split: if_splits)
      have "split_event rest = None"
      proof (rule ccontr)
        assume "split_event rest \<noteq> None"
        then obtain e' r' where "split_event (rest @ t) = Some (e', r' @ t)" using split_event_append by fastforce
        then show False using none by (subst (asm) sse_events.simps) simp
      qed
      then show ?thesis using Stop p none \<open>rs = []\<close> \<open>c = b\<close> by (simp add: sse_extract.simps [of handle buffer])
    qed
  qed
qed

lemma sse_extract_none: "split_event buffer = None \<Longrightarrow> sse_extract handle buffer b = (None, buffer, b)"
  by (simp add: sse_extract.simps)

lemma sse_stream_end:
  assumes "split_event buffer = None"
  shows "sse_stream handle at_end [] buffer b = (case at_end of None \<Rightarrow> [] | Some f \<Rightarrow> map f b)"
proof (induction b)
  case Nil
  then show ?case by (subst sse_stream.simps) (simp add: sse_extract_none [OF assms] split: option.split)
next
  case (Cons x b)
  then show ?case by (subst sse_stream.simps) (simp add: sse_extract_none [OF assms] split: option.splits)
qed

text \<open>The chunks that are ready come out, and the rest waits for more bytes.\<close>

lemma sse_stream_drain:
  assumes "run_events handle (sse_events (buffer @ t)) blocks = Some (rs, c)"
  shows "\<exists>rs1 rs2 rest b. rs = rs1 @ rs2 \<and> split_event rest = None \<and>
    run_events handle (sse_events (rest @ t)) b = Some (rs2, c) \<and>
    sse_stream handle at_end ps buffer blocks = rs1 @ sse_stream handle at_end ps rest b"
  using assms
proof (induction "length buffer" arbitrary: buffer blocks rs rule: less_induct)
  case less
  obtain out rest b where ex: "sse_extract handle buffer blocks = (out, rest, b)" by (metis prod.exhaust)
  note run = sse_extract_run [OF less.prems]
  show ?case
  proof (cases out)
    case None
    then have w: "split_event rest = None" "run_events handle (sse_events (rest @ t)) b = Some (rs, c)"
      using run ex by auto
    moreover have "sse_stream handle at_end ps buffer blocks = sse_stream handle at_end ps rest b"
      unfolding sse_stream.simps [of handle at_end ps buffer blocks] sse_stream.simps [of handle at_end ps rest b]
      by (simp add: ex None sse_extract_none [OF w(1)])
    ultimately show ?thesis by (intro exI [of _ "[]"] exI [of _ rs] exI [of _ rest] exI [of _ b]) simp
  next
    case (Some r)
    then obtain rs' where rs': "rs = r # rs'" "run_events handle (sse_events (rest @ t)) b = Some (rs', c)"
      using run ex by auto
    have "length rest < length buffer" using sse_extract_length [OF ex] Some by simp
    from less.hyps [OF this rs'(2)] obtain rs1 rs2 rest2 b2 where "rs' = rs1 @ rs2" "split_event rest2 = None"
        "run_events handle (sse_events (rest2 @ t)) b2 = Some (rs2, c)"
        "sse_stream handle at_end ps rest b = rs1 @ sse_stream handle at_end ps rest2 b2"
      by blast
    then show ?thesis
      using rs'(1) ex Some
      by (intro exI [of _ "r # rs1"] exI [of _ rs2] exI [of _ rest2] exI [of _ b2])
        (simp add: sse_stream.simps [of handle at_end ps buffer blocks])
  qed
qed

text \<open>However the bytes are cut into pieces, as long as each piece is valid UTF-8, the consumer sees
  what the events of the whole text give.\<close>

lemma sse_stream_correct:
  assumes "run_events handle (sse_events (buffer @ concat pieces)) blocks = Some (rs, c)"
    and "list_all utf8_valid pieces"
  shows "sse_stream handle at_end (map Inr pieces) buffer blocks
    = rs @ (case at_end of None \<Rightarrow> [] | Some f \<Rightarrow> map f c)"
  using assms
proof (induction pieces arbitrary: buffer blocks rs)
  case Nil
  obtain rs1 rs2 rest b where d: "rs = rs1 @ rs2" "split_event rest = None"
      "run_events handle (sse_events (rest @ [])) b = Some (rs2, c)"
      "sse_stream handle at_end (map Inr []) buffer blocks = rs1 @ sse_stream handle at_end (map Inr []) rest b"
    using sse_stream_drain [of handle buffer "[]" blocks rs c at_end "map Inr []"] Nil by auto
  then have "rs2 = []" "b = c" by (auto simp: sse_events.simps [of rest])
  then show ?case using d(1,4) sse_stream_end [OF d(2), of handle at_end c] by simp
next
  case (Cons p pieces)
  obtain rs1 rs2 rest b where d: "rs = rs1 @ rs2" "split_event rest = None"
      "run_events handle (sse_events (rest @ p @ concat pieces)) b = Some (rs2, c)"
      "sse_stream handle at_end (map Inr (p # pieces)) buffer blocks
       = rs1 @ sse_stream handle at_end (map Inr (p # pieces)) rest b"
    using sse_stream_drain [of handle buffer "p @ concat pieces" blocks rs c at_end "map Inr (p # pieces)"] Cons.prems by auto
  have "sse_stream handle at_end (map Inr (p # pieces)) rest b = sse_stream handle at_end (map Inr pieces) (rest @ p) b"
    using Cons.prems(2) by (simp add: sse_stream.simps [of handle at_end _ rest b] sse_extract_none [OF d(2)] utf8_lossy_valid)
  also have "\<dots> = rs2 @ (case at_end of None \<Rightarrow> [] | Some f \<Rightarrow> map f c)"
    using d(3) Cons.prems(2) by (intro Cons.IH) simp_all
  finally show ?case using d(1,4) by simp
qed

section \<open>Lines\<close>

definition sse_data :: "string \<Rightarrow> string option" where
  "sse_data line = (case strip_prefix ''data: '' line of Some r \<Rightarrow> Some r | None \<Rightarrow> strip_prefix ''data:'' line)"

lemma no_empty_line1: "one_line z \<Longrightarrow> \<not> str_contains (nl @ nl) (z @ nl)"
  by (induction z) (auto simp: one_line_def byte_def)

lemma no_empty_line:
  assumes "one_line x" "one_line y" "y \<noteq> []"
  shows "\<not> str_contains (nl @ nl) ((x @ nl @ y) @ nl)"
proof -
  obtain c z where y: "y = c # z" using assms(3) by (cases y) auto
  have "\<not> str_contains (nl @ nl) (nl @ y @ nl)"
    using no_empty_line1 [OF assms(2)] assms(2) by (auto simp: y one_line_def byte_def)
  with assms(1) show ?thesis by (induction x) (auto simp: one_line_def byte_def)
qed

lemma sse_events_empty_line:
  assumes "\<not> str_contains (nl @ nl) (w @ nl)"
  shows "sse_events (w @ nl @ nl @ t) = (w @ nl @ nl) # sse_events t"
proof -
  have "str_find (nl @ nl) (w @ nl @ nl @ t) = Some (length w)"
    using assms by (intro str_find_split [where b = t]) simp_all
  then have "split_event (w @ nl @ nl @ t) = Some (w @ nl @ nl, t)" by (simp add: split_event_def)
  then show ?thesis by (subst sse_events.simps) simp
qed

lemma sse_events_line: "one_line w \<Longrightarrow> sse_events (w @ nl @ nl @ t) = (w @ nl @ nl) # sse_events t"
  by (rule sse_events_empty_line [OF no_empty_line1])

section \<open>A server and its client\<close>

text \<open>
  A server writes events, \<open>wire\<close> each; an event that is \<open>ok\<close> is one for the client, too, who makes
  of it what \<open>step\<close> says. Then what the consumer sees depends on the events alone.
\<close>

locale event_client =
  fixes handle :: "'x sse_handler"
    and wire :: "'e \<Rightarrow> string"
    and ok :: "'e \<Rightarrow> bool"
    and step :: "'e \<Rightarrow> 'x list \<Rightarrow> 'x sse_step"
  assumes wire_is_event: "ok ev \<Longrightarrow> sse_events (wire ev @ t) = wire ev # sse_events t"
    and handle_wire: "ok ev \<Longrightarrow> handle (wire ev) b = step ev b"
begin

lemma events_of_wire: "list_all ok evs \<Longrightarrow> sse_events (concat (map wire evs)) = map wire evs"
  by (induction evs) (simp_all add: wire_is_event, simp add: sse_events.simps split_event_def)

lemma run_wire: "list_all ok evs \<Longrightarrow> run_events handle (map wire evs) b = run_events step evs b"
  by (induction evs arbitrary: b) (simp_all add: handle_wire split: sse_step.split)

lemma stream_of_events:
  assumes "list_all ok evs" "concat pieces = concat (map wire evs)" "list_all utf8_valid pieces"
    and "run_events step evs [] = Some (rs, c)"
  shows "sse_stream handle at_end (map Inr pieces) [] [] = rs @ (case at_end of None \<Rightarrow> [] | Some f \<Rightarrow> map f c)"
  using sse_stream_correct [of handle "[]" pieces "[]" rs c at_end] assms
  by (simp add: events_of_wire run_wire)

end

end
