(* ===== verification/Provider_Client.thy ===== *)
theory Provider_Client
  imports Context
begin

text \<open>
  What the two clients of \<open>skyclaw-providers\<close> share: the API keys and their rotation, and a call
  over HTTP with its mapping of errors. The code has each of these twice, once in
  \<open>anthropic.rs\<close> and once in \<open>openai_compat.rs\<close>. HTTP is a parameter.
\<close>

section \<open>API keys\<close>

text \<open>The state both clients keep; \<open>usize\<close> is a 64-bit word.\<close>

record api_client =
  api_keys :: "string list"
  key_index :: u64
  base_url :: string
  extra_headers :: "(string \<times> string) list"

definition with_keys :: "string list \<Rightarrow> api_client \<Rightarrow> api_client" where
  "with_keys ks c = (if ks \<noteq> [] then c\<lparr>api_keys := ks\<rparr> else c)"

definition current_key :: "api_client \<Rightarrow> string" where
  "current_key c = (if api_keys c = [] then [] else api_keys c ! (unat (key_index c) mod length (api_keys c)))"

definition rotate_key :: "api_client \<Rightarrow> api_client" where
  "rotate_key c = (if api_keys c = [] then c else c\<lparr>key_index := key_index c + 1\<rparr>)"

lemma rotations_index:
  "api_keys c \<noteq> [] \<Longrightarrow> api_keys ((rotate_key ^^ n) c) = api_keys c \<and> key_index ((rotate_key ^^ n) c) = key_index c + of_nat n"
  by (induction n) (simp_all add: rotate_key_def)

lemma keys_round_robin:
  assumes "api_keys c \<noteq> []" "unat (key_index c) + n < 2 ^ 64"
  shows "current_key ((rotate_key ^^ n) c) = api_keys c ! ((unat (key_index c) + n) mod length (api_keys c))"
  using assms rotations_index [OF assms(1), of n]
  by (simp add: current_key_def unat_word_ariths unat_of_nat)

section \<open>A call over HTTP\<close>

datatype http_method = POST | GET | HEAD

record http_request =
  hq_method :: http_method
  hq_url :: string
  hq_headers :: "(string \<times> string) list"
  hq_body :: "json option"

text \<open>A response: its status, and its body as a whole or in pieces, which may fail to arrive.\<close>

record http_response =
  hr_status :: nat
  hr_body :: "string + string"
  hr_pieces :: "(string + string) list"

type_synonym 'w http = "http_request \<Rightarrow> 'w \<Rightarrow> (string + http_response) \<times> 'w"

definition is_success :: "nat \<Rightarrow> bool" where
  "is_success status \<longleftrightarrow> 200 \<le> status \<and> status < 300"

text \<open>What becomes of a status that is not a success; \<open>status_text\<close> prints it.\<close>

definition api_failure :: "string \<Rightarrow> (nat \<Rightarrow> string) \<Rightarrow> http_response \<Rightarrow> api_client \<Rightarrow> skyclaw_error \<times> api_client" where
  "api_failure label status_text resp c =
     (let error_body = (case hr_body resp of Inl _ \<Rightarrow> ''unknown error'' | Inr s \<Rightarrow> s)
      in if hr_status resp = 429 then (RateLimited error_body, rotate_key c)
         else if hr_status resp = 401 then (Auth error_body, rotate_key c)
         else (Provider (label @ '' API error ('' @ status_text (hr_status resp) @ ''): '' @ error_body), c))"

text \<open>
  The common start of \<open>complete\<close> and \<open>stream\<close>: the request is built and sent, and a response
  that is a success is handed on.
\<close>

definition send_checked :: "string \<Rightarrow> string \<Rightarrow> (nat \<Rightarrow> string) \<Rightarrow> 'w http \<Rightarrow> json result \<Rightarrow>
    (json \<Rightarrow> http_request) \<Rightarrow> api_client \<Rightarrow> 'w \<Rightarrow> http_response result \<times> api_client \<times> 'w" where
  "send_checked label what status_text send body request c w = (case body of
      Inl e \<Rightarrow> (Inl e, c, w)
    | Inr b \<Rightarrow> (case send (request b) w of
          (Inl e, w') \<Rightarrow> (Inl (Provider (label @ what @ '' request failed: '' @ e)), c, w')
        | (Inr resp, w') \<Rightarrow>
            if is_success (hr_status resp) then (Inr resp, c, w')
            else (case api_failure label status_text resp c of (e, c') \<Rightarrow> (Inl e, c', w'))))"

text \<open>A key is given up exactly when the server refuses it or limits its rate.\<close>

lemma send_checked_key:
  assumes "send_checked label what status_text send (Inr b) request c w = (r, c', w')"
  shows "c' = (case fst (send (request b) w) of
      Inl _ \<Rightarrow> c | Inr resp \<Rightarrow> if hr_status resp = 429 \<or> hr_status resp = 401 then rotate_key c else c)"
  using assms by (auto simp: send_checked_def api_failure_def is_success_def Let_def
      split: prod.splits sum.splits if_splits)

lemma send_checked_ok:
  "send_checked label what status_text send body request c w = (Inr resp, c', w') \<longleftrightarrow>
   (\<exists>b. body = Inr b \<and> send (request b) w = (Inr resp, w') \<and> is_success (hr_status resp) \<and> c' = c)"
  by (auto simp: send_checked_def split: prod.splits sum.splits)

end
