(* ===== verification/Anthropic.thy ===== *)
theory Anthropic
  imports Sse Provider_Client
begin

text \<open>
  The client of the Anthropic Messages API (\<open>skyclaw-providers/src/anthropic.rs\<close>): the body of a
  request, the calls, and the handler of the event stream, which a message of the server passes
  through unchanged. The parsers serde derives are parameters, for the stream the fields of
  \<open>anthropic_codec\<close>.
\<close>

section \<open>The body of a request\<close>

fun anthropic_part :: "content_part \<Rightarrow> json" where
  "anthropic_part (PText t) = JObject [(''type'', JString ''text''), (''text'', JString t)]"
| "anthropic_part (ToolUse i name input) =
     JObject [(''type'', JString ''tool_use''), (''id'', JString i), (''name'', JString name), (''input'', input)]"
| "anthropic_part (ToolResult i content is_error _) =
     JObject [(''type'', JString ''tool_result''), (''tool_use_id'', JString i), (''content'', JString content),
       (''is_error'', JBool is_error)]"
| "anthropic_part (Image media_type bytes) =
     JObject [(''type'', JString ''image''), (''source'', JObject [(''type'', JString ''base64''),
       (''media_type'', JString media_type), (''data'', JString bytes)])]"

definition anthropic_content :: "message_content \<Rightarrow> json" where
  "anthropic_content c = (case c of Text t \<Rightarrow> JString t | Parts ps \<Rightarrow> JArray (map anthropic_part ps))"

definition convert_message_to_anthropic :: "chat_message \<Rightarrow> json result" where
  "convert_message_to_anthropic m =
     bind_result (case msg_role m of
         User \<Rightarrow> Inr ''user''
       | Assistant \<Rightarrow> Inr ''assistant''
       | RoleTool \<Rightarrow> Inr ''user''
       | System \<Rightarrow> Inl (Provider ''System role should not appear in messages list''))
     (\<lambda>r. Inr (JObject [(''role'', JString r), (''content'', anthropic_content (msg_content m))]))"

definition convert_tool_to_anthropic :: "tool_definition \<Rightarrow> json" where
  "convert_tool_to_anthropic t = JObject [(''name'', JString (td_name t)),
     (''description'', JString (td_description t)), (''input_schema'', td_parameters t)]"

definition anthropic_body :: "(f32 \<Rightarrow> string) \<Rightarrow> completion_request \<Rightarrow> bool \<Rightarrow> json result" where
  "anthropic_body f32_text r stream =
     bind_result (collect_results (map convert_message_to_anthropic
         (filter (\<lambda>m. msg_role m \<noteq> System) (cr_messages r))))
     (\<lambda>messages. Inr (JObject (
         [(''model'', JString (cr_model r)), (''messages'', JArray messages),
          (''max_tokens'', JNumber (nat_str (unat (case cr_max_tokens r of None \<Rightarrow> 4096 | Some n \<Rightarrow> n))))]
         @ (case cr_system r of None \<Rightarrow> [] | Some s \<Rightarrow> [(''system'', JString s)])
         @ (case cr_temperature r of None \<Rightarrow> [] | Some x \<Rightarrow> [(''temperature'', JNumber (f32_text x))])
         @ (if cr_tools r \<noteq> [] then [(''tools'', JArray (map convert_tool_to_anthropic (cr_tools r)))] else [])
         @ (if stream then [(''stream'', JBool True)] else []))))"

section \<open>Calls\<close>

definition anthropic_new :: "string \<Rightarrow> api_client" where
  "anthropic_new api_key = \<lparr>api_keys = [api_key], key_index = 0, base_url = ''https://api.anthropic.com'', extra_headers = []\<rparr>"

definition anthropic_with_base_url :: "string \<Rightarrow> api_client \<Rightarrow> api_client" where
  "anthropic_with_base_url url c = c\<lparr>base_url := url\<rparr>"

definition anthropic_request :: "api_client \<Rightarrow> json \<Rightarrow> http_request" where
  "anthropic_request c body = \<lparr>hq_method = POST, hq_url = base_url c @ ''/v1/messages'',
     hq_headers = [(''x-api-key'', current_key c), (''anthropic-version'', ''2023-06-01''),
       (''content-type'', ''application/json'')], hq_body = Some body\<rparr>"

datatype anthropic_block = AText string | AToolUse string string json

fun convert_anthropic_content :: "anthropic_block \<Rightarrow> content_part" where
  "convert_anthropic_content (AText t) = PText t"
| "convert_anthropic_content (AToolUse i name input) = ToolUse i name input"

text \<open>\<open>AnthropicResponse\<close>; its parser, which serde derives, is a parameter of \<open>complete\<close>.\<close>

record anthropic_response =
  ar_id :: string
  ar_content :: "anthropic_block list"
  ar_stop_reason :: "string option"
  ar_input_tokens :: u32
  ar_output_tokens :: u32

definition anthropic_complete :: "(f32 \<Rightarrow> string) \<Rightarrow> (nat \<Rightarrow> string) \<Rightarrow> (string \<Rightarrow> string + anthropic_response) \<Rightarrow>
    'w http \<Rightarrow> completion_request \<Rightarrow> api_client \<Rightarrow> 'w \<Rightarrow> completion_response result \<times> api_client \<times> 'w" where
  "anthropic_complete f32_text status_text parse send request c w =
     (case send_checked ''Anthropic'' [] status_text send (anthropic_body f32_text request False)
         (anthropic_request c) c w of
        (Inl e, c', w') \<Rightarrow> (Inl e, c', w')
      | (Inr resp, c', w') \<Rightarrow> (case bind_result (hr_body resp) parse of
            Inl e \<Rightarrow> (Inl (Provider (''Failed to parse Anthropic response: '' @ e)), c', w')
          | Inr r \<Rightarrow> (Inr \<lparr>cs_id = ar_id r, cs_content = map convert_anthropic_content (ar_content r),
              cs_stop_reason = ar_stop_reason r,
              cs_usage = \<lparr>us_input_tokens = ar_input_tokens r, us_output_tokens = ar_output_tokens r, us_cost_usd = 0\<rparr>\<rparr>,
              c', w')))"

definition anthropic_health_check :: "'w http \<Rightarrow> api_client \<Rightarrow> 'w \<Rightarrow> bool result \<times> 'w" where
  "anthropic_health_check send c w = (case send \<lparr>hq_method = HEAD, hq_url = base_url c @ ''/v1/messages'',
       hq_headers = [(''x-api-key'', current_key c), (''anthropic-version'', ''2023-06-01'')], hq_body = None\<rparr> w of
      (Inl e, w') \<Rightarrow> (Inl (Provider (''Health check failed: '' @ e)), w')
    | (Inr resp, w') \<Rightarrow> (Inr (is_success (hr_status resp) \<or> hr_status resp = 405), w'))"

definition anthropic_list_models :: "string list result" where
  "anthropic_list_models = Inr [''claude-opus-4-6'', ''claude-sonnet-4-6'', ''claude-haiku-4-5-20251001'',
     ''claude-3-5-sonnet-20241022'', ''claude-3-5-haiku-20241022'']"

section \<open>The event stream\<close>

datatype anthropic_delta = TextDelta string | InputJsonDelta string

text \<open>The parsers of the data of the events, and \<open>serde_json::from_str\<close> to a value.\<close>

record anthropic_codec =
  parse_block_start :: "string \<Rightarrow> anthropic_block option"
  parse_block_delta :: "string \<Rightarrow> anthropic_delta option"
  parse_message_delta :: "string \<Rightarrow> string option option"
  parse_value :: "string \<Rightarrow> json option"

type_synonym tool_block = "string \<times> string \<times> json"

definition event_line :: "string \<times> string list \<Rightarrow> string \<Rightarrow> string \<times> string list" where
  "event_line st line = (case strip_prefix ''event: '' line of
      Some rest \<Rightarrow> (trim rest, snd st)
    | None \<Rightarrow> (case sse_data line of Some rest \<Rightarrow> (fst st, snd st @ [rest]) | None \<Rightarrow> st))"

fun add_input :: "string \<Rightarrow> tool_block list \<Rightarrow> tool_block list" where
  "add_input p [] = []"
| "add_input p [(i, n, v)] = [(i, n, case v of JNull \<Rightarrow> JString p | JString s \<Rightarrow> JString (s @ p) | _ \<Rightarrow> v)]"
| "add_input p (b # c # bs) = b # add_input p (c # bs)"

definition finished_input :: "anthropic_codec \<Rightarrow> json \<Rightarrow> json" where
  "finished_input codec raw = (case raw of
      JString s \<Rightarrow> (case parse_value codec s of None \<Rightarrow> JObject [] | Some v \<Rightarrow> v)
    | JNull \<Rightarrow> JObject []
    | other \<Rightarrow> other)"

definition anthropic_event :: "anthropic_codec \<Rightarrow> string \<Rightarrow> string \<Rightarrow> tool_block list \<Rightarrow> tool_block sse_step" where
  "anthropic_event codec event_type data blocks =
     (if data = [] \<and> event_type = [] then Next blocks
      else if event_type = ''message_start'' then Next blocks
      else if event_type = ''content_block_start''
      then (case parse_block_start codec data of
              Some (AToolUse i name _) \<Rightarrow> Next (blocks @ [(i, name, JNull)])
            | _ \<Rightarrow> Next blocks)
      else if event_type = ''content_block_delta''
      then (case parse_block_delta codec data of
              Some (TextDelta t) \<Rightarrow> Emit (delta_chunk t) blocks
            | Some (InputJsonDelta p) \<Rightarrow> Next (add_input p blocks)
            | None \<Rightarrow> Next blocks)
      else if event_type = ''content_block_stop''
      then (if blocks = [] then Next blocks
            else (case last blocks of (i, name, raw) \<Rightarrow>
              Emit (tool_chunk (ToolUse i name (finished_input codec raw))) (butlast blocks)))
      else if event_type = ''message_delta''
      then (case parse_message_delta codec data of
              Some (Some r) \<Rightarrow> Emit (stop_chunk (Some r)) blocks
            | _ \<Rightarrow> Next blocks)
      else if event_type = ''message_stop'' then Stop blocks
      else if event_type = ''ping'' then Next blocks
      else if event_type = ''error''
      then Emit (Inl (Provider (''Anthropic stream error: '' @ data))) blocks
      else Next blocks)"

text \<open>\<open>extract_sse_event\<close> is \<open>sse_extract\<close> with this handler.\<close>

definition anthropic_handle :: "anthropic_codec \<Rightarrow> tool_block sse_handler" where
  "anthropic_handle codec event_text blocks =
     (case foldl event_line ([], []) (str_lines event_text) of (event_type, data_parts) \<Rightarrow>
        anthropic_event codec event_type (join nl data_parts) blocks)"

definition anthropic_stream :: "anthropic_codec \<Rightarrow> (string + string) list \<Rightarrow> stream_chunk result list" where
  "anthropic_stream codec pieces = sse_stream (anthropic_handle codec) None pieces [] []"

text \<open>\<open>stream\<close>, with all that the consumer will see.\<close>

definition anthropic_open_stream :: "(f32 \<Rightarrow> string) \<Rightarrow> (nat \<Rightarrow> string) \<Rightarrow> anthropic_codec \<Rightarrow> 'w http \<Rightarrow>
    completion_request \<Rightarrow> api_client \<Rightarrow> 'w \<Rightarrow> stream_chunk result list result \<times> api_client \<times> 'w" where
  "anthropic_open_stream f32_text status_text codec send request c w =
     (case send_checked ''Anthropic'' '' stream'' status_text send (anthropic_body f32_text request True)
         (anthropic_request c) c w of
        (Inl e, c', w') \<Rightarrow> (Inl e, c', w')
      | (Inr resp, c', w') \<Rightarrow> (Inr (anthropic_stream codec (hr_pieces resp)), c', w'))"

section \<open>What the server sends\<close>

text \<open>
  A message of the server: its blocks, each sent in deltas, and the reason it stopped. \<open>data\<close>
  is how the server writes the data of an event.
\<close>

datatype message_block = TextBlock "string list" | ToolBlock string string "string list"

datatype server_event =
    MessageStart | BlockStart anthropic_block | BlockDelta anthropic_delta | BlockStop
  | MessageDelta "string option" | MessageStop | Ping

fun event_name :: "server_event \<Rightarrow> string" where
  "event_name MessageStart = ''message_start''"
| "event_name (BlockStart _) = ''content_block_start''"
| "event_name (BlockDelta _) = ''content_block_delta''"
| "event_name BlockStop = ''content_block_stop''"
| "event_name (MessageDelta _) = ''message_delta''"
| "event_name MessageStop = ''message_stop''"
| "event_name Ping = ''ping''"

definition wire :: "(server_event \<Rightarrow> string) \<Rightarrow> server_event \<Rightarrow> string" where
  "wire data ev = ''event: '' @ event_name ev @ nl @ ''data: '' @ data ev @ nl @ nl"

fun block_events :: "message_block \<Rightarrow> server_event list" where
  "block_events (TextBlock ts) = BlockStart (AText []) # map (\<lambda>t. BlockDelta (TextDelta t)) ts @ [BlockStop]"
| "block_events (ToolBlock i name ps) =
     BlockStart (AToolUse i name (JObject [])) # map (\<lambda>p. BlockDelta (InputJsonDelta p)) ps @ [BlockStop]"

definition message_events :: "message_block list \<Rightarrow> string option \<Rightarrow> server_event list" where
  "message_events blocks reason =
     MessageStart # Ping # concat (map block_events blocks) @ [MessageDelta reason, MessageStop]"

text \<open>What the consumer is to see of a block.\<close>

definition tool_argument :: "anthropic_codec \<Rightarrow> string list \<Rightarrow> json" where
  "tool_argument codec ps = (if ps = [] then JObject []
     else case parse_value codec (concat ps) of None \<Rightarrow> JObject [] | Some v \<Rightarrow> v)"

fun block_chunks :: "anthropic_codec \<Rightarrow> message_block \<Rightarrow> stream_chunk result list" where
  "block_chunks codec (TextBlock ts) = map delta_chunk ts"
| "block_chunks codec (ToolBlock i name ps) = [tool_chunk (ToolUse i name (tool_argument codec ps))]"

text \<open>The data is one line, and the client's parsers read what the server wrote.\<close>

fun event_read :: "anthropic_codec \<Rightarrow> string \<Rightarrow> server_event \<Rightarrow> bool" where
  "event_read codec d (BlockStart b) = (parse_block_start codec d = Some b)"
| "event_read codec d (BlockDelta b) = (parse_block_delta codec d = Some b)"
| "event_read codec d (MessageDelta r) = (parse_message_delta codec d = Some r)"
| "event_read codec d _ = True"

definition codec_ok :: "anthropic_codec \<Rightarrow> (server_event \<Rightarrow> string) \<Rightarrow> server_event list \<Rightarrow> bool" where
  "codec_ok codec data evs \<longleftrightarrow> list_all (\<lambda>ev. one_line (data ev) \<and> event_read codec (data ev) ev) evs"

section \<open>Lines and events on the wire\<close>

lemma one_line_name: "one_line (''event: '' @ event_name ev)" "trim (event_name ev) = event_name ev"
  by (cases ev; simp add: one_line_def byte_def; fail) (cases ev; simp; code_simp)

lemma wire_events:
  assumes "one_line (data ev)"
  shows "sse_events (wire data ev @ t) = wire data ev # sse_events t"
proof -
  let ?a = "''event: '' @ event_name ev" and ?d = "''data: '' @ data ev"
  have d: "one_line ?d" using assms by (simp add: one_line_def byte_def)
  show ?thesis
    using sse_events_empty_line [OF no_empty_line [OF one_line_name(1) [of ev] d], of t] by (simp add: wire_def)
qed

lemma anthropic_handle_wire:
  assumes "one_line (data ev)"
  shows "anthropic_handle codec (wire data ev) blocks = anthropic_event codec (event_name ev) (data ev) blocks"
proof -
  have d: "one_line (''data: '' @ data ev)" using assms by (simp add: one_line_def byte_def)
  have "str_lines (wire data ev) = [''event: '' @ event_name ev, ''data: '' @ data ev, []]"
    using str_lines_line [OF one_line_name(1) [of ev], of "(''data: '' @ data ev) @ nl @ nl"]
      str_lines_line [OF d, of nl] str_lines_line [of "[]" "[]"]
    by (simp add: wire_def one_line_def) (simp add: str_lines_def)
  then show ?thesis
    by (simp add: anthropic_handle_def event_line_def one_line_name(2) sse_data_def strip_prefix_def)
qed

definition anthropic_step :: "anthropic_codec \<Rightarrow> (server_event \<Rightarrow> string) \<Rightarrow> server_event \<Rightarrow> tool_block list \<Rightarrow> tool_block sse_step" where
  "anthropic_step codec data ev blocks = anthropic_event codec (event_name ev) (data ev) blocks"

interpretation an: event_client "anthropic_handle codec" "wire data"
    "\<lambda>ev. one_line (data ev) \<and> event_read codec (data ev) ev" "anthropic_step codec data" for codec data
  by unfold_locales (simp_all add: wire_events anthropic_handle_wire anthropic_step_def)

section \<open>A message comes through\<close>

text \<open>The run of the client over the events of one block, which leaves no call open.\<close>

lemma codec_ok_simps [simp]:
  "codec_ok codec data []"
  "codec_ok codec data (ev # evs) \<longleftrightarrow> one_line (data ev) \<and> event_read codec (data ev) ev \<and> codec_ok codec data evs"
  "codec_ok codec data (evs @ evs') \<longleftrightarrow> codec_ok codec data evs \<and> codec_ok codec data evs'"
  by (auto simp: codec_ok_def)

lemma run_texts:
  "codec_ok codec data (map (\<lambda>t. BlockDelta (TextDelta t)) ts) \<Longrightarrow>
   run_events (anthropic_step codec data) ((map (\<lambda>t. BlockDelta (TextDelta t)) ts) @ es) b
   = map_option (\<lambda>(rs, c). (map delta_chunk ts @ rs, c)) (run_events (anthropic_step codec data) es b)"
  by (induction ts) (auto simp: anthropic_step_def anthropic_event_def option.map_comp comp_def case_prod_beta' option.map_id [unfolded id_def])

lemma run_inputs:
  "codec_ok codec data (map (\<lambda>p. BlockDelta (InputJsonDelta p)) ps) \<Longrightarrow>
   run_events (anthropic_step codec data) ((map (\<lambda>p. BlockDelta (InputJsonDelta p)) ps) @ es) b
   = run_events (anthropic_step codec data) es (foldl (\<lambda>b p. add_input p b) b ps)"
  by (induction ps arbitrary: b) (simp_all add: anthropic_step_def anthropic_event_def)

lemma inputs_string: "foldl (\<lambda>b p. add_input p b) [(i, n, JString s)] ps = [(i, n, JString (s @ concat ps))]"
  by (induction ps arbitrary: s) simp_all

lemma inputs_finished:
  "\<exists>raw. foldl (\<lambda>b p. add_input p b) [(i, n, JNull)] ps = [(i, n, raw)] \<and> finished_input codec raw = tool_argument codec ps"
  by (cases ps) (simp_all add: inputs_string finished_input_def tool_argument_def)

lemma run_block:
  assumes "codec_ok codec data (block_events blk)"
  shows "run_events (anthropic_step codec data) ((block_events blk) @ es) []
    = map_option (\<lambda>(rs, c). (block_chunks codec blk @ rs, c)) (run_events (anthropic_step codec data) es [])"
proof (cases blk)
  case (TextBlock ts)
  then show ?thesis using assms run_texts [of codec data ts "[BlockStop] @ es" "[]"]
    by (simp add: anthropic_step_def anthropic_event_def)
next
  case (ToolBlock i name ps)
  obtain raw where raw: "foldl (\<lambda>b p. add_input p b) [(i, name, JNull)] ps = [(i, name, raw)]"
      "finished_input codec raw = tool_argument codec ps"
    using inputs_finished by blast
  then show ?thesis using ToolBlock assms run_inputs [of codec data ps "[BlockStop] @ es" "[(i, name, JNull)]"]
    by (simp add: anthropic_step_def anthropic_event_def)
qed

lemma run_blocks:
  "codec_ok codec data (concat (map block_events blocks)) \<Longrightarrow>
   run_events (anthropic_step codec data) ((concat (map block_events blocks)) @ es) []
   = map_option (\<lambda>(rs, c). (concat (map (block_chunks codec) blocks) @ rs, c)) (run_events (anthropic_step codec data) es [])"
  by (induction blocks) (auto simp: run_block option.map_comp comp_def case_prod_beta' option.map_id [unfolded id_def])

lemma run_message:
  assumes "codec_ok codec data (message_events blocks reason)"
  shows "run_events (anthropic_step codec data) ((message_events blocks reason)) []
    = Some (concat (map (block_chunks codec) blocks) @ (case reason of None \<Rightarrow> [] | Some r \<Rightarrow> [stop_chunk (Some r)]), [])"
proof -
  have "run_events (anthropic_step codec data) ([MessageDelta reason, MessageStop]) []
      = Some (case reason of None \<Rightarrow> [] | Some r \<Rightarrow> [stop_chunk (Some r)], [])"
    using assms by (auto simp: message_events_def anthropic_step_def anthropic_event_def split: option.split)
  then show ?thesis
    using assms run_blocks [of codec data blocks "[MessageDelta reason, MessageStop]"]
    by (simp add: message_events_def anthropic_step_def anthropic_event_def)
qed

text \<open>C17: However the connection cuts the text of a message into pieces, as long as no character is
  cut, and when the parsers read what the server wrote, the stream gives the deltas of each text
  block in order, each call of a tool once, at the end of its block, with the argument its parts
  spell together, and last the reason.
\<close>

theorem anthropic_stream_roundtrip:
  assumes "codec_ok codec data (message_events blocks reason)"
    and "concat pieces = concat (map (wire data) (message_events blocks reason))"
    and "list_all utf8_valid pieces"
  shows "anthropic_stream codec (map Inr pieces)
    = concat (map (block_chunks codec) blocks) @ (case reason of None \<Rightarrow> [] | Some r \<Rightarrow> [stop_chunk (Some r)])"
  using an.stream_of_events [OF assms(1) [unfolded codec_ok_def] assms(2,3) run_message [OF assms(1)], of None]
  by (simp add: anthropic_stream_def)

definition sample_data :: "server_event \<Rightarrow> string" where
  "sample_data ev = (case ev of
      BlockStart (AText _) \<Rightarrow> ''a'' | BlockStart (AToolUse _ _ _) \<Rightarrow> ''b''
    | BlockDelta (TextDelta t) \<Rightarrow> ''t'' @ t | BlockDelta (InputJsonDelta p) \<Rightarrow> ''j'' @ p
    | _ \<Rightarrow> ''{}'')"

definition sample_codec :: anthropic_codec where
  "sample_codec = \<lparr>parse_block_start = (\<lambda>d. if d = ''a'' then Some (AText []) else Some (AToolUse ''1'' ''ls'' (JObject []))),
     parse_block_delta = (\<lambda>d. case d of [] \<Rightarrow> None | c # r \<Rightarrow> Some (if c = CHR ''t'' then TextDelta r else InputJsonDelta r)),
     parse_message_delta = (\<lambda>d. Some (Some ''tool_use'')),
     parse_value = (\<lambda>s. if s = ''{}'' then Some (JArray []) else None)\<rparr>"

definition sample_blocks :: "message_block list" where
  "sample_blocks = [TextBlock [''Hi''], ToolBlock ''1'' ''ls'' [''{'', ''}'']]"

theorem anthropic_stream_roundtrip_witness:
  "anthropic_stream sample_codec (map Inr [take 50 (concat (map (wire sample_data) (message_events sample_blocks (Some ''tool_use'')))),
      drop 50 (concat (map (wire sample_data) (message_events sample_blocks (Some ''tool_use''))))])
   = [delta_chunk ''Hi'', tool_chunk (ToolUse ''1'' ''ls'' (JArray [])), stop_chunk (Some ''tool_use'')]"
proof -
  let ?text = "concat (map (wire sample_data) (message_events sample_blocks (Some ''tool_use'')))"
  have c: "codec_ok sample_codec sample_data (message_events sample_blocks (Some ''tool_use''))" by code_simp
  have p: "concat [take 50 ?text, drop 50 ?text] = ?text" by simp
  have v: "list_all utf8_valid [take 50 ?text, drop 50 ?text]" by (rule utf8_valid_pieces) code_simp
  have "concat (map (block_chunks sample_codec) sample_blocks) @ (case Some ''tool_use'' of None \<Rightarrow> [] | Some r \<Rightarrow> [stop_chunk (Some r)])
      = [delta_chunk ''Hi'', tool_chunk (ToolUse ''1'' ''ls'' (JArray [])), stop_chunk (Some ''tool_use'')]"
    by code_simp
  with anthropic_stream_roundtrip [OF c p v] show ?thesis by (rule trans)
qed

text \<open>A character that is cut in two is lost: each piece is decoded alone.\<close>

lemma cut_character_lost:
  "anthropic_stream sample_codec [Inr (''event: content_block_delta'' @ nl @ ''data: t'' @ [CHR 0xC3]), Inr (CHR 0xA9 # nl @ nl)]
   = [delta_chunk [CHR 0xEF, CHR 0xBF, CHR 0xBD, CHR 0xEF, CHR 0xBF, CHR 0xBD]]"
  "anthropic_stream sample_codec [Inr (''event: content_block_delta'' @ nl @ ''data: t'' @ [CHR 0xC3, CHR 0xA9]), Inr (nl @ nl)]
   = [delta_chunk [CHR 0xC3, CHR 0xA9]]"
  by code_simp+

section \<open>What is sent of a session\<close>

definition anthropic_message :: "chat_message \<Rightarrow> json" where
  "anthropic_message m = JObject [(''role'', JString (if msg_role m = Assistant then ''assistant'' else ''user'')),
     (''content'', anthropic_content (msg_content m))]"

lemma convert_message_Inr: "msg_role m \<noteq> System \<Longrightarrow> convert_message_to_anthropic m = Inr (anthropic_message m)"
  by (cases "msg_role m") (simp_all add: convert_message_to_anthropic_def anthropic_message_def)

text \<open>The body is always built: the messages it cannot express are left out first.\<close>

lemma anthropic_body_total:
  "\<exists>rest. anthropic_body f32_text r stream = Inr (JObject ((''model'', JString (cr_model r))
     # (''messages'', JArray (map anthropic_message (filter (\<lambda>m. msg_role m \<noteq> System) (cr_messages r)))) # rest))"
proof -
  have "collect_results (map convert_message_to_anthropic (filter (\<lambda>m. msg_role m \<noteq> System) (cr_messages r)))
      = Inr (map anthropic_message (filter (\<lambda>m. msg_role m \<noteq> System) (cr_messages r)))"
    by (simp add: collect_results_Inr convert_message_Inr)
  then show ?thesis by (simp add: anthropic_body_def)
qed

lemma strip_images_role [simp]: "msg_role (strip_images m) = msg_role m"
  by (simp add: strip_images_def Let_def split: message_content.split list.split content_part.split)

lemma filter_strip_for:
  "filter (\<lambda>m. msg_role m \<noteq> System) (strip_for model ms) = strip_for model (filter (\<lambda>m. msg_role m \<noteq> System) ms)"
  by (simp add: strip_for_def filter_map comp_def)


end
