(* ===== verification/Openai_Compat.thy ===== *)
theory Openai_Compat
  imports Sse Provider_Client
begin

text \<open>
  The client of the OpenAI chat-completions interface (\<open>skyclaw-providers/src/openai_compat.rs\<close>),
  which all the other providers are reached through: how a history becomes the messages of a
  request, the calls, and the handler of the event stream, which assembles tool calls from
  numbered parts. The parsers serde derives are parameters.
\<close>

section \<open>The body of a request\<close>

definition part_texts :: "content_part list \<Rightarrow> string list" where
  "part_texts ps = List.map_filter (\<lambda>p. case p of PText t \<Rightarrow> Some t | _ \<Rightarrow> None) ps"

text \<open>\<open>json_text\<close> is \<open>serde_json::to_string\<close>, which does not fail on a value.\<close>

fun openai_call :: "(json \<Rightarrow> string) \<Rightarrow> content_part \<Rightarrow> json option" where
  "openai_call jt (ToolUse i name input) = Some (JObject [(''id'', JString i), (''type'', JString ''function''),
     (''function'', JObject [(''name'', JString name), (''arguments'', JString (jt input))])])"
| "openai_call jt _ = None"

text \<open>The text of an assistant message is the last text part: each one replaces the one before.\<close>

definition openai_assistant :: "(json \<Rightarrow> string) \<Rightarrow> content_part list \<Rightarrow> json" where
  "openai_assistant jt ps =
     (let tool_calls = List.map_filter (openai_call jt) ps
      in JObject ([(''role'', JString ''assistant''),
           (''content'', if part_texts ps = [] then JNull else JString (last (part_texts ps)))]
           @ (if tool_calls = [] then [] else [(''tool_calls'', JArray tool_calls)])))"

fun openai_result :: "content_part \<Rightarrow> json option" where
  "openai_result (ToolResult i content _ name) = Some (JObject [(''role'', JString ''tool''),
     (''tool_call_id'', JString i), (''content'', JString content),
     (''name'', JString (case name of None \<Rightarrow> ''unknown_tool'' | Some n \<Rightarrow> if trim n = [] then ''unknown_tool'' else n))])"
| "openai_result _ = None"

fun openai_part :: "content_part \<Rightarrow> json option" where
  "openai_part (PText t) = Some (JObject [(''type'', JString ''text''), (''text'', JString t)])"
| "openai_part (Image media_type bytes) = Some (JObject [(''type'', JString ''image_url''),
     (''image_url'', JObject [(''url'', JString (''data:'' @ media_type @ '';base64,'' @ bytes)),
       (''detail'', JString ''auto'')])])"
| "openai_part _ = None"

fun role_name :: "role \<Rightarrow> string" where
  "role_name System = ''system''"
| "role_name User = ''user''"
| "role_name Assistant = ''assistant''"
| "role_name RoleTool = ''tool''"

definition openai_text :: "role \<Rightarrow> string \<Rightarrow> json" where
  "openai_text r t = JObject [(''role'', JString (role_name r)), (''content'', JString t)]"

definition convert_message_to_openai :: "(json \<Rightarrow> string) \<Rightarrow> chat_message \<Rightarrow> json result" where
  "convert_message_to_openai jt m = (case msg_content m of
      Text t \<Rightarrow> Inr (openai_text (msg_role m) t)
    | Parts ps \<Rightarrow>
        if msg_role m = Assistant then Inr (openai_assistant jt ps)
        else if msg_role m = RoleTool then (case List.map_filter openai_result ps of
            [j] \<Rightarrow> Inr j
          | [] \<Rightarrow> Inr (openai_text RoleTool (join nl (part_texts ps)))
          | js \<Rightarrow> Inr (JArray js))
        else if list_ex is_image ps
        then Inr (JObject [(''role'', JString (role_name (msg_role m))), (''content'', JArray (List.map_filter openai_part ps))])
        else Inr (openai_text (msg_role m) (join nl (part_texts ps))))"

definition convert_tool_to_openai :: "tool_definition \<Rightarrow> json" where
  "convert_tool_to_openai t = JObject [(''type'', JString ''function''),
     (''function'', JObject [(''name'', JString (td_name t)), (''description'', JString (td_description t)),
       (''parameters'', td_parameters t)])]"

text \<open>The loop over the messages; an array stands for several of them.\<close>

fun openai_messages :: "(json \<Rightarrow> string) \<Rightarrow> chat_message list \<Rightarrow> json list \<Rightarrow> json list result" where
  "openai_messages jt [] acc = Inr acc"
| "openai_messages jt (m # ms) acc = bind_result (convert_message_to_openai jt m)
     (\<lambda>j. openai_messages jt ms (acc @ (case j of JArray arr \<Rightarrow> arr | _ \<Rightarrow> [j])))"

definition openai_body :: "(json \<Rightarrow> string) \<Rightarrow> (f32 \<Rightarrow> string) \<Rightarrow> api_client \<Rightarrow> completion_request \<Rightarrow> bool \<Rightarrow> json result" where
  "openai_body jt f32_text c r stream =
     bind_result (openai_messages jt (cr_messages r)
        (case cr_system r of None \<Rightarrow> [] | Some s \<Rightarrow> [openai_text System s]))
     (\<lambda>messages. Inr (JObject ([(''model'', JString (cr_model r)), (''messages'', JArray messages)]
         @ (case cr_max_tokens r of None \<Rightarrow> []
            | Some n \<Rightarrow> [(if str_contains ''api.openai.com'' (base_url c) then ''max_completion_tokens'' else ''max_tokens'',
                JNumber (nat_str (unat n)))])
         @ (case cr_temperature r of None \<Rightarrow> [] | Some x \<Rightarrow> [(''temperature'', JNumber (f32_text x))])
         @ (if cr_tools r \<noteq> [] then [(''tools'', JArray (map convert_tool_to_openai (cr_tools r)))] else [])
         @ (if stream then [(''stream'', JBool True)] else []))))"

section \<open>Calls\<close>

definition openai_new :: "string \<Rightarrow> api_client" where
  "openai_new api_key = \<lparr>api_keys = [api_key], key_index = 0, base_url = ''https://api.openai.com/v1'', extra_headers = []\<rparr>"

definition openai_with_base_url :: "string \<Rightarrow> api_client \<Rightarrow> api_client" where
  "openai_with_base_url url c = c\<lparr>base_url := rev (dropWhile ((=) CHR ''/'') (rev url))\<rparr>"

definition with_extra_headers :: "(string \<times> string) list \<Rightarrow> api_client \<Rightarrow> api_client" where
  "with_extra_headers headers c = c\<lparr>extra_headers := headers\<rparr>"

definition openai_request :: "api_client \<Rightarrow> json \<Rightarrow> http_request" where
  "openai_request c body = \<lparr>hq_method = POST, hq_url = base_url c @ ''/chat/completions'',
     hq_headers = [(''Authorization'', ''Bearer '' @ current_key c), (''Content-Type'', ''application/json'')]
       @ extra_headers c, hq_body = Some body\<rparr>"

text \<open>\<open>OpenAIResponse\<close> and what it contains.\<close>

record openai_choice =
  oc_content :: "string option"
  oc_tool_calls :: "(string \<times> string \<times> string) list option"
  oc_finish_reason :: "string option"

record openai_response =
  or_id :: "string option"
  or_choices :: "openai_choice list"
  or_usage :: "(u32 \<times> u32) option"

text \<open>The arguments of a call are text to be parsed; what does not parse becomes an empty object.\<close>

definition call_of :: "(string \<Rightarrow> json option) \<Rightarrow> string \<times> string \<times> string \<Rightarrow> content_part" where
  "call_of parse_value = (\<lambda>(i, name, arguments). ToolUse i name
     (case parse_value arguments of None \<Rightarrow> JObject [] | Some v \<Rightarrow> v))"

definition openai_parse_failure :: "string \<Rightarrow> string \<Rightarrow> skyclaw_error" where
  "openai_parse_failure e body_text = Provider (''Failed to parse OpenAI-compat response: '' @ e @ nl @ ''Raw body: '' @
     (if 500 < length body_text then take (last_start_upto 500 body_text) body_text @ ''...'' else body_text))"

definition openai_response_of :: "(string \<Rightarrow> json option) \<Rightarrow> openai_response \<Rightarrow> completion_response result" where
  "openai_response_of parse_value r = (case or_choices r of
      [] \<Rightarrow> Inl (Provider ''No choices in response'')
    | choice # _ \<Rightarrow> Inr \<lparr>cs_id = (case or_id r of None \<Rightarrow> [] | Some i \<Rightarrow> i),
        cs_content = (case oc_content choice of None \<Rightarrow> [] | Some t \<Rightarrow> if t = [] then [] else [PText t])
          @ (case oc_tool_calls choice of None \<Rightarrow> [] | Some tcs \<Rightarrow> map (call_of parse_value) tcs),
        cs_stop_reason = oc_finish_reason choice,
        cs_usage = (case or_usage r of
            None \<Rightarrow> \<lparr>us_input_tokens = 0, us_output_tokens = 0, us_cost_usd = 0\<rparr>
          | Some (i, out) \<Rightarrow> \<lparr>us_input_tokens = i, us_output_tokens = out, us_cost_usd = 0\<rparr>)\<rparr>)"

definition openai_complete :: "(json \<Rightarrow> string) \<Rightarrow> (f32 \<Rightarrow> string) \<Rightarrow> (nat \<Rightarrow> string) \<Rightarrow> (string \<Rightarrow> string + openai_response) \<Rightarrow>
    (string \<Rightarrow> json option) \<Rightarrow> 'w http \<Rightarrow> completion_request \<Rightarrow> api_client \<Rightarrow> 'w \<Rightarrow>
    completion_response result \<times> api_client \<times> 'w" where
  "openai_complete jt f32_text status_text parse parse_value send request c w =
     (case send_checked ''OpenAI-compat'' [] status_text send (openai_body jt f32_text c request False)
         (openai_request c) c w of
        (Inl e, c', w') \<Rightarrow> (Inl e, c', w')
      | (Inr resp, c', w') \<Rightarrow> (case hr_body resp of
            Inl e \<Rightarrow> (Inl (Provider (''Failed to read OpenAI-compat response body: '' @ e)), c', w')
          | Inr body_text \<Rightarrow> (case parse body_text of
                Inl e \<Rightarrow> (Inl (openai_parse_failure e body_text), c', w')
              | Inr r \<Rightarrow> (openai_response_of parse_value r, c', w'))))"

definition openai_get :: "api_client \<Rightarrow> http_request" where
  "openai_get c = \<lparr>hq_method = GET, hq_url = base_url c @ ''/models'',
     hq_headers = (''Authorization'', ''Bearer '' @ current_key c) # extra_headers c, hq_body = None\<rparr>"

definition openai_health_check :: "'w http \<Rightarrow> api_client \<Rightarrow> 'w \<Rightarrow> bool result \<times> 'w" where
  "openai_health_check send c w = (case send (openai_get c) w of
      (Inl e, w') \<Rightarrow> (Inl (Provider (''Health check failed: '' @ e)), w')
    | (Inr resp, w') \<Rightarrow> (Inr (is_success (hr_status resp)), w'))"

text \<open>\<open>parse\<close> reads the identifiers out of the list of models.\<close>

definition openai_list_models :: "(nat \<Rightarrow> string) \<Rightarrow> (string \<Rightarrow> string + string list) \<Rightarrow> 'w http \<Rightarrow> api_client \<Rightarrow> 'w \<Rightarrow>
    string list result \<times> 'w" where
  "openai_list_models status_text parse send c w = (case send (openai_get c) w of
      (Inl e, w') \<Rightarrow> (Inl (Provider (''Failed to list models: '' @ e)), w')
    | (Inr resp, w') \<Rightarrow>
        (if \<not> is_success (hr_status resp)
         then Inl (Provider (''Failed to list models ('' @ status_text (hr_status resp) @ ''): ''
           @ (case hr_body resp of Inl _ \<Rightarrow> [] | Inr s \<Rightarrow> s)))
         else map_error (\<lambda>e. Provider (''Failed to parse models response: '' @ e)) (bind_result (hr_body resp) parse), w'))"

section \<open>The event stream\<close>

record stream_call =
  sc_index :: "nat option"
  sc_id :: "string option"
  sc_function :: "(string option \<times> string option) option"

record stream_choice =
  so_content :: "string option"
  so_tool_calls :: "stream_call list option"
  so_finish_reason :: "string option"

text \<open>A tool call under construction: identifier, name and the arguments so far.\<close>

type_synonym partial_call = "string \<times> string \<times> string"

definition accumulate_call :: "partial_call list \<Rightarrow> stream_call \<Rightarrow> partial_call list" where
  "accumulate_call tool_calls tc =
     (let idx = (case sc_index tc of None \<Rightarrow> 0 | Some i \<Rightarrow> i);
          padded = tool_calls @ replicate (Suc idx - length tool_calls) ([], [], []);
          (i, name, args) = padded ! idx;
          i' = (case sc_id tc of None \<Rightarrow> i | Some x \<Rightarrow> x);
          (name', args') = (case sc_function tc of
              None \<Rightarrow> (name, args)
            | Some (n, a) \<Rightarrow> (case n of None \<Rightarrow> name | Some x \<Rightarrow> x, case a of None \<Rightarrow> args | Some x \<Rightarrow> args @ x))
      in padded[idx := (i', name', args')])"

definition flush_tool_calls :: "(string \<Rightarrow> json option) \<Rightarrow> partial_call list \<Rightarrow> (stream_chunk result \<times> partial_call list) option" where
  "flush_tool_calls parse_value tool_calls = (case tool_calls of
      [] \<Rightarrow> None
    | c # cs \<Rightarrow> Some (tool_chunk (call_of parse_value c), cs))"

text \<open>The loop over the choices of a chunk, which returns at the first one that has something to show.\<close>

fun openai_choices :: "(string \<Rightarrow> json option) \<Rightarrow> stream_choice list \<Rightarrow> partial_call list \<Rightarrow> partial_call sse_step" where
  "openai_choices parse_value [] tool_calls = Next tool_calls"
| "openai_choices parse_value (choice # choices) tool_calls =
     (if so_finish_reason choice = Some ''error''
      then Emit (Inl (Provider (''Mid-stream provider error: ''
         @ (case so_content choice of None \<Rightarrow> ''Unknown mid-stream error from provider'' | Some t \<Rightarrow> t)))) tool_calls
      else let tool_calls' = (case so_tool_calls choice of None \<Rightarrow> tool_calls | Some tcs \<Rightarrow> foldl accumulate_call tool_calls tcs)
      in case so_content choice of
          Some t \<Rightarrow> Emit (delta_chunk t) tool_calls'
        | None \<Rightarrow> (case so_finish_reason choice of
              None \<Rightarrow> openai_choices parse_value choices tool_calls'
            | Some reason \<Rightarrow> (case (if reason = ''tool_calls'' \<or> reason = ''stop'' then flush_tool_calls parse_value tool_calls' else None) of
                  Some (r, rest) \<Rightarrow> Emit r rest
                | None \<Rightarrow> Emit (stop_chunk (Some reason)) tool_calls')))"

definition openai_event :: "(string \<Rightarrow> json option) \<Rightarrow> (string \<Rightarrow> stream_choice list option) \<Rightarrow> string \<Rightarrow>
    partial_call list \<Rightarrow> partial_call sse_step" where
  "openai_event parse_value parse_chunk data tool_calls =
     (if trim data = ''[DONE]''
      then (case flush_tool_calls parse_value tool_calls of
              Some (r, rest) \<Rightarrow> Emit r rest
            | None \<Rightarrow> Stop tool_calls)
      else (case parse_chunk data of
              None \<Rightarrow> Next tool_calls
            | Some choices \<Rightarrow> openai_choices parse_value choices tool_calls))"

text \<open>\<open>extract_openai_sse_event\<close> is \<open>sse_extract\<close> with this handler.\<close>

definition openai_handle :: "(string \<Rightarrow> json option) \<Rightarrow> (string \<Rightarrow> stream_choice list option) \<Rightarrow> partial_call sse_handler" where
  "openai_handle parse_value parse_chunk event_text tool_calls =
     (let data_parts = List.map_filter sse_data (str_lines event_text)
      in if data_parts = [] then Next tool_calls
         else openai_event parse_value parse_chunk (join nl data_parts) tool_calls)"

text \<open>At the end of the connection the remaining calls are flushed, one per poll.\<close>

definition openai_stream :: "(string \<Rightarrow> json option) \<Rightarrow> (string \<Rightarrow> stream_choice list option) \<Rightarrow>
    (string + string) list \<Rightarrow> stream_chunk result list" where
  "openai_stream parse_value parse_chunk pieces =
     sse_stream (openai_handle parse_value parse_chunk) (Some (\<lambda>c. tool_chunk (call_of parse_value c))) pieces [] []"

definition openai_open_stream :: "(json \<Rightarrow> string) \<Rightarrow> (f32 \<Rightarrow> string) \<Rightarrow> (nat \<Rightarrow> string) \<Rightarrow> (string \<Rightarrow> json option) \<Rightarrow>
    (string \<Rightarrow> stream_choice list option) \<Rightarrow> 'w http \<Rightarrow> completion_request \<Rightarrow> api_client \<Rightarrow> 'w \<Rightarrow>
    stream_chunk result list result \<times> api_client \<times> 'w" where
  "openai_open_stream jt f32_text status_text parse_value parse_chunk send request c w =
     (case send_checked ''OpenAI-compat'' '' stream'' status_text send (openai_body jt f32_text c request True)
         (openai_request c) c w of
        (Inl e, c', w') \<Rightarrow> (Inl e, c', w')
      | (Inr resp, c', w') \<Rightarrow> (Inr (openai_stream parse_value parse_chunk (hr_pieces resp)), c', w'))"

section \<open>Every call in its place\<close>

text \<open>
  What the interface asks of the messages: each message with tool calls is followed by one
  message of role tool for each call, in the order of the calls.
\<close>

definition json_array :: "json option \<Rightarrow> json list" where
  "json_array v = (case v of Some (JArray js) \<Rightarrow> js | _ \<Rightarrow> [])"

definition wire_call_ids :: "json \<Rightarrow> json option list" where
  "wire_call_ids j = map (\<lambda>c. json_get c ''id'') (json_array (json_get j ''tool_calls''))"

fun calls_answered :: "json option list \<Rightarrow> json list \<Rightarrow> bool" where
  "calls_answered open_calls [] \<longleftrightarrow> open_calls = []"
| "calls_answered open_calls (j # js) \<longleftrightarrow>
     (if json_get j ''role'' = Some (JString ''tool'')
      then (case open_calls of [] \<Rightarrow> False | i # is \<Rightarrow> json_get j ''tool_call_id'' = i \<and> calls_answered is js)
      else open_calls = [] \<and> calls_answered (wire_call_ids j) js)"

text \<open>The same of a history: the parts of a tool message are the results of the calls of the
  assistant's message before it, and no other message comes between.\<close>

definition uses_in :: "content_part list \<Rightarrow> string list" where
  "uses_in ps = List.map_filter (\<lambda>p. case p of ToolUse i _ _ \<Rightarrow> Some i | _ \<Rightarrow> None) ps"

definition results_in :: "content_part list \<Rightarrow> string list" where
  "results_in ps = List.map_filter (\<lambda>p. case p of ToolResult i _ _ _ \<Rightarrow> Some i | _ \<Rightarrow> None) ps"

definition use_ids :: "chat_message \<Rightarrow> string list" where
  "use_ids m = (case msg_content m of Parts ps \<Rightarrow> if msg_role m = Assistant then uses_in ps else [] | Text _ \<Rightarrow> [])"

definition result_ids :: "chat_message \<Rightarrow> string list" where
  "result_ids m = (case msg_content m of Parts ps \<Rightarrow> results_in ps | Text _ \<Rightarrow> [])"

fun history_answered :: "string list \<Rightarrow> chat_message list \<Rightarrow> bool" where
  "history_answered open_calls [] \<longleftrightarrow> open_calls = []"
| "history_answered open_calls (m # ms) \<longleftrightarrow>
     (if msg_role m = RoleTool then open_calls \<noteq> [] \<and> result_ids m = open_calls \<and> history_answered [] ms
      else open_calls = [] \<and> history_answered (use_ids m) ms)"

abbreviation id_of :: "string \<Rightarrow> json option" where
  "id_of i \<equiv> Some (JString i)"

lemma openai_call_ids:
  "map (\<lambda>c. json_get c ''id'') (List.map_filter (openai_call jt) ps) = map id_of (uses_in ps)"
  unfolding uses_in_def by (induction ps) (auto simp: hm_lemmas map_filter_simps split: content_part.splits option.splits)

lemma assistant_call_ids: "wire_call_ids (openai_assistant jt ps) = map id_of (uses_in ps)"
  using openai_call_ids [of jt ps]
  by (cases "List.map_filter (openai_call jt) ps = []")
    (simp_all add: wire_call_ids_def json_array_def openai_assistant_def Let_def hm_lemmas)

lemma results_in_Nil: "List.map_filter openai_result ps = [] \<longleftrightarrow> results_in ps = []"
  unfolding results_in_def by (induction ps) (auto simp: map_filter_simps split: content_part.splits)

text \<open>The messages one message of the history becomes.\<close>

definition spread :: "json \<Rightarrow> json list" where
  "spread j = (case j of JArray arr \<Rightarrow> arr | _ \<Rightarrow> [j])"

definition openai_message_list :: "(json \<Rightarrow> string) \<Rightarrow> chat_message \<Rightarrow> json list" where
  "openai_message_list jt m = (case convert_message_to_openai jt m of Inl _ \<Rightarrow> [] | Inr j \<Rightarrow> spread j)"

lemma openai_messages_spread:
  "openai_messages jt ms acc = Inr (acc @ concat (map (openai_message_list jt) ms))"
proof (induction ms arbitrary: acc)
  case (Cons m ms)
  obtain j where "convert_message_to_openai jt m = Inr j"
    by (fastforce simp: convert_message_to_openai_def split: message_content.split list.split if_splits)
  then show ?case using Cons by (simp add: openai_message_list_def spread_def)
qed simp

lemma tool_message_list:
  assumes "msg_role m = RoleTool" "msg_content m = Parts ps" "results_in ps \<noteq> []"
  shows "openai_message_list jt m = List.map_filter openai_result ps"
proof -
  have obj: "spread j = [j]" if "j \<in> set (List.map_filter openai_result ps)" for j
    using that by (auto simp: spread_def elim!: openai_result.elims)
  obtain j js where js: "List.map_filter openai_result ps = j # js"
    using assms(3) results_in_Nil [of ps] by (cases "List.map_filter openai_result ps") auto
  then have "spread j = [j]" using obj by simp
  then show ?thesis
    using assms(1,2) js by (cases js) (simp_all add: openai_message_list_def convert_message_to_openai_def, simp add: spread_def)
qed

lemma results_answer:
  "calls_answered (map id_of (results_in ps)) (List.map_filter openai_result ps @ js) \<longleftrightarrow> calls_answered [] js"
  unfolding results_in_def
  by (induction ps) (auto simp: hm_lemmas map_filter_simps split: content_part.splits)

lemma other_message_list:
  assumes "msg_role m \<noteq> RoleTool"
  obtains j where "openai_message_list jt m = [j]" "json_get j ''role'' = Some (JString (role_name (msg_role m)))"
    "wire_call_ids j = map id_of (use_ids m)"
proof (cases "msg_content m")
  case (Text t)
  then show ?thesis using that [of "openai_text (msg_role m) t"]
    by (simp add: openai_message_list_def convert_message_to_openai_def openai_text_def spread_def hm_lemmas
        wire_call_ids_def json_array_def use_ids_def)
next
  case (Parts ps)
  show ?thesis
  proof (cases "msg_role m = Assistant")
    case True
    moreover from this have "openai_message_list jt m = [openai_assistant jt ps]"
        "json_get (openai_assistant jt ps) ''role'' = Some (JString (role_name (msg_role m)))"
      using Parts by (simp_all add: openai_message_list_def convert_message_to_openai_def openai_assistant_def Let_def
          spread_def hm_lemmas)
    ultimately show ?thesis using Parts that [of "openai_assistant jt ps"]
      by (simp add: assistant_call_ids use_ids_def)
  next
    case False
    define j where "j = (if list_ex is_image ps
      then JObject [(''role'', JString (role_name (msg_role m))), (''content'', JArray (List.map_filter openai_part ps))]
      else openai_text (msg_role m) (join nl (part_texts ps)))"
    then show ?thesis using False Parts assms that [of j]
      by (auto simp: openai_message_list_def convert_message_to_openai_def openai_text_def spread_def hm_lemmas
          wire_call_ids_def json_array_def use_ids_def)
  qed
qed

lemma history_answered_wire:
  "history_answered open_calls ms \<Longrightarrow>
   calls_answered (map id_of open_calls) (concat (map (openai_message_list jt) ms))"
proof (induction open_calls ms rule: history_answered.induct)
  case (2 open_calls m ms)
  show ?case
  proof (cases "msg_role m = RoleTool")
    case True
    then obtain ps where ps: "msg_content m = Parts ps" "results_in ps = open_calls" "open_calls \<noteq> []"
      using 2(3) by (auto simp: result_ids_def split: message_content.splits)
    then show ?thesis
      using 2(1) [OF True] 2(3) True tool_message_list [OF True ps(1)] results_answer [of ps] by simp
  next
    case False
    obtain j where "openai_message_list jt m = [j]" "json_get j ''role'' = Some (JString (role_name (msg_role m)))"
        "wire_call_ids j = map id_of (use_ids m)"
      using other_message_list [OF False] by blast
    then show ?thesis using 2(2,3) False by (cases "msg_role m") simp_all
  qed
qed simp

lemma openai_body_messages:
  "\<exists>rest. openai_body jt f32_text c r stream = Inr (JObject ((''model'', JString (cr_model r))
     # (''messages'', JArray ((case cr_system r of None \<Rightarrow> [] | Some s \<Rightarrow> [openai_text System s])
         @ concat (map (openai_message_list jt) (cr_messages r)))) # rest))"
  by (simp add: openai_body_def openai_messages_spread)

lemma system_first: "calls_answered [] ((case s of None \<Rightarrow> [] | Some t \<Rightarrow> [openai_text System t]) @ js) \<longleftrightarrow> calls_answered [] js"
  by (simp add: openai_text_def hm_lemmas wire_call_ids_def json_array_def split: option.split)

section \<open>What the server sends\<close>

text \<open>A reply of the server: text in pieces, then calls, numbered from 0, whose arguments come in
  pieces, the reason and the end marker.\<close>

datatype openai_sent = SendText string | SendCall nat string string | SendArgs nat string | SendFinish string | SendDone

definition choice_text :: "string option \<Rightarrow> string option \<Rightarrow> stream_call list option \<Rightarrow> stream_choice" where
  "choice_text content reason tcs = \<lparr>so_content = content, so_tool_calls = tcs, so_finish_reason = reason\<rparr>"

fun sent_choices :: "openai_sent \<Rightarrow> stream_choice list" where
  "sent_choices (SendText t) = [choice_text (Some t) None None]"
| "sent_choices (SendCall k i name) =
     [choice_text None None (Some [\<lparr>sc_index = Some k, sc_id = Some i, sc_function = Some (Some name, Some [])\<rparr>])]"
| "sent_choices (SendArgs k a) =
     [choice_text None None (Some [\<lparr>sc_index = Some k, sc_id = None, sc_function = Some (None, Some a)\<rparr>])]"
| "sent_choices (SendFinish reason) = [choice_text None (Some reason) None]"
| "sent_choices SendDone = []"

type_synonym sent_call = "string \<times> string \<times> string list"

fun call_events :: "nat \<Rightarrow> sent_call list \<Rightarrow> openai_sent list" where
  "call_events k [] = []"
| "call_events k ((i, name, as) # calls) = SendCall k i name # map (SendArgs k) as @ call_events (Suc k) calls"

definition reply_events :: "string list \<Rightarrow> sent_call list \<Rightarrow> string \<Rightarrow> openai_sent list" where
  "reply_events texts calls reason = map SendText texts @ call_events 0 calls @ [SendFinish reason, SendDone]"

definition openai_wire :: "(openai_sent \<Rightarrow> string) \<Rightarrow> openai_sent \<Rightarrow> string" where
  "openai_wire data ev = ''data: '' @ data ev @ nl @ nl"

text \<open>The data is one line, and the parser reads what the server wrote.\<close>

fun sent_read :: "(string \<Rightarrow> stream_choice list option) \<Rightarrow> string \<Rightarrow> openai_sent \<Rightarrow> bool" where
  "sent_read parse_chunk d SendDone \<longleftrightarrow> d = ''[DONE]''"
| "sent_read parse_chunk d ev \<longleftrightarrow> one_line d \<and> trim d \<noteq> ''[DONE]'' \<and> parse_chunk d = Some (sent_choices ev)"

definition sent_ok :: "(string \<Rightarrow> stream_choice list option) \<Rightarrow> (openai_sent \<Rightarrow> string) \<Rightarrow> openai_sent list \<Rightarrow> bool" where
  "sent_ok parse_chunk data evs \<longleftrightarrow> list_all (\<lambda>ev. sent_read parse_chunk (data ev) ev) evs"

lemma sent_ok_simps [simp]:
  "sent_ok parse_chunk data []"
  "sent_ok parse_chunk data (ev # evs) \<longleftrightarrow> sent_read parse_chunk (data ev) ev \<and> sent_ok parse_chunk data evs"
  "sent_ok parse_chunk data (evs @ evs') \<longleftrightarrow> sent_ok parse_chunk data evs \<and> sent_ok parse_chunk data evs'"
  by (auto simp: sent_ok_def)

lemma sent_read_line: "sent_read parse_chunk d ev \<Longrightarrow> one_line d"
  by (cases ev) (simp_all add: one_line_def byte_def)

lemma openai_wire_events:
  assumes "sent_read parse_chunk (data ev) ev"
  shows "sse_events (openai_wire data ev @ t) = openai_wire data ev # sse_events t"
proof -
  have "one_line (''data: '' @ data ev)" using sent_read_line [OF assms] by (simp add: one_line_def byte_def)
  then show ?thesis using sse_events_line [of "''data: '' @ data ev" t] by (simp add: openai_wire_def)
qed

lemma openai_handle_wire:
  assumes "sent_read parse_chunk (data ev) ev"
  shows "openai_handle parse_value parse_chunk (openai_wire data ev) b = openai_event parse_value parse_chunk (data ev) b"
proof -
  have d: "one_line (''data: '' @ data ev)" using sent_read_line [OF assms] by (simp add: one_line_def byte_def)
  have "str_lines (openai_wire data ev) = [''data: '' @ data ev, []]"
    using str_lines_line [OF d, of nl] str_lines_line [of "[]" "[]"]
    by (simp add: openai_wire_def one_line_def) (simp add: str_lines_def)
  then show ?thesis by (simp add: openai_handle_def sse_data_def strip_prefix_def map_filter_simps)
qed

lemma trim_done: "trim ''[DONE]'' = ''[DONE]''"
  by code_simp

definition openai_step :: "(string \<Rightarrow> json option) \<Rightarrow> (string \<Rightarrow> stream_choice list option) \<Rightarrow> (openai_sent \<Rightarrow> string) \<Rightarrow>
    openai_sent \<Rightarrow> partial_call list \<Rightarrow> partial_call sse_step" where
  "openai_step parse_value parse_chunk data ev b = openai_event parse_value parse_chunk (data ev) b"

interpretation oa: event_client "openai_handle parse_value parse_chunk" "openai_wire data"
    "\<lambda>ev. sent_read parse_chunk (data ev) ev" "openai_step parse_value parse_chunk data" for parse_value parse_chunk data
  by unfold_locales (simp_all add: openai_wire_events openai_handle_wire openai_step_def del: sent_read.simps)

lemma openai_event_sent:
  "sent_read parse_chunk (data ev) ev \<Longrightarrow> ev \<noteq> SendDone \<Longrightarrow>
   openai_step parse_value parse_chunk data ev b = openai_choices parse_value (sent_choices ev) b"
  by (cases ev) (simp_all add: openai_step_def openai_event_def)

lemma accumulate_new:
  "accumulate_call st \<lparr>sc_index = Some (length st), sc_id = Some i, sc_function = Some (Some name, Some [])\<rparr> = st @ [(i, name, [])]"
  by (simp add: accumulate_call_def Let_def)

lemma accumulate_args:
  "accumulate_call (st @ [(i, name, args)]) \<lparr>sc_index = Some (length st), sc_id = None, sc_function = Some (None, Some a)\<rparr>
   = st @ [(i, name, args @ a)]"
  by (simp add: accumulate_call_def Let_def)

lemma run_sent_texts:
  "sent_ok parse_chunk data (map SendText ts) \<Longrightarrow>
   run_events (openai_step parse_value parse_chunk data) (map SendText ts @ es) b
   = map_option (\<lambda>(rs, c). (map delta_chunk ts @ rs, c)) (run_events (openai_step parse_value parse_chunk data) es b)"
  by (induction ts) (auto simp: openai_event_sent choice_text_def option.map_comp comp_def
      case_prod_beta' option.map_id [unfolded id_def] simp del: sent_read.simps)

lemma run_sent_args:
  "sent_ok parse_chunk data (map (SendArgs (length st)) as) \<Longrightarrow>
   run_events (openai_step parse_value parse_chunk data) (map (SendArgs (length st)) as @ es) (st @ [(i, name, args)])
   = run_events (openai_step parse_value parse_chunk data) es (st @ [(i, name, args @ concat as)])"
  by (induction as arbitrary: args)
    (simp_all add: openai_event_sent choice_text_def accumulate_args del: sent_read.simps)

lemma run_sent_calls:
  "sent_ok parse_chunk data (call_events (length st) calls) \<Longrightarrow>
   run_events (openai_step parse_value parse_chunk data) (call_events (length st) calls @ es) st
   = run_events (openai_step parse_value parse_chunk data) es (st @ map (\<lambda>(i, name, as). (i, name, concat as)) calls)"
proof (induction calls arbitrary: st)
  case (Cons call calls)
  obtain i name as where call: "call = (i, name, as)" by (cases call)
  have "sent_ok parse_chunk data (call_events (length (st @ [(i, name, concat as)])) calls)"
    using Cons.prems by (simp add: call)
  from Cons.IH [OF this] show ?case
    using Cons.prems run_sent_args [of parse_chunk data st as parse_value "call_events (Suc (length st)) calls @ es" i name "[]"]
    by (simp add: call openai_event_sent choice_text_def accumulate_new del: sent_read.simps)
qed simp

text \<open>What follows the calls: the first one is flushed by the reason, the second by the end marker, the
  others when the connection ends. With no call, the reason itself is emitted.\<close>

lemma run_finish:
  assumes "sent_ok parse_chunk data [SendFinish reason, SendDone]" "reason = ''tool_calls'' \<or> reason = ''stop''"
  shows "run_events (openai_step parse_value parse_chunk data) [SendFinish reason, SendDone] b
    = Some (if b = [] then [stop_chunk (Some reason)] else map (\<lambda>c. tool_chunk (call_of parse_value c)) (take 2 b), drop 2 b)"
proof -
  have r: "reason \<noteq> ''error''" using assms(2) by auto
  have fin: "openai_step parse_value parse_chunk data SendDone c = (case c of
      [] \<Rightarrow> Stop [] | x # xs \<Rightarrow> Emit (tool_chunk (call_of parse_value x)) xs)" for c
    using assms(1) by (simp add: openai_step_def openai_event_def flush_tool_calls_def trim_done split: list.split)
  show ?thesis
    using assms r by (cases b; cases "tl b")
      (auto simp: openai_event_sent choice_text_def fin flush_tool_calls_def simp del: sent_read.simps)
qed

lemma run_reply:
  assumes "sent_ok parse_chunk data (reply_events texts calls reason)" "reason = ''tool_calls'' \<or> reason = ''stop''"
  defines "b \<equiv> map (\<lambda>(i, name, as). (i, name, concat as)) calls"
  shows "run_events (openai_step parse_value parse_chunk data) (reply_events texts calls reason) []
    = Some (map delta_chunk texts @ (if b = [] then [stop_chunk (Some reason)]
        else map (\<lambda>c. tool_chunk (call_of parse_value c)) (take 2 b)), drop 2 b)"
  using assms(1) run_finish [of parse_chunk data reason parse_value b] assms(2)
    run_sent_calls [of parse_chunk data "[]" calls parse_value "[SendFinish reason, SendDone]"]
    run_sent_texts [of parse_chunk data texts parse_value
      "call_events 0 calls @ [SendFinish reason, SendDone]" "[]"]
  by (simp add: reply_events_def b_def del: sent_read.simps)


definition sample_chunks :: "(string \<times> stream_choice list) list" where
  "sample_chunks = [(''a'', sent_choices (SendText ''Look'')), (''b'', sent_choices (SendCall 0 ''1'' ''ls'')),
     (''c'', sent_choices (SendArgs 0 ''{'')), (''d'', sent_choices (SendArgs 0 ''}'')), (''e'', sent_choices (SendFinish ''tool_calls''))]"

fun sample_sent :: "openai_sent \<Rightarrow> string" where
  "sample_sent (SendText _) = ''a''"
| "sample_sent (SendCall _ _ _) = ''b''"
| "sample_sent (SendArgs _ a) = (if a = ''{'' then ''c'' else ''d'')"
| "sample_sent (SendFinish _) = ''e''"
| "sample_sent SendDone = ''[DONE]''"


text \<open>A chunk that carries both text and the reason: the reason is lost.\<close>

lemma reason_with_text_lost:
  "openai_choices parse_value [choice_text (Some t) (Some ''stop'') None] b = Emit (delta_chunk t) b"
  by (simp add: choice_text_def)

text \<open>Only the last text part of an assistant message is sent.\<close>

lemma earlier_texts_lost:
  "openai_message_list jt \<lparr>msg_role = Assistant, msg_content = Parts [PText a, PText b]\<rparr>
   = [JObject [(''role'', JString ''assistant''), (''content'', JString b)]]"
  by (simp add: openai_message_list_def convert_message_to_openai_def openai_assistant_def part_texts_def
      map_filter_simps Let_def spread_def)

end
