(* ===== verification/Providers.thy ===== *)
theory Providers
  imports Anthropic Openai_Compat Agent_Runtime
begin

text \<open>
  Which client a configuration creates (\<open>skyclaw-providers/src/lib.rs\<close>), and the client at work
  for the agent: the histories that messages leave behind are histories the interface accepts.
\<close>

section \<open>Creating a client\<close>

record provider_config =
  pc_name :: "string option"
  pc_api_key :: "string option"
  pc_keys :: "string list"
  pc_model :: "string option"
  pc_base_url :: "string option"
  pc_extra_headers :: "(string \<times> string) list"

definition all_keys :: "provider_config \<Rightarrow> string list" where
  "all_keys c = (if pc_keys c \<noteq> [] then pc_keys c else case pc_api_key c of None \<Rightarrow> [] | Some k \<Rightarrow> [k])"

datatype provider = AnthropicProvider api_client | OpenAICompatProvider api_client

definition preset_url :: "string \<Rightarrow> string option" where
  "preset_url name =
     (if name = ''gemini'' \<or> name = ''google'' then Some ''https://generativelanguage.googleapis.com/v1beta/openai''
      else if name = ''grok'' \<or> name = ''xai'' then Some ''https://api.x.ai/v1''
      else if name = ''openrouter'' then Some ''https://openrouter.ai/api/v1''
      else if name = ''minimax'' then Some ''https://api.minimax.io/v1''
      else if name = ''zai'' \<or> name = ''zhipu'' then Some ''https://api.z.ai/api/paas/v4''
      else if name = ''ollama'' then Some ''https://ollama.com/v1''
      else None)"

definition create_provider :: "provider_config \<Rightarrow> provider result" where
  "create_provider config =
     (let name = (case pc_name config of None \<Rightarrow> ''openai-compatible'' | Some n \<Rightarrow> n);
          keys = all_keys config
      in case (case keys of k # _ \<Rightarrow> Some k | [] \<Rightarrow> pc_api_key config) of
          None \<Rightarrow> Inl (Config ''Provider api_key is required'')
        | Some api_key \<Rightarrow>
            if name = ''anthropic''
            then (let c = with_keys keys (anthropic_new api_key)
              in Inr (AnthropicProvider (case pc_base_url config of None \<Rightarrow> c | Some url \<Rightarrow> anthropic_with_base_url url c)))
            else (let c = with_extra_headers (pc_extra_headers config) (with_keys keys (openai_new api_key))
              in Inr (OpenAICompatProvider
                (case (case pc_base_url config of None \<Rightarrow> preset_url name | Some url \<Rightarrow> Some url) of
                   None \<Rightarrow> c | Some url \<Rightarrow> openai_with_base_url url c))))"

fun client_of :: "provider \<Rightarrow> api_client" where
  "client_of (AnthropicProvider c) = c"
| "client_of (OpenAICompatProvider c) = c"

lemma create_provider_keys:
  "create_provider config = Inr p \<Longrightarrow> api_keys (client_of p) = all_keys config \<and> all_keys config \<noteq> [] \<and> key_index (client_of p) = 0"
  by (auto simp: create_provider_def Let_def all_keys_def with_keys_def anthropic_new_def openai_new_def
      anthropic_with_base_url_def openai_with_base_url_def with_extra_headers_def split: list.splits option.splits if_splits)

text \<open>
  A client is created exactly when a key is configured. A fresh client uses the first key; each
  refusal moves on to the next one, and after the last it starts again with the first.
\<close>

theorem keys_rotate:
  assumes "create_provider config = Inr p" "n < 2 ^ 64"
  shows "current_key ((rotate_key ^^ n) (client_of p)) = all_keys config ! (n mod length (all_keys config))"
  using keys_round_robin [of "client_of p" n] create_provider_keys [OF assms(1)] assms(2) by simp

theorem keys_rotate_witness:
  "\<exists>p. create_provider \<lparr>pc_name = Some ''grok'', pc_api_key = Some ''k'', pc_keys = [''a'', ''b''], pc_model = None,
      pc_base_url = None, pc_extra_headers = []\<rparr> = Inr p \<and> current_key ((rotate_key ^^ Suc 0) (client_of p)) = ''b''"
proof -
  let ?config = "\<lparr>pc_name = Some ''grok'', pc_api_key = Some ''k'', pc_keys = [''a'', ''b''], pc_model = None,
      pc_base_url = None, pc_extra_headers = []\<rparr>"
  obtain p where "create_provider ?config = Inr p"
    by (simp add: create_provider_def all_keys_def Let_def split: option.split)
  with keys_rotate [OF this, of "Suc 0"] show ?thesis by (simp add: all_keys_def)
qed

section \<open>Turns on the wire\<close>

lemma history_answered_append:
  "history_answered open_calls xs \<Longrightarrow> history_answered [] ys \<Longrightarrow> history_answered open_calls (xs @ ys)"
  by (induction open_calls xs rule: history_answered.induct) (auto split: if_splits)

lemma uses_in_tool_use_of: "uses_in ps = map fst (List.map_filter tool_use_of ps)"
  unfolding uses_in_def by (induction ps) (auto simp: map_filter_simps split: content_part.splits)

lemma results_in_refs: "map result_ref rs = map use_ref us \<Longrightarrow> results_in rs = map fst us"
proof (induction us arbitrary: rs)
  case (Cons u us)
  then obtain r rs' where rs: "rs = r # rs'" "result_ref r = use_ref u" "map result_ref rs' = map use_ref us"
    by (cases rs) auto
  then show ?case using Cons.IH [OF rs(3)]
    by (cases u; cases r) (auto simp: results_in_def map_filter_simps use_ref_def)
qed (simp add: results_in_def map_filter_simps)

lemma answers_ids: "answers m r \<Longrightarrow> result_ids r = use_ids m \<and> use_ids m \<noteq> []"
  by (auto simp: result_ids_def use_ids_def uses_in_tool_use_of results_in_refs split: message_content.splits)

lemma rounds_answered: "rounds_ok ms \<Longrightarrow> history_answered [] ms"
proof (induction ms rule: rounds_ok.induct)
  case (2 m)
  then show ?case by (auto simp: use_ids_def split: message_content.splits if_splits)
next
  case (3 m r ms)
  then show ?case using answers_roles [of m r] answers_ids [of m r] by (simp del: answers.simps)
qed simp

lemma quiet_head:
  "msg_role m \<noteq> Assistant \<Longrightarrow> msg_role m \<noteq> RoleTool \<Longrightarrow> history_answered [] (m # ms) = history_answered [] ms"
  by (simp add: use_ids_def split: message_content.split)

lemma turn_answered: "turn_ok ms \<Longrightarrow> history_answered [] ms"
proof (cases ms)
  case (Cons u rest)
  assume "turn_ok ms"
  then consider "rounds_ok rest" | d tail where "rest = d # tail" "msg_role d = System" "rounds_ok tail"
    using Cons by (auto split: list.splits)
  then have "history_answered [] rest"
    by cases (simp_all add: rounds_answered quiet_head del: history_answered.simps)
  then show ?thesis using Cons \<open>turn_ok ms\<close> by (simp add: quiet_head del: history_answered.simps)
qed simp

lemma uses_in_kept: "uses_in (filter (\<lambda>p. \<not> is_image p) ps) = uses_in ps"
  "results_in (filter (\<lambda>p. \<not> is_image p) ps) = results_in ps"
  unfolding uses_in_def results_in_def by (induction ps) (auto simp: map_filter_simps split: content_part.splits)

lemma strip_images_ids: "use_ids (strip_images m) = use_ids m \<and> (result_ids m \<noteq> [] \<longrightarrow> result_ids (strip_images m) = result_ids m)"
proof (cases "msg_content m")
  case (Parts ps)
  have "uses_in ps = []" "results_in ps = []" if "filter (\<lambda>p. \<not> is_image p) ps = [PText t]" for t
    using uses_in_kept [of ps] that by (simp_all add: uses_in_def results_in_def map_filter_simps)
  then show ?thesis using uses_in_kept [of ps] Parts
    by (auto simp: strip_images_def Let_def use_ids_def result_ids_def split: list.splits content_part.splits)
qed (simp add: strip_images_def)

lemma strip_answered: "history_answered open_calls ms \<Longrightarrow> history_answered open_calls (map strip_images ms)"
  by (induction open_calls ms rule: history_answered.induct) (auto simp: strip_images_ids split: if_splits)

lemma system_answered: "history_answered [] ms \<Longrightarrow> history_answered [] (map system_message texts @ ms)"
  by (induction texts) (simp_all add: system_message_def use_ids_def)

definition body_messages :: "json result \<Rightarrow> json list" where
  "body_messages body = (case body of Inl _ \<Rightarrow> [] | Inr j \<Rightarrow> json_array (json_get j ''messages''))"

lemma request_answered:
  assumes "history_answered [] (cr_messages r)"
  shows "calls_answered [] (body_messages (openai_body jt f32_text c r stream))"
  using openai_body_messages [of jt f32_text c r stream] history_answered_wire [OF assms, of jt]
  by (auto simp: body_messages_def json_array_def hm_lemmas system_first)

text \<open>C7: When every call of a tool in a history is answered, this is so after the next message,
  whatever the provider, the tools, the memory and the database do; and while the history has at
  most 60 messages, in each body that is built of it for the OpenAI interface every assistant
  message with calls is followed by one message of role tool for each call, in their order.
\<close>

theorem calls_answered_on_the_wire:
  assumes "process_message a env msg st = Some (r, st')" "ar_max_tool_rounds a < 2 ^ 32"
    and "history_answered [] (hist st)"
  shows "history_answered [] (hist st') \<and> (length (hist st') \<le> 60 \<longrightarrow> calls_answered [] (body_messages (openai_body jt f32_text c
      (fst (build_context cenv ops (as_session st') tools model system_prompt max_turns max_tokens m)) stream)))"
proof (intro conjI impI)
  show answered: "history_answered [] (hist st')"
    using process_message_history [OF assms(1,2)] assms(3) history_answered_append turn_answered by metis
  assume short: "length (hist st') \<le> 60"
  let ?r = "fst (build_context cenv ops (as_session st') tools model system_prompt max_turns max_tokens m)"
  obtain texts n where "n \<le> length (hist st') - 60" "cr_messages ?r = strip_for model (map system_message texts @ drop n (hist st'))"
    by (rule build_context_messages)
  then have "history_answered [] (cr_messages ?r)"
    using short system_answered [OF answered, of texts] strip_answered [OF system_answered [OF answered, of texts]]
    by (simp add: strip_for_def del: map_append)
  then show "calls_answered [] (body_messages (openai_body jt f32_text c ?r stream))" by (rule request_answered)
qed

theorem calls_answered_on_the_wire_witness:
  "\<exists>r st'. process_message demo_agent demo_env demo_msg demo_state = Some (r, st') \<and> history_answered [] (hist st') \<and>
     (length (hist st') \<le> 60 \<longrightarrow> calls_answered [] (body_messages (openai_body (\<lambda>_. []) (\<lambda>_. []) (openai_new ''k'')
        (fst (build_context demo_context_env (agent_memory demo_env) (as_session st') [] ''gpt-4o'' None 6 30000 (0 :: nat))) False)))"
proof -
  obtain r st' where run: "process_message demo_agent demo_env demo_msg demo_state = Some (r, st')"
    using demo_returns by blast
  have "history_answered [] (hist demo_state)" by (simp add: demo_state_def)
  with calls_answered_on_the_wire [OF run] run show ?thesis by simp
qed

end
