(* ===== verification/Delegation.thy ===== *)
theory Delegation
  imports Skyclaw_Types Rust_Float "HOL-Library.Multiset"
begin

text \<open>
  Delegation to sub-agents (\<open>skyclaw-agent/src/delegation.rs\<close>): the life of a sub-agent, the limit on
  how many are spawned, also when several threads register at once, and the plan, which cuts a
  task into objectives and gives each the tools its words call for.
\<close>

section \<open>A sub-agent\<close>

definition DEFAULT_MAX_TOTAL_AGENTS :: u64 where
  "DEFAULT_MAX_TOTAL_AGENTS = 10"

definition DEFAULT_MAX_ROUNDS :: nat where
  "DEFAULT_MAX_ROUNDS = 10"

definition DEFAULT_TIMEOUT_SECS :: nat where
  "DEFAULT_TIMEOUT_SECS = 300"

definition DEFAULT_SUB_AGENT_MODEL :: string where
  "DEFAULT_SUB_AGENT_MODEL = ''claude-haiku-4-5-20251001''"

datatype sub_agent_status = Pending | Running | Completed | Failed | TimedOut

fun show_agent_status :: "sub_agent_status \<Rightarrow> string" where
  "show_agent_status Pending = ''pending''"
| "show_agent_status Running = ''running''"
| "show_agent_status Completed = ''completed''"
| "show_agent_status Failed = ''failed''"
| "show_agent_status TimedOut = ''timed_out''"

text \<open>A duration is its seconds and the nanoseconds below a second.\<close>

record sub_agent =
  sa_id :: string
  sa_objective :: string
  sa_model :: string
  sa_tools :: "string list"
  sa_max_rounds :: nat
  sa_timeout :: "nat \<times> nat"
  sa_status :: sub_agent_status

definition sub_agent_new :: "string \<Rightarrow> string \<Rightarrow> sub_agent" where
  "sub_agent_new uuid objective = \<lparr>sa_id = uuid, sa_objective = objective, sa_model = DEFAULT_SUB_AGENT_MODEL,
     sa_tools = [], sa_max_rounds = DEFAULT_MAX_ROUNDS, sa_timeout = (DEFAULT_TIMEOUT_SECS, 0), sa_status = Pending\<rparr>"

definition with_tools :: "string list \<Rightarrow> sub_agent \<Rightarrow> sub_agent" where
  "with_tools tools a = a\<lparr>sa_tools := tools\<rparr>"

definition with_model :: "string \<Rightarrow> sub_agent \<Rightarrow> sub_agent" where
  "with_model model a = a\<lparr>sa_model := model\<rparr>"

definition with_max_rounds :: "nat \<Rightarrow> sub_agent \<Rightarrow> sub_agent" where
  "with_max_rounds n a = a\<lparr>sa_max_rounds := n\<rparr>"

definition with_timeout :: "nat \<times> nat \<Rightarrow> sub_agent \<Rightarrow> sub_agent" where
  "with_timeout d a = a\<lparr>sa_timeout := d\<rparr>"

text \<open>The four transitions differ in the status they expect and the one they set.\<close>

definition agent_transition :: "string \<Rightarrow> sub_agent_status \<Rightarrow> sub_agent_status \<Rightarrow> sub_agent \<Rightarrow> unit result \<times> sub_agent" where
  "agent_transition verb expected new a =
     (if sa_status a \<noteq> expected
      then (Inl (Internal (''Cannot '' @ verb @ '' sub-agent '' @ quoted (sa_id a) @ '': status is ''
          @ show_agent_status (sa_status a) @ '' (expected '' @ show_agent_status expected @ '')'')), a)
      else (Inr (), a\<lparr>sa_status := new\<rparr>))"

definition agent_start :: "sub_agent \<Rightarrow> unit result \<times> sub_agent" where
  "agent_start = agent_transition ''start'' Pending Running"

definition agent_complete :: "sub_agent \<Rightarrow> unit result \<times> sub_agent" where
  "agent_complete = agent_transition ''complete'' Running Completed"

definition agent_fail :: "sub_agent \<Rightarrow> unit result \<times> sub_agent" where
  "agent_fail = agent_transition ''fail'' Running Failed"

definition agent_time_out :: "sub_agent \<Rightarrow> unit result \<times> sub_agent" where
  "agent_time_out = agent_transition ''time out'' Running TimedOut"

record sub_agent_result =
  sres_agent_id :: string
  sres_objective :: string
  sres_status :: sub_agent_status
  sres_output :: string
  sres_tools_used :: "string list"
  sres_rounds :: nat
  sres_duration :: "nat \<times> nat"

definition result_success :: "sub_agent \<Rightarrow> string \<Rightarrow> string list \<Rightarrow> nat \<Rightarrow> nat \<times> nat \<Rightarrow> sub_agent_result" where
  "result_success a out used rounds d = \<lparr>sres_agent_id = sa_id a, sres_objective = sa_objective a, sres_status = Completed,
     sres_output = out, sres_tools_used = used, sres_rounds = rounds, sres_duration = d\<rparr>"

definition result_failure :: "sub_agent \<Rightarrow> string \<Rightarrow> nat \<times> nat \<Rightarrow> sub_agent_result" where
  "result_failure a err d = \<lparr>sres_agent_id = sa_id a, sres_objective = sa_objective a, sres_status = Failed,
     sres_output = err, sres_tools_used = [], sres_rounds = 0, sres_duration = d\<rparr>"

definition result_timed_out :: "sub_agent \<Rightarrow> nat \<times> nat \<Rightarrow> sub_agent_result" where
  "result_timed_out a d = \<lparr>sres_agent_id = sa_id a, sres_objective = sa_objective a, sres_status = TimedOut,
     sres_output = [], sres_tools_used = [], sres_rounds = 0, sres_duration = d\<rparr>"

section \<open>The limit on spawning\<close>

record delegation_manager =
  dm_max_concurrent :: nat
  dm_max_total :: u64
  dm_spawned :: u64

definition delegation_new :: "nat \<Rightarrow> u64 \<Rightarrow> delegation_manager" where
  "delegation_new max_concurrent max_total = \<lparr>dm_max_concurrent = max_concurrent, dm_max_total = max_total, dm_spawned = 0\<rparr>"

definition delegation_default :: delegation_manager where
  "delegation_default = delegation_new 3 DEFAULT_MAX_TOTAL_AGENTS"

definition can_spawn :: "delegation_manager \<Rightarrow> bool" where
  "can_spawn d \<longleftrightarrow> dm_spawned d < dm_max_total d"

definition register_spawn :: "delegation_manager \<Rightarrow> u64 result \<times> delegation_manager" where
  "register_spawn d =
     (let previous = dm_spawned d; d' = d\<lparr>dm_spawned := previous + 1\<rparr>
      in if dm_max_total d \<le> previous
         then (Inl (Internal (''Sub-agent spawn limit exceeded: max '' @ nat_str (unat (dm_max_total d)) @ '' agents per task'')),
           d'\<lparr>dm_spawned := dm_spawned d' - 1\<rparr>)
         else (Inr (previous + 1), d'))"

text \<open>
  The addition and the rolling back are two atomic steps. Here a thread takes them one at a
  time, and the scheduler picks the thread.
\<close>

datatype spawner = Ready | RollingBack | Spawned u64 | Refused

inductive spawn_step :: "u64 \<Rightarrow> u64 \<times> spawner list \<Rightarrow> u64 \<times> spawner list \<Rightarrow> bool" for max_total where
  spawn_ok: "i < length ts \<Longrightarrow> ts ! i = Ready \<Longrightarrow> \<not> max_total \<le> n \<Longrightarrow>
     spawn_step max_total (n, ts) (n + 1, ts[i := Spawned (n + 1)])"
| spawn_over: "i < length ts \<Longrightarrow> ts ! i = Ready \<Longrightarrow> max_total \<le> n \<Longrightarrow>
     spawn_step max_total (n, ts) (n + 1, ts[i := RollingBack])"
| spawn_back: "i < length ts \<Longrightarrow> ts ! i = RollingBack \<Longrightarrow>
     spawn_step max_total (n, ts) (n - 1, ts[i := Refused])"

inductive_cases spawn_stepE: "spawn_step max_total s s'"

text \<open>The numbers of the sub-agents that were registered.\<close>

fun spawned_id :: "spawner \<Rightarrow> u64 option" where
  "spawned_id (Spawned k) = Some k"
| "spawned_id _ = None"

abbreviation how_many :: "spawner \<Rightarrow> spawner list \<Rightarrow> nat" where
  "how_many t ts \<equiv> count (mset ts) t"

definition ids_of :: "spawner list \<Rightarrow> nat multiset" where
  "ids_of ts = image_mset (\<lambda>t. unat (the (spawned_id t))) (filter_mset (\<lambda>t. spawned_id t \<noteq> None) (mset ts))"

lemma spawners_counted: "size (ids_of ts) + how_many Ready ts + how_many RollingBack ts + how_many Refused ts = length ts"
proof (induction ts)
  case (Cons t ts)
  then show ?case by (cases t) (simp_all add: ids_of_def)
qed (simp add: ids_of_def)

lemma ids_of_update:
  "i < length ts \<Longrightarrow> spawned_id (ts ! i) = None \<Longrightarrow>
   ids_of (ts[i := t]) = (case spawned_id t of None \<Rightarrow> {#} | Some k \<Rightarrow> {#unat k#}) + ids_of ts"
  by (simp add: ids_of_def mset_update split: option.split)

lemma how_many_update:
  "i < length ts \<Longrightarrow> how_many t' (ts[i := t]) = how_many t' ts - (if ts ! i = t' then 1 else 0) + (if t = t' then 1 else 0)"
  by (simp add: mset_update)

lemma how_many_pos: "i < length ts \<Longrightarrow> 0 < how_many (ts ! i) ts"
  by (simp add: count_greater_zero_iff)

text \<open>What holds in every state the threads can reach: \<open>s\<close> is how many were registered.\<close>

definition spawn_inv :: "u64 \<Rightarrow> u64 \<times> spawner list \<Rightarrow> bool" where
  "spawn_inv max_total = (\<lambda>(n, ts). \<exists>s. ids_of ts = mset [1..<Suc s] \<and> unat n = s + how_many RollingBack ts \<and>
     s \<le> unat max_total \<and> (0 < how_many RollingBack ts + how_many Refused ts \<longrightarrow> s = unat max_total))"

lemma spawn_inv_step:
  assumes "spawn_step max_total (n, ts) (n', ts')" "spawn_inv max_total (n, ts)" "length ts < 2 ^ 64"
  shows "spawn_inv max_total (n', ts')"
proof -
  obtain s where s: "ids_of ts = mset [1..<Suc s]" "unat n = s + how_many RollingBack ts" "s \<le> unat max_total"
      "0 < how_many RollingBack ts + how_many Refused ts \<longrightarrow> s = unat max_total"
    using assms(2) by (auto simp: spawn_inv_def)
  have total: "s + how_many Ready ts + how_many RollingBack ts + how_many Refused ts = length ts"
    using spawners_counted [of ts] s(1) by (simp del: upt_Suc)
  from assms(1) show ?thesis
  proof (cases rule: spawn_step.cases)
    case (spawn_ok i)
    then have ready: "0 < how_many Ready ts" using how_many_pos by metis
    then have "unat n + 1 < 2 ^ 64" using total s(2) assms(3) by linarith
    then have n': "unat (n + 1) = unat n + 1" by (simp add: unat_word_ariths)
    have "\<not> unat max_total \<le> unat n" using spawn_ok(5) by (simp add: word_le_nat_alt)
    then have none: "how_many RollingBack ts = 0" "how_many Refused ts = 0" using s by auto
    then have "ids_of ts' = mset [1..<Suc (Suc s)]"
      using spawn_ok(1-4) s(1,2) n' by (simp add: ids_of_update)
    then show ?thesis using spawn_ok(1-4) none n' s(2) \<open>\<not> unat max_total \<le> unat n\<close>
      by (auto simp: spawn_inv_def how_many_update intro!: exI [of _ "Suc s"] simp del: count_greater_zero_iff count_eq_zero_iff count_mset_0_iff)
  next
    case (spawn_over i)
    then have ready: "0 < how_many Ready ts" using how_many_pos by metis
    then have "unat n + 1 < 2 ^ 64" using total s(2) assms(3) by linarith
    then have n': "unat (n + 1) = unat n + 1" by (simp add: unat_word_ariths)
    have "unat max_total \<le> unat n" using spawn_over(5) by (simp add: word_le_nat_alt)
    then have "s = unat max_total" using s by (cases "how_many RollingBack ts = 0") auto
    then show ?thesis using spawn_over(1-4) s n'
      by (auto simp: spawn_inv_def how_many_update ids_of_update intro!: exI [of _ s])
  next
    case (spawn_back i)
    then have roll: "0 < how_many RollingBack ts" using how_many_pos by metis
    then have n': "unat (n - 1) = unat n - 1" using s(2) by (simp add: unat_minus_one unat_gt_0 [symmetric] unat_eq_zero)
    show ?thesis using spawn_back(1-4) s n' roll
      by (auto simp: spawn_inv_def how_many_update ids_of_update intro!: exI [of _ s])
  qed
qed

text \<open>
  However the threads interleave, the sub-agents that were registered have the numbers 1, 2 and so
  on, each once, as many as threads have tried or the limit allows, whichever is less.
\<close>

theorem spawn_exact:
  assumes "(spawn_step max_total)\<^sup>*\<^sup>* (0, replicate k Ready) (n, ts)" "k < 2 ^ 64"
  shows "ids_of ts = mset [1..<Suc (min (unat max_total) (k - how_many Ready ts))]
    \<and> unat n = min (unat max_total) (k - how_many Ready ts) + how_many RollingBack ts"
proof -
  have "spawn_inv max_total (n, ts) \<and> length ts = k"
    using assms(1)
  proof (induction rule: rtranclp_induct2)
    case refl
    show ?case by (simp add: spawn_inv_def ids_of_def)
  next
    case (step n ts n' ts')
    then show ?case using spawn_inv_step [OF step(2)] assms(2) by (auto elim: spawn_stepE)
  qed
  then obtain s where s: "ids_of ts = mset [1..<Suc s]" "unat n = s + how_many RollingBack ts" "s \<le> unat max_total"
      "0 < how_many RollingBack ts + how_many Refused ts \<longrightarrow> s = unat max_total" "length ts = k"
    by (auto simp: spawn_inv_def)
  have "s + how_many Ready ts + how_many RollingBack ts + how_many Refused ts = k"
    using spawners_counted [of ts] s(1,5) by (simp del: upt_Suc)
  then have "s = min (unat max_total) (k - how_many Ready ts)"
    using s(3,4) by (cases "how_many RollingBack ts + how_many Refused ts = 0"; linarith)
  then show ?thesis using s(1,2) by (simp del: upt_Suc)
qed

text \<open>Two threads for one place: the second one overshoots and is refused.\<close>

theorem spawn_exact_witness:
  "(spawn_step 1)\<^sup>*\<^sup>* (0, [Ready, Ready]) (1, [Spawned 1, Refused]) \<and> ids_of [Spawned 1, Refused] = {#1#}"
proof -
  have "spawn_step 1 (0, [Ready, Ready]) (1, [Spawned 1, Ready])"
    using spawn_ok [of 0 "[Ready, Ready]" 1 0] by simp
  moreover have "spawn_step 1 (1, [Spawned 1, Ready]) (2, [Spawned 1, RollingBack])"
    using spawn_over [of 1 "[Spawned 1, Ready]" 1 1] by simp
  moreover have "spawn_step 1 (2, [Spawned 1, RollingBack]) (1, [Spawned 1, Refused])"
    using spawn_back [of 1 "[Spawned 1, RollingBack]" 1 2] by simp
  ultimately have run: "(spawn_step 1)\<^sup>*\<^sup>* (0, [Ready, Ready]) (1, [Spawned 1, Refused])"
    by (auto intro: rtranclp.rtrancl_into_rtrancl)
  moreover have "replicate 2 Ready = [Ready, Ready]" by (simp add: numeral_2_eq_2)
  ultimately show ?thesis using spawn_exact [of 1 2 1 "[Spawned 1, Refused]"] by simp
qed

text \<open>A call that runs alone is the one or two steps of its thread.\<close>

lemma register_spawn_steps:
  assumes "register_spawn d = (r, d')" "i < length ts" "ts ! i = Ready"
  shows "(spawn_step (dm_max_total d))\<^sup>*\<^sup>* (dm_spawned d, ts)
    (dm_spawned d', ts[i := case r of Inl _ \<Rightarrow> Refused | Inr k \<Rightarrow> Spawned k])"
proof (cases "dm_max_total d \<le> dm_spawned d")
  case True
  from spawn_over [OF assms(2,3) True]
  have "spawn_step (dm_max_total d) (dm_spawned d, ts) (dm_spawned d + 1, ts[i := RollingBack])" .
  moreover have "spawn_step (dm_max_total d) (dm_spawned d + 1, ts[i := RollingBack]) (dm_spawned d, ts[i := Refused])"
    using spawn_back [of i "ts[i := RollingBack]" _ "dm_spawned d + 1"] assms(2) by simp
  ultimately show ?thesis using assms(1) True by (auto simp: register_spawn_def Let_def)
next
  case False
  from spawn_ok [OF assms(2,3) False] show ?thesis using assms(1) False by (auto simp: register_spawn_def Let_def)
qed

text \<open>The life of a sub-agent: whatever is called, at most two transitions succeed, the first is the start,
  and the status tells which they were.\<close>

datatype agent_call = CallStart | CallComplete | CallFail | CallTimeOut

fun agent_apply :: "agent_call \<Rightarrow> sub_agent \<Rightarrow> unit result \<times> sub_agent" where
  "agent_apply CallStart = agent_start"
| "agent_apply CallComplete = agent_complete"
| "agent_apply CallFail = agent_fail"
| "agent_apply CallTimeOut = agent_time_out"

fun agent_trace :: "agent_call list \<Rightarrow> sub_agent \<Rightarrow> agent_call list \<times> sub_agent" where
  "agent_trace [] a = ([], a)"
| "agent_trace (c # cs) a = (case agent_apply c a of
      (Inr _, a') \<Rightarrow> (case agent_trace cs a' of (ok, b) \<Rightarrow> (c # ok, b))
    | (Inl _, a') \<Rightarrow> agent_trace cs a')"

fun life :: "sub_agent_status \<Rightarrow> sub_agent_status \<Rightarrow> agent_call list option" where
  "life Pending Pending = Some []"
| "life Pending Running = Some [CallStart]"
| "life Pending Completed = Some [CallStart, CallComplete]"
| "life Pending Failed = Some [CallStart, CallFail]"
| "life Pending TimedOut = Some [CallStart, CallTimeOut]"
| "life Running Running = Some []"
| "life Running Completed = Some [CallComplete]"
| "life Running Failed = Some [CallFail]"
| "life Running TimedOut = Some [CallTimeOut]"
| "life s t = (if s = t then Some [] else None)"

lemma sub_agent_life: "agent_trace cs a = (ok, b) \<Longrightarrow> life (sa_status a) (sa_status b) = Some ok"
proof (induction cs arbitrary: a ok)
  case Nil
  then show ?case by (cases "sa_status a") auto
next
  case (Cons c cs)
  then show ?case
    by (cases c; cases "sa_status a"; cases "sa_status b")
      (fastforce simp: agent_start_def agent_complete_def agent_fail_def agent_time_out_def agent_transition_def
        split: prod.splits)+
qed

section \<open>Cutting a task into parts\<close>

definition slice_range :: "string \<Rightarrow> nat \<Rightarrow> nat \<Rightarrow> string option" where
  "slice_range s a b = (if a \<le> b \<and> is_char_boundary s a \<and> is_char_boundary s b then Some (take (b - a) (drop a s)) else None)"

text \<open>What \<open>find\<close> returns is a boundary, so the slices at such a position are plain here. The
  positions found in the lower-case copy are used in the task itself: these slices may fail.\<close>

definition find_numbered_marker :: "string \<Rightarrow> nat \<Rightarrow> nat option" where
  "find_numbered_marker s expected =
     (case (str_find (nat_str expected @ ''.'') s, str_find (nat_str expected @ '')'') s) of
        (Some d, Some p) \<Rightarrow> Some (min d p)
      | (Some d, None) \<Rightarrow> Some d
      | (None, p) \<Rightarrow> p)"

definition marker_char :: "char \<Rightarrow> bool" where
  "marker_char c \<longleftrightarrow> c = CHR ''.'' \<or> c = CHR '')'' \<or> is_ascii_digit c"

definition push_part :: "string \<Rightarrow> string list \<Rightarrow> string list" where
  "push_part p parts = (if p = [] then parts else parts @ [p])"

definition trim_end_commas :: "string \<Rightarrow> string" where
  "trim_end_commas s = rev (dropWhile ((=) CHR '','') (rev s))"

lemma find_numbered_marker_Some:
  assumes "find_numbered_marker s n = Some pos"
  shows "\<exists>d r. drop pos s = d # r \<and> is_ascii_digit d"
proof -
  obtain d ds where n: "nat_str n = d # ds" "is_ascii_digit d"
    using nat_str_digits [of n] by (cases "nat_str n") auto
  have "\<exists>p. str_find p s = Some pos \<and> (p = nat_str n @ ''.'' \<or> p = nat_str n @ '')'')"
    using assms by (auto simp: find_numbered_marker_def min_def split: option.splits if_splits)
  then obtain p where p: "str_find p s = Some pos" "p = nat_str n @ ''.'' \<or> p = nat_str n @ '')''" by blast
  then have "take (length p) (drop pos s) = p" using str_find_Some by blast
  then show ?thesis using p(2) n by (cases "drop pos s") (auto simp: take_Cons split: nat.splits)
qed

definition after_marker :: "nat \<Rightarrow> string \<Rightarrow> string" where
  "after_marker pos s = dropWhile marker_char (drop pos s)"

lemma after_marker_shorter: "find_numbered_marker s n = Some pos \<Longrightarrow> length (after_marker pos s) < length s"
proof -
  assume "find_numbered_marker s n = Some pos"
  then obtain d r where d: "drop pos s = d # r" "is_ascii_digit d" using find_numbered_marker_Some by blast
  then have "length (after_marker pos s) \<le> length r"
    by (simp add: after_marker_def marker_char_def length_dropWhile_le)
  moreover have "length (drop pos s) = Suc (length r)" using d(1) by simp
  ultimately show ?thesis by simp
qed

function inline_items :: "string list \<Rightarrow> string \<Rightarrow> string list" where
  "inline_items parts s = (case find_numbered_marker s (length parts + 1) of
      None \<Rightarrow> parts
    | Some pos \<Rightarrow> (case find_numbered_marker (after_marker pos s) (length parts + 2) of
          Some e \<Rightarrow> inline_items
             (push_part (trim (trim_end_commas (trim (take e (after_marker pos s))))) parts) (drop e (after_marker pos s))
        | None \<Rightarrow> push_part (trim (after_marker pos s)) parts))"
  by auto
termination by (relation "measure (\<lambda>(_, s). length s)") (auto dest: after_marker_shorter)

declare inline_items.simps [simp del]

definition split_inline_numbered :: "string \<Rightarrow> string list" where
  "split_inline_numbered task = inline_items [] task"

definition is_numbered :: "string \<Rightarrow> bool" where
  "is_numbered s \<longleftrightarrow> takeWhile is_ascii_digit s \<noteq> [] \<and>
     (case dropWhile is_ascii_digit s of [] \<Rightarrow> False | c # _ \<Rightarrow> c = CHR ''.'' \<or> c = CHR '')'')"

text \<open>The state: the parts, the item that is being read, and whether the list has begun.\<close>

definition list_line :: "string list \<times> string \<times> bool \<Rightarrow> string \<Rightarrow> string list \<times> string \<times> bool" where
  "list_line = (\<lambda>(parts, current, in_list) line.
     let trimmed = trim line
     in if is_numbered trimmed
        then (if in_list then push_part (trim current) parts else parts, trim (tl (dropWhile is_ascii_digit trimmed)), True)
        else if in_list \<and> trimmed \<noteq> [] then (parts, current @ '' '' @ trimmed, True)
        else (parts, current, in_list))"

definition split_numbered_list :: "string \<Rightarrow> string list" where
  "split_numbered_list task = (case foldl list_line ([], [], False) (str_lines task) of (parts, current, in_list) \<Rightarrow>
     let parts' = (if in_list then push_part (trim current) parts else parts)
     in if parts' = [] then split_inline_numbered task else parts')"

definition split_by_delimiter :: "string \<Rightarrow> string list" where
  "split_by_delimiter task = filter (\<lambda>s. s \<noteq> []) (map trim (split_on ((=) CHR '';'') task))"

function word_parts :: "string \<Rightarrow> string \<Rightarrow> string \<Rightarrow> nat \<Rightarrow> string list \<Rightarrow> string list option" where
  "word_parts word lower task start parts = (case slice_from lower start of
      None \<Rightarrow> None
    | Some rest \<Rightarrow> (case str_find ('' '' @ word @ '' '') rest of
          Some pos \<Rightarrow> (case slice_range task start (start + pos) of
              None \<Rightarrow> None
            | Some part \<Rightarrow> word_parts word lower task (start + pos + length ('' '' @ word @ '' '')) (push_part (trim part) parts))
        | None \<Rightarrow> map_option (\<lambda>r. push_part (trim r) parts) (slice_from task start)))"
  by auto
termination
  by (relation "measure (\<lambda>(_, lower, _, start, _). length lower - start)")
    (auto simp: slice_from_def dest!: str_find_Some split: if_splits)

declare word_parts.simps [simp del]

definition split_by_word :: "(string \<Rightarrow> string) \<Rightarrow> string \<Rightarrow> string \<Rightarrow> string list option" where
  "split_by_word lowercase task word = word_parts word (lowercase task) task 0 []"

definition split_task :: "(string \<Rightarrow> string) \<Rightarrow> string \<Rightarrow> string list option" where
  "split_task lowercase task =
     (if 1 < length (split_numbered_list task) then Some (split_numbered_list task)
      else if 1 < length (split_by_delimiter task) then Some (split_by_delimiter task)
      else case split_by_word lowercase task ''then'' of
          None \<Rightarrow> None
        | Some then_parts \<Rightarrow>
            if 1 < length then_parts then Some then_parts
            else (case split_by_word lowercase task ''and'' of
                None \<Rightarrow> None
              | Some and_parts \<Rightarrow>
                  if 2 \<le> length and_parts \<and> length and_parts \<le> 4 \<and>
                     list_all (\<lambda>p. 2 \<le> length (split_whitespace p)) and_parts
                  then Some and_parts else Some [trim task]))"

section \<open>The plan\<close>

definition TOOL_KEYWORDS :: "(string list \<times> string list) list" where
  "TOOL_KEYWORDS =
    [([''file'', ''read'', ''write'', ''edit'', ''create'', ''delete'', ''directory'', ''folder''],
      [''file_read'', ''file_write'', ''file_list'', ''list_directory'', ''read_file'']),
     ([''git'', ''commit'', ''branch'', ''merge'', ''push'', ''pull'', ''diff'', ''log''],
      [''git_status'', ''git_log'', ''git_diff'', ''shell'']),
     ([''shell'', ''command'', ''run'', ''execute'', ''install'', ''build'', ''compile'', ''test'', ''deploy''],
      [''shell'']),
     ([''browse'', ''web'', ''http'', ''url'', ''fetch'', ''download'', ''api'', ''request''],
      [''http_get'', ''browser'']),
     ([''search'', ''find'', ''grep'', ''look''],
      [''file_read'', ''file_list'', ''shell'', ''list_directory'']),
     ([''database'', ''db'', ''sql'', ''query'', ''migrate''], [''shell''])]"

definition add_tool :: "string list \<Rightarrow> string list \<Rightarrow> string \<Rightarrow> string list" where
  "add_tool available assigned name =
     (if name \<in> set available \<and> name \<notin> set assigned then assigned @ [name] else assigned)"

definition assign_tools :: "(string \<Rightarrow> string) \<Rightarrow> string \<Rightarrow> string list \<Rightarrow> string list" where
  "assign_tools lowercase objective available =
     (let lower = lowercase objective;
          assigned = foldl (\<lambda>acc (keywords, tool_names).
            if list_ex (\<lambda>kw. str_contains kw lower) keywords then foldl (add_tool available) acc tool_names else acc)
            [] TOOL_KEYWORDS
      in if assigned = [] then available else assigned)"

text \<open>\<open>uuid i\<close> is the identifier drawn for the agent at position \<open>i\<close>.\<close>

definition plan_delegation :: "(string \<Rightarrow> string) \<Rightarrow> (nat \<Rightarrow> string) \<Rightarrow> delegation_manager \<Rightarrow> string \<Rightarrow> string list \<Rightarrow>
    sub_agent list result option" where
  "plan_delegation lowercase uuid d task available =
     (if trim task = [] then Some (Inl (Internal ''Cannot plan delegation for empty task''))
      else case split_task lowercase task of
          None \<Rightarrow> None
        | Some parts \<Rightarrow>
            if parts = [] then Some (Inl (Internal ''Task decomposition produced no sub-tasks''))
            else let remaining = unat (dm_max_total d) - unat (dm_spawned d)
              in if remaining = 0
                 then Some (Inl (Internal (''Sub-agent spawn limit reached: '' @ nat_str (unat (dm_spawned d)) @ '' of ''
                   @ nat_str (unat (dm_max_total d)) @ '' already spawned'')))
                 else Some (Inr (map (\<lambda>(i, part). with_tools (assign_tools lowercase part available) (sub_agent_new (uuid i) part))
                   (enumerate 0 (take remaining parts)))))"

section \<open>The parts are text of the task\<close>

text \<open>The objectives are compared with the task without their blanks: lines are joined with blanks.\<close>

definition letters :: "string \<Rightarrow> string" where
  "letters s = filter (\<lambda>c. c \<noteq> CHR '' '') s"

lemma letters_append [simp]: "letters (a @ b) = letters a @ letters b"
  by (simp add: letters_def)

lemma letters_subseq: "subseq s t \<Longrightarrow> subseq (letters s) t"
  unfolding letters_def using subseq_filter_left subseq_order.trans by blast

lemma trim_letters: "subseq s t \<Longrightarrow> subseq (letters (trim s)) t"
  using letters_subseq sublist_imp_subseq [OF trim_sublist [of s]] subseq_order.trans by blast

definition covered :: "string list \<Rightarrow> string" where
  "covered parts = letters (concat parts)"

lemma covered_push [simp]: "covered (push_part p parts) = covered parts @ letters p"
  by (simp add: covered_def push_part_def letters_def)

lemma push_part_nonempty: "[] \<notin> set parts \<Longrightarrow> [] \<notin> set (push_part p parts)"
  by (auto simp: push_part_def)

lemma covered_trim: "subseq (covered parts) a \<Longrightarrow> subseq s b \<Longrightarrow> subseq (covered parts @ letters (trim s)) (a @ b)"
  by (intro list_emb_append_mono trim_letters)

lemma subseq_take: "subseq (take n s) s" and subseq_drop: "subseq (drop n s) s"
  by (metis append_take_drop_id subseq_order.refl subseq_rev_drop_many subseq_drop_many)+

lemma after_marker_subseq: "subseq (after_marker pos s) s"
  unfolding after_marker_def
  by (metis dropWhile_eq_drop subseq_drop subseq_order.trans)

lemma trim_end_commas_subseq: "subseq (trim_end_commas s) s"
proof -
  have "suffix (dropWhile ((=) CHR '','') (rev s)) (rev s)" by (rule suffix_dropWhile)
  then have "prefix (trim_end_commas s) s" by (simp add: trim_end_commas_def suffix_to_prefix)
  then show ?thesis by (simp add: prefix_imp_sublist sublist_imp_subseq)
qed

lemma trim_subseq: "subseq (trim s) s"
  by (simp add: trim_sublist sublist_imp_subseq)

lemma inline_items_covered:
  "subseq (covered parts) a \<Longrightarrow> [] \<notin> set parts \<Longrightarrow>
   subseq (covered (inline_items parts s)) (a @ s) \<and> [] \<notin> set (inline_items parts s)"
proof (induction parts s arbitrary: a rule: inline_items.induct)
  case (1 parts s)
  show ?case
  proof (cases "find_numbered_marker s (length parts + 1)")
    case None
    then show ?thesis using 1(2,3) by (simp add: inline_items.simps [of parts s] subseq_rev_drop_many)
  next
    case (Some pos)
    let ?r = "after_marker pos s"
    show ?thesis
    proof (cases "find_numbered_marker ?r (length parts + 2)")
      case None
      have "subseq (covered parts @ letters (trim ?r)) (a @ s)"
        by (intro covered_trim 1(2) after_marker_subseq)
      then show ?thesis using None Some 1(3) push_part_nonempty by (simp add: inline_items.simps [of parts s])
    next
      case (Some e)
      let ?p = "trim (trim_end_commas (trim (take e ?r)))"
      have "subseq (trim_end_commas (trim (take e ?r))) (take e ?r)"
        using trim_end_commas_subseq trim_subseq subseq_order.trans by blast
      then have "subseq (covered (push_part ?p parts)) (a @ take e ?r)"
        using covered_trim [OF 1(2)] by simp
      from 1(1) [OF \<open>find_numbered_marker s _ = _\<close> Some this push_part_nonempty [OF 1(3)]]
      have "subseq (covered (inline_items (push_part ?p parts) (drop e ?r))) ((a @ take e ?r) @ drop e ?r)"
           "[] \<notin> set (inline_items (push_part ?p parts) (drop e ?r))" by simp_all
      moreover have "subseq ((a @ take e ?r) @ drop e ?r) (a @ s)"
        by (simp add: after_marker_subseq subseq_append')
      ultimately show ?thesis
        using Some \<open>find_numbered_marker s _ = _\<close> subseq_order.trans by (simp add: inline_items.simps [of parts s])
    qed
  qed
qed

lemma lines_acc_subseq: "subseq (concat (lines_acc acc s)) (rev acc @ s)"
proof (induction acc s rule: lines_acc.induct)
  case (2 acc c cs)
  show ?case
  proof (cases "byte c = 10")
    case True
    have "subseq (rev (case acc of [] \<Rightarrow> [] | d # r \<Rightarrow> if byte d = 13 then r else acc)) (rev acc)"
      by (auto split: list.split intro: subseq_rev_drop_many)
    then show ?thesis using 2(1) [OF True] True
      by (auto intro!: list_emb_append_mono list_emb_Cons)
  next
    case False
    then show ?thesis using 2(2) by simp
  qed
qed simp

lemma list_line_covered:
  assumes "subseq (covered parts @ letters current) a" "[] \<notin> set parts"
    and "list_line (parts, current, in_list) line = (parts', current', in_list')"
    and "\<not> in_list \<longrightarrow> current = []"
  shows "subseq (covered parts' @ letters current') (a @ line) \<and> [] \<notin> set parts' \<and> (\<not> in_list' \<longrightarrow> current' = [])"
proof -
  have cur: "subseq (letters (trim current)) (letters current)"
    unfolding letters_def by (intro subseq_filter trim_subseq)
  have pushed: "subseq (covered parts @ letters (trim current)) a"
    using assms(1) list_emb_append_mono [OF subseq_order.refl cur] subseq_order.trans by blast
  have parts: "subseq (covered parts) a" using assms(1) by (meson subseq_order.trans subseq_rev_drop_many subseq_order.refl)
  have tail: "subseq (tl (dropWhile is_ascii_digit (trim line))) line"
    by (metis dropWhile_eq_drop subseq_drop subseq_order.trans tl_drop trim_subseq drop_Suc)
  show ?thesis
    using assms(2-4) list_emb_append_mono [OF pushed trim_letters [OF tail]] list_emb_append_mono [OF parts trim_letters [OF tail]]
      list_emb_append_mono [OF assms(1) letters_subseq [OF trim_subseq [of line]]] subseq_rev_drop_many [OF assms(1)]
      push_part_nonempty
    by (auto simp: list_line_def Let_def letters_def split: if_splits)
qed

lemma list_lines_covered:
  "subseq (covered parts @ letters current) a \<Longrightarrow> [] \<notin> set parts \<Longrightarrow> (\<not> in_list \<longrightarrow> current = []) \<Longrightarrow>
   foldl list_line (parts, current, in_list) ls = (parts', current', in_list') \<Longrightarrow>
   subseq (covered parts' @ letters current') (a @ concat ls) \<and> [] \<notin> set parts'"
proof (induction ls arbitrary: parts current in_list a)
  case (Cons l ls)
  obtain p c i where step: "list_line (parts, current, in_list) l = (p, c, i)" by (metis prod.exhaust)
  note inv = list_line_covered [OF Cons.prems(1,2) step Cons.prems(3)]
  have "foldl list_line (p, c, i) ls = (parts', current', in_list')" using Cons.prems(4) step by simp
  from Cons.IH [OF _ _ _ this, of "a @ l"] inv show ?case by simp
qed simp

lemma split_numbered_covered:
  "subseq (covered (split_numbered_list task)) task \<and> [] \<notin> set (split_numbered_list task)"
proof -
  obtain parts current in_list where f: "foldl list_line ([], [], False) (str_lines task) = (parts, current, in_list)"
    by (metis prod.exhaust)
  have inv: "subseq (covered parts @ letters current) (concat (str_lines task))" "[] \<notin> set parts"
    using list_lines_covered [OF _ _ _ f, of "[]"] by (simp_all add: covered_def letters_def)
  have lines: "subseq (concat (str_lines task)) task" using lines_acc_subseq [of "[]" task] by (simp add: str_lines_def)
  have cur: "subseq (letters (trim current)) (letters current)"
    unfolding letters_def by (intro subseq_filter trim_subseq)
  have "subseq (covered parts @ letters (trim current)) task" "subseq (covered parts) task"
    using inv(1) lines list_emb_append_mono [OF subseq_order.refl cur] subseq_order.trans
    by (blast, meson subseq_order.trans subseq_rev_drop_many subseq_order.refl)
  moreover have "subseq (covered (split_inline_numbered task)) task \<and> [] \<notin> set (split_inline_numbered task)"
    using inline_items_covered [of "[]" "[]" task] by (simp add: split_inline_numbered_def covered_def letters_def)
  ultimately show ?thesis
    using inv(2) push_part_nonempty by (simp add: split_numbered_list_def f Let_def)
qed

lemma split_on_subseq: "subseq (concat (split_on P s)) s"
  by (induction s) (auto split: list.splits)

lemma concat_trim_subseq: "subseq (concat (filter (\<lambda>s. s \<noteq> []) (map trim ss))) (concat ss)"
proof (induction ss)
  case (Cons a ss)
  then show ?case using trim_subseq [of a] by (auto intro: list_emb_append_mono subseq_drop_many)
qed simp

lemma split_by_delimiter_covered:
  "subseq (covered (split_by_delimiter task)) task \<and> [] \<notin> set (split_by_delimiter task)"
  using subseq_order.trans [OF concat_trim_subseq split_on_subseq] letters_subseq
  by (auto simp: split_by_delimiter_def covered_def)

text \<open>
  What the lower-case copy must be for the positions found in it to be positions of the task: as
  long, with blanks only where the task has blanks. Both hold for ASCII.
\<close>

definition lower_ok :: "string \<Rightarrow> string \<Rightarrow> bool" where
  "lower_ok lower task \<longleftrightarrow> length lower = length task \<and> utf8_valid lower \<and> utf8_valid task \<and>
     (\<forall>i < length task. lower ! i = CHR '' '' \<longrightarrow> task ! i = CHR '' '')"

lemma boundary_after_ascii: "utf8_valid s \<Longrightarrow> i < length s \<Longrightarrow> byte (s ! i) < 128 \<Longrightarrow> is_char_boundary s (Suc i)"
proof (induction s arbitrary: i rule: utf8_valid.induct)
  case (2 a s)
  have v: "utf8_len a \<noteq> 0" "utf8_len a - 1 \<le> length s" "list_all is_cont (take (utf8_len a - 1) s)"
      "utf8_valid (drop (utf8_len a - 1) s)"
    using 2(2) by (simp_all add: Let_def)
  consider "i = 0" | j where "i = Suc j" "j < utf8_len a - 1" | j where "i = Suc j" "utf8_len a - 1 \<le> j"
    by (cases i) (auto, metis not_less)
  then show ?case
  proof cases
    case 1
    then have "utf8_len a = 1" using 2(4) by (simp add: utf8_len_def)
    then have "utf8_valid s" using v(4) by simp
    then have "s = [] \<or> \<not> is_cont (s ! 0)"
      by (cases s) (auto simp: utf8_len_def is_cont_def Let_def simp del: utf8_valid.simps dest: utf8_valid_head)
    then show ?thesis using 1 by (auto simp: is_char_boundary_def)
  next
    case (2 j)
    then have "is_cont (s ! j)" using v(2,3) by (simp add: list_all_length)
    then show ?thesis using 2 "2.prems"(3) by (simp add: is_cont_def)
  next
    case (3 j)
    define k where "k = utf8_len a - 1"
    have "is_char_boundary (drop k s) (Suc (j - k))"
      using "2.IH" [OF refl, of "j - k"] v(4) 3 "2.prems" by (simp add: k_def)
    then show ?thesis using 3 v(2) by (auto simp: is_char_boundary_def k_def)
  qed
qed simp

lemma blank_boundary:
  assumes "utf8_valid s" "i < length s" "s ! i = CHR '' ''"
  shows "is_char_boundary s i" "is_char_boundary s (Suc i)"
  using boundary_after_ascii [OF assms(1,2)] assms by (auto simp: is_char_boundary_def is_cont_def byte_def)

lemma word_parts_covered:
  assumes "lower_ok lower task"
  shows "is_char_boundary lower start \<Longrightarrow> is_char_boundary task start \<Longrightarrow> subseq (covered parts) (take start task) \<Longrightarrow>
    [] \<notin> set parts \<Longrightarrow>
    \<exists>ps. word_parts word lower task start parts = Some ps \<and> subseq (covered ps) task \<and> [] \<notin> set ps"
proof (induction "length lower - start" arbitrary: start parts rule: less_induct)
  case less
  let ?pat = "'' '' @ word @ '' ''"
  have len: "length lower = length task" using assms by (simp add: lower_ok_def)
  have rest: "slice_from lower start = Some (drop start lower)" using less.prems(1) by (simp add: slice_from_def)
  show ?case
  proof (cases "str_find ?pat (drop start lower)")
    case None
    have "subseq (covered (push_part (trim (drop start task)) parts)) task"
      using covered_trim [OF less.prems(3) subseq_order.refl, of "drop start task"] by simp
    then show ?thesis using None rest less.prems(2,4) push_part_nonempty
      by (simp add: word_parts.simps [of word lower] slice_from_def)
  next
    case (Some pos)
    define stop where "stop = start + pos + length ?pat"
    have at: "pos + length ?pat \<le> length (drop start lower)" "take (length ?pat) (drop pos (drop start lower)) = ?pat"
      using str_find_Some [OF Some] by auto
    have b: "stop \<le> length lower" using at(1) is_char_boundary_le [OF less.prems(1)] by (simp add: stop_def)
    have nth: "lower ! (start + pos + i) = ?pat ! i" if "i < length ?pat" for i
    proof -
      have "?pat ! i = drop pos (drop start lower) ! i" using at(2) that by (metis nth_take)
      also have "\<dots> = lower ! (start + pos + i)" using b that by (simp add: stop_def add.commute add.left_commute)
      finally show ?thesis by simp
    qed
    have first: "lower ! (start + pos) = CHR '' ''" and last: "lower ! (stop - 1) = CHR '' ''"
      using nth [of 0] nth [of "Suc (length word)"] by (simp_all add: stop_def nth_append)
    have ok: "utf8_valid lower" "utf8_valid task" "task ! (start + pos) = CHR '' ''" "task ! (stop - 1) = CHR '' ''"
      using assms first last b by (auto simp: lower_ok_def stop_def)
    have ends: "is_char_boundary task (start + pos)" "is_char_boundary lower stop" "is_char_boundary task stop"
      using blank_boundary(1) [OF ok(2), of "start + pos"] blank_boundary(2) [OF ok(1), of "stop - 1"]
        blank_boundary(2) [OF ok(2), of "stop - 1"] ok(3,4) last b len
      by (auto simp: stop_def)
    let ?part = "take pos (drop start task)"
    have "subseq (covered (push_part (trim ?part) parts)) (take start task @ ?part)"
      using covered_trim [OF less.prems(3) subseq_order.refl] by simp
    also have "take start task @ ?part = take (start + pos) task" by (simp add: take_add)
    also have "subseq \<dots> (take stop task)"
      unfolding stop_def take_add [of "start + pos"] by (rule subseq_rev_drop_many [OF subseq_order.refl])
    finally have cov: "subseq (covered (push_part (trim ?part) parts)) (take stop task)" .
    have "length lower - stop < length lower - start" using b by (simp add: stop_def)
    from less.hyps [OF this ends(2,3) cov push_part_nonempty [OF less.prems(4)]]
    show ?thesis using rest Some less.prems(2) ends(1)
      by (simp add: word_parts.simps [of word lower task start] slice_range_def stop_def)
  qed
qed

lemma split_by_word_covered:
  "lower_ok (lowercase task) task \<Longrightarrow>
   \<exists>ps. split_by_word lowercase task word = Some ps \<and> subseq (covered ps) task \<and> [] \<notin> set ps"
  using word_parts_covered [of "lowercase task" task 0 "[]" word] by (simp add: split_by_word_def covered_def letters_def)

lemma split_task_covered:
  assumes "lower_ok (lowercase task) task" "trim task \<noteq> []"
  shows "\<exists>ps. split_task lowercase task = Some ps \<and> ps \<noteq> [] \<and> subseq (covered ps) task \<and> [] \<notin> set ps"
proof -
  have whole: "subseq (covered [trim task]) task" by (simp add: covered_def trim_letters)
  obtain t a where "split_by_word lowercase task ''then'' = Some t" "subseq (covered t) task" "[] \<notin> set t"
      "split_by_word lowercase task ''and'' = Some a" "subseq (covered a) task" "[] \<notin> set a"
    using split_by_word_covered [of lowercase task, OF assms(1)] by metis
  then show ?thesis
    using split_numbered_covered [of task] split_by_delimiter_covered [of task] whole assms(2)
    by (auto simp: split_task_def)
qed

section \<open>The plan is sound\<close>

lemma add_tools_subset: "set acc \<subseteq> set available \<Longrightarrow> set (foldl (add_tool available) acc names) \<subseteq> set available"
  by (induction names arbitrary: acc) (auto simp: add_tool_def)

lemma keyword_tools_subset:
  "set acc \<subseteq> set available \<Longrightarrow>
   set (foldl (\<lambda>acc (keywords, tool_names). if P keywords then foldl (add_tool available) acc tool_names else acc) acc table)
   \<subseteq> set available"
proof (induction table arbitrary: acc)
  case (Cons row table)
  then show ?case using add_tools_subset [OF Cons.prems] by (cases row) simp
qed simp

lemma assign_tools_ok:
  "set (assign_tools lowercase objective available) \<subseteq> set available"
  "available \<noteq> [] \<Longrightarrow> assign_tools lowercase objective available \<noteq> []"
  using keyword_tools_subset [of "[]" available "list_ex (\<lambda>kw. str_contains kw (lowercase objective))" TOOL_KEYWORDS]
  by (auto simp: assign_tools_def Let_def)

lemma covered_take: "subseq (covered (take n parts)) (covered parts)"
  unfolding covered_def letters_def
  by (intro subseq_filter) (metis append_take_drop_id concat_append subseq_order.refl subseq_rev_drop_many)

lemma mem_map: "x \<in> set xs \<Longrightarrow> f x \<in> set (map f xs)"
  by simp

text \<open>A plan is never a panic, when the lower-case copy of the task has its blanks in the same places. It
  fails only for a blank task or when no sub-agent is left. Otherwise it has a sub-agent at
  least and no more than the limit leaves; no objective is empty, and all of them, one after
  another, are text of the task in its order, so that nothing is invented or done twice; and
  each sub-agent has some of the available tools, and none if there are none.
\<close>

theorem plan_delegation_correct:
  assumes "lower_ok (lowercase task) task"
  shows "case plan_delegation lowercase uuid d task available of
      None \<Rightarrow> False
    | Some (Inl _) \<Rightarrow> trim task = [] \<or> unat (dm_max_total d) \<le> unat (dm_spawned d)
    | Some (Inr agents) \<Rightarrow> trim task \<noteq> [] \<and> agents \<noteq> [] \<and>
        length agents \<le> unat (dm_max_total d) - unat (dm_spawned d) \<and>
        subseq (covered (map sa_objective agents)) task \<and>
        (\<forall>a \<in> set agents. sa_objective a \<noteq> [] \<and> sa_status a = Pending \<and> set (sa_tools a) \<subseteq> set available \<and>
           (available \<noteq> [] \<longrightarrow> sa_tools a \<noteq> []))"
proof (cases "trim task = []")
  case False
  let ?n = "unat (dm_max_total d) - unat (dm_spawned d)"
  obtain ps where ps: "split_task lowercase task = Some ps" "ps \<noteq> []" "subseq (covered ps) task" "[] \<notin> set ps"
    using split_task_covered [of lowercase, OF assms False] by blast
  show ?thesis
  proof (cases "?n = 0")
    case True
    then show ?thesis using False ps by (simp add: plan_delegation_def)
  next
    case n: False
    define agents where "agents = map (\<lambda>(i, part). with_tools (assign_tools lowercase part available) (sub_agent_new (uuid i) part))
      (enumerate 0 (take ?n ps))"
    have plan: "plan_delegation lowercase uuid d task available = Some (Inr agents)"
      using False ps n by (simp add: plan_delegation_def Let_def agents_def)
    have "map sa_objective agents = map snd (enumerate 0 (take ?n ps))"
      by (simp add: agents_def with_tools_def sub_agent_new_def case_prod_beta' comp_def)
    then have objectives: "map sa_objective agents = take ?n ps" by simp
    have "sa_objective a \<noteq> [] \<and> sa_status a = Pending \<and> set (sa_tools a) \<subseteq> set available \<and>
        (available \<noteq> [] \<longrightarrow> sa_tools a \<noteq> [])" if a: "a \<in> set agents" for a
    proof -
      have "sa_objective a \<in> set (take ?n ps)" using a mem_map [of a agents sa_objective] objectives by simp
      then have "sa_objective a \<noteq> []" using ps(4) in_set_takeD by force
      then show ?thesis using a subsetD [OF assign_tools_ok(1)] assign_tools_ok(2)
        by (auto simp: agents_def with_tools_def sub_agent_new_def)
    qed
    moreover have "subseq (covered (map sa_objective agents)) task"
      unfolding objectives using covered_take ps(3) subseq_order.trans by blast
    moreover have "length agents = min (length ps) ?n" by (simp add: agents_def)
    moreover from this have "agents \<noteq> []" using ps(2) n by (auto simp: min_def split: if_splits)
    ultimately show ?thesis using False plan by simp
  qed
qed (simp add: plan_delegation_def)

lemma to_lowercase_ok:
  assumes "list_all (\<lambda>c. byte c < 128) task"
  shows "lower_ok (to_lowercase task) task"
proof -
  have valid: "list_all (\<lambda>c. byte c < 128) s \<Longrightarrow> utf8_valid s" for s
    by (induction s) (simp_all add: utf8_len_def)
  have "list_all (\<lambda>c. byte c < 128) (to_lowercase task)"
    using assms by (auto simp: to_lowercase_def list_all_iff ascii_lower_def)
  moreover have "c = CHR '' ''" if "ascii_lower c = CHR '' ''" for c
  proof (cases "65 \<le> byte c \<and> byte c \<le> 90")
    case True
    have "byte (ascii_lower c) = 32" unfolding that by (simp add: byte_def)
    then show ?thesis using True by (simp add: ascii_lower_def)
  next
    case False
    then have "ascii_lower c = c" by (auto simp: ascii_lower_def)
    then show ?thesis using that by simp
  qed
  ultimately show ?thesis using valid assms by (auto simp: lower_ok_def to_lowercase_def)
qed

theorem plan_delegation_correct_witness:
  "\<exists>a b. plan_delegation to_lowercase nat_str (delegation_new 3 10) ''Read the log then run make'' [''shell''] = Some (Inr [a, b])
     \<and> subseq (covered [sa_objective a, sa_objective b]) ''Read the log then run make''"
proof -
  let ?task = "''Read the log then run make''"
  have ok: "lower_ok (to_lowercase ?task) ?task" by (rule to_lowercase_ok) code_simp
  have parts: "split_task to_lowercase ?task = Some [''Read the log'', ''run make'']" "trim ?task \<noteq> []" by code_simp+
  have plan: "\<exists>a b. plan_delegation to_lowercase nat_str (delegation_new 3 10) ?task [''shell''] = Some (Inr [a, b])"
    using parts by (simp add: plan_delegation_def delegation_new_def Let_def)
  then show ?thesis
    using plan_delegation_correct [where lowercase = to_lowercase, OF ok, where uuid = nat_str and d = "delegation_new 3 10"
        and available = "[''shell'']"] by auto
qed

section \<open>Texts for the agents\<close>

definition lines_of :: "string list \<Rightarrow> string" where
  "lines_of ls = concat (map (\<lambda>l. l @ nl) ls)"

definition format_delegation_prompt :: "sub_agent \<Rightarrow> string" where
  "format_delegation_prompt a = lines_of (
     [''You are a focused sub-agent with a specific objective.'', [],
      ''## Objective'', sa_objective a, [],
      ''## Constraints'',
      ''- You have a maximum of '' @ nat_str (sa_max_rounds a) @ '' tool-use rounds.'',
      ''- You must complete within '' @ nat_str (fst (sa_timeout a)) @ '' seconds.'',
      ''- You CANNOT delegate to other sub-agents. Complete the task yourself.'',
      ''- Stay focused on your objective. Do not work on unrelated tasks.'', []]
     @ (if sa_tools a \<noteq> []
        then [''## Available Tools''] @ map (\<lambda>t. ''- '' @ t) (sa_tools a) @ [[], ''Use only the tools listed above.'', []]
        else [''## Tools'', ''No tools are available. Respond based on your knowledge.'', []])
     @ [''## Output Format'',
        ''Provide a clear, concise result of your work. Include any relevant details, file paths, or outputs.''])"

definition count_status :: "('a \<Rightarrow> sub_agent_status) \<Rightarrow> sub_agent_status list \<Rightarrow> 'a list \<Rightarrow> string" where
  "count_status f sts xs = nat_str (length (filter (\<lambda>x. f x \<in> set sts) xs))"

text \<open>\<open>{:.1}\<close> of \<open>as_secs_f64\<close>.\<close>

definition seconds_text :: "nat \<times> nat \<Rightarrow> string" where
  "seconds_text d = fixed 1 (to_f64 (to_f64 (of_nat (fst d)) + to_f64 (to_f64 (of_nat (snd d)) / 1000000000)))"

definition result_text :: "nat \<Rightarrow> sub_agent_result \<Rightarrow> string" where
  "result_text i r = lines_of (
     [''### Sub-Agent '' @ nat_str (i + 1) @ '' '' @ em_dash @ '' '' @ sres_objective r @ '' ['' @ show_agent_status (sres_status r) @ '']'']
     @ (if sres_output r \<noteq> [] then [''**Output:** '' @ sres_output r] else [])
     @ (if sres_tools_used r \<noteq> [] then [''**Tools used:** '' @ join '', '' (sres_tools_used r)] else [])
     @ [''**Rounds:** '' @ nat_str (sres_rounds r) @ '' | **Duration:** '' @ seconds_text (sres_duration r) @ ''s'', []])"

definition aggregate_results :: "sub_agent_result list \<Rightarrow> string" where
  "aggregate_results rs =
     (if rs = [] then ''No sub-agent results to aggregate.''
      else lines_of [''## Sub-Agent Results Summary'', [],
         ''**Overall:** '' @ count_status sres_status [Completed] rs @ '' completed, '' @ count_status sres_status [Failed] rs
           @ '' failed, '' @ count_status sres_status [TimedOut] rs @ '' timed out (out of '' @ nat_str (length rs) @ '' total)'', []]
       @ concat (map (\<lambda>(i, r). result_text i r) (enumerate 0 rs)))"

definition status_row :: "nat \<Rightarrow> sub_agent \<Rightarrow> string option" where
  "status_row i a = map_option (\<lambda>obj. ''| '' @ nat_str (i + 1) @ '' | '' @ obj @ '' | '' @ sa_model a @ '' | ''
       @ show_agent_status (sa_status a) @ '' |'')
     (if 60 < length (sa_objective a) then map_option (\<lambda>s. s @ ''...'') (slice_to (sa_objective a) 57) else Some (sa_objective a))"

definition format_status_update :: "sub_agent list \<Rightarrow> string option" where
  "format_status_update agents =
     (if agents = [] then Some ''No active sub-agents.''
      else map_option (\<lambda>rows. lines_of (
           [''## Sub-Agent Status'', [], ''| # | Objective | Model | Status |'', ''|---|-----------|-------|--------|'']
           @ rows @ [[], ''**Progress:** '' @ count_status sa_status [Pending] agents @ '' pending, ''
             @ count_status sa_status [Running] agents @ '' running, ''
             @ count_status sa_status [Completed, Failed, TimedOut] agents @ '' done'']))
         (those (map (\<lambda>(i, a). status_row i a) (enumerate 0 agents))))"

section \<open>Where the heuristics go wrong\<close>

text \<open>A long objective with a character across byte 57 panics.\<close>

lemma status_update_panics:
  "format_status_update [sub_agent_new u (replicate 56 (CHR ''a'') @ [CHR 0xC3, CHR 0xA9] @ ''aaaa'')] = None"
proof -
  have "slice_to (replicate 56 (CHR ''a'') @ [CHR 0xC3, CHR 0xA9] @ ''aaaa'') 57 = None" by code_simp
  then show ?thesis by (simp add: format_status_update_def status_row_def sub_agent_new_def)
qed

text \<open>Numbers of versions are taken for a list: the words before the first are lost, and with them the verb.\<close>

lemma versions_read_as_list:
  "split_task to_lowercase ''Update lib from 1.5 to 2.0 and test'' = Some [''to'', ''and test'']"
  by code_simp

text \<open>A capital that grows in lower case shifts the cut: the first letter of the next part is lost.\<close>

lemma longer_lower_case_shifts:
  "word_parts ''then'' ([CHR 0x69, CHR 0xCC, CHR 0x87] @ '' then run'') ([CHR 0xC4, CHR 0xB0] @ '' then run'') 0 []
   = Some [[CHR 0xC4, CHR 0xB0], ''un'']"
  by code_simp

end
