(* ===== verification/Proactive.thy ===== *)
theory Proactive
  imports Skyclaw_Types Rust_Float
begin

text \<open>
  Proactive triggers (\<open>skyclaw-agent/src/proactive.rs\<close>): rules that turn an event into an action
  of the agent, behind a global switch, a cooldown per rule and a limit per hour. Instants and
  durations are nanoseconds; the clock is an argument.
\<close>

section \<open>Triggers and rules\<close>

datatype file_event = Created | Modified | Deleted

datatype threshold_condition = Above | Below | Equals

datatype trigger =
    FileChanged string file_event
  | CronSchedule string string
  | Webhook string json
  | Threshold string f64 threshold_condition

record trigger_rule =
  tr_id :: string
  tr_name :: string
  tr_trigger :: trigger
  tr_action_prompt :: string
  tr_enabled :: bool
  tr_requires_confirmation :: bool
  tr_cooldown :: int
  tr_last_triggered :: "int option"
  tr_created_at :: int

record proactive_action =
  pa_rule_id :: string
  pa_rule_name :: string
  pa_trigger :: trigger
  pa_action_prompt :: string
  pa_requires_confirmation :: bool
  pa_timestamp :: int

record proactive_manager =
  pm_rules :: "trigger_rule list"
  pm_enabled :: bool
  pm_max_per_hour :: nat
  pm_actions :: nat
  pm_hour_start :: int

definition proactive_new :: "int \<Rightarrow> proactive_manager" where
  "proactive_new now = \<lparr>pm_rules = [], pm_enabled = False, pm_max_per_hour = 10, pm_actions = 0, pm_hour_start = now\<rparr>"

definition pm_enable :: "proactive_manager \<Rightarrow> proactive_manager" where
  "pm_enable m = m\<lparr>pm_enabled := True\<rparr>"

definition pm_disable :: "proactive_manager \<Rightarrow> proactive_manager" where
  "pm_disable m = m\<lparr>pm_enabled := False\<rparr>"

definition set_max_actions_per_hour :: "nat \<Rightarrow> proactive_manager \<Rightarrow> proactive_manager" where
  "set_max_actions_per_hour n m = m\<lparr>pm_max_per_hour := n\<rparr>"

definition add_rule :: "trigger_rule \<Rightarrow> proactive_manager \<Rightarrow> string result \<times> proactive_manager" where
  "add_rule r m =
     (if tr_name r = [] then (Inl (Config ''Trigger rule name must not be empty''), m)
      else if tr_action_prompt r = [] then (Inl (Config ''Trigger rule action_prompt must not be empty''), m)
      else (Inr (tr_id r), m\<lparr>pm_rules := pm_rules m @ [r]\<rparr>))"

definition remove_rule :: "string \<Rightarrow> proactive_manager \<Rightarrow> unit result \<times> proactive_manager" where
  "remove_rule i m =
     (let kept = filter (\<lambda>r. tr_id r \<noteq> i) (pm_rules m); m' = m\<lparr>pm_rules := kept\<rparr>
      in if length kept = length (pm_rules m) then (Inl (NotFound (''Trigger rule not found: '' @ i)), m')
         else (Inr (), m'))"

definition new_rule :: "string \<Rightarrow> string \<Rightarrow> trigger \<Rightarrow> string \<Rightarrow> int \<Rightarrow> trigger_rule" where
  "new_rule uuid name trigger action_prompt now = \<lparr>tr_id = uuid, tr_name = name, tr_trigger = trigger,
     tr_action_prompt = action_prompt, tr_enabled = True, tr_requires_confirmation = False, tr_cooldown = 60 * 10 ^ 9,
     tr_last_triggered = None, tr_created_at = now\<rparr>"

section \<open>Evaluation\<close>

definition f64_max :: f64 where
  "f64_max = 2 ^ 1024 - 2 ^ 971"

fun trigger_matches :: "trigger \<Rightarrow> trigger \<Rightarrow> bool" where
  "trigger_matches (FileChanged p e) (FileChanged p' e') \<longleftrightarrow> p = p' \<and> e = e'"
| "trigger_matches (CronSchedule _ n) (CronSchedule _ n') \<longleftrightarrow> n = n'"
| "trigger_matches (Webhook ep _) (Webhook ep' _) \<longleftrightarrow> ep = ep'"
| "trigger_matches (Threshold metric v condition) (Threshold metric' _ _) \<longleftrightarrow>
     metric = metric' \<and> (case condition of Above \<Rightarrow> 0 < v | Below \<Rightarrow> v < f64_max | Equals \<Rightarrow> True)"
| "trigger_matches _ _ \<longleftrightarrow> False"

text \<open>\<open>chrono::Duration::from_std\<close> fails above \<open>i64::MAX\<close> milliseconds; the code then takes zero.\<close>

definition chrono_max :: int where
  "chrono_max = (2 ^ 63 - 1) * 10 ^ 6"

definition effective_cooldown :: "trigger_rule \<Rightarrow> int" where
  "effective_cooldown r = (if tr_cooldown r \<le> chrono_max then tr_cooldown r else 0)"

definition hour :: int where
  "hour = 3600 * 10 ^ 9"

definition maybe_reset_hour_window :: "int \<Rightarrow> proactive_manager \<Rightarrow> proactive_manager" where
  "maybe_reset_hour_window now m =
     (if hour \<le> now - pm_hour_start m then m\<lparr>pm_hour_start := now, pm_actions := 0\<rparr> else m)"

definition in_cooldown :: "int \<Rightarrow> trigger_rule \<Rightarrow> bool" where
  "in_cooldown now r = (case tr_last_triggered r of None \<Rightarrow> False | Some l \<Rightarrow> now - l < effective_cooldown r)"

definition action_of :: "int \<Rightarrow> trigger \<Rightarrow> trigger_rule \<Rightarrow> proactive_action" where
  "action_of now t r = \<lparr>pa_rule_id = tr_id r, pa_rule_name = tr_name r, pa_trigger = t,
     pa_action_prompt = tr_action_prompt r, pa_requires_confirmation = tr_requires_confirmation r, pa_timestamp = now\<rparr>"

text \<open>The loop over the rules. The counter is read again for each rule, but nothing here adds to it.\<close>

fun evaluate_rules :: "int \<Rightarrow> trigger \<Rightarrow> nat \<Rightarrow> nat \<Rightarrow> trigger_rule list \<Rightarrow> proactive_action list \<Rightarrow>
    proactive_action list \<times> trigger_rule list" where
  "evaluate_rules now t current limit [] actions = (actions, [])"
| "evaluate_rules now t current limit (r # rs) actions =
     (if \<not> tr_enabled r \<or> \<not> trigger_matches t (tr_trigger r) \<or> in_cooldown now r \<or> limit \<le> current
      then (case evaluate_rules now t current limit rs actions of (as, rs') \<Rightarrow> (as, r # rs'))
      else (case evaluate_rules now t current limit rs (actions @ [action_of now t r]) of
          (as, rs') \<Rightarrow> (as, r\<lparr>tr_last_triggered := Some now\<rparr> # rs')))"

definition evaluate_trigger :: "int \<Rightarrow> trigger \<Rightarrow> proactive_manager \<Rightarrow> proactive_action list \<times> proactive_manager" where
  "evaluate_trigger now t m =
     (if \<not> pm_enabled m then ([], m)
      else let m' = maybe_reset_hour_window now m
        in case evaluate_rules now t (pm_actions m') (pm_max_per_hour m') (pm_rules m') [] of
            (actions, rules) \<Rightarrow> (actions, m'\<lparr>pm_rules := rules\<rparr>))"

definition can_act :: "int \<Rightarrow> proactive_manager \<Rightarrow> bool" where
  "can_act now m \<longleftrightarrow> pm_enabled m \<and> (hour \<le> now - pm_hour_start m \<or> pm_actions m < pm_max_per_hour m)"

definition record_action :: "proactive_manager \<Rightarrow> proactive_manager" where
  "record_action m = m\<lparr>pm_actions := pm_actions m + 1\<rparr>"

definition format_action_request :: "proactive_action \<Rightarrow> string" where
  "format_action_request a = ''[Proactive] Rule '' @ [CHR 0x22] @ pa_rule_name a @ [CHR 0x22] @ '' triggered.'' @ nl @ nl @ ''Action: '' @ pa_action_prompt a"

definition format_confirmation_request :: "proactive_action \<Rightarrow> string" where
  "format_confirmation_request a = ''[Proactive] Rule '' @ [CHR 0x22] @ pa_rule_name a @ [CHR 0x22] @ '' wants to act.'' @ nl @ nl @
     ''Proposed action: '' @ pa_action_prompt a @ nl @ nl @ ''Reply /confirm to proceed or /deny to skip.''"

section \<open>What one evaluation does\<close>

lemma action_of_simps [simp]: "pa_rule_id (action_of now t r) = tr_id r" "pa_timestamp (action_of now t r) = now"
  by (simp_all add: action_of_def)

text \<open>The rules that fire, as the reference: all conditions hold.\<close>

definition fires :: "int \<Rightarrow> trigger \<Rightarrow> proactive_manager \<Rightarrow> trigger_rule \<Rightarrow> bool" where
  "fires now t m r \<longleftrightarrow> pm_enabled m \<and> tr_enabled r \<and> trigger_matches t (tr_trigger r) \<and> \<not> in_cooldown now r \<and>
     pm_actions (maybe_reset_hour_window now m) < pm_max_per_hour m"

lemma evaluate_rules_exact:
  "evaluate_rules now t current limit rs actions =
     (let fire = (\<lambda>r. tr_enabled r \<and> trigger_matches t (tr_trigger r) \<and> \<not> in_cooldown now r \<and> current < limit)
      in (actions @ map (action_of now t) (filter fire rs),
          map (\<lambda>r. if fire r then r\<lparr>tr_last_triggered := Some now\<rparr> else r) rs))"
  by (induction rs arbitrary: actions) (auto simp: Let_def)

lemma evaluate_trigger_exact:
  "evaluate_trigger now t m = (map (action_of now t) (filter (fires now t m) (pm_rules m)),
     (if pm_enabled m then maybe_reset_hour_window now m else m)
       \<lparr>pm_rules := map (\<lambda>r. if fires now t m r then r\<lparr>tr_last_triggered := Some now\<rparr> else r) (pm_rules m)\<rparr>)"
  by (auto simp: evaluate_trigger_def evaluate_rules_exact fires_def maybe_reset_hour_window_def Let_def
      intro!: arg_cong [of _ _ "\<lambda>f. map g (filter f xs)" for g xs] cong: filter_cong map_cong)

section \<open>Histories\<close>

text \<open>What can happen to a manager whose rules stay: the switch, the limit, recorded actions and
  evaluations, whose actions are collected in the order they come out.\<close>

datatype proactive_call = SwitchOn | SwitchOff | SetLimit nat | RecordAction | Evaluate int trigger

fun proactive_step :: "proactive_call \<Rightarrow> proactive_manager \<Rightarrow> proactive_action list \<times> proactive_manager" where
  "proactive_step SwitchOn m = ([], pm_enable m)"
| "proactive_step SwitchOff m = ([], pm_disable m)"
| "proactive_step (SetLimit n) m = ([], set_max_actions_per_hour n m)"
| "proactive_step RecordAction m = ([], record_action m)"
| "proactive_step (Evaluate now t) m = evaluate_trigger now t m"

fun proactive_run :: "proactive_call list \<Rightarrow> proactive_manager \<Rightarrow> proactive_action list" where
  "proactive_run [] m = []"
| "proactive_run (c # cs) m = (case proactive_step c m of (as, m') \<Rightarrow> as @ proactive_run cs m')"

text \<open>When a rule fired.\<close>

definition times_of :: "trigger_rule \<Rightarrow> proactive_action list \<Rightarrow> int list" where
  "times_of r as = map pa_timestamp (filter (\<lambda>a. pa_rule_id a = tr_id r) as)"

definition last_time :: "trigger_rule \<Rightarrow> int list" where
  "last_time r = (case tr_last_triggered r of None \<Rightarrow> [] | Some t \<Rightarrow> [t])"

lemma times_of_simps [simp]:
  "times_of r [] = []" "times_of r (as @ bs) = times_of r as @ times_of r bs"
  "times_of r (a # as) = (if pa_rule_id a = tr_id r then [pa_timestamp a] else []) @ times_of r as"
  by (simp_all add: times_of_def)

text \<open>One step: the rule is found again, and has fired now or not at all.\<close>

lemma times_of_fired:
  assumes "distinct (map tr_id rs)" "r \<in> set rs"
  shows "times_of r (map (action_of now t) (filter P rs)) = (if P r then [now] else [])"
  using assms
proof (induction rs)
  case (Cons x rs)
  have other: "times_of r (map (action_of now t) (filter P rs)) = []" if "tr_id r \<notin> tr_id ` set rs"
    using that by (auto simp: times_of_def filter_empty_conv) (metis imageI)
  show ?case
  proof (cases "x = r")
    case True
    then show ?thesis using other Cons.prems(1) by simp
  next
    case False
    then have "tr_id x \<noteq> tr_id r" "r \<in> set rs" using Cons.prems by auto
    then show ?thesis using Cons.IH Cons.prems(1) by simp
  qed
qed simp

lemma proactive_step_rule:
  assumes "proactive_step c m = (as, m')" "distinct (map tr_id (pm_rules m))" "r \<in> set (pm_rules m)"
  shows "map tr_id (pm_rules m') = map tr_id (pm_rules m)"
    and "\<exists>r' \<in> set (pm_rules m'). tr_id r' = tr_id r \<and> tr_cooldown r' = tr_cooldown r \<and>
      (times_of r as = [] \<and> r' = r \<or>
       (\<exists>now. times_of r as = [now] \<and> \<not> in_cooldown now r \<and> tr_last_triggered r' = Some now))"
proof -
  show "map tr_id (pm_rules m') = map tr_id (pm_rules m)"
    using assms(1) by (cases c) (auto simp: pm_enable_def pm_disable_def set_max_actions_per_hour_def record_action_def
        evaluate_trigger_exact)
  show "\<exists>r' \<in> set (pm_rules m'). tr_id r' = tr_id r \<and> tr_cooldown r' = tr_cooldown r \<and>
      (times_of r as = [] \<and> r' = r \<or>
       (\<exists>now. times_of r as = [now] \<and> \<not> in_cooldown now r \<and> tr_last_triggered r' = Some now))"
  proof (cases c)
    case (Evaluate now t)
    let ?r = "if fires now t m r then r\<lparr>tr_last_triggered := Some now\<rparr> else r"
    have "?r \<in> set (pm_rules m')" using assms(1,3) Evaluate by (auto simp: evaluate_trigger_exact)
    moreover have "times_of r as = (if fires now t m r then [now] else [])"
      using assms(1) Evaluate times_of_fired [OF assms(2,3)] by (auto simp: evaluate_trigger_exact)
    ultimately show ?thesis by (intro bexI [of _ ?r]) (auto simp: fires_def)
  qed (use assms in \<open>auto simp: pm_enable_def pm_disable_def set_max_actions_per_hour_def record_action_def\<close>)
qed

text \<open>Whatever happens to the manager, and however its clock runs, two actions of one rule that follow each other
  are at least the rule's cooldown apart, and so is the first one from the time the rule says
  it last fired.
\<close>

theorem cooldown_spacing:
  assumes "distinct (map tr_id (pm_rules m))" "r \<in> set (pm_rules m)"
  shows "successively (\<lambda>t u. effective_cooldown r \<le> u - t) (last_time r @ times_of r (proactive_run calls m))"
  using assms
proof (induction calls arbitrary: m r)
  case Nil
  then show ?case by (simp add: last_time_def split: option.split)
next
  case (Cons c calls)
  obtain as m' where step: "proactive_step c m = (as, m')" by fastforce
  note rule = proactive_step_rule [OF step Cons.prems]
  obtain r' where r': "r' \<in> set (pm_rules m')" "tr_id r' = tr_id r" "tr_cooldown r' = tr_cooldown r"
      "times_of r as = [] \<and> r' = r \<or>
       (\<exists>now. times_of r as = [now] \<and> \<not> in_cooldown now r \<and> tr_last_triggered r' = Some now)"
    using rule(2) by auto
  have same: "effective_cooldown r' = effective_cooldown r" "times_of r' = times_of r"
    using r'(2,3) by (simp_all add: effective_cooldown_def times_of_def fun_eq_iff)
  have "distinct (map tr_id (pm_rules m'))" using rule(1) Cons.prems(1) by simp
  from Cons.IH [OF this r'(1)]
  have ih: "successively (\<lambda>t u. effective_cooldown r \<le> u - t) (last_time r' @ times_of r (proactive_run calls m'))"
    by (simp add: same)
  from r'(4) show ?case
  proof
    assume "times_of r as = [] \<and> r' = r"
    then show ?thesis using ih step by simp
  next
    assume "\<exists>now. times_of r as = [now] \<and> \<not> in_cooldown now r \<and> tr_last_triggered r' = Some now"
    then obtain now where now: "times_of r as = [now]" "\<not> in_cooldown now r" "last_time r' = [now]"
      by (auto simp: last_time_def)
    then show ?thesis using ih step
      by (auto simp: last_time_def in_cooldown_def split: option.splits)
  qed
qed

definition sample_rule :: "string \<Rightarrow> trigger_rule" where
  "sample_rule i = (new_rule i ''Disk'' (Threshold ''disk'' 90 Above) ''Clean up'' 0)"

definition sample_manager :: proactive_manager where
  "sample_manager = (proactive_new 0)\<lparr>pm_rules := [sample_rule ''1'', sample_rule ''2''], pm_max_per_hour := 1\<rparr>"

theorem cooldown_spacing_witness:
  "times_of (sample_rule ''1'') (proactive_run [SwitchOn, Evaluate 0 (Threshold ''disk'' 95 Above),
      Evaluate (30 * 10 ^ 9) (Threshold ''disk'' 96 Above), Evaluate (60 * 10 ^ 9) (Threshold ''disk'' 97 Above)] sample_manager)
     = [0, 60 * 10 ^ 9]
   \<and> successively (\<lambda>t u. 60 * 10 ^ 9 \<le> u - t) [0, 60 * 10 ^ 9 :: int]"
proof -
  let ?calls = "[SwitchOn, Evaluate 0 (Threshold ''disk'' 95 Above),
      Evaluate (30 * 10 ^ 9) (Threshold ''disk'' 96 Above), Evaluate (60 * 10 ^ 9) (Threshold ''disk'' 97 Above)]"
  have times: "times_of (sample_rule ''1'') (proactive_run ?calls sample_manager) = [0, 60 * 10 ^ 9]"
    by code_simp
  have "distinct (map tr_id (pm_rules sample_manager))" "sample_rule ''1'' \<in> set (pm_rules sample_manager)"
    by (simp_all add: sample_manager_def sample_rule_def new_rule_def)
  from cooldown_spacing [OF this, of ?calls] times show ?thesis
    by (simp add: last_time_def sample_rule_def new_rule_def effective_cooldown_def chrono_max_def)
qed

section \<open>The limit per hour\<close>

text \<open>An evaluation with an action starts below the limit, and a rule gives one action at most.\<close>

lemma evaluate_trigger_limit:
  assumes "evaluate_trigger now t m = (as, m')"
  shows "length as \<le> length (pm_rules m)" "as \<noteq> [] \<Longrightarrow> pm_enabled m \<and> pm_actions m' < pm_max_per_hour m'"
proof -
  have as: "as = map (action_of now t) (filter (fires now t m) (pm_rules m))"
    and m': "m' = (if pm_enabled m then maybe_reset_hour_window now m else m)
       \<lparr>pm_rules := map (\<lambda>r. if fires now t m r then r\<lparr>tr_last_triggered := Some now\<rparr> else r) (pm_rules m)\<rparr>"
    using assms by (simp_all add: evaluate_trigger_exact)
  show "length as \<le> length (pm_rules m)" by (simp add: as)
  assume "as \<noteq> []"
  then obtain r where "fires now t m r" by (auto simp: as filter_empty_conv)
  then show "pm_enabled m \<and> pm_actions m' < pm_max_per_hour m'"
    by (auto simp: m' fires_def maybe_reset_hour_window_def)
qed

text \<open>But the counter is read before any of the actions is recorded: one event may go beyond the limit.\<close>

lemma limit_exceeded_by_one_event:
  "length (fst (evaluate_trigger 0 (Threshold ''disk'' 95 Above) (pm_enable sample_manager))) = 2"
  "pm_max_per_hour (pm_enable sample_manager) = 1"
  by (simp_all add: evaluate_trigger_exact sample_manager_def sample_rule_def new_rule_def proactive_new_def pm_enable_def
        fires_def in_cooldown_def maybe_reset_hour_window_def hour_def)

text \<open>The value and the condition of the rule are not looked at: a disk at one per cent fires the rule for 90.\<close>

lemma threshold_of_rule_ignored:
  "trigger_matches (Threshold metric v condition) (Threshold metric x c) = trigger_matches (Threshold metric v condition) (Threshold metric y d)"
  "trigger_matches (Threshold ''disk'' 1 Above) (Threshold ''disk'' 90 Above)"
  by simp_all

text \<open>A cooldown that is too long for \<open>chrono\<close> is none at all.\<close>

lemma endless_cooldown_is_none: "chrono_max < tr_cooldown r \<Longrightarrow> tr_last_triggered r = Some now \<Longrightarrow> \<not> in_cooldown now r"
  by (simp add: in_cooldown_def effective_cooldown_def)

text \<open>In a new hour an action is said to be possible even when none is allowed.\<close>

lemma can_act_without_limit:
  "hour \<le> now - pm_hour_start m \<Longrightarrow> pm_enabled m \<Longrightarrow> pm_max_per_hour m = 0 \<Longrightarrow>
   can_act now m \<and> fst (evaluate_trigger now t m) = []"
  by (simp add: can_act_def evaluate_trigger_exact fires_def maybe_reset_hour_window_def filter_empty_conv)

end
