(* ===== verification/Identity.thy ===== *)
theory Identity
  imports Provider_Client
begin

text \<open>
  Users and OAuth (\<open>skyclaw-gateway/src/identity.rs\<close>): registration, permissions, and the
  authorization flow, whose state parameter protects the callback. The two locks make the steps
  of a flow atomic, but not the flow: between them the provider is asked, and other requests
  run. HTTP, the random and encoding libraries and \<open>chrono\<close> are parameters; an instant is in
  nanoseconds.
\<close>

section \<open>The state\<close>

record oauth_token =
  ot_access :: string
  ot_refresh :: "string option"
  ot_expires_at :: "int option"
  ot_provider :: string

record user_record =
  ur_user_id :: string
  ur_channel :: string
  ur_permissions :: "string list"
  ur_tokens :: "(string, oauth_token) hmap"
  ur_created_at :: int

record oauth_config =
  oc_name :: string
  oc_client_id :: string
  oc_client_secret :: string
  oc_auth_url :: string
  oc_token_url :: string
  oc_scopes :: "string list"
  oc_redirect_uri :: string

record oauth_flow =
  fl_state :: string
  fl_user :: string
  fl_provider :: string
  fl_created_at :: int
  fl_verifier :: "string option"

record identity_manager =
  im_users :: "(string, user_record) hmap"
  im_configs :: "oauth_config list"
  im_flows :: "(string, oauth_flow) hmap"

text \<open>\<open>TokenResponse\<close>.\<close>

record token_response =
  tk_access :: string
  tk_refresh :: "string option"
  tk_expires_in :: "int option"

text \<open>
  What is not of the program: the form post, the parser of the response, the addition of seconds
  to an instant (\<^const>\<open>None\<close>: it panics), percent encoding and the digest of the verifier.
\<close>

record 'w identity_env =
  post_form :: "string \<Rightarrow> (string \<times> string) list \<Rightarrow> 'w \<Rightarrow> (string + http_response) \<times> 'w"
  parse_token :: "string \<Rightarrow> string + token_response"
  add_seconds :: "int \<Rightarrow> int \<Rightarrow> int option"
  percent_encode :: "string \<Rightarrow> string"
  pkce_challenge :: "string \<Rightarrow> string"
  print_status :: "nat \<Rightarrow> string"
  clock :: "'w \<Rightarrow> int"

definition DEFAULT_PERMISSIONS :: "string list" where
  "DEFAULT_PERMISSIONS = [''read'', ''execute'']"

definition FLOW_EXPIRY_SECONDS :: int where
  "FLOW_EXPIRY_SECONDS = 600"

definition identity_new :: "oauth_config list \<Rightarrow> identity_manager" where
  "identity_new configs = \<lparr>im_users = [], im_configs = configs, im_flows = []\<rparr>"

definition find_provider_config :: "identity_manager \<Rightarrow> string \<Rightarrow> oauth_config option" where
  "find_provider_config m name = List.find (\<lambda>c. oc_name c = name) (im_configs m)"

section \<open>Users\<close>

datatype auth_result = Allowed | Denied string | NeedsSetup

definition authenticate :: "identity_manager \<Rightarrow> string \<Rightarrow> string \<Rightarrow> auth_result result" where
  "authenticate m channel user_id = (case hm_get (im_users m) user_id of
      Some u \<Rightarrow> if ur_channel u \<noteq> channel
        then Inr (Denied (''User registered on '' @ quoted (ur_channel u) @ '', not '' @ quoted channel))
        else Inr Allowed
    | None \<Rightarrow> Inr NeedsSetup)"

definition has_permission :: "identity_manager \<Rightarrow> string \<Rightarrow> string \<Rightarrow> bool result" where
  "has_permission m user_id permission = (case hm_get (im_users m) user_id of
      Some u \<Rightarrow> Inr (permission \<in> set (ur_permissions u))
    | None \<Rightarrow> Inl (Auth (''User not found: '' @ user_id)))"

definition register_user :: "string \<Rightarrow> string \<Rightarrow> int \<Rightarrow> identity_manager \<Rightarrow> unit result \<times> identity_manager" where
  "register_user user_id channel now m =
     (if hm_get (im_users m) user_id \<noteq> None then (Inl (Auth (''User already registered: '' @ user_id)), m)
      else (Inr (), m\<lparr>im_users := hm_insert user_id \<lparr>ur_user_id = user_id, ur_channel = channel,
        ur_permissions = DEFAULT_PERMISSIONS, ur_tokens = [], ur_created_at = now\<rparr> (im_users m)\<rparr>))"

section \<open>A flow\<close>

text \<open>\<open>state_param\<close> and \<open>verifier\<close> are the random values drawn.\<close>

definition start_oauth_flow :: "'w identity_env \<Rightarrow> string \<Rightarrow> string \<Rightarrow> string \<Rightarrow> string \<Rightarrow> int \<Rightarrow> identity_manager \<Rightarrow>
    string result \<times> identity_manager" where
  "start_oauth_flow env user_id provider state_param verifier now m = (case find_provider_config m provider of
      None \<Rightarrow> (Inl (Auth (''Unknown OAuth provider: '' @ provider)), m)
    | Some config \<Rightarrow>
        (Inr (oc_auth_url config @ ''?client_id='' @ percent_encode env (oc_client_id config)
           @ ''&redirect_uri='' @ percent_encode env (oc_redirect_uri config)
           @ ''&response_type=code&state='' @ percent_encode env state_param
           @ ''&scope='' @ percent_encode env (join '' '' (oc_scopes config))
           @ ''&code_challenge='' @ percent_encode env (pkce_challenge env verifier) @ ''&code_challenge_method=S256''),
         m\<lparr>im_flows := hm_insert state_param \<lparr>fl_state = state_param, fl_user = user_id, fl_provider = provider,
           fl_created_at = now, fl_verifier = Some verifier\<rparr> (im_flows m)\<rparr>))"

text \<open>The first half of \<open>complete_oauth_flow\<close>, under the lock of the flows.\<close>

definition take_flow :: "string \<Rightarrow> identity_manager \<Rightarrow> oauth_flow result \<times> identity_manager" where
  "take_flow state m = (case hm_get (im_flows m) state of
      None \<Rightarrow> (Inl (Auth ''Invalid or expired OAuth state parameter''), m)
    | Some flow \<Rightarrow> (Inr flow, m\<lparr>im_flows := hm_remove state (im_flows m)\<rparr>))"

text \<open>\<open>num_seconds\<close> rounds toward zero.\<close>

definition elapsed_seconds :: "int \<Rightarrow> int \<Rightarrow> int" where
  "elapsed_seconds now since = (let d = now - since in if d < 0 then - (- d div 10 ^ 9) else d div 10 ^ 9)"

definition exchange_params :: "oauth_config \<Rightarrow> string \<Rightarrow> oauth_flow \<Rightarrow> (string \<times> string) list" where
  "exchange_params config code flow =
     [(''grant_type'', ''authorization_code''), (''code'', code), (''redirect_uri'', oc_redirect_uri config),
      (''client_id'', oc_client_id config), (''client_secret'', oc_client_secret config)]
     @ (case fl_verifier flow of None \<Rightarrow> [] | Some v \<Rightarrow> [(''code_verifier'', v)])"

text \<open>A post to the token endpoint, with the words of the two callers; \<^const>\<open>None\<close> is the panic of
  \<open>chrono\<close>.\<close>

definition token_request :: "'w identity_env \<Rightarrow> string \<Rightarrow> string \<Rightarrow> string \<Rightarrow> string \<Rightarrow> (string \<times> string) list \<Rightarrow> 'w \<Rightarrow>
    ((token_response \<times> int option) result \<times> 'w) option" where
  "token_request env what endpoint response url params w = (case post_form env url params w of
      (Inl e, w') \<Rightarrow> Some (Inl (Auth (what @ '' HTTP error: '' @ e)), w')
    | (Inr resp, w') \<Rightarrow>
        if \<not> is_success (hr_status resp)
        then Some (Inl (Auth (endpoint @ '' returned '' @ print_status env (hr_status resp) @ '': ''
          @ (case hr_body resp of Inl _ \<Rightarrow> ''<unreadable>'' | Inr s \<Rightarrow> s))), w')
        else (case bind_result (hr_body resp) (parse_token env) of
            Inl e \<Rightarrow> Some (Inl (Auth (''Failed to parse '' @ response @ '' response: '' @ e)), w')
          | Inr t \<Rightarrow> (case tk_expires_in t of
                None \<Rightarrow> Some (Inr (t, None), w')
              | Some secs \<Rightarrow> map_option (\<lambda>x. (Inr (t, Some x), w')) (add_seconds env (clock env w') secs))))"

text \<open>The end of \<open>complete_oauth_flow\<close> and \<open>refresh_token\<close>, under the lock of the users.\<close>

definition store_token :: "string \<Rightarrow> string \<Rightarrow> oauth_token \<Rightarrow> identity_manager \<Rightarrow> identity_manager" where
  "store_token user_id provider token m = (case hm_get (im_users m) user_id of
      None \<Rightarrow> m
    | Some u \<Rightarrow> m\<lparr>im_users := hm_insert user_id (u\<lparr>ur_tokens := hm_insert provider token (ur_tokens u)\<rparr>) (im_users m)\<rparr>)"

definition check_flow :: "identity_manager \<Rightarrow> oauth_flow \<Rightarrow> int \<Rightarrow> oauth_config result" where
  "check_flow m flow now =
     (if FLOW_EXPIRY_SECONDS < elapsed_seconds now (fl_created_at flow)
      then Inl (Auth (''OAuth flow has expired '' @ em_dash @ '' please restart the authorization''))
      else case find_provider_config m (fl_provider flow) of
          None \<Rightarrow> Inl (Auth (''Provider config not found: '' @ fl_provider flow))
        | Some config \<Rightarrow> Inr config)"

definition token_of :: "string \<Rightarrow> string option \<Rightarrow> token_response \<times> int option \<Rightarrow> oauth_token" where
  "token_of provider fallback = (\<lambda>(t, expires). \<lparr>ot_access = tk_access t,
     ot_refresh = (case tk_refresh t of None \<Rightarrow> fallback | Some r \<Rightarrow> Some r), ot_expires_at = expires, ot_provider = provider\<rparr>)"

definition complete_oauth_flow :: "'w identity_env \<Rightarrow> string \<Rightarrow> string \<Rightarrow> identity_manager \<times> 'w \<Rightarrow>
    (oauth_token result \<times> identity_manager \<times> 'w) option" where
  "complete_oauth_flow env state code = (\<lambda>(m, w). case take_flow state m of
      (Inl e, m') \<Rightarrow> Some (Inl e, m', w)
    | (Inr flow, m') \<Rightarrow> (case check_flow m' flow (clock env w) of
          Inl e \<Rightarrow> Some (Inl e, m', w)
        | Inr config \<Rightarrow> (case token_request env ''Token exchange'' ''Token endpoint'' ''token'' (oc_token_url config)
              (exchange_params config code flow) w of
              None \<Rightarrow> None
            | Some (Inl e, w') \<Rightarrow> Some (Inl e, m', w')
            | Some (Inr t, w') \<Rightarrow> (let token = token_of (fl_provider flow) None t
                in Some (Inr token, store_token (fl_user flow) (fl_provider flow) token m', w')))))"

definition refresh_inputs :: "identity_manager \<Rightarrow> string \<Rightarrow> string \<Rightarrow> (string \<times> oauth_config) result" where
  "refresh_inputs m user_id provider = (case hm_get (im_users m) user_id of
      None \<Rightarrow> Inl (Auth (''User not found: '' @ user_id))
    | Some u \<Rightarrow> (case hm_get (ur_tokens u) provider of
          None \<Rightarrow> Inl (Auth (''No token for provider '' @ quoted provider @ '' on user '' @ quoted user_id))
        | Some current \<Rightarrow> (case ot_refresh current of
              None \<Rightarrow> Inl (Auth ''No refresh token available'')
            | Some refresh \<Rightarrow> (case find_provider_config m provider of
                  None \<Rightarrow> Inl (Auth (''Unknown OAuth provider: '' @ provider))
                | Some config \<Rightarrow> Inr (refresh, config)))))"

definition refresh_token :: "'w identity_env \<Rightarrow> string \<Rightarrow> string \<Rightarrow> identity_manager \<times> 'w \<Rightarrow>
    (oauth_token result \<times> identity_manager \<times> 'w) option" where
  "refresh_token env user_id provider = (\<lambda>(m, w). case refresh_inputs m user_id provider of
      Inl e \<Rightarrow> Some (Inl e, m, w)
    | Inr (refresh, config) \<Rightarrow> (case token_request env ''Token refresh'' ''Token refresh endpoint'' ''refresh'' (oc_token_url config)
          [(''grant_type'', ''refresh_token''), (''refresh_token'', refresh), (''client_id'', oc_client_id config),
           (''client_secret'', oc_client_secret config)] w of
          None \<Rightarrow> None
        | Some (Inl e, w') \<Rightarrow> Some (Inl e, m, w')
        | Some (Inr t, w') \<Rightarrow> (let token = token_of provider (Some refresh) t
            in Some (Inr token, store_token user_id provider token m, w'))))"

definition is_token_expired :: "int \<Rightarrow> oauth_token \<Rightarrow> bool" where
  "is_token_expired now token = (case ot_expires_at token of None \<Rightarrow> False | Some x \<Rightarrow> x \<le> now)"

text \<open>The handler of the callback: its status, provider and error.\<close>

definition oauth_callback :: "oauth_token result \<Rightarrow> nat \<times> string \<times> string \<times> string option" where
  "oauth_callback r = (case r of
      Inr token \<Rightarrow> (200, ''ok'', ot_provider token, None)
    | Inl e \<Rightarrow> (400, ''error'', [], Some (show_error e)))"

section \<open>Requests that run at the same time\<close>

text \<open>
  Requests take their atomic steps in any order. \<open>ids_in_flight\<close> are the flows whose code is being
  exchanged, with the time they were taken; \<open>ids_refreshing\<close> the refreshes that wait for the
  provider. \<open>ids_issued\<close> and \<open>ids_granted\<close> keep what happened. A state parameter is a fresh UUID.
\<close>

record identity_state =
  ids_manager :: identity_manager
  ids_in_flight :: "(oauth_flow \<times> int) list"
  ids_refreshing :: "(string \<times> string \<times> string) list"
  ids_issued :: "oauth_flow list"
  ids_granted :: "(oauth_flow \<times> int) list"

definition issued_flow :: "string \<Rightarrow> string \<Rightarrow> string \<Rightarrow> string \<Rightarrow> int \<Rightarrow> oauth_flow" where
  "issued_flow user_id provider state_param verifier now = \<lparr>fl_state = state_param, fl_user = user_id,
     fl_provider = provider, fl_created_at = now, fl_verifier = Some verifier\<rparr>"

inductive identity_step :: "'w identity_env \<Rightarrow> identity_state \<Rightarrow> identity_state \<Rightarrow> bool" for env where
  id_register: "register_user u ch now (ids_manager s) = (r, m) \<Longrightarrow>
     identity_step env s (s\<lparr>ids_manager := m\<rparr>)"
| id_start: "state_param \<notin> fl_state ` set (ids_issued s) \<Longrightarrow>
     start_oauth_flow env u p state_param verifier now (ids_manager s) = (Inr url, m) \<Longrightarrow>
     identity_step env s (s\<lparr>ids_manager := m, ids_issued := ids_issued s @ [issued_flow u p state_param verifier now]\<rparr>)"
| id_refused: "take_flow state (ids_manager s) = (Inr flow, m) \<Longrightarrow> check_flow m flow now = Inl e \<Longrightarrow>
     identity_step env s (s\<lparr>ids_manager := m\<rparr>)"
| id_taken: "take_flow state (ids_manager s) = (Inr flow, m) \<Longrightarrow> check_flow m flow now = Inr config \<Longrightarrow>
     identity_step env s (s\<lparr>ids_manager := m, ids_in_flight := (flow, now) # ids_in_flight s\<rparr>)"
| id_granted: "ids_in_flight s = xs @ (flow, at_time) # ys \<Longrightarrow>
     identity_step env s (s\<lparr>ids_manager := store_token (fl_user flow) (fl_provider flow) (token_of (fl_provider flow) None t) (ids_manager s),
       ids_in_flight := xs @ ys, ids_granted := (flow, at_time) # ids_granted s\<rparr>)"
| id_failed: "ids_in_flight s = xs @ (flow, at_time) # ys \<Longrightarrow>
     identity_step env s (s\<lparr>ids_in_flight := xs @ ys\<rparr>)"
| id_refresh: "refresh_inputs (ids_manager s) u p = Inr (refresh, config) \<Longrightarrow>
     identity_step env s (s\<lparr>ids_refreshing := (u, p, refresh) # ids_refreshing s\<rparr>)"
| id_refreshed: "ids_refreshing s = xs @ (u, p, refresh) # ys \<Longrightarrow>
     identity_step env s (s\<lparr>ids_manager := store_token u p (token_of p (Some refresh) t) (ids_manager s), ids_refreshing := xs @ ys\<rparr>)"

definition identity_init :: "oauth_config list \<Rightarrow> identity_state" where
  "identity_init configs = \<lparr>ids_manager = identity_new configs, ids_in_flight = [], ids_refreshing = [],
     ids_issued = [], ids_granted = []\<rparr>"

text \<open>Whether a user has a token for a provider.\<close>

definition has_token :: "identity_manager \<Rightarrow> string \<Rightarrow> string \<Rightarrow> bool" where
  "has_token m u p \<longleftrightarrow> (case hm_get (im_users m) u of None \<Rightarrow> False | Some r \<Rightarrow> hm_get (ur_tokens r) p \<noteq> None)"

text \<open>Someone was granted \<open>u\<close>'s access to \<open>p\<close>: by a flow that \<open>u\<close> started for \<open>p\<close>.\<close>

definition granted_to :: "identity_state \<Rightarrow> string \<Rightarrow> string \<Rightarrow> bool" where
  "granted_to s u p \<longleftrightarrow> (\<exists>x \<in> set (ids_granted s). fl_user (fst x) = u \<and> fl_provider (fst x) = p)"

definition in_time :: "oauth_flow \<times> int \<Rightarrow> bool" where
  "in_time = (\<lambda>(flow, at_time). elapsed_seconds at_time (fl_created_at flow) \<le> FLOW_EXPIRY_SECONDS)"

abbreviation used_states :: "identity_state \<Rightarrow> string list" where
  "used_states s \<equiv> map (\<lambda>x. fl_state (fst x)) (ids_in_flight s @ ids_granted s)"

definition identity_inv :: "identity_state \<Rightarrow> bool" where
  "identity_inv s \<longleftrightarrow> hm_ok (im_flows (ids_manager s)) \<and> hm_ok (im_users (ids_manager s)) \<and>
     (\<forall>(k, flow) \<in> set (im_flows (ids_manager s)). fl_state flow = k \<and> flow \<in> set (ids_issued s)) \<and>
     distinct (map fl_state (ids_issued s)) \<and>
     distinct (used_states s) \<and> set (hm_keys (im_flows (ids_manager s))) \<inter> set (used_states s) = {} \<and>
     (\<forall>x \<in> set (ids_in_flight s) \<union> set (ids_granted s). fst x \<in> set (ids_issued s) \<and> in_time x) \<and>
     (\<forall>u p. has_token (ids_manager s) u p \<longrightarrow> granted_to s u p) \<and>
     (\<forall>(u, p, r) \<in> set (ids_refreshing s). granted_to s u p)"

lemma has_token_store: "has_token (store_token u p t m) u' p' \<Longrightarrow> u' = u \<and> p' = p \<or> has_token m u' p'"
  by (auto simp: has_token_def store_token_def split: option.splits if_splits)

lemma store_token_fields [simp]:
  "im_flows (store_token u p t m) = im_flows m" "im_configs (store_token u p t m) = im_configs m"
  "hm_ok (im_users m) \<Longrightarrow> hm_ok (im_users (store_token u p t m))"
  by (auto simp: store_token_def split: option.split)

lemma take_flow_Inr:
  assumes "take_flow state m = (Inr flow, m')" "identity_inv s" "m = ids_manager s"
  shows "m' = m\<lparr>im_flows := hm_remove state (im_flows m)\<rparr>" "(state, flow) \<in> set (im_flows m)"
    "fl_state flow = state" "flow \<in> set (ids_issued s)" "state \<in> set (hm_keys (im_flows m))" "state \<notin> set (used_states s)"
proof -
  show m': "m' = m\<lparr>im_flows := hm_remove state (im_flows m)\<rparr>"
    using assms(1) by (auto simp: take_flow_def split: option.splits)
  have get: "hm_get (im_flows m) state = Some flow"
    using assms(1) by (auto simp: take_flow_def split: option.splits)
  then show mem: "(state, flow) \<in> set (im_flows m)" by (rule hm_get_SomeD)
  then show "fl_state flow = state" "flow \<in> set (ids_issued s)"
    using assms(2,3) by (auto simp: identity_inv_def granted_to_def)
  show key: "state \<in> set (hm_keys (im_flows m))" using get hm_get_None_iff [of "im_flows m" state] by auto
  then show "state \<notin> set (used_states s)" using assms(2,3) by (auto simp: identity_inv_def granted_to_def)
qed

lemma has_token_flows [simp]: "has_token (m\<lparr>im_flows := f\<rparr>) u p = has_token m u p"
  by (simp add: has_token_def)

lemma removed_flows:
  "set (hm_keys (hm_remove k f)) = set (hm_keys f) - {k}"
  "x \<in> set (hm_remove k f) \<Longrightarrow> x \<in> set f"
  by (simp add: hm_keys_remove) (auto simp: hm_remove_def AList.delete_eq)

lemma identity_inv_register:
  assumes "identity_inv s" "register_user u ch now (ids_manager s) = (r, m)"
  shows "identity_inv (s\<lparr>ids_manager := m\<rparr>)"
proof -
  have m: "im_flows m = im_flows (ids_manager s)" "hm_ok (im_users m)"
      "\<And>u' p. has_token m u' p \<Longrightarrow> has_token (ids_manager s) u' p"
    using assms by (auto simp: register_user_def identity_inv_def has_token_def split: if_splits option.splits)
  then show ?thesis using assms(1) by (auto simp: identity_inv_def granted_to_def)
qed

lemma identity_inv_start:
  assumes "identity_inv s" "state_param \<notin> fl_state ` set (ids_issued s)"
    and "start_oauth_flow env u p state_param verifier now (ids_manager s) = (Inr url, m)"
  shows "identity_inv (s\<lparr>ids_manager := m, ids_issued := ids_issued s @ [issued_flow u p state_param verifier now]\<rparr>)"
proof -
  let ?flow = "issued_flow u p state_param verifier now" and ?flows = "im_flows (ids_manager s)"
  have m: "m = ids_manager s\<lparr>im_flows := hm_insert state_param ?flow ?flows\<rparr>"
    using assms(3) by (auto simp: start_oauth_flow_def issued_flow_def split: option.splits)
  have fresh: "state_param \<notin> set (used_states s)"
    using assms(1,2) by (auto simp: identity_inv_def granted_to_def)
  then show ?thesis using assms(1,2)
    by (auto simp: identity_inv_def granted_to_def m hm_keys_insert issued_flow_def dest!: subsetD [OF set_hm_insert])
qed

lemma identity_inv_taken:
  assumes "identity_inv s" "take_flow state (ids_manager s) = (Inr flow, m)"
  shows "identity_inv (s\<lparr>ids_manager := m\<rparr>)"
    and "check_flow m flow now = Inr config \<Longrightarrow> identity_inv (s\<lparr>ids_manager := m, ids_in_flight := (flow, now) # ids_in_flight s\<rparr>)"
proof -
  note t = take_flow_Inr [OF assms(2,1) refl]
  show "identity_inv (s\<lparr>ids_manager := m\<rparr>)"
    using assms(1) by (auto simp: identity_inv_def granted_to_def t(1) removed_flows(1) dest!: removed_flows(2))
  assume "check_flow m flow now = Inr config"
  then have "in_time (flow, now)" by (auto simp: check_flow_def in_time_def split: if_splits)
  then show "identity_inv (s\<lparr>ids_manager := m, ids_in_flight := (flow, now) # ids_in_flight s\<rparr>)"
    using assms(1) t(3-6) by (auto simp: identity_inv_def granted_to_def t(1) removed_flows(1) dest!: removed_flows(2))
qed

lemma identity_inv_granted:
  assumes "identity_inv s" "ids_in_flight s = xs @ (flow, at_time) # ys"
  shows "identity_inv (s\<lparr>ids_manager := store_token (fl_user flow) (fl_provider flow) t (ids_manager s),
       ids_in_flight := xs @ ys, ids_granted := (flow, at_time) # ids_granted s\<rparr>)"
  using assms by (auto simp: identity_inv_def granted_to_def dest!: has_token_store)

lemma identity_inv_failed:
  assumes "identity_inv s" "ids_in_flight s = xs @ (flow, at_time) # ys"
  shows "identity_inv (s\<lparr>ids_in_flight := xs @ ys\<rparr>)"
  using assms by (auto simp: identity_inv_def granted_to_def)

lemma identity_inv_refresh:
  assumes "identity_inv s" "refresh_inputs (ids_manager s) u p = Inr (refresh, config)"
  shows "identity_inv (s\<lparr>ids_refreshing := (u, p, refresh) # ids_refreshing s\<rparr>)"
proof -
  have "has_token (ids_manager s) u p"
    using assms(2) by (auto simp: refresh_inputs_def has_token_def split: option.splits)
  then show ?thesis using assms(1) by (auto simp: identity_inv_def granted_to_def)
qed

lemma identity_inv_refreshed:
  assumes "identity_inv s" "ids_refreshing s = xs @ (u, p, refresh) # ys"
  shows "identity_inv (s\<lparr>ids_manager := store_token u p t (ids_manager s), ids_refreshing := xs @ ys\<rparr>)"
  using assms by (auto simp: identity_inv_def granted_to_def dest!: has_token_store)

lemma identity_inv_step: "identity_step env s s' \<Longrightarrow> identity_inv s \<Longrightarrow> identity_inv s'"
  by (induction rule: identity_step.induct)
    (auto intro: identity_inv_register identity_inv_start identity_inv_taken identity_inv_granted identity_inv_failed
      identity_inv_refresh identity_inv_refreshed)

text \<open>C35: However requests interleave, a state parameter is good for one token at most, and only for the flow it
  was issued for and within ten minutes; a user has a token for a provider only if a flow that was
  started for this user and this provider was completed.
\<close>

theorem oauth_state_single_use:
  assumes "(identity_step env)\<^sup>*\<^sup>* (identity_init configs) s"
  shows "distinct (map (\<lambda>x. fl_state (fst x)) (ids_granted s)) \<and>
    (\<forall>x \<in> set (ids_granted s). fst x \<in> set (ids_issued s) \<and> elapsed_seconds (snd x) (fl_created_at (fst x)) \<le> 600) \<and>
    (\<forall>u p. has_token (ids_manager s) u p \<longrightarrow> granted_to s u p)"
proof -
  have "identity_inv s" using assms
  proof (induction rule: rtranclp_induct)
    case base
    show ?case by (simp add: identity_inv_def identity_init_def identity_new_def has_token_def hm_keys_def)
  qed (rule identity_inv_step)
  then show ?thesis by (auto simp: identity_inv_def in_time_def FLOW_EXPIRY_SECONDS_def)
qed

definition sample_env :: "nat identity_env" where
  "sample_env = \<lparr>post_form = (\<lambda>_ _ w. (Inr \<lparr>hr_status = 200, hr_body = Inr ''{}'', hr_pieces = []\<rparr>, w)),
     parse_token = (\<lambda>_. Inr \<lparr>tk_access = ''t'', tk_refresh = None, tk_expires_in = None\<rparr>),
     add_seconds = (\<lambda>now secs. Some (now + secs * 10 ^ 9)), percent_encode = id, pkce_challenge = id,
     print_status = nat_str, clock = (\<lambda>_. 0)\<rparr>"

definition sample_config :: oauth_config where
  "sample_config = \<lparr>oc_name = ''github'', oc_client_id = ''c'', oc_client_secret = ''s'', oc_auth_url = ''a'',
     oc_token_url = ''t'', oc_scopes = [], oc_redirect_uri = ''r''\<rparr>"

text \<open>A user registers, starts a flow and completes it.\<close>

theorem oauth_state_single_use_witness:
  "\<exists>s. (identity_step sample_env)\<^sup>*\<^sup>* (identity_init [sample_config]) s \<and> has_token (ids_manager s) ''u'' ''github''
     \<and> granted_to s ''u'' ''github'' \<and> length (ids_granted s) = 1"
proof -
  let ?flow = "issued_flow ''u'' ''github'' ''x'' ''v'' 0" and ?s0 = "identity_init [sample_config]"
  define m1 where "m1 = snd (register_user ''u'' ''cli'' 0 (ids_manager ?s0))"
  define s1 where "s1 = ?s0\<lparr>ids_manager := m1\<rparr>"
  define m2 where "m2 = m1\<lparr>im_flows := [(''x'', ?flow)]\<rparr>"
  define s2 where "s2 = s1\<lparr>ids_manager := m2, ids_issued := ids_issued s1 @ [?flow]\<rparr>"
  define s3 where "s3 = s2\<lparr>ids_manager := m1, ids_in_flight := (?flow, 0) # ids_in_flight s2\<rparr>"
  define t where "t = token_of (fl_provider ?flow) None (\<lparr>tk_access = ''t'', tk_refresh = None, tk_expires_in = None\<rparr>, None)"
  define s4 where "s4 = s3\<lparr>ids_manager := store_token (fl_user ?flow) (fl_provider ?flow) t (ids_manager s3),
    ids_in_flight := [] @ ids_in_flight s2, ids_granted := (?flow, 0) # ids_granted s3\<rparr>"
  have m1: "m1 = \<lparr>im_users = [(''u'', \<lparr>ur_user_id = ''u'', ur_channel = ''cli'', ur_permissions = DEFAULT_PERMISSIONS,
      ur_tokens = [], ur_created_at = 0\<rparr>)], im_configs = [sample_config], im_flows = []\<rparr>"
    by (simp add: m1_def register_user_def identity_init_def identity_new_def hm_get_def hm_insert_def)
  have "identity_step sample_env ?s0 s1"
    unfolding s1_def by (rule id_register [where r = "Inr ()"]) (simp add: m1_def register_user_def identity_init_def identity_new_def)
  moreover have "identity_step sample_env s1 s2"
    unfolding s2_def
    by (rule id_start) (auto simp: s1_def identity_init_def start_oauth_flow_def find_provider_config_def m1 m2_def
      sample_config_def issued_flow_def hm_insert_def)
  moreover have "identity_step sample_env s2 s3"
    unfolding s3_def
    by (rule id_taken [where state = "''x''" and config = sample_config])
      (simp_all add: s2_def m2_def m1 take_flow_def hm_get_def hm_remove_def check_flow_def find_provider_config_def
        sample_config_def issued_flow_def elapsed_seconds_def FLOW_EXPIRY_SECONDS_def)
  moreover have "identity_step sample_env s3 s4"
    unfolding s4_def t_def by (rule id_granted [where xs = "[]"]) (simp add: s3_def)
  ultimately have run: "(identity_step sample_env)\<^sup>*\<^sup>* ?s0 s4" by (meson rtranclp.rtrancl_into_rtrancl rtranclp.rtrancl_refl)
  have tok: "has_token (ids_manager s4) ''u'' ''github''"
    by (simp add: s4_def s3_def m1 has_token_def store_token_def issued_flow_def hm_get_def hm_insert_def)
  moreover have "length (ids_granted s4) = 1" by (simp add: s4_def s3_def s2_def s1_def identity_init_def)
  ultimately show ?thesis using run oauth_state_single_use [OF run] by blast
qed

text \<open>The sequential handler is the atomic steps in a row: it takes the flow, and stores what the exchange
  gave.\<close>

lemma complete_oauth_flow_steps:
  assumes "complete_oauth_flow env state code (m, w) = Some (Inr token, m', w')"
  obtains flow m1 config t where "take_flow state m = (Inr flow, m1)" "check_flow m1 flow (clock env w) = Inr config"
    "token = token_of (fl_provider flow) None t" "m' = store_token (fl_user flow) (fl_provider flow) token m1"
  using assms by (auto simp: complete_oauth_flow_def Let_def split: prod.splits sum.splits option.splits)

text \<open>A flow of someone who is not registered ends well, but its token is kept nowhere.\<close>

lemma token_of_stranger_lost: "hm_get (im_users m) u = None \<Longrightarrow> store_token u p t m = m"
  by (simp add: store_token_def)

text \<open>A token without an expiry does not count as expired.\<close>

lemma no_expiry_not_expired: "ot_expires_at token = None \<Longrightarrow> \<not> is_token_expired now token"
  by (simp add: is_token_expired_def)

text \<open>The ten minutes end one nanosecond before 601 seconds.\<close>

lemma flow_of_601_seconds:
  "elapsed_seconds (601 * 10 ^ 9 - 1) 0 \<le> FLOW_EXPIRY_SECONDS" "\<not> elapsed_seconds (601 * 10 ^ 9) 0 \<le> FLOW_EXPIRY_SECONDS"
  by (simp_all add: elapsed_seconds_def FLOW_EXPIRY_SECONDS_def)

end
