(* ===== verification/Prompt_Patches.thy ===== *)
theory Prompt_Patches
  imports Learning Rust_Float
begin

text \<open>
  Prompt patches (\<open>skyclaw-agent/src/prompt_patches.rs\<close>): instructions the agent proposes to itself
  after a task. A patch is proposed, approved by the user (or by itself, when its kind is harmless
  and its confidence high), injected into the system prompt, measured by the outcomes of the tasks
  it was active in, and expired when it does not help. The identifiers of \<open>Uuid::new_v4\<close> and the
  times of \<open>Utc::now\<close> are inputs. The fields of a manager are read through its own methods only,
  so that its limit and its threshold are those of \<open>new\<close>, or any others a state starts with.
\<close>

section \<open>Patches\<close>

datatype patch_type = ToolUsageHint | ErrorAvoidance | WorkflowPattern | DomainKnowledge | StylePreference

fun patch_type_str :: "patch_type \<Rightarrow> string" where
  "patch_type_str ToolUsageHint = ''Tool Usage Hint''"
| "patch_type_str ErrorAvoidance = ''Error Avoidance''"
| "patch_type_str WorkflowPattern = ''Workflow Pattern''"
| "patch_type_str DomainKnowledge = ''Domain Knowledge''"
| "patch_type_str StylePreference = ''Style Preference''"

datatype patch_status = PatchProposed | PatchApproved | PatchRejected | PatchExpired

fun patch_status_str :: "patch_status \<Rightarrow> string" where
  "patch_status_str PatchProposed = ''Proposed''"
| "patch_status_str PatchApproved = ''Approved''"
| "patch_status_str PatchRejected = ''Rejected''"
| "patch_status_str PatchExpired = ''Expired''"

record prompt_patch =
  pp_id :: string
  pp_type :: patch_type
  pp_content :: string
  pp_source_task :: string
  pp_confidence :: f32
  pp_status :: patch_status
  pp_created_at :: int
  pp_applied_count :: nat
  pp_success_rate :: f32

definition clamp01 :: "f32 \<Rightarrow> f32" where
  "clamp01 x = (if x < 0 then 0 else if 1 < x then 1 else x)"

definition prompt_patch_new :: "string \<Rightarrow> int \<Rightarrow> patch_type \<Rightarrow> string \<Rightarrow> string \<Rightarrow> f32 \<Rightarrow> prompt_patch" where
  "prompt_patch_new uuid now ty content source conf =
     \<lparr>pp_id = uuid, pp_type = ty, pp_content = content, pp_source_task = source,
      pp_confidence = clamp01 conf, pp_status = PatchProposed, pp_created_at = now,
      pp_applied_count = 0, pp_success_rate = 0\<rparr>"

definition is_low_risk :: "prompt_patch \<Rightarrow> bool" where
  "is_low_risk p \<longleftrightarrow> pp_type p = ToolUsageHint \<or> pp_type p = StylePreference"

section \<open>The manager\<close>

record patch_manager =
  patches :: "prompt_patch list"
  max_patches :: nat
  auto_approve_threshold :: f32

definition patch_manager_new :: patch_manager where
  "patch_manager_new = \<lparr>patches = [], max_patches = 20, auto_approve_threshold = to_f32 (8 / 10)\<rparr>"

definition evictable :: "prompt_patch \<Rightarrow> bool" where
  "evictable p \<longleftrightarrow> pp_status p = PatchExpired \<or> pp_status p = PatchRejected"

text \<open>\<open>iter.min_by(..)\<close>: the first of the least.\<close>

fun first_least :: "('a \<Rightarrow> f32) \<Rightarrow> 'a list \<Rightarrow> 'a option" where
  "first_least f [] = None"
| "first_least f (x # xs) = (case first_least f xs of
      None \<Rightarrow> Some x
    | Some y \<Rightarrow> Some (if f x \<le> f y then x else y))"

definition evict_one :: "patch_manager \<Rightarrow> bool \<times> patch_manager" where
  "evict_one m =
     (case first_least (\<lambda>(i, p). pp_confidence p)
             (filter (\<lambda>(i, p). evictable p) (enumerate 0 (patches m))) of
        Some (idx, _) \<Rightarrow> (True, m\<lparr>patches := take idx (patches m) @ drop (Suc idx) (patches m)\<rparr>)
      | None \<Rightarrow> (False, m))"

definition propose_patch :: "prompt_patch \<Rightarrow> patch_manager \<Rightarrow> (skyclaw_error + string) \<times> patch_manager" where
  "propose_patch p m =
     (if pp_content p = [] then (Inl (Config ''Prompt patch content cannot be empty''), m)
      else let (room, m) = (if max_patches m \<le> length (patches m) then evict_one m else (True, m))
           in if \<not> room
              then (Inl (Config (''Prompt patch limit ('' @ nat_str (max_patches m)
                       @ '') reached and no evictable patches found'')), m)
              else let p = (if is_low_risk p \<and> auto_approve_threshold m \<le> pp_confidence p
                            then p\<lparr>pp_status := PatchApproved\<rparr> else p)
                   in (Inr (pp_id p), m\<lparr>patches := patches m @ [p]\<rparr>))"

definition approve_patch :: "string \<Rightarrow> patch_manager \<Rightarrow> (skyclaw_error + unit) \<times> patch_manager" where
  "approve_patch i m = (case List.find (\<lambda>p. pp_id p = i) (patches m) of
      None \<Rightarrow> (Inl (NotFound (''Prompt patch not found: '' @ i)), m)
    | Some p \<Rightarrow>
        if pp_status p \<noteq> PatchProposed
        then (Inl (Config (''Cannot approve patch with status '' @ quoted (patch_status_str (pp_status p))
                 @ '' (must be Proposed)'')), m)
        else (Inr (), m\<lparr>patches := update_first (\<lambda>p. pp_id p = i) (\<lambda>p. p\<lparr>pp_status := PatchApproved\<rparr>) (patches m)\<rparr>))"

definition reject_patch :: "string \<Rightarrow> patch_manager \<Rightarrow> (skyclaw_error + unit) \<times> patch_manager" where
  "reject_patch i m = (case List.find (\<lambda>p. pp_id p = i) (patches m) of
      None \<Rightarrow> (Inl (NotFound (''Prompt patch not found: '' @ i)), m)
    | Some p \<Rightarrow>
        if pp_status p \<noteq> PatchProposed
        then (Inl (Config (''Cannot reject patch with status '' @ quoted (patch_status_str (pp_status p))
                 @ '' (must be Proposed)'')), m)
        else (Inr (), m\<lparr>patches := update_first (\<lambda>p. pp_id p = i) (\<lambda>p. p\<lparr>pp_status := PatchRejected\<rparr>) (patches m)\<rparr>))"

definition list_patches :: "patch_status option \<Rightarrow> patch_manager \<Rightarrow> prompt_patch list" where
  "list_patches status_filter m =
     filter (\<lambda>p. case status_filter of None \<Rightarrow> True | Some s \<Rightarrow> pp_status p = s) (patches m)"

text \<open>\<open>sort_by\<close> is a stable sort, here by falling confidence.\<close>

definition get_active_patches :: "patch_manager \<Rightarrow> prompt_patch list" where
  "get_active_patches m =
     sort_key (\<lambda>p. - pp_confidence p) (filter (\<lambda>p. pp_status p = PatchApproved) (patches m))"

definition format_patches_for_prompt :: "patch_manager \<Rightarrow> string" where
  "format_patches_for_prompt m =
     (let active = get_active_patches m
      in if active = [] then []
         else join nl (''Learned prompt patches (apply where relevant):'' #
                map (\<lambda>(i, p). ''  '' @ nat_str (i + 1) @ ''. ['' @ patch_type_str (pp_type p) @ ''] '' @ pp_content p)
                  (enumerate 0 active)))"

text \<open>The running average of \<open>record_task_outcome\<close>, in single precision.\<close>

definition running_rate :: "f32 \<Rightarrow> nat \<Rightarrow> bool \<Rightarrow> f32" where
  "running_rate rate applied success =
     (let old_count = to_f32 (of_nat applied);
          new_count = to_f32 (old_count + 1);
          success_value = (if success then 1 else 0)
      in to_f32 (to_f32 (to_f32 (rate * old_count) + success_value) / new_count))"

definition record_task_outcome :: "string list \<Rightarrow> bool \<Rightarrow> patch_manager \<Rightarrow> patch_manager" where
  "record_task_outcome patch_ids success m =
     m\<lparr>patches := map (\<lambda>p. if pp_id p \<in> set patch_ids \<and> pp_status p = PatchApproved
                   then p\<lparr>pp_success_rate := running_rate (pp_success_rate p) (pp_applied_count p) success,
                          pp_applied_count := pp_applied_count p + 1\<rparr>
                   else p) (patches m)\<rparr>"

definition expire_underperforming :: "nat \<Rightarrow> f32 \<Rightarrow> patch_manager \<Rightarrow> patch_manager" where
  "expire_underperforming min_applications min_success_rate m =
     m\<lparr>patches := map (\<lambda>p. if pp_status p = PatchApproved \<and> min_applications \<le> pp_applied_count p
                       \<and> pp_success_rate p < min_success_rate
                   then p\<lparr>pp_status := PatchExpired\<rparr> else p) (patches m)\<rparr>"

section \<open>Proposals read off a conversation\<close>

text \<open>\<^const>\<open>None\<close> is the panic of the slice.\<close>

definition truncate_str :: "string \<Rightarrow> nat \<Rightarrow> string option" where
  "truncate_str s max_len =
     (if length s \<le> max_len then Some s else map_option (\<lambda>t. t @ ''...'') (slice_to s max_len))"

record patch_scan =
  ps_errors :: "(string \<times> string) list"
  ps_sequence :: "string list"
  ps_rotation :: bool
  ps_tried :: "string list"
  ps_success :: bool

fun patch_use :: "patch_scan \<Rightarrow> content_part \<Rightarrow> patch_scan" where
  "patch_use s (ToolUse _ name _) =
     s\<lparr>ps_sequence := ps_sequence s @ [name],
       ps_tried := (if ps_success s then ps_tried s else ps_tried s @ [name])\<rparr>"
| "patch_use s _ = s"

fun patch_result :: "patch_scan \<Rightarrow> content_part \<Rightarrow> patch_scan option" where
  "patch_result s (ToolResult _ content is_error _) =
     map_option (\<lambda>s. if str_contains ''STRATEGY ROTATION'' content then s\<lparr>ps_rotation := True\<rparr> else s)
       (if is_error
        then map_option (\<lambda>e. s\<lparr>ps_errors := ps_errors s @
                 [(if ps_sequence s = [] then [] else last (ps_sequence s), e)]\<rparr>)
               (truncate_str content 200)
        else Some (s\<lparr>ps_success := True\<rparr>))"
| "patch_result s _ = Some s"

fun marker_text :: "message_content \<Rightarrow> string" where
  "marker_text (Text t) = t"
| "marker_text (Parts (PText t # _)) = t"
| "marker_text _ = []"

fun parts_of :: "message_content \<Rightarrow> content_part list" where
  "parts_of (Text t) = []"
| "parts_of (Parts ps) = ps"

definition patch_message :: "patch_scan \<Rightarrow> chat_message \<Rightarrow> patch_scan option" where
  "patch_message s m = (case msg_role m of
      Assistant \<Rightarrow> Some (let s = foldl patch_use s (parts_of (msg_content m))
                         in if str_contains ''STRATEGY ROTATION'' (marker_text (msg_content m))
                            then s\<lparr>ps_rotation := True\<rparr> else s)
    | RoleTool \<Rightarrow> fold_panic patch_result s (parts_of (msg_content m))
    | _ \<Rightarrow> Some s)"

definition source_task :: "chat_message list \<Rightarrow> string option" where
  "source_task h =
     (case Option.bind (List.find (\<lambda>m. msg_role m = User) h) (\<lambda>m. first_text (msg_content m)) of
        None \<Rightarrow> Some ''unknown task''
      | Some t \<Rightarrow> truncate_str t 120)"

text \<open>\<open>fold\<close> that keeps an element unless it equals the one before.\<close>

definition dedup_consecutive :: "string list \<Rightarrow> string list" where
  "dedup_consecutive = foldl (\<lambda>acc t. if acc = [] \<or> last acc \<noteq> t then acc @ [t] else acc) []"

definition rotation_patch :: "string \<Rightarrow> int \<Rightarrow> patch_scan \<Rightarrow> string \<Rightarrow> prompt_patch" where
  "rotation_patch uuid now s source =
     (let errors_summary = join ''; '' (map (\<lambda>(tool, err). tool @ '': '' @ err) (take 3 (ps_errors s)))
      in prompt_patch_new uuid now ErrorAvoidance
           (''When encountering repeated failures, switch strategy earlier. Previous errors: ''
              @ (if errors_summary = [] then ''unspecified'' else errors_summary))
           source (to_f32 (7 / 10)))"

definition workflow_patch :: "string \<Rightarrow> int \<Rightarrow> patch_scan \<Rightarrow> string \<Rightarrow> prompt_patch option" where
  "workflow_patch uuid now s source =
     (let deduped = dedup_consecutive (ps_sequence s)
      in if 2 \<le> length deduped
         then Some (prompt_patch_new uuid now WorkflowPattern
                (''For similar tasks, consider this tool sequence: '' @ join ('' '' @ arrow @ '' '') deduped) source
                (to_f32 (1 / 2 + to_f32 (to_f32 (1 / 10) * of_nat (min (length deduped) 5)))))
         else None)"

definition hint_patch :: "string \<Rightarrow> int \<Rightarrow> patch_scan \<Rightarrow> string \<Rightarrow> prompt_patch option" where
  "hint_patch uuid now s source =
     (let unique_tried = foldl (\<lambda>seen t. add_new t seen) [] (ps_tried s);
          final_tool = (case List.find (\<lambda>t. t \<notin> fst ` set (ps_errors s)) (rev (ps_sequence s)) of
                          Some t \<Rightarrow> t
                        | None \<Rightarrow> if ps_sequence s = [] then [] else last (ps_sequence s))
      in if 2 \<le> length unique_tried
         then Some (prompt_patch_new uuid now ToolUsageHint
                (''Prefer '' @ quoted final_tool @ '' for this type of task (tried ''
                   @ nat_str (length unique_tried) @ '' tools before finding it: ''
                   @ join '', '' unique_tried @ '')'') source
                (to_f32 (to_f32 (6 / 10) + to_f32 (to_f32 (5 / 100) * of_nat (min (length unique_tried) 4)))))
         else None)"

text \<open>The \<open>n\<close>-th patch of a conversation has the identifier \<open>uuid n\<close> and the time \<open>clock n\<close>.\<close>

definition extract_prompt_patches ::
    "(nat \<Rightarrow> string) \<Rightarrow> (nat \<Rightarrow> int) \<Rightarrow> chat_message list \<Rightarrow> string list \<Rightarrow> prompt_patch list option" where
  "extract_prompt_patches uuid clock h tools_used =
     (if tools_used = [] then Some []
      else Option.bind (fold_panic patch_message
               \<lparr>ps_errors = [], ps_sequence = [], ps_rotation = False, ps_tried = [], ps_success = False\<rparr> h) (\<lambda>s.
           Option.bind (source_task h) (\<lambda>source.
             let p1 = (if ps_rotation s then [rotation_patch (uuid 0) (clock 0) s source] else []);
                 n1 = length p1;
                 p2 = (if 2 \<le> length (ps_sequence s) \<and> ps_success s
                       then (case workflow_patch (uuid n1) (clock n1) s source of None \<Rightarrow> [] | Some p \<Rightarrow> [p]) else []);
                 n2 = n1 + length p2;
                 p3 = (if 2 \<le> length (ps_tried s) \<and> ps_success s
                       then (case hint_patch (uuid n2) (clock n2) s source of None \<Rightarrow> [] | Some p \<Rightarrow> [p]) else [])
             in Some (p1 @ p2 @ p3))))"

section \<open>Display\<close>

text \<open>\<open>{:.0}\<close> of a number that is not negative.\<close>

definition percent :: "f32 \<Rightarrow> string" where
  "percent x = nat_str (nat (round_even (to_f32 (x * 100)))) @ ''%''"

definition patch_lines :: "prompt_patch \<Rightarrow> string list option" where
  "patch_lines p =
     Option.bind (if 8 < length (pp_id p) then slice_to (pp_id p) 8 else Some (pp_id p)) (\<lambda>short_id.
     Option.bind (truncate_str (pp_content p) 80) (\<lambda>content.
     Option.bind (truncate_str (pp_source_task p) 60) (\<lambda>source.
       Some [''['' @ short_id @ ''] '' @ patch_type_str (pp_type p) @ '' ('' @ patch_status_str (pp_status p) @ '')'',
             ''  Confidence: '' @ percent (pp_confidence p),
             ''  Applied: '' @ nat_str (pp_applied_count p) @ '' times | Success rate: '' @ percent (pp_success_rate p),
             ''  Content: '' @ content,
             ''  Source: '' @ source,
             []])))"

definition format_patches_command_output :: "prompt_patch list \<Rightarrow> string option" where
  "format_patches_command_output ps =
     (if ps = [] then Some ''No prompt patches found.''
      else map_option (\<lambda>rows. join nl (
             [''Prompt Patches ('' @ nat_str (length ps) @ '' total):'',
              concat (replicate 60 [CHR 0xE2, CHR 0x94, CHR 0x80])] @ concat rows))
        (those (map patch_lines ps)))"

section \<open>Runs\<close>

datatype patch_op =
    Propose string int patch_type string string f32
  | Approve string
  | Reject string
  | Outcome "string list" bool
  | Expire nat f32

fun patch_step :: "patch_op \<Rightarrow> patch_manager \<Rightarrow> patch_manager" where
  "patch_step (Propose uuid now ty content source conf) m =
     snd (propose_patch (prompt_patch_new uuid now ty content source conf) m)"
| "patch_step (Approve i) m = snd (approve_patch i m)"
| "patch_step (Reject i) m = snd (reject_patch i m)"
| "patch_step (Outcome ids success) m = record_task_outcome ids success m"
| "patch_step (Expire n rate) m = expire_underperforming n rate m"

definition patch_run :: "patch_op list \<Rightarrow> patch_manager \<Rightarrow> patch_manager" where
  "patch_run = fold patch_step"

lemma patch_run_simps [simp]:
  "patch_run [] m = m"
  "patch_run (op # ops) m = patch_run ops (patch_step op m)"
  "patch_run (ops @ [op]) m = patch_step op (patch_run ops m)"
  by (simp_all add: patch_run_def)

text \<open>What a step can do to the patches: put one at the end, or change the ones that are there.\<close>

lemma evict_one_fields: "evict_one m = (b, m') \<Longrightarrow>
    max_patches m' = max_patches m \<and> auto_approve_threshold m' = auto_approve_threshold m
      \<and> set (patches m') \<subseteq> set (patches m)"
  by (auto simp: evict_one_def split: option.splits prod.splits dest: in_set_takeD in_set_dropD)

lemma first_least_Some: "first_least f xs = Some x \<Longrightarrow>
    \<exists>ys zs. xs = ys @ x # zs \<and> (\<forall>y \<in> set ys. f x < f y) \<and> (\<forall>z \<in> set zs. f x \<le> f z)"
proof (induction xs arbitrary: x)
  case (Cons a xs)
  show ?case
  proof (cases "first_least f xs")
    case None
    then have "xs = []" by (cases xs) (auto split: option.splits)
    then show ?thesis using Cons.prems by (intro exI [of _ "[]"]) auto
  next
    case (Some y)
    obtain ys zs where xs: "xs = ys @ y # zs" "\<forall>v \<in> set ys. f y < f v" "\<forall>z \<in> set zs. f y \<le> f z"
      using Cons.IH [OF Some] by blast
    show ?thesis
    proof (cases "f a \<le> f y")
      case True
      then have "x = a" using Cons.prems Some by simp
      with True xs show ?thesis by (intro exI [of _ "[]"] exI [of _ xs]) force
    next
      case False
      then have "x = y" using Cons.prems Some by simp
      with False xs show ?thesis by (intro exI [of _ "a # ys"] exI [of _ zs]) auto
    qed
  qed
qed simp

lemma first_least_None [simp]: "first_least f xs = None \<longleftrightarrow> xs = []"
  by (cases xs) (auto split: option.splits)

text \<open>The part of a list before and after an index of its enumeration.\<close>

lemma filter_eq_around: "filter P xs = ys @ v # zs \<Longrightarrow>
    \<exists>us ws. xs = us @ v # ws \<and> P v \<and> filter P us = ys \<and> filter P ws = zs"
proof (induction xs arbitrary: ys)
  case (Cons a xs)
  show ?case
  proof (cases "P a \<and> ys = []")
    case True
    then show ?thesis using Cons.prems by (intro exI [of _ "[]"] exI [of _ xs]) auto
  next
    case False
    then obtain ys' where "ys = (if P a then a # ys' else ys')" "filter P xs = ys' @ v # zs"
      using Cons.prems by (cases ys) (auto split: if_splits)
    then obtain us ws where "xs = us @ v # ws" "P v" "filter P us = ys'" "filter P ws = zs"
      using Cons.IH by blast
    then show ?thesis using \<open>ys = _\<close> by (intro exI [of _ "a # us"] exI [of _ ws]) auto
  qed
qed simp

lemma filter_enumerate_split:
  assumes "filter (\<lambda>(i, p). P p) (enumerate 0 ps) = ys @ (idx, v) # zs"
  shows "ps = take idx ps @ v # drop (Suc idx) ps \<and> P v
    \<and> filter P (take idx ps) = map snd ys \<and> filter P (drop (Suc idx) ps) = map snd zs"
proof -
  let ?Q = "\<lambda>(i, p). P p"
  obtain us ws where e: "enumerate 0 ps = us @ (idx, v) # ws" "P v"
      "filter ?Q us = ys" "filter ?Q ws = zs"
    using filter_eq_around [OF assms] by auto
  have "map fst (enumerate 0 ps) = [0..<length ps]" by (simp add: enumerate_eq_zip)
  then have "[0..<length ps] = map fst us @ idx # map fst ws" by (simp add: e)
  moreover have "length us < length ps"
    by (metis e(1) length_enumerate length_append length_Cons less_add_Suc1 add_Suc_right)
  ultimately have "idx = length us" by (metis length_map nth_append_length nth_upt plus_nat.add_0)
  moreover have "ps = map snd us @ v # map snd ws"
    by (metis e(1) list.simps(9) map_append map_snd_enumerate snd_conv)
  ultimately show ?thesis
    using e by (auto simp: filter_map comp_def case_prod_unfold)
qed

lemma evict_one_False: "evict_one m = (False, m') \<Longrightarrow> m' = m \<and> \<not> list_ex evictable (patches m)"
proof -
  assume *: "evict_one m = (False, m')"
  then have "\<forall>e \<in> set (enumerate 0 (patches m)). \<not> evictable (snd e)"
    by (auto simp: evict_one_def filter_empty_conv split: option.splits)
  then have "\<not> list_ex evictable (map snd (enumerate 0 (patches m)))"
    by (auto simp: list_ex_iff simp del: map_snd_enumerate)
  with * show ?thesis by (auto simp: evict_one_def split: option.splits)
qed

lemma evict_one_True:
  assumes "evict_one m = (True, m')"
  shows "\<exists>xs v ys. patches m = xs @ v # ys \<and> m' = m\<lparr>patches := xs @ ys\<rparr> \<and> evictable v
    \<and> (\<forall>p \<in> set xs. evictable p \<longrightarrow> pp_confidence v < pp_confidence p)
    \<and> (\<forall>p \<in> set ys. evictable p \<longrightarrow> pp_confidence v \<le> pp_confidence p)"
proof -
  define es where "es = filter (\<lambda>(i, p). evictable p) (enumerate 0 (patches m))"
  obtain idx v where least: "first_least (\<lambda>(i, p). pp_confidence p) es = Some (idx, v)"
    and m': "m' = m\<lparr>patches := take idx (patches m) @ drop (Suc idx) (patches m)\<rparr>"
    using assms by (auto simp: evict_one_def es_def split: option.splits)
  obtain ys zs where split: "es = ys @ (idx, v) # zs"
      "\<forall>y \<in> set ys. pp_confidence v < pp_confidence (snd y)" "\<forall>z \<in> set zs. pp_confidence v \<le> pp_confidence (snd z)"
    using first_least_Some [OF least] by (auto simp: case_prod_unfold)
  note parts = filter_enumerate_split [OF split(1) [unfolded es_def]]
  have "{p \<in> set (take idx (patches m)). evictable p} = snd ` set ys"
    "{p \<in> set (drop (Suc idx) (patches m)). evictable p} = snd ` set zs"
    using parts by (simp_all flip: set_filter)
  then have "\<forall>p \<in> set (take idx (patches m)). evictable p \<longrightarrow> pp_confidence v < pp_confidence p"
    "\<forall>p \<in> set (drop (Suc idx) (patches m)). evictable p \<longrightarrow> pp_confidence v \<le> pp_confidence p"
    using split(2,3) by (blast dest: equalityD1 subsetD)+
  then show ?thesis using parts m' by blast
qed

text \<open>
  A full manager makes room by dropping one patch, the first of the least confident among those
  that are rejected or expired; a patch that waits for the user or is in use is never dropped, and
  without one to drop the proposal is refused and nothing changes.
\<close>

theorem full_manager_evicts:
  assumes "pp_content p \<noteq> []" "max_patches m \<le> length (patches m)"
  shows "(case propose_patch p m of
      (Inl e, m') \<Rightarrow> m' = m \<and> \<not> list_ex evictable (patches m)
    | (Inr i, m') \<Rightarrow> i = pp_id p \<and> (\<exists>xs v ys st. patches m = xs @ v # ys \<and> evictable v
          \<and> (\<forall>q \<in> set xs. evictable q \<longrightarrow> pp_confidence v < pp_confidence q)
          \<and> (\<forall>q \<in> set ys. evictable q \<longrightarrow> pp_confidence v \<le> pp_confidence q)
          \<and> m' = m\<lparr>patches := xs @ ys @ [p\<lparr>pp_status := st\<rparr>]\<rparr>))"
proof (cases "evict_one m")
  case (Pair b m')
  show ?thesis
  proof (cases b)
    case True
    obtain xs v ys where e: "patches m = xs @ v # ys" "m' = m\<lparr>patches := xs @ ys\<rparr>" "evictable v"
        "\<forall>q \<in> set xs. evictable q \<longrightarrow> pp_confidence v < pp_confidence q"
        "\<forall>q \<in> set ys. evictable q \<longrightarrow> pp_confidence v \<le> pp_confidence q"
      using evict_one_True [of m m'] Pair True by auto
    obtain st where st: "propose_patch p m = (Inr (pp_id p), m\<lparr>patches := xs @ ys @ [p\<lparr>pp_status := st\<rparr>]\<rparr>)"
      using assms Pair True e(2) that [of PatchApproved] that [of "pp_status p"]
      by (cases "is_low_risk p \<and> auto_approve_threshold m \<le> pp_confidence p") (auto simp: propose_patch_def)
    have "evictable v \<and> (\<forall>q \<in> set xs. evictable q \<longrightarrow> pp_confidence v < pp_confidence q)
        \<and> (\<forall>q \<in> set ys. evictable q \<longrightarrow> pp_confidence v \<le> pp_confidence q)"
      using e(3-5) by (intro conjI)
    then show ?thesis unfolding st prod.case sum.case using e(1)
      by (intro conjI refl exI [of _ xs] exI [of _ v] exI [of _ ys] exI [of _ st]) simp_all
  next
    case False
    then show ?thesis using assms Pair evict_one_False [of m m'] by (simp add: propose_patch_def)
  qed
qed

section \<open>The invariant\<close>

text \<open>
  The limit is kept, the confidences and the rates are fractions, and a patch that was never
  applied has no rate.
\<close>

definition patch_ok :: "prompt_patch \<Rightarrow> bool" where
  "patch_ok p \<longleftrightarrow> pp_content p \<noteq> [] \<and> 0 \<le> pp_confidence p \<and> pp_confidence p \<le> 1
     \<and> 0 \<le> pp_success_rate p \<and> pp_success_rate p \<le> 1"

definition patches_ok :: "patch_manager \<Rightarrow> bool" where
  "patches_ok m \<longleftrightarrow> length (patches m) \<le> max_patches m \<and> list_all patch_ok (patches m)"

lemma running_rate_bounds:
  assumes "0 \<le> rate" "rate \<le> 1"
  shows "0 \<le> running_rate rate n success \<and> running_rate rate n success \<le> 1"
proof -
  define c where "c = to_f32 (of_nat n :: rat)"
  define s :: rat where "s = (if success then 1 else 0)"
  have c: "0 \<le> c" "to_f32 c = c" by (simp_all add: c_def round_bits_nonneg round_bits_idem)
  have "to_f32 (rate * c) \<le> to_f32 c"
    using assms c mult_right_mono [of rate 1 c] by (intro round_bits_mono) auto
  then have sum: "to_f32 (rate * c) + s \<le> c + 1" using c by (auto simp: s_def)
  have nonneg: "0 \<le> to_f32 (rate * c) + s"
    using assms c by (simp add: s_def round_bits_nonneg)
  then have "to_f32 (to_f32 (rate * c) + s) \<le> to_f32 (c + 1)" by (intro round_bits_mono sum) auto
  moreover have "to_f32 1 \<le> to_f32 (c + 1)" using c by (intro round_bits_mono) auto
  then have "0 < to_f32 (c + 1)" using round_bits_exact [of 1 1 0 24] by simp
  ultimately have "to_f32 (to_f32 (rate * c) + s) / to_f32 (c + 1) \<le> 1" by simp
  moreover have "0 \<le> to_f32 (to_f32 (rate * c) + s) / to_f32 (c + 1)"
    using nonneg \<open>0 < to_f32 (c + 1)\<close> by (simp add: round_bits_nonneg)
  ultimately show ?thesis
    by (simp add: running_rate_def Let_def c_def s_def round_bits_nonneg round_bits_le_1)
qed

text \<open>A patch that always helped has the rate one, exactly, however often it was applied.\<close>

lemma running_rate_all_success: "running_rate 1 n True = 1"
proof -
  define c where "c = to_f32 (of_nat n :: rat)"
  have c: "0 \<le> c" "to_f32 c = c" by (simp_all add: c_def round_bits_nonneg round_bits_idem)
  have "to_f32 1 \<le> to_f32 (c + 1)" using c by (intro round_bits_mono) auto
  then have "0 < to_f32 (c + 1)" using round_bits_exact [of 1 1 0 24] by simp
  then have "to_f32 (c + 1) / to_f32 (c + 1) = 1" by simp
  then show ?thesis
    using c round_bits_exact [of 1 1 0 24] by (simp add: running_rate_def Let_def c_def [symmetric])
qed

lemma running_rate_first: "running_rate rate 0 success = (if success then 1 else 0)"
  using round_bits_exact [of 1 1 0 24] by (simp add: running_rate_def)

lemma patch_ok_new: "content \<noteq> [] \<Longrightarrow> patch_ok (prompt_patch_new uuid now ty content source conf)"
  by (simp add: patch_ok_def prompt_patch_new_def clamp01_def)

lemma patch_ok_status [simp]: "patch_ok (p\<lparr>pp_status := st\<rparr>) = patch_ok p"
  by (simp add: patch_ok_def)

lemma patches_ok_evicted:
  assumes "patches_ok m" "evict_one m = (True, m')"
  shows "length (patches m') < max_patches m' \<and> list_all patch_ok (patches m')"
  using assms(1) evict_one_True [OF assms(2)] by (auto simp: patches_ok_def)

lemma patches_ok_propose:
  assumes "patches_ok m" "patch_ok p"
  shows "patches_ok (snd (propose_patch p m))"
proof (cases "max_patches m \<le> length (patches m)")
  case True
  obtain b m' where "evict_one m = (b, m')" by fastforce
  then show ?thesis using True assms patches_ok_evicted [OF assms(1), of m'] evict_one_False [of m m']
    by (cases b) (auto simp: propose_patch_def patches_ok_def)
next
  case False
  then show ?thesis using assms by (auto simp: propose_patch_def patches_ok_def)
qed

lemma patches_ok_step: "patches_ok m \<Longrightarrow> patches_ok (patch_step op m)"
proof (cases op)
  case (Propose uuid now ty content source conf)
  assume "patches_ok m"
  then show ?thesis
    using patches_ok_propose patch_ok_new Propose
    by (cases "content = []") (simp add: propose_patch_def prompt_patch_new_def, simp)
qed (auto simp: patches_ok_def approve_patch_def reject_patch_def record_task_outcome_def
      expire_underperforming_def list.pred_map comp_def patch_ok_def running_rate_bounds list_all_iff
    split: option.splits dest!: subsetD [OF set_update_first])

text \<open>C34: 
  From an empty manager on, whatever is proposed, approved, rejected, measured or expired, the
  manager holds at most its limit, and every confidence and every success rate stays between zero
  and one, the roundings of single precision included.
\<close>

theorem patches_ok_run: "patches_ok (patch_run ops patch_manager_new)"
proof -
  have "patches_ok patch_manager_new" by (simp add: patches_ok_def patch_manager_new_def)
  then show ?thesis
    by (induction ops rule: rev_induct) (auto simp: patches_ok_step)
qed

section \<open>What enters the prompt\<close>

lemma set_active [simp]: "p \<in> set (get_active_patches m) \<longleftrightarrow> p \<in> set (patches m) \<and> pp_status p = PatchApproved"
  by (simp add: get_active_patches_def)

text \<open>The patches in use, the most confident first, those of equal confidence in the order they came.\<close>

lemma active_sorted: "sorted_wrt (\<lambda>p q. pp_confidence q \<le> pp_confidence p) (get_active_patches m)"
  using sorted_sort_key [of "\<lambda>p. - pp_confidence p" "filter (\<lambda>p. pp_status p = PatchApproved) (patches m)"]
  by (simp add: get_active_patches_def sorted_wrt_map)

lemma active_stable: "filter (\<lambda>p. pp_confidence p = c) (get_active_patches m)
    = filter (\<lambda>p. pp_confidence p = c) (filter (\<lambda>p. pp_status p = PatchApproved) (patches m))"
  using sort_key_stable [of "\<lambda>p. - pp_confidence p" "- c"] by (simp add: get_active_patches_def del: filter_filter)

text \<open>Why a patch is in use: the user approved it, or it is harmless and confident enough.\<close>

definition consented :: "patch_op list \<Rightarrow> f32 \<Rightarrow> prompt_patch \<Rightarrow> bool" where
  "consented ops threshold p \<longleftrightarrow> pp_status p = PatchApproved \<longrightarrow>
     Approve (pp_id p) \<in> set ops \<or> (is_low_risk p \<and> threshold \<le> pp_confidence p)"

lemma consented_more [simp]: "consented ops t p \<Longrightarrow> consented (ops @ [op]) t p"
  by (auto simp: consented_def)

lemma consented_other: "st \<noteq> PatchApproved \<Longrightarrow> consented ops t (p\<lparr>pp_status := st\<rparr>)"
  by (simp add: consented_def)

lemma consented_approve: "pp_id p = i \<Longrightarrow> consented (ops @ [Approve i]) t (p\<lparr>pp_status := PatchApproved\<rparr>)"
  by (simp add: consented_def)

lemma consented_same: "consented ops t p \<Longrightarrow> pp_id q = pp_id p \<Longrightarrow> pp_status q = pp_status p \<Longrightarrow>
    pp_type q = pp_type p \<Longrightarrow> pp_confidence q = pp_confidence p \<Longrightarrow> consented ops t q"
  by (simp add: consented_def is_low_risk_def)

lemma propose_adds:
  "p \<in> set (patches (snd (propose_patch q m))) \<Longrightarrow> p \<in> set (patches m)
     \<or> p = (if is_low_risk q \<and> auto_approve_threshold m \<le> pp_confidence q then q\<lparr>pp_status := PatchApproved\<rparr> else q)"
  by (cases "evict_one m") (auto simp: propose_patch_def Let_def split: if_splits dest: evict_one_fields)

lemma step_threshold: "auto_approve_threshold (patch_step op m) = auto_approve_threshold m"
  by (cases op) (auto simp: propose_patch_def approve_patch_def reject_patch_def record_task_outcome_def
      expire_underperforming_def Let_def split: option.splits prod.splits dest: evict_one_fields)

lemma consented_step:
  assumes "\<forall>p \<in> set (patches m). consented ops (auto_approve_threshold m) p"
    and "p \<in> set (patches (patch_step op m))"
  shows "consented (ops @ [op]) (auto_approve_threshold m) p"
proof (cases op)
  case (Propose uuid now ty content source conf)
  then show ?thesis using assms
    by (auto simp: consented_def prompt_patch_new_def is_low_risk_def dest!: propose_adds split: if_splits)
next
  case (Approve i)
  then show ?thesis using assms
    by (auto simp: approve_patch_def consented_approve split: option.splits if_splits dest!: subsetD [OF set_update_first])
next
  case (Reject i)
  then show ?thesis using assms
    by (auto simp: reject_patch_def consented_other split: option.splits if_splits dest!: subsetD [OF set_update_first])
next
  case (Outcome ids success)
  then show ?thesis using assms
    by (auto simp: record_task_outcome_def elim!: consented_same [OF consented_more])
next
  case (Expire n rate)
  then show ?thesis using assms
    by (auto simp: expire_underperforming_def consented_other)
qed

text \<open>C33: An instruction that can change how the agent works (to avoid an error, to follow a workflow,
  to take something as known) is in the system prompt only if the user approved it; a hint on a tool
  or on style may also be there because its confidence is at least 0.8 and nobody was asked.
\<close>

theorem prompt_patches_consented:
  assumes "p \<in> set (get_active_patches (patch_run ops patch_manager_new))"
  shows "Approve (pp_id p) \<in> set ops \<or>
    ((pp_type p = ToolUsageHint \<or> pp_type p = StylePreference) \<and> to_f32 (8 / 10) \<le> pp_confidence p)"
proof -
  have "auto_approve_threshold (patch_run ops patch_manager_new) = to_f32 (8 / 10) \<and>
      (\<forall>p \<in> set (patches (patch_run ops patch_manager_new)). consented ops (to_f32 (8 / 10)) p)"
  proof (induction ops rule: rev_induct)
    case (snoc op ops)
    then show ?case using consented_step [of "patch_run ops patch_manager_new" ops _ op] by (simp add: step_threshold)
  qed (simp add: patch_manager_new_def)
  then show ?thesis using assms by (auto simp: consented_def is_low_risk_def)
qed

text \<open>A patch that is rejected or expired stays so.\<close>

lemma retired_step:
  assumes "\<forall>p \<in> set (patches m). pp_id p = i \<longrightarrow> evictable p"
    and "\<forall>now ty content source conf. op \<noteq> Propose i now ty content source conf"
  shows "\<forall>p \<in> set (patches (patch_step op m)). pp_id p = i \<longrightarrow> evictable p"
proof (cases op)
  case (Propose uuid now ty content source conf)
  then show ?thesis using assms by (auto simp: prompt_patch_new_def dest!: propose_adds split: if_splits)
next
  case (Approve j)
  then show ?thesis using assms
    by (auto simp: approve_patch_def evictable_def split: option.splits dest!: find_Some_mem subsetD [OF set_update_first])
next
  case (Reject j)
  then show ?thesis using assms
    by (auto simp: reject_patch_def evictable_def split: option.splits dest!: subsetD [OF set_update_first])
qed (use assms in \<open>auto simp: record_task_outcome_def expire_underperforming_def evictable_def\<close>)

lemma rejected_retired:
  assumes "distinct (map pp_id (patches m))" "reject_patch i m = (Inr (), m')"
  shows "\<forall>p \<in> set (patches m'). pp_id p = i \<longrightarrow> evictable p"
proof -
  have "\<forall>p \<in> set (update_first (\<lambda>p. pp_id p = i) (\<lambda>p. p\<lparr>pp_status := PatchRejected\<rparr>) ps). pp_id p = i \<longrightarrow> evictable p"
    if "distinct (map pp_id ps)" for ps :: "prompt_patch list"
    using that by (induction ps) (auto simp: evictable_def image_iff)
  moreover have "m' = m\<lparr>patches := update_first (\<lambda>p. pp_id p = i) (\<lambda>p. p\<lparr>pp_status := PatchRejected\<rparr>) (patches m)\<rparr>"
    using assms(2) by (simp add: reject_patch_def split: option.splits if_splits)
  ultimately show ?thesis using assms(1) by simp
qed

text \<open>
  What the user rejected never reaches the system prompt: after a rejection the patch is not
  among the active ones, whatever is approved, measured, expired or proposed under other
  identifiers later.
\<close>

theorem rejected_stays_out:
  assumes "distinct (map pp_id (patches m))" "reject_patch i m = (Inr (), m')"
    and "\<forall>now ty content source conf. Propose i now ty content source conf \<notin> set ops"
  shows "i \<notin> pp_id ` set (get_active_patches (patch_run ops m'))"
proof -
  have "\<forall>p \<in> set (patches (patch_run ops m')). pp_id p = i \<longrightarrow> evictable p"
    using assms(3)
  proof (induction ops rule: rev_induct)
    case (snoc op ops)
    then have "\<forall>p \<in> set (patches (patch_run ops m')). pp_id p = i \<longrightarrow> evictable p" by simp
    moreover have "\<forall>now ty content source conf. op \<noteq> Propose i now ty content source conf"
      using snoc.prems by (metis in_set_conv_decomp)
    ultimately show ?case using retired_step by simp
  qed (simp add: rejected_retired [OF assms(1,2)])
  then show ?thesis by (auto simp: evictable_def)
qed

section \<open>Examples\<close>

definition demo_hint :: prompt_patch where
  "demo_hint = prompt_patch_new ''a'' 0 ToolUsageHint ''use the shell'' ''t'' (3 / 4)"

definition demo_avoid :: prompt_patch where
  "demo_avoid = prompt_patch_new ''b'' 0 ErrorAvoidance ''avoid x'' ''t'' (1 / 2)"

definition demo_manager :: patch_manager where
  "demo_manager = \<lparr>patches = [demo_hint\<lparr>pp_status := PatchRejected\<rparr>, demo_avoid], max_patches = 2, auto_approve_threshold = 4 / 5\<rparr>"

theorem full_manager_evicts_witness:
  "case propose_patch demo_avoid demo_manager of
      (Inl e, m') \<Rightarrow> m' = demo_manager \<and> \<not> list_ex evictable (patches demo_manager)
    | (Inr i, m') \<Rightarrow> i = pp_id demo_avoid \<and> (\<exists>xs v ys st. patches demo_manager = xs @ v # ys \<and> evictable v
          \<and> (\<forall>q \<in> set xs. evictable q \<longrightarrow> pp_confidence v < pp_confidence q)
          \<and> (\<forall>q \<in> set ys. evictable q \<longrightarrow> pp_confidence v \<le> pp_confidence q)
          \<and> m' = demo_manager\<lparr>patches := xs @ ys @ [demo_avoid\<lparr>pp_status := st\<rparr>]\<rparr>)"
  by (rule full_manager_evicts) (simp_all add: demo_manager_def demo_avoid_def prompt_patch_new_def)

theorem prompt_patches_consented_witness:
  "Approve ''a'' \<in> set [Propose ''a'' 0 ErrorAvoidance ''x'' ''t'' 1, Approve ''a''] \<or>
    ((ErrorAvoidance = ToolUsageHint \<or> ErrorAvoidance = StylePreference) \<and> to_f32 (8 / 10) \<le> (1 :: rat))"
  using prompt_patches_consented [of "(prompt_patch_new ''a'' 0 ErrorAvoidance ''x'' ''t'' 1)\<lparr>pp_status := PatchApproved\<rparr>"
      "[Propose ''a'' 0 ErrorAvoidance ''x'' ''t'' 1, Approve ''a'']"]
  by (simp add: patch_manager_new_def propose_patch_def prompt_patch_new_def is_low_risk_def approve_patch_def clamp01_def)

theorem rejected_stays_out_witness:
  "''b'' \<notin> pp_id ` set (get_active_patches (patch_run [Approve ''b''] (snd (reject_patch ''b'' demo_manager))))"
  by (rule rejected_stays_out [of demo_manager])
    (simp_all add: demo_manager_def demo_avoid_def demo_hint_def prompt_patch_new_def reject_patch_def)

text \<open>
  A failed result is counted against the last tool that was called, not the one it belongs to: of
  two calls made at once, the first of which fails, the second is blamed, and the hint recommends
  the tool that failed.
\<close>

lemma error_blamed_on_last_call:
  "Option.bind (extract_prompt_patches (\<lambda>n. ''u'') (\<lambda>n. 0)
      [\<lparr>msg_role = Assistant, msg_content = Parts [ToolUse ''1'' ''shell'' JNull, ToolUse ''2'' ''file'' JNull]\<rparr>,
       \<lparr>msg_role = RoleTool, msg_content = Parts [ToolResult ''1'' ''denied'' True None, ToolResult ''2'' ''ok'' False None]\<rparr>]
      [''shell'', ''file'']) (\<lambda>ps. Some (pp_content (ps ! 1)))
    = Some (''Prefer '' @ quoted ''shell'' @ '' for this type of task (tried 2 tools before finding it: shell, file)'')"
  by code_simp

text \<open>A long error is cut at byte 200, and the cut panics inside a character.\<close>

lemma long_error_panics:
  "extract_prompt_patches uuid clock
      [\<lparr>msg_role = RoleTool, msg_content = Parts [ToolResult i (CHR ''x'' # concat (replicate 100 [CHR 0xC3, CHR 0xA9])) True n]\<rparr>]
      [''shell''] = None"
proof -
  have "truncate_str (CHR ''x'' # concat (replicate 100 [CHR 0xC3, CHR 0xA9])) 200 = None" by code_simp
  then show ?thesis by (simp add: extract_prompt_patches_def patch_message_def)
qed

end
