(* ===== verification/Markdown_Memory.thy ===== *)
theory Markdown_Memory
  imports Memory_Store Plain_Text
begin

text \<open>
  The backend of text files (\<open>crates/skyclaw-memory/src/markdown.rs\<close>) and its keyword ranking
  (\<open>search.rs\<close>). The files are the state: the directory of daily files, in the order in which
  \<open>read_dir\<close> lists it, and the long-term file. What the file system answers is a script, as for the
  database of \<open>Sqlite_Memory\<close>; a write that fails may leave a part of the new text. The texts of
  time stamps (\<open>chrono\<close>), the Unicode tables and the logarithm are the fields of \<open>md_codec\<close>. An entry
  whose time stamp cannot be read gets the time of the operation.
\<close>

section \<open>Splitting at a text\<close>

text \<open>\<open>split(p)\<close> and \<open>split_once(p)\<close> with a string pattern that is not empty.\<close>

function split_str :: "string \<Rightarrow> string \<Rightarrow> string list" where
  "split_str p s = (case str_find p s of
      None \<Rightarrow> [s]
    | Some i \<Rightarrow> if p = [] then [s] else take i s # split_str p (drop (i + length p) s))"
  by pat_completeness auto
termination
proof (relation "measure (\<lambda>(p, s). length s)", goal_cases)
  case (2 p s i)
  then show ?case using str_find_Some [of p s i] by (cases p) auto
qed simp

declare split_str.simps [simp del]

definition split_once_str :: "string \<Rightarrow> string \<Rightarrow> (string \<times> string) option" where
  "split_once_str p s = map_option (\<lambda>i. (take i s, drop (i + length p) s)) (str_find p s)"

lemma split_once_str_at: "str_find p (a @ p @ b) = Some (length a) \<Longrightarrow> split_once_str p (a @ p @ b) = Some (a, b)"
  by (simp add: split_once_str_def)

text \<open>\<open>split(|c| !c.is_alphanumeric())\<close>: a character is a byte with the continuation bytes after it.\<close>

function split_alnum :: "(string \<Rightarrow> bool) \<Rightarrow> string \<Rightarrow> string \<Rightarrow> string list" where
  "split_alnum alnum acc [] = [acc]"
| "split_alnum alnum acc (c # cs) =
     (let ch = c # takeWhile is_cont cs; rest = dropWhile is_cont cs
      in if alnum ch then split_alnum alnum (acc @ ch) rest else acc # split_alnum alnum [] rest)"
  by pat_completeness auto
termination
  by (relation "measure (\<lambda>(_, _, s). length s)") (auto simp: length_dropWhile_le less_Suc_eq_le)

section \<open>Files\<close>

record md_codec =
  md_ts_text :: "int \<Rightarrow> string"
  md_ts_parse :: "string \<Rightarrow> int option"
  md_date :: "int \<Rightarrow> string"
  md_lowercase :: "string \<Rightarrow> string"
  md_alnum :: "string \<Rightarrow> bool"
  md_ln :: "f32 \<Rightarrow> f32"

datatype fs_answer = FsOk | FsFails string "nat option"

datatype md_path = DailyFile string | LongTermFile

record md_files =
  daily_files :: "(string, string) hmap"
  long_term_text :: "string option"
  fs_script :: "fs_answer list"

definition next_fs :: "md_files \<Rightarrow> fs_answer \<times> md_files" where
  "next_fs s = (case fs_script s of [] \<Rightarrow> (FsOk, s) | a # as \<Rightarrow> (a, s\<lparr>fs_script := as\<rparr>))"

text \<open>Calls that read nothing and write nothing of the files: \<open>create_dir_all\<close>, \<open>read_dir\<close>.\<close>

definition fs_check :: "md_files \<Rightarrow> unit result \<times> md_files" where
  "fs_check s = (case next_fs s of (FsOk, s') \<Rightarrow> (Inr (), s') | (FsFails e _, s') \<Rightarrow> (Inl (Io e), s'))"

fun file_text :: "md_path \<Rightarrow> md_files \<Rightarrow> string option" where
  "file_text (DailyFile n) s = hm_get (daily_files s) n"
| "file_text LongTermFile s = long_term_text s"

fun put_file :: "md_path \<Rightarrow> string \<Rightarrow> md_files \<Rightarrow> md_files" where
  "put_file (DailyFile n) t s = s\<lparr>daily_files := hm_insert n t (daily_files s)\<rparr>"
| "put_file LongTermFile t s = s\<lparr>long_term_text := Some t\<rparr>"

definition write_file :: "md_path \<Rightarrow> string \<Rightarrow> md_files \<Rightarrow> unit result \<times> md_files" where
  "write_file p t s = (case next_fs s of
      (FsOk, s') \<Rightarrow> (Inr (), put_file p t s')
    | (FsFails e None, s') \<Rightarrow> (Inl (Io e), s')
    | (FsFails e (Some n), s') \<Rightarrow> (Inl (Io e), put_file p (take n t) s'))"

text \<open>A file that is not there is an empty text.\<close>

definition read_file :: "md_path \<Rightarrow> md_files \<Rightarrow> string result \<times> md_files" where
  "read_file p s = (case next_fs s of
      (FsFails e _, s') \<Rightarrow> (Inl (Io e), s')
    | (FsOk, s') \<Rightarrow> (case file_text p s' of
          None \<Rightarrow> (Inr [], s')
        | Some t \<Rightarrow> (if utf8_valid t then Inr t else Inl (Io ''stream did not contain valid UTF-8''), s')))"

text \<open>The \<open>?\<close> operator in operations on the files.\<close>

definition then_io :: "('s \<Rightarrow> 'a result \<times> 's) \<Rightarrow> ('a \<Rightarrow> 's \<Rightarrow> 'b result \<times> 's) \<Rightarrow> 's \<Rightarrow> 'b result \<times> 's" where
  "then_io m f s = (case m s of (Inl e, s') \<Rightarrow> (Inl e, s') | (Inr x, s') \<Rightarrow> f x s')"

definition append_to_file :: "md_path \<Rightarrow> string \<Rightarrow> md_files \<Rightarrow> unit result \<times> md_files" where
  "append_to_file p t =
     then_io fs_check (\<lambda>_.
     then_io (read_file p) (\<lambda>existing.
     write_file p (if existing = [] then t else existing @ nl @ t)))"

section \<open>The text of an entry\<close>

definition entry_to_markdown :: "md_codec \<Rightarrow> memory_entry \<Rightarrow> string" where
  "entry_to_markdown c e =
     (let session = (case me_session_id e of None \<Rightarrow> ''none'' | Some s \<Rightarrow> s); ty = entry_type_to_str (me_type e)
      in ''<!-- entry:'' @ me_id e @ '' session:'' @ session @ '' type:'' @ ty @ '' -->'' @ nl @ ''### '' @
         md_ts_text c (me_timestamp e) @ '' ['' @ ty @ '']'' @ nl @ nl @ me_content e @ nl)"

definition block_session :: "string list \<Rightarrow> string option" where
  "block_session parts = (case List.find (starts_with ''session:'') parts of
      None \<Rightarrow> None
    | Some p \<Rightarrow> let s = drop 8 p in if s = ''none'' then None else Some s)"

definition block_timestamp :: "md_codec \<Rightarrow> string \<Rightarrow> int option" where
  "block_timestamp c body = (case List.find (starts_with ''### '') (str_lines body) of
      None \<Rightarrow> None
    | Some l \<Rightarrow> md_ts_parse c (trim (hd (split_str '' ['' (drop 4 l)))))"

definition block_content :: "string \<Rightarrow> string" where
  "block_content body = trim (case split_once_str (nl @ nl) body of None \<Rightarrow> [] | Some (_, t) \<Rightarrow> t)"

definition parse_single_block :: "md_codec \<Rightarrow> int \<Rightarrow> string \<Rightarrow> memory_entry option" where
  "parse_single_block c now block = (case str_find ''-->'' block of
      None \<Rightarrow> None
    | Some header_end \<Rightarrow>
        let parts = split_whitespace (trim (take header_end block)); body = drop (header_end + 3) block in
        if length parts < 3 then None
        else case List.find (starts_with ''type:'') parts of
            None \<Rightarrow> None
          | Some p \<Rightarrow> (case str_to_entry_type (drop 5 p) of
                Inl _ \<Rightarrow> None
              | Inr ty \<Rightarrow> Some \<lparr>me_id = parts ! 0, me_content = block_content body, me_metadata = JObject [],
                  me_timestamp = (case block_timestamp c body of None \<Rightarrow> now | Some t \<Rightarrow> t),
                  me_session_id = block_session parts, me_type = ty\<rparr>))"

definition parse_entries :: "md_codec \<Rightarrow> int \<Rightarrow> string \<Rightarrow> memory_entry list" where
  "parse_entries c now s = List.map_filter (parse_single_block c now) (drop 1 (split_str ''<!-- entry:'' s))"

section \<open>Ranking\<close>

definition tokenize :: "md_codec \<Rightarrow> string \<Rightarrow> string list" where
  "tokenize c s = filter (\<lambda>w. w \<noteq> [] \<and> 1 < length w) (split_alnum (md_alnum c) [] (md_lowercase c s))"

definition count_f32 :: "nat \<Rightarrow> f32" where
  "count_f32 n = to_f32 (of_nat n)"

definition term_frequency :: "string list \<Rightarrow> string \<Rightarrow> f32" where
  "term_frequency ws t =
     (if t \<in> set ws then to_f32 (count_f32 (count_list ws t) / count_f32 (max (length ws) 1)) else 0)"

definition inverse_frequency :: "md_codec \<Rightarrow> nat \<Rightarrow> nat \<Rightarrow> f32" where
  "inverse_frequency c docs df =
     (if 0 < count_f32 df
      then to_f32 (md_ln c (to_f32 (to_f32 (count_f32 docs + 1) / to_f32 (count_f32 df + 1))) + 1)
      else 1)"

definition doc_freq :: "string list list \<Rightarrow> string \<Rightarrow> nat" where
  "doc_freq docs t = length (filter (\<lambda>ws. t \<in> set ws) docs)"

definition entry_score :: "md_codec \<Rightarrow> string list \<Rightarrow> string list list \<Rightarrow> string list \<Rightarrow> f32" where
  "entry_score c query docs ws =
     foldl (\<lambda>a t. to_f32 (a + to_f32 (term_frequency ws t * inverse_frequency c (length docs) (doc_freq docs t)))) 0 query"

definition hybrid_search :: "md_codec \<Rightarrow> string \<Rightarrow> memory_entry list \<Rightarrow> f32 \<Rightarrow> f32 \<Rightarrow> memory_entry list" where
  "hybrid_search c q es vector keyword =
     (let query = tokenize c q in
      if query = [] then es
      else let docs = map (\<lambda>e. tokenize c (me_content e)) es;
               scored = map (\<lambda>(e, ws). (to_f32 (entry_score c query docs ws * keyword), e)) (zip es docs)
           in map snd (filter (\<lambda>(s, _). 0 < s) (sort_key (\<lambda>(s, _). - s) scored)))"

section \<open>Operations\<close>

text \<open>\<open>extension() == "md"\<close>: a dot with something before it, and no other dot after it.\<close>

definition has_md_extension :: "string \<Rightarrow> bool" where
  "has_md_extension n \<longleftrightarrow> ends_with ''.md'' n \<and> n \<noteq> ''.md''"

definition all_memory_files :: "md_files \<Rightarrow> md_path list result \<times> md_files" where
  "all_memory_files = then_io fs_check (\<lambda>_ s.
     (Inr (map DailyFile (filter has_md_extension (hm_keys (daily_files s))) @
           (if long_term_text s = None then [] else [LongTermFile])), s))"

fun read_entries :: "md_codec \<Rightarrow> int \<Rightarrow> md_path list \<Rightarrow> md_files \<Rightarrow> memory_entry list result \<times> md_files" where
  "read_entries c now [] = Pair (Inr [])"
| "read_entries c now (f # fs) =
     then_io (read_file f) (\<lambda>t.
     then_io (read_entries c now fs) (\<lambda>es.
     Pair (Inr (parse_entries c now t @ es))))"

definition all_entries :: "md_codec \<Rightarrow> int \<Rightarrow> md_files \<Rightarrow> memory_entry list result \<times> md_files" where
  "all_entries c now =
     then_io all_memory_files (\<lambda>fs. then_io (read_entries c now fs) (\<lambda>es. Pair (Inr (sort_key me_timestamp es))))"

definition md_file_of :: "md_codec \<Rightarrow> memory_entry \<Rightarrow> md_path" where
  "md_file_of c e = (if me_type e = LongTerm then LongTermFile else DailyFile (md_date c (me_timestamp e) @ ''.md''))"

definition md_store :: "md_codec \<Rightarrow> memory_entry \<Rightarrow> md_files \<Rightarrow> unit result \<times> md_files" where
  "md_store c e = append_to_file (md_file_of c e) (entry_to_markdown c e)"

definition md_search :: "md_codec \<Rightarrow> int \<Rightarrow> string \<Rightarrow> search_opts \<Rightarrow> md_files \<Rightarrow> memory_entry list result \<times> md_files" where
  "md_search c now q opts = then_io (all_entries c now) (\<lambda>es0.
     let es1 = (case session_filter opts of None \<Rightarrow> es0 | Some sid \<Rightarrow> filter (\<lambda>e. me_session_id e = Some sid) es0);
         es2 = (case entry_type_filter opts of None \<Rightarrow> es1
           | Some t \<Rightarrow> filter (\<lambda>e. entry_type_to_str (me_type e) = entry_type_to_str t) es1)
     in Pair (Inr (take (so_limit opts) (hybrid_search c q es2 (vector_weight opts) (keyword_weight opts)))))"

definition md_get :: "md_codec \<Rightarrow> int \<Rightarrow> string \<Rightarrow> md_files \<Rightarrow> memory_entry option result \<times> md_files" where
  "md_get c now i = then_io (all_entries c now) (\<lambda>es. Pair (Inr (List.find (\<lambda>e. me_id e = i) es)))"

text \<open>The first file that mentions the identifier is written again from its entries.\<close>

fun delete_in :: "md_codec \<Rightarrow> int \<Rightarrow> string \<Rightarrow> md_path list \<Rightarrow> md_files \<Rightarrow> unit result \<times> md_files" where
  "delete_in c now i [] = Pair (Inr ())"
| "delete_in c now i (f # fs) = then_io (read_file f) (\<lambda>t.
     if str_contains (''<!-- entry:'' @ i @ '' '') t
     then write_file f (join nl (map (entry_to_markdown c) (filter (\<lambda>e. me_id e \<noteq> i) (parse_entries c now t))))
     else delete_in c now i fs)"

definition md_delete :: "md_codec \<Rightarrow> int \<Rightarrow> string \<Rightarrow> md_files \<Rightarrow> unit result \<times> md_files" where
  "md_delete c now i = then_io all_memory_files (delete_in c now i)"

definition md_sessions :: "md_codec \<Rightarrow> int \<Rightarrow> md_files \<Rightarrow> string list result \<times> md_files" where
  "md_sessions c now = then_io (all_entries c now)
     (\<lambda>es. Pair (Inr (sort (remdups (List.map_filter me_session_id es)))))"

definition md_history :: "md_codec \<Rightarrow> int \<Rightarrow> string \<Rightarrow> nat \<Rightarrow> md_files \<Rightarrow> memory_entry list result \<times> md_files" where
  "md_history c now sid limit = then_io (all_entries c now)
     (\<lambda>es. Pair (Inr (take limit (filter (\<lambda>e. me_session_id e = Some sid) es))))"

definition markdown_ops :: "md_codec \<Rightarrow> int \<Rightarrow> md_files memory_ops" where
  "markdown_ops c now = \<lparr>store_op = md_store c, search_op = md_search c now, get_op = md_get c now,
     delete_op = md_delete c now, sessions_op = md_sessions c now, history_op = md_history c now\<rparr>"

section \<open>Where a separator is found\<close>

lemma sublist_left: "sublist (a @ b) c \<Longrightarrow> sublist a c"
  by (auto simp: sublist_def)

lemma sublist_delim:
  assumes "c \<notin> set p"
  shows "sublist p (a @ c # b) \<longleftrightarrow> sublist p a \<or> sublist p b"
proof -
  have "sublist p (c # b) \<longleftrightarrow> sublist p b" using assms by (cases p) (auto simp: sublist_Cons_right)
  moreover have "sublist p a" if "p = q @ r" "suffix q a" "prefix r (c # b)" for q r
    using that assms by (cases r) (auto simp: suffix_imp_sublist)
  ultimately show ?thesis by (auto simp: sublist_append)
qed

lemma delim_unique: "a @ (c :: char) # b = a' @ c # b' \<Longrightarrow> c \<notin> set a \<Longrightarrow> c \<notin> set a' \<Longrightarrow> a = a' \<and> b = b'"
  using split_once_Some [of c "a @ c # b" a b] split_once_Some [of c "a @ c # b" a' b'] by simp

lemma sublist_delim_across:
  assumes "sublist (u @ c # v) (a @ (c :: char) # b)" "c \<notin> set u" "c \<notin> set a"
  shows "suffix u a \<and> prefix v b \<or> sublist (u @ c # v) b"
proof -
  obtain x y where xy: "a @ c # b = x @ u @ c # v @ y" using assms(1) by (auto simp: sublist_def)
  show ?thesis
  proof (cases "c \<in> set x")
    case True
    then obtain x1 x2 where x: "x = x1 @ c # x2" "c \<notin> set x1" by (meson split_list_first)
    then have "b = x2 @ u @ c # v @ y" using delim_unique [of a c b x1 "x2 @ u @ c # v @ y"] xy assms(3) by simp
    then show ?thesis by (auto simp: sublist_def)
  next
    case False
    then have "a = x @ u \<and> b = v @ y" using xy assms(2,3) delim_unique [of a c b "x @ u" "v @ y"] by simp
    then show ?thesis by (auto simp: suffix_def)
  qed
qed

lemma str_find_delim:
  assumes "c \<notin> set p" "p \<noteq> []" "\<not> sublist p a"
  shows "str_find p (a @ c # p @ b) = Some (length a + 1)"
proof -
  have "\<not> sublist p ((a @ [c]) @ butlast p)"
  proof
    assume "sublist p ((a @ [c]) @ butlast p)"
    then have "sublist p (butlast p)" using assms by (simp add: sublist_delim)
    then have "length p \<le> length (butlast p)" by (rule sublist_length_le)
    then show False using assms(2) by (cases p rule: rev_cases) simp_all
  qed
  then show ?thesis using str_find_split [of "a @ c # p @ b" "a @ [c]" p b] assms(2)
    by (simp add: str_contains_sublist)
qed

lemma split_str_delim:
  assumes "c \<notin> set p" "p \<noteq> []" "\<not> sublist p a"
  shows "split_str p (a @ c # p @ b) = (a @ [c]) # split_str p b"
  using assms by (subst split_str.simps) (simp add: str_find_delim [OF assms])

lemma split_str_none: "\<not> sublist p s \<Longrightarrow> split_str p s = [s]"
  using str_find_None [of p s] by (subst split_str.simps) (simp add: str_contains_sublist)

section \<open>Words, lines and blanks\<close>

lemma printable_no_blank: "list_all printable w \<Longrightarrow> CHR '' '' \<notin> set w"
  by (auto simp: list_all_iff printable_def byte_def)

lemma printable_no_newline: "list_all printable w \<Longrightarrow> \<forall>d \<in> set w. byte d \<noteq> 10"
  by (auto simp: list_all_iff printable_def)

lemma byte_newline [simp]: "byte (CHR 10) = 10"
  by (simp add: byte_def)

lemma printable_newline: "list_all printable w \<Longrightarrow> CHR 10 \<notin> set w"
  using printable_no_newline [of w] byte_newline by metis

lemma word_len_printable: "list_all printable w \<Longrightarrow> word_len (w @ CHR '' '' # r) = length w"
  by (induction w) simp_all

lemma split_whitespace_word:
  assumes "list_all printable w" "w \<noteq> []"
  shows "split_whitespace (w @ CHR '' '' # r) = w # split_whitespace r"
proof -
  have t: "trim_start (w @ CHR '' '' # r) = w @ CHR '' '' # r" using assms by (cases w) simp_all
  have r: "split_whitespace (CHR '' '' # r) = split_whitespace r"
    using trim_start_blanks [of 1 r] by (subst (1 2) split_whitespace.simps) simp
  show ?thesis using assms t r by (subst split_whitespace.simps) (simp add: word_len_printable)
qed

lemma split_whitespace_last:
  assumes "list_all printable w" "w \<noteq> []"
  shows "split_whitespace w = [w]"
proof -
  have l: "word_len w = length w" using assms(1) by (induction w) simp_all
  have t: "trim_start w = w" using assms by (cases w) simp_all
  have e: "split_whitespace [] = []" by (subst split_whitespace.simps) (simp add: trim_start.simps)
  show ?thesis using assms by (subst split_whitespace.simps) (simp add: l t e)
qed

lemma ws_len_newline [simp]: "ws_len (CHR 10 # s) = 1"
  by (cases s; cases "tl s") simp_all

lemma trim_end_rev_newlines: "trim_end_rev (replicate n (CHR 10) @ s) = trim_end_rev s"
proof (induction n)
  case (Suc n)
  have "ws_len_rev (CHR 10 # r) = 1" for r by (simp add: ws_len_rev_def)
  with Suc show ?case by (subst trim_end_rev.simps) simp
qed simp

lemma ws_len_before_newline: "ws_len s = 0 \<Longrightarrow> s \<noteq> [] \<Longrightarrow> ws_len (s @ replicate n (CHR 10)) = 0"
  by (cases s rule: ws_len.cases; cases n; cases "n - 1") (auto simp: byte_def split: if_splits)

lemma trim_newlines:
  assumes "trim s = s"
  shows "trim (s @ replicate n (CHR 10)) = s"
proof (cases "s = []")
  case True
  have "trim_start (replicate n (CHR 10)) = []" for n
    by (induction n) (subst trim_start.simps, simp)+
  moreover have "trim_end [] = []" by (simp add: trim_end_def trim_end_rev.simps ws_len_rev_def)
  ultimately show ?thesis using True by (simp add: trim_def)
next
  case False
  have l: "trim_start s = s"
    using assms trim_start_suffix [of s] trim_end_prefix [of "trim_start s"] unfolding trim_def
    by (metis prefix_length_le suffix_length_le antisym suffix_order.eq_iff suffix_def append_eq_append_conv append_Nil)
  then have w: "ws_len s = 0" using trim_start_no_ws [of s] by simp
  have "trim_start (s @ replicate n (CHR 10)) = s @ replicate n (CHR 10)"
    using ws_len_before_newline [OF w False] by (subst trim_start.simps) simp
  then show ?thesis using assms l trim_end_rev_newlines [of n "rev s"] by (simp add: trim_def trim_end_def)
qed

section \<open>Reading back what was written\<close>

definition md_codec_ok :: "md_codec \<Rightarrow> bool" where
  "md_codec_ok c \<longleftrightarrow> (\<forall>t. md_ts_parse c (md_ts_text c t) = Some t \<and> md_ts_text c t \<noteq> [] \<and>
     list_all printable (md_ts_text c t) \<and> md_date c t \<noteq> [])"

text \<open>
  An entry that survives: its identifier and its session have no blanks, no arrow and no meaning of
  their own, and its content is trimmed and does not contain the mark of an entry.
\<close>

definition plain_word :: "string \<Rightarrow> bool" where
  "plain_word w \<longleftrightarrow> list_all printable w \<and> \<not> str_contains ''-->'' w"

definition md_writable :: "memory_entry \<Rightarrow> bool" where
  "md_writable e \<longleftrightarrow> plain_word (me_id e) \<and> me_id e \<noteq> [] \<and>
     \<not> starts_with ''session:'' (me_id e) \<and> \<not> starts_with ''type:'' (me_id e) \<and>
     (case me_session_id e of None \<Rightarrow> True | Some sid \<Rightarrow> plain_word sid \<and> sid \<noteq> ''none'') \<and>
     trim (me_content e) = me_content e \<and> \<not> str_contains ''<!-- entry:'' (me_content e) \<and> utf8_valid (me_content e)"

definition without_metadata :: "memory_entry \<Rightarrow> memory_entry" where
  "without_metadata e = e\<lparr>me_metadata := JObject []\<rparr>"

definition session_text :: "memory_entry \<Rightarrow> string" where
  "session_text e = (case me_session_id e of None \<Rightarrow> ''none'' | Some s \<Rightarrow> s)"

definition md_header :: "memory_entry \<Rightarrow> string" where
  "md_header e = me_id e @ '' session:'' @ session_text e @ '' type:'' @ entry_type_to_str (me_type e)"

definition md_body :: "md_codec \<Rightarrow> memory_entry \<Rightarrow> string" where
  "md_body c e = nl @ ''### '' @ md_ts_text c (me_timestamp e) @ '' ['' @ entry_type_to_str (me_type e) @ '']'' @
     nl @ nl @ me_content e @ nl"

lemma entry_to_markdown_parts:
  "entry_to_markdown c e = ''<!-- entry:'' @ md_header e @ '' '' @ ''-->'' @ md_body c e"
  by (simp add: entry_to_markdown_def md_header_def md_body_def session_text_def Let_def)

lemma type_printable: "list_all printable (entry_type_to_str t)"
  by (cases t) (simp_all add: printable_def byte_def)

lemma session_printable: "md_writable e \<Longrightarrow> list_all printable (session_text e)"
  by (auto simp: md_writable_def session_text_def plain_word_def printable_def byte_def split: option.splits)

lemma label_printable: "list_all printable ''session:''" "list_all printable ''type:''"
  by (simp_all add: printable_def byte_def)

lemma md_header_no_arrow:
  assumes "md_writable e"
  shows "\<not> sublist ''-->'' (md_header e)"
proof -
  have s: "\<not> sublist ''-->'' (session_text e)"
    using assms by (auto simp: md_writable_def session_text_def plain_word_def str_lemmas sublist_Cons_right split: option.splits)
  have t: "\<not> sublist ''-->'' (''type:'' @ entry_type_to_str (me_type e))"
    by (cases "me_type e") (simp_all add: sublist_Cons_right)
  have i: "\<not> sublist ''-->'' (me_id e)" using assms by (simp add: md_writable_def plain_word_def str_lemmas)
  have "\<not> sublist ''-->'' (''session:'' @ session_text e)" using s by (simp add: sublist_Cons_right)
  with i t show ?thesis
    using sublist_delim [of "CHR '' ''" "''-->''" "me_id e" "''session:'' @ session_text e @ CHR '' '' # ''type:'' @ entry_type_to_str (me_type e)"]
      sublist_delim [of "CHR '' ''" "''-->''" "''session:'' @ session_text e" "''type:'' @ entry_type_to_str (me_type e)"]
    by (simp add: md_header_def)
qed

lemma md_header_words:
  assumes "md_writable e"
  shows "split_whitespace (trim (md_header e @ '' '')) =
    [me_id e, ''session:'' @ session_text e, ''type:'' @ entry_type_to_str (me_type e)]"
proof -
  let ?t = "''type:'' @ entry_type_to_str (me_type e)" and ?s = "''session:'' @ session_text e"
  have i: "list_all printable (me_id e)" "me_id e \<noteq> []" using assms by (simp_all add: md_writable_def plain_word_def)
  have t: "list_all printable ?t" and s: "list_all printable ?s"
    using label_printable type_printable session_printable [OF assms] by simp_all
  have m: "md_header e = me_id e @ CHR '' '' # ?s @ CHR '' '' # ?t" by (simp add: md_header_def)
  have "last (md_header e) = last ?t" by (simp add: md_header_def)
  then have "printable (last (md_header e))" using t last_in_set [of ?t] unfolding list_all_iff by (metis append_is_Nil_conv list.distinct(1))
  moreover have "printable (hd (md_header e))" "md_header e \<noteq> []" using i by (cases "me_id e"; simp add: md_header_def)+
  ultimately have "trim (md_header e @ '' '') = md_header e" using trim_blanks [of "md_header e" 0 1] by simp
  then show ?thesis
    using split_whitespace_word [OF i, of "?s @ CHR '' '' # ?t"] split_whitespace_word [OF s, of ?t] split_whitespace_last [OF t]
    by (simp add: m)
qed

lemma one_line_printable: "list_all printable w \<Longrightarrow> one_line w"
  by (auto simp: one_line_def list_all_iff printable_def)

lemma md_title_line:
  assumes "md_codec_ok c"
  shows "str_lines (md_body c e @ r) =
    [] # (''### '' @ md_ts_text c (me_timestamp e) @ '' ['' @ entry_type_to_str (me_type e) @ '']'') # str_lines (nl @ me_content e @ nl @ r)"
proof -
  let ?l = "''### '' @ md_ts_text c (me_timestamp e) @ '' ['' @ entry_type_to_str (me_type e) @ '']''"
  have "one_line (md_ts_text c (me_timestamp e))" "one_line (entry_type_to_str (me_type e))"
    using assms one_line_printable type_printable by (simp_all add: md_codec_ok_def)
  then have l: "one_line ?l" by (simp add: one_line_def byte_def)
  have e: "one_line []" by (simp add: one_line_def)
  show ?thesis
    using str_lines_line [OF l, of "nl @ me_content e @ nl @ r"] str_lines_line [OF e, of "?l @ nl @ nl @ me_content e @ nl @ r"]
    by (simp add: md_body_def)
qed

lemma block_timestamp_body:
  assumes "md_codec_ok c"
  shows "block_timestamp c (md_body c e @ r) = Some (me_timestamp e)"
proof -
  let ?ts = "md_ts_text c (me_timestamp e)"
  have ts: "list_all printable ?ts" "?ts \<noteq> []" "md_ts_parse c ?ts = Some (me_timestamp e)"
    using assms by (simp_all add: md_codec_ok_def)
  have b: "CHR '' '' \<notin> set ?ts" using printable_no_blank [OF ts(1)] .
  have n: "\<not> sublist '' ['' (?ts @ [])" using b sublist_delim [of "CHR '' ''" "[]"] set_mono_sublist [of "'' [''" ?ts] by auto
  have "str_find '' ['' (?ts @ '' ['' @ q) = Some (length ?ts)" for q
  proof (rule str_find_split)
    show "\<not> str_contains '' ['' (?ts @ butlast '' ['')"
    proof
      assume "str_contains '' ['' (?ts @ butlast '' ['')"
      then have "sublist ([] @ CHR '' '' # ''['') (?ts @ CHR '' '' # [])" by (simp add: str_lemmas)
      from sublist_delim_across [OF this] b show False by simp
    qed
  qed simp_all
  then have "hd (split_str '' ['' (?ts @ '' ['' @ q)) = ?ts" for q
    by (subst split_str.simps) simp
  moreover have "trim ?ts = ?ts" using trim_printable ts(1,2) by (simp add: list_all_iff)
  ultimately show ?thesis
    using ts(3) by (simp add: block_timestamp_def md_title_line [OF assms] starts_with_def)
qed

lemma block_content_body:
  assumes "md_codec_ok c" "md_writable e"
  shows "block_content (md_body c e @ replicate n (CHR 10)) = me_content e"
proof -
  let ?l = "''### '' @ md_ts_text c (me_timestamp e) @ '' ['' @ entry_type_to_str (me_type e) @ '']''"
  have l: "CHR 10 \<notin> set ?l"
    using assms(1) printable_newline [OF type_printable [of "me_type e"]] printable_newline [of "md_ts_text c (me_timestamp e)"]
    by (simp add: md_codec_ok_def)
  have f: "str_find (nl @ nl) (nl @ ?l @ (nl @ nl) @ q) = Some (Suc (length ?l))" for q
  proof -
    have "\<not> str_contains (nl @ nl) ((nl @ ?l) @ butlast (nl @ nl))"
    proof
      assume "str_contains (nl @ nl) ((nl @ ?l) @ butlast (nl @ nl))"
      then have "sublist ([] @ CHR 10 # nl) ([] @ CHR 10 # (?l @ CHR 10 # []))" by (simp add: str_lemmas)
      from sublist_delim_across [OF this] have "sublist ([] @ CHR 10 # nl) (?l @ CHR 10 # [])" by simp
      from sublist_delim_across [OF this _ l] show False by simp
    qed
    from str_find_split [OF _ _ this] show ?thesis by simp
  qed
  have "md_body c e @ replicate n (CHR 10) = (nl @ ?l) @ (nl @ nl) @ me_content e @ replicate (Suc n) (CHR 10)"
    by (simp add: md_body_def)
  moreover have "split_once_str (nl @ nl) ((nl @ ?l) @ (nl @ nl) @ q) = Some (nl @ ?l, q)" for q
    using f [of q] by (intro split_once_str_at) simp
  ultimately have "split_once_str (nl @ nl) (md_body c e @ replicate n (CHR 10)) = Some (nl @ ?l, me_content e @ replicate (Suc n) (CHR 10))"
    by (simp only:)
  then show ?thesis using trim_newlines [of "me_content e" "Suc n"] assms(2)
    by (simp add: block_content_def md_writable_def)
qed

lemma parse_block:
  assumes "md_codec_ok c" "md_writable e"
  shows "parse_single_block c now (md_header e @ '' '' @ ''-->'' @ md_body c e @ replicate n (CHR 10)) = Some (without_metadata e)"
proof -
  have f: "str_find ''-->'' (md_header e @ CHR '' '' # ''-->'' @ md_body c e @ replicate n (CHR 10)) = Some (length (md_header e) + 1)"
    using md_header_no_arrow [OF assms(2)] by (intro str_find_delim) simp_all
  have t: "take (length (md_header e) + 1) (md_header e @ CHR '' '' # r) = md_header e @ '' ''" for r by simp
  have d: "drop (length (md_header e) + 1 + 3) (md_header e @ CHR '' '' # ''-->'' @ r) = r" for r by simp
  have i: "\<not> starts_with ''session:'' (me_id e)" "\<not> starts_with ''type:'' (me_id e)"
    using assms(2) by (simp_all add: md_writable_def)
  have s: "block_session [me_id e, ''session:'' @ session_text e, ''type:'' @ entry_type_to_str (me_type e)] = me_session_id e"
    using i(1) assms(2) by (auto simp: block_session_def starts_with_def session_text_def md_writable_def Let_def split: option.splits)
  show ?thesis
    using i(2) f s block_timestamp_body [OF assms(1)] block_content_body [OF assms]
    by (simp add: parse_single_block_def Let_def t d md_header_words [OF assms(2), simplified] starts_with_def without_metadata_def)
qed

text \<open>A file with the entries \<open>es\<close>, as \<open>store\<close> and \<open>delete\<close> leave it.\<close>

definition md_text :: "md_codec \<Rightarrow> memory_entry list \<Rightarrow> string" where
  "md_text c es = join nl (map (entry_to_markdown c) es)"

lemma md_text_simps [simp]:
  "md_text c [] = []"
  "md_text c [e] = entry_to_markdown c e"
  "md_text c (e # e' # es) = entry_to_markdown c e @ nl @ md_text c (e' # es)"
  by (simp_all add: md_text_def)

lemma md_text_Nil_iff [simp]: "md_text c es = [] \<longleftrightarrow> es = []"
proof (cases es)
  case (Cons e es')
  then show ?thesis by (cases es') (simp_all add: entry_to_markdown_parts)
qed simp

lemma md_text_append: "md_text c (es @ [e]) = (if es = [] then entry_to_markdown c e else md_text c es @ nl @ entry_to_markdown c e)"
proof (induction es)
  case (Cons a es)
  then show ?case by (cases es) simp_all
qed simp

abbreviation mark :: string where "mark \<equiv> ''<!-- entry:''"

lemma chunk_no_mark:
  assumes "md_codec_ok c" "md_writable e"
  shows "\<not> sublist mark (md_header e @ '' '' @ ''-->'' @ md_body c e)"
proof -
  let ?ts = "md_ts_text c (me_timestamp e)" and ?ty = "entry_type_to_str (me_type e)"
  have none: "\<not> sublist mark w" if "list_all printable w" for w
    using printable_no_blank [OF that] set_mono_sublist [of mark w] by auto
  have step: "\<not> sublist mark (w @ CHR '' '' # r)"
    if "list_all printable w" "\<not> prefix ''entry:'' r" "\<not> sublist mark r" for w r
    using sublist_delim_across [of "''<!--''" "CHR '' ''" "''entry:''" w r] printable_no_blank [OF that(1)] that(2,3)
    by (auto)
  have i: "list_all printable (me_id e)" using assms(2) by (simp add: md_writable_def plain_word_def)
  have p: "list_all printable ''-->''" "list_all printable ''###''" "list_all printable (''['' @ ?ty @ '']'')"
    "list_all printable (''type:'' @ ?ty)" "list_all printable (''session:'' @ session_text e)"
    using type_printable session_printable [OF assms(2)] label_printable by (simp_all add: printable_def byte_def)
  have "\<not> sublist mark (me_id e @ CHR '' '' # (''session:'' @ session_text e) @ CHR '' '' # (''type:'' @ ?ty) @ CHR '' '' # ''-->'')"
    using step [OF i] step [OF p(5)] step [OF p(4)] none [OF p(1)] by simp
  then have h: "\<not> sublist mark (md_header e @ '' '' @ ''-->'')" by (simp add: md_header_def)
  have ts: "list_all printable ?ts" using assms(1) by (simp add: md_codec_ok_def)
  have nb: "\<not> prefix ''entry:'' (?ts @ CHR '' '' # r)" if "\<not> prefix ''entry:'' ?ts" for r
  proof
    assume "prefix ''entry:'' (?ts @ CHR '' '' # r)"
    with that obtain zs where "''entry:'' = ?ts @ CHR '' '' # zs" by (auto simp: prefix_append prefix_Cons)
    then have "CHR '' '' \<in> set ''entry:''" by (metis in_set_conv_decomp)
    then show False by simp
  qed
  have l: "\<not> sublist mark (''###'' @ CHR '' '' # ?ts @ CHR '' '' # (''['' @ ?ty @ '']''))"
    using step [OF ts, of "''['' @ ?ty @ '']''"] none [OF p(3)]
      sublist_delim_across [of "''<!--''" "CHR '' ''" "''entry:''" "''###''" "?ts @ CHR '' '' # (''['' @ ?ty @ '']'')"]
    by (auto simp: suffix_def)
  have c: "\<not> sublist mark (me_content e)" using assms(2) by (simp add: md_writable_def str_lemmas)
  have nl: "CHR 10 \<notin> set mark" by simp
  have "\<not> sublist mark (md_body c e)"
    using sublist_delim [OF nl, of "[]" "''###'' @ CHR '' '' # ?ts @ CHR '' '' # (''['' @ ?ty @ '']'') @ nl @ nl @ me_content e @ nl"]
      sublist_delim [OF nl, of "''###'' @ CHR '' '' # ?ts @ CHR '' '' # (''['' @ ?ty @ '']'')" "nl @ me_content e @ nl"]
      sublist_delim [OF nl, of "[]" "me_content e @ nl"] sublist_delim [OF nl, of "me_content e" "[]"] l c
    by (simp add: md_body_def)
  moreover have "md_body c e = CHR 10 # tl (md_body c e)" by (simp add: md_body_def)
  ultimately show ?thesis
    using h sublist_delim [OF nl, of "md_header e @ '' '' @ ''-->''" "tl (md_body c e)"] sublist_delim [OF nl, of "[]" "tl (md_body c e)"]
    by (metis append.assoc append_Nil)
qed

lemma split_after_mark:
  assumes "md_codec_ok c"
  shows "\<forall>e \<in> set (e # es). md_writable e \<Longrightarrow>
    List.map_filter (parse_single_block c now) (split_str mark (drop (length mark) (md_text c (e # es)))) = map without_metadata (e # es)"
proof (induction es arbitrary: e)
  case Nil
  let ?k = "md_header e @ '' '' @ ''-->'' @ md_body c e"
  have "split_str mark ?k = [?k]" using chunk_no_mark [OF assms, of e] Nil by (intro split_str_none) simp
  then show ?case using parse_block [OF assms, of e now 0] Nil
    by (simp add: entry_to_markdown_parts List.map_filter_def)
next
  case (Cons e' es)
  let ?k = "md_header e @ '' '' @ ''-->'' @ md_body c e"
  let ?r = "drop (length mark) (md_text c (e' # es))"
  have m: "md_text c (e' # es) = mark @ ?r" by (cases es) (simp_all add: entry_to_markdown_parts)
  have "split_str mark (?k @ CHR 10 # mark @ ?r) = (?k @ [CHR 10]) # split_str mark ?r"
    using chunk_no_mark [OF assms, of e] Cons.prems by (intro split_str_delim) simp_all
  moreover have "drop (length mark) (md_text c (e # e' # es)) = ?k @ CHR 10 # md_text c (e' # es)"
    by (simp add: entry_to_markdown_parts)
  ultimately have "split_str mark (drop (length mark) (md_text c (e # e' # es))) = (?k @ [CHR 10]) # split_str mark ?r"
    using m by simp
  then show ?case using parse_block [OF assms, of e now 1] Cons.IH [of e'] Cons.prems
    by (simp add: List.map_filter_simps)
qed

lemma parse_entries_text:
  assumes "md_codec_ok c" "\<forall>e \<in> set es. md_writable e"
  shows "parse_entries c now (md_text c es) = map without_metadata es"
proof (cases es)
  case Nil
  then show ?thesis by (simp add: parse_entries_def split_str.simps List.map_filter_def)
next
  case (Cons e es')
  let ?r = "drop (length mark) (md_text c (e # es'))"
  have m: "md_text c (e # es') = mark @ ?r" by (cases es') (simp_all add: entry_to_markdown_parts)
  have "str_find mark (mark @ ?r) = Some 0" by simp
  then have "split_str mark (mark @ ?r) = [] # split_str mark ?r" by (subst split_str.simps) simp
  then have "drop 1 (split_str mark (md_text c (e # es'))) = split_str mark ?r" using m by simp
  then show ?thesis using split_after_mark [OF assms(1), of e es' now] assms(2) unfolding Cons parse_entries_def by metis
qed

section \<open>The files as a map\<close>

definition md_paths :: "md_files \<Rightarrow> md_path list" where
  "md_paths s = map DailyFile (filter has_md_extension (hm_keys (daily_files s))) @
     (if long_term_text s = None then [] else [LongTermFile])"

definition text_of :: "md_path \<Rightarrow> md_files \<Rightarrow> string" where
  "text_of p s = (case file_text p s of None \<Rightarrow> [] | Some t \<Rightarrow> t)"

definition md_all :: "md_codec \<Rightarrow> int \<Rightarrow> md_files \<Rightarrow> memory_entry list" where
  "md_all c now s = concat (map (\<lambda>p. parse_entries c now (text_of p s)) (md_paths s))"

definition same_files :: "md_files \<Rightarrow> md_files \<Rightarrow> bool" where
  "same_files s s' \<longleftrightarrow> daily_files s' = daily_files s \<and> long_term_text s' = long_term_text s \<and> set (fs_script s') \<subseteq> set (fs_script s)"

lemma same_files_refl [simp]: "same_files s s"
  by (simp add: same_files_def)

lemma same_files_trans: "same_files s t \<Longrightarrow> same_files t u \<Longrightarrow> same_files s u"
  by (auto simp: same_files_def)

lemma same_filesD:
  assumes "same_files s s'"
  shows "text_of p s' = text_of p s" "md_paths s' = md_paths s" "md_all c now s' = md_all c now s"
proof -
  show p: "text_of p s' = text_of p s" for p using assms by (cases p) (simp_all add: text_of_def same_files_def)
  show q: "md_paths s' = md_paths s" using assms by (simp add: md_paths_def same_files_def)
  show "md_all c now s' = md_all c now s" by (simp add: md_all_def p q)
qed

lemma next_fs_same: "next_fs s = (a, s') \<Longrightarrow> same_files s s' \<and> (a = FsOk \<or> a \<in> set (fs_script s))"
  by (auto simp: next_fs_def same_files_def split: list.splits)

lemma fs_check_same: "fs_check s = (r, s') \<Longrightarrow> same_files s s'"
  by (auto simp: fs_check_def dest: next_fs_same split: prod.splits fs_answer.splits)

lemma file_text_same: "same_files s s' \<Longrightarrow> file_text p s' = file_text p s"
  by (cases p) (simp_all add: same_files_def)

lemma read_file_same: "read_file p s = (r, s') \<Longrightarrow> same_files s s' \<and> (\<forall>t. r = Inr t \<longrightarrow> t = text_of p s)"
  by (auto simp: read_file_def text_of_def file_text_same dest!: next_fs_same
      split: prod.splits fs_answer.splits option.splits if_splits)

lemma then_ioE:
  assumes "then_io m f s = (r, s')"
  obtains e where "m s = (Inl e, s')" "r = Inl e"
  | x s1 where "m s = (Inr x, s1)" "f x s1 = (r, s')"
  using assms by (auto simp: then_io_def split: prod.splits sum.splits)

lemma all_memory_files_same:
  "all_memory_files s = (r, s') \<Longrightarrow> same_files s s' \<and> (\<forall>fs. r = Inr fs \<longrightarrow> fs = md_paths s)"
  unfolding all_memory_files_def
  by (erule then_ioE) (auto simp: md_paths_def same_files_def dest!: fs_check_same)

lemma read_entries_same:
  "read_entries c now fs s = (r, s') \<Longrightarrow>
    same_files s s' \<and> (\<forall>es. r = Inr es \<longrightarrow> es = concat (map (\<lambda>p. parse_entries c now (text_of p s)) fs))"
proof (induction fs arbitrary: s r s')
  case (Cons f fs)
  from Cons.prems show ?case
    unfolding read_entries.simps
  proof (rule then_ioE, goal_cases)
    case (1 e)
    then show ?case using read_file_same by fastforce
  next
    case (2 t s1)
    then have 3: "same_files s s1" "t = text_of f s" using read_file_same [OF 2(1)] by simp_all
    from 2(2) show ?case
    proof (rule then_ioE, goal_cases)
      case (1 e)
      then show ?case using Cons.IH [OF 1(1)] same_files_trans [OF 3(1)] by simp
    next
      case (2 es s2)
      then show ?case using Cons.IH [OF 2(1)] same_files_trans [OF 3(1)] 3(2) by (auto simp: same_filesD [OF 3(1)])
    qed
  qed
qed simp

lemma all_entries_same:
  "all_entries c now s = (r, s') \<Longrightarrow>
    same_files s s' \<and> (\<forall>es. r = Inr es \<longrightarrow> es = sort_key me_timestamp (md_all c now s))"
  unfolding all_entries_def
proof (erule then_ioE, goal_cases)
  case (1 e)
  then show ?case using all_memory_files_same by fastforce
next
  case (2 fs s1)
  note 3 = all_memory_files_same [OF 2(1)]
  from 2(2) show ?case
  proof (rule then_ioE, goal_cases)
    case (1 e)
    then show ?case using 3 read_entries_same [OF 1(1)] same_files_trans by auto
  next
    case (2 es s2)
    then show ?case using 3 read_entries_same [OF 2(1)] same_files_trans [of s s1 s2]
      by (auto simp: md_all_def same_filesD)
  qed
qed

text \<open>
  The invariant: no write is cut short, each file is the text of its entries \<open>es\<close>, all of which
  can be read back, and no two entries of any files have the same identifier.
\<close>

definition md_rep :: "md_codec \<Rightarrow> (md_path \<Rightarrow> memory_entry list) \<Rightarrow> md_files \<Rightarrow> bool" where
  "md_rep c es s \<longleftrightarrow> hm_ok (daily_files s) \<and> (\<forall>e n. FsFails e (Some n) \<notin> set (fs_script s)) \<and>
     (\<forall>p. if p \<in> set (md_paths s) then text_of p s = md_text c (es p) else es p = []) \<and>
     (\<forall>p. \<forall>e \<in> set (es p). md_writable e) \<and>
     (\<forall>p q. \<forall>e \<in> set (es p). \<forall>e' \<in> set (es q). me_id e = me_id e' \<longrightarrow> p = q \<and> e = e')"

definition md_invar :: "md_codec \<Rightarrow> md_files \<Rightarrow> bool" where
  "md_invar c s \<longleftrightarrow> md_codec_ok c \<and> (\<exists>es. md_rep c es s)"

definition md_contents :: "md_codec \<Rightarrow> md_files \<Rightarrow> string \<Rightarrow> memory_entry option" where
  "md_contents c s i = List.find (\<lambda>e. me_id e = i) (md_all c 0 s)"

lemma find_unique:
  assumes "\<forall>x \<in> set xs. \<forall>y \<in> set xs. f x = f y \<longrightarrow> x = y"
  shows "List.find (\<lambda>x. f x = k) xs = Some x \<longleftrightarrow> x \<in> set xs \<and> f x = k"
proof
  assume "x \<in> set xs \<and> f x = k"
  with assms show "List.find (\<lambda>x. f x = k) xs = Some x"
    by (induction xs) auto
qed (auto simp: find_Some_iff)

lemma find_same_set:
  assumes "\<forall>x \<in> set xs. \<forall>y \<in> set xs. f x = f y \<longrightarrow> x = y" "set ys = set xs"
  shows "List.find (\<lambda>x. f x = k) ys = List.find (\<lambda>x. f x = k) xs"
proof (cases "List.find (\<lambda>x. f x = k) xs")
  case None
  then have "List.find (\<lambda>x. f x = k) ys = None" using assms(2) by (auto simp: find_None_iff)
  then show ?thesis using None by simp
next
  case (Some x)
  then show ?thesis using find_unique [OF assms(1), of k x] find_unique [of ys f k x] assms by simp
qed

lemma find_added:
  assumes "\<forall>x \<in> set xs. \<forall>y \<in> set xs. f x = f y \<longrightarrow> x = y" "set ys = insert z (set xs)" "\<forall>x \<in> set xs. f x \<noteq> f z"
  shows "List.find (\<lambda>x. f x = k) ys = (if k = f z then Some z else List.find (\<lambda>x. f x = k) xs)"
proof -
  have "List.find (\<lambda>x. f x = k) ys = List.find (\<lambda>x. f x = k) (z # xs)"
    using assms by (intro find_same_set) auto
  then show ?thesis by simp
qed

lemma find_dropped:
  assumes "\<forall>x \<in> set xs. \<forall>y \<in> set xs. f x = f y \<longrightarrow> x = y" "set ys = {x \<in> set xs. f x \<noteq> j}"
  shows "List.find (\<lambda>x. f x = k) ys = (if k = j then None else List.find (\<lambda>x. f x = k) xs)"
proof -
  have "List.find (\<lambda>x. f x = k) ys = List.find (\<lambda>x. f x = k) (filter (\<lambda>x. f x \<noteq> j) xs)"
    using assms by (intro find_same_set) auto
  also have "\<dots> = (if k = j then None else List.find (\<lambda>x. f x = k) xs)"
    by (induction xs) auto
  finally show ?thesis .
qed

lemma md_rep_all:
  assumes "md_codec_ok c" "md_rep c es s"
  shows "md_all c now s = map without_metadata (concat (map es (md_paths s)))"
proof -
  have "parse_entries c now (text_of p s) = map without_metadata (es p)" if "p \<in> set (md_paths s)" for p
    using assms that parse_entries_text [OF assms(1), of "es p" now] by (simp add: md_rep_def)
  then show ?thesis by (simp add: md_all_def map_concat comp_def cong: map_cong)
qed

lemma md_rep_set:
  assumes "md_codec_ok c" "md_rep c es s"
  shows "set (md_all c now s) = without_metadata ` (\<Union>p. set (es p))"
proof -
  have "es p = []" if "p \<notin> set (md_paths s)" for p using assms(2) that by (metis md_rep_def)
  then have "p \<in> set (md_paths s)" if "e \<in> set (es p)" for p e using that by fastforce
  then have "(\<Union>p \<in> set (md_paths s). set (es p)) = (\<Union>p. set (es p))" by blast
  then show ?thesis by (simp add: md_rep_all [OF assms] image_UN image_image)
qed

lemma without_metadata_id [simp]: "me_id (without_metadata e) = me_id e"
  by (simp add: without_metadata_def)

lemma md_rep_unique:
  assumes "md_codec_ok c" "md_rep c es s"
  shows "\<forall>x \<in> set (md_all c now s). \<forall>y \<in> set (md_all c now s). me_id x = me_id y \<longrightarrow> x = y"
  using assms(2) unfolding md_rep_set [OF assms] by (fastforce simp: md_rep_def)

text \<open>What \<open>get\<close> answers does not depend on the order in which the entries are read.\<close>

lemma md_get_contents:
  assumes "md_invar c s" "md_get c now i s = (r, s')"
  shows "same_files s s'" "r = Inr x \<Longrightarrow> x = md_contents c s i"
proof -
  from assms(1) obtain es where ok: "md_codec_ok c" "md_rep c es s" unfolding md_invar_def by blast
  have f: "List.find (\<lambda>e. me_id e = i) (sort_key me_timestamp (md_all c now s)) = md_contents c s i"
    unfolding md_contents_def
    by (rule find_same_set) (simp_all add: md_rep_unique [OF ok] md_rep_set [OF ok])
  from assms(2) have "same_files s s' \<and> (r = Inr x \<longrightarrow> x = md_contents c s i)"
    unfolding md_get_def by (elim then_ioE) (use f all_entries_same in auto)
  then show "same_files s s'" "r = Inr x \<Longrightarrow> x = md_contents c s i" by simp_all
qed

lemma md_rep_same: "md_rep c es s \<Longrightarrow> same_files s s' \<Longrightarrow> md_rep c es s'"
  using same_filesD [of s s'] by (auto simp: md_rep_def same_files_def)

lemma write_file_cases:
  assumes "write_file p t s = (r, s')" "\<forall>e n. FsFails e (Some n) \<notin> set (fs_script s)"
  shows "r \<noteq> Inr () \<and> same_files s s' \<or> r = Inr () \<and> (\<exists>s1. same_files s s1 \<and> s' = put_file p t s1)"
proof -
  obtain a s1 where a: "next_fs s = (a, s1)" by (cases "next_fs s")
  with assms(2) have "same_files s s1" "a \<noteq> FsFails e (Some n)" for e n using next_fs_same [OF a] by auto
  with assms(1) a show ?thesis by (auto simp: write_file_def split: fs_answer.splits option.splits)
qed

fun md_listed :: "md_path \<Rightarrow> bool" where
  "md_listed (DailyFile n) \<longleftrightarrow> has_md_extension n"
| "md_listed LongTermFile \<longleftrightarrow> True"

lemma put_file_simps:
  "text_of q (put_file p t s) = (if q = p then t else text_of q s)"
  "fs_script (put_file p t s) = fs_script s"
  "hm_ok (daily_files s) \<Longrightarrow> hm_ok (daily_files (put_file p t s))"
  by (cases p; cases q; simp add: text_of_def)+

lemma set_md_paths: "set (md_paths s) = {p. md_listed p \<and> file_text p s \<noteq> None}"
proof -
  have "DailyFile n \<in> set (md_paths s) \<longleftrightarrow> has_md_extension n \<and> hm_get (daily_files s) n \<noteq> None" for n
    using hm_get_None_iff [of "daily_files s" n] by (auto simp: md_paths_def)
  moreover have "LongTermFile \<in> set (md_paths s) \<longleftrightarrow> long_term_text s \<noteq> None" by (auto simp: md_paths_def)
  ultimately show ?thesis by (intro set_eqI) (case_tac x; simp)
qed

lemma md_paths_put: "md_listed p \<Longrightarrow> set (md_paths (put_file p t s)) = insert p (set (md_paths s))"
  unfolding set_md_paths by (cases p) (auto, (case_tac x; auto)+)

lemma md_rep_put:
  assumes "md_rep c es s" "md_listed p" "\<forall>e \<in> set l. md_writable e"
    "\<forall>q. \<forall>e \<in> set l. \<forall>e' \<in> set (if q = p then l else es q). me_id e = me_id e' \<longrightarrow> p = q \<and> e = e'"
  shows "md_rep c (es(p := l)) (put_file p (md_text c l) s)"
  using assms unfolding md_rep_def by (simp add: put_file_simps md_paths_put) metis

lemma md_store_cases:
  assumes "md_codec_ok c" "md_rep c es s" "md_writable e" "\<forall>p. \<forall>e' \<in> set (es p). me_id e' \<noteq> me_id e"
    and "md_store c e s = (r, s')"
  shows "r \<noteq> Inr () \<and> same_files s s' \<or>
    r = Inr () \<and> md_rep c (es(md_file_of c e := es (md_file_of c e) @ [e])) s'"
proof -
  let ?p = "md_file_of c e"
  have l: "md_listed ?p" using assms(1) by (auto simp: md_file_of_def md_codec_ok_def has_md_extension_def ends_with_def suffix_def)
  from assms(5) show ?thesis unfolding md_store_def append_to_file_def
  proof (elim then_ioE, goal_cases)
    case (3 u s1 old s2)
    have s2: "same_files s s2" "old = text_of ?p s"
      using fs_check_same [OF 3(1)] read_file_same [OF 3(2)] same_files_trans by (auto simp: same_filesD)
    note rep = md_rep_same [OF assms(2) s2(1)]
    have old: "old = md_text c (es ?p)"
    proof (cases "?p \<in> set (md_paths s)")
      case True
      then show ?thesis using assms(2) s2(2) by (simp add: md_rep_def)
    next
      case False
      then have "file_text ?p s = None" using l by (simp add: set_md_paths)
      moreover have "es ?p = []" using False assms(2) by (metis md_rep_def)
      ultimately show ?thesis using s2(2) by (simp add: text_of_def)
    qed
    then have "(if old = [] then entry_to_markdown c e else old @ nl @ entry_to_markdown c e) = md_text c (es ?p @ [e])"
      by (simp add: md_text_append)
    with 3(3) consider "r \<noteq> Inr ()" "same_files s2 s'"
      | t where "r = Inr ()" "same_files s2 t" "s' = put_file ?p (md_text c (es ?p @ [e])) t"
      using write_file_cases [of ?p "md_text c (es ?p @ [e])" s2 r s'] rep by (auto simp: md_rep_def)
    then show ?case
    proof cases
      case 2
      have "md_rep c (es(?p := es ?p @ [e])) (put_file ?p (md_text c (es ?p @ [e])) t)"
      proof (rule md_rep_put [OF md_rep_same [OF rep 2(2)] l])
        show "\<forall>x \<in> set (es ?p @ [e]). md_writable x" using assms(2,3) by (simp add: md_rep_def)
        have "\<forall>p q. \<forall>x \<in> set (es p). \<forall>y \<in> set (es q). me_id x = me_id y \<longrightarrow> p = q \<and> x = y"
          using assms(2) by (simp add: md_rep_def)
        then show "\<forall>q. \<forall>x \<in> set (es ?p @ [e]). \<forall>y \<in> set (if q = ?p then es ?p @ [e] else es q).
            me_id x = me_id y \<longrightarrow> ?p = q \<and> x = y"
          using assms(4) by (auto; metis)
      qed
      then show ?thesis using 2 by simp
    qed (use s2(1) same_files_trans in blast)
  qed (use fs_check_same read_file_same same_files_trans in blast)+
qed

lemma mentions_first:
  assumes "md_codec_ok c" "md_writable e" "list_all printable i"
  shows "sublist (mark @ i @ '' '') (mark @ md_header e @ '' '' @ ''-->'') \<longleftrightarrow> i = me_id e"
proof
  let ?A = "md_header e @ '' '' @ ''-->''" and ?P = "mark @ i @ '' ''"
  assume s: "sublist ?P (mark @ ?A)"
  have n: "\<not> sublist mark ?A"
    using chunk_no_mark [OF assms(1,2)] sublist_append [of mark ?A "md_body c e"] by simp
  have "prefix ?P (mark @ ?A) \<or> sublist ?P (tl (mark @ ?A))" using s by (simp add: sublist_Cons_right)
  moreover have "\<not> sublist ?P (tl (mark @ ?A))"
  proof
    assume "sublist ?P (tl (mark @ ?A))"
    then have "sublist mark (tl (mark @ ?A))" by (metis sublist_left)
    then show False using n by (simp add: sublist_Cons_right)
  qed
  ultimately obtain y where "i @ CHR '' '' # y = ?A" by (auto simp: prefix_def)
  then show "i = me_id e"
    using delim_unique [of i "CHR '' ''" y "me_id e"] printable_no_blank assms(2,3)
    by (auto simp: md_header_def md_writable_def plain_word_def)
next
  assume "i = me_id e"
  then have "mark @ md_header e @ '' '' @ ''-->'' = (mark @ i @ '' '') @ drop (Suc (length i)) (md_header e @ '' '' @ ''-->'')"
    by (simp add: md_header_def)
  then show "sublist (mark @ i @ '' '') (mark @ md_header e @ '' '' @ ''-->'')"
    by (metis prefixI prefix_imp_sublist)
qed

text \<open>A file mentions an identifier exactly if it has an entry of that identifier.\<close>

lemma md_text_mentions:
  assumes "md_codec_ok c" "list_all printable i"
  shows "\<forall>e \<in> set es. md_writable e \<Longrightarrow>
    str_contains (mark @ i @ '' '') (md_text c es) \<longleftrightarrow> (\<exists>e \<in> set es. me_id e = i)"
proof (induction es)
  case Nil
  then show ?case by (simp add: str_lemmas)
next
  case (Cons e es)
  let ?P = "mark @ i @ '' ''" and ?A = "mark @ md_header e @ '' '' @ ''-->''" and ?B = "tl (md_body c e)"
  have e: "md_writable e" using Cons.prems by simp
  have nl: "CHR 10 \<notin> set ?P" using printable_newline [OF assms(2)] by simp
  have b: "md_body c e = CHR 10 # ?B" by (simp add: md_body_def)
  have "\<not> sublist mark ?B"
    using chunk_no_mark [OF assms(1) e] b sublist_append [of mark "md_header e @ '' '' @ ''-->'' @ [CHR 10]" ?B]
    by (metis append.assoc append_Cons append_Nil)
  then have B: "\<not> sublist ?P ?B" by (metis sublist_left)
  have one: "sublist ?P (entry_to_markdown c e) \<longleftrightarrow> me_id e = i"
    using sublist_delim [OF nl, of ?A ?B] B mentions_first [OF assms(1) e assms(2)] b
    by (metis entry_to_markdown_parts append.assoc)
  show ?case
  proof (cases es)
    case Nil
    then show ?thesis using one by (simp add: str_lemmas)
  next
    case (Cons e' es')
    then have "sublist ?P (md_text c (e # es)) \<longleftrightarrow> me_id e = i \<or> sublist ?P (md_text c es)"
      using sublist_delim [OF nl, of "entry_to_markdown c e" "md_text c es"] one by simp
    then show ?thesis using Cons.IH Cons.prems by (auto simp: str_lemmas)
  qed
qed

lemma entry_to_markdown_without [simp]: "entry_to_markdown c (without_metadata e) = entry_to_markdown c e"
  by (simp add: without_metadata_def entry_to_markdown_def)

lemma rewritten_text:
  "join nl (map (entry_to_markdown c) (filter (\<lambda>e. me_id e \<noteq> i) (map without_metadata es)))
    = md_text c (filter (\<lambda>e. me_id e \<noteq> i) es)"
  by (simp add: md_text_def filter_map comp_def)

lemma delete_in_cases:
  assumes "md_codec_ok c" "list_all printable i"
  shows "md_rep c es s \<Longrightarrow> set fs \<subseteq> set (md_paths s) \<Longrightarrow> delete_in c now i fs s = (r, s') \<Longrightarrow>
    r \<noteq> Inr () \<and> same_files s s' \<or>
    r = Inr () \<and> same_files s s' \<and> (\<forall>p \<in> set fs. \<forall>e \<in> set (es p). me_id e \<noteq> i) \<or>
    r = Inr () \<and> (\<exists>p. (\<exists>e \<in> set (es p). me_id e = i) \<and> md_rep c (es(p := filter (\<lambda>e. me_id e \<noteq> i) (es p))) s')"
proof (induction fs arbitrary: s)
  case (Cons f fs)
  from Cons.prems(3) show ?case unfolding delete_in.simps
  proof (elim then_ioE, goal_cases)
    case (1 e)
    then show ?case using read_file_same by blast
  next
    case (2 t s1)
    have f: "f \<in> set (md_paths s)" "text_of f s = md_text c (es f)" "\<forall>e \<in> set (es f). md_writable e"
      using Cons.prems(1,2) by (simp_all add: md_rep_def)
    have t: "same_files s s1" "t = md_text c (es f)" using read_file_same [OF 2(1)] f(2) by simp_all
    note rep = md_rep_same [OF Cons.prems(1) t(1)]
    show ?case
    proof (cases "\<exists>e \<in> set (es f). me_id e = i")
      case True
      let ?l = "filter (\<lambda>e. me_id e \<noteq> i) (es f)"
      from True have "write_file f (md_text c ?l) s1 = (r, s')"
        using 2(2) f(3) by (simp add: t(2) md_text_mentions [OF assms f(3), simplified] parse_entries_text [OF assms(1) f(3)] rewritten_text)
      then consider "r \<noteq> Inr ()" "same_files s1 s'"
        | u where "r = Inr ()" "same_files s1 u" "s' = put_file f (md_text c ?l) u"
        using write_file_cases [of f "md_text c ?l" s1 r s'] rep by (auto simp: md_rep_def)
      then show ?thesis
      proof cases
        case 2
        have "md_rep c (es(f := ?l)) (put_file f (md_text c ?l) u)"
          using Cons.prems(1) f(1,3)
          by (intro md_rep_put [OF md_rep_same [OF rep 2(2)]]) (auto simp: md_rep_def set_md_paths)
        then show ?thesis using 2 True by blast
      qed (use t(1) same_files_trans in blast)
    next
      case False
      then have "delete_in c now i fs s1 = (r, s')"
        using 2(2) by (simp add: t(2) md_text_mentions [OF assms f(3), simplified])
      from Cons.IH [OF rep _ this] Cons.prems(2) show ?thesis
        using False same_files_trans [OF t(1)] by (auto simp: same_filesD [OF t(1)])
    qed
  qed
qed simp

section \<open>When the file system answers\<close>

lemma entry_valid:
  assumes "md_codec_ok c" "md_writable e"
  shows "utf8_valid (entry_to_markdown c e)"
proof -
  have ts: "list_all printable (md_ts_text c t)" for t using assms(1) by (simp add: md_codec_ok_def)
  have i: "list_all printable (me_id e)" using assms(2) by (simp add: md_writable_def plain_word_def)
  have "utf8_valid (mark @ md_header e @ '' '' @ ''-->'')"
    using i session_printable [OF assms(2)] type_printable [of "me_type e"]
    by (intro utf8_valid_low) (auto simp: md_header_def list_all_iff printable_def byte_def)
  moreover have "utf8_valid (nl @ ''### '' @ md_ts_text c (me_timestamp e) @ '' ['' @ entry_type_to_str (me_type e) @ '']'' @ nl @ nl)"
    using ts [of "me_timestamp e"] type_printable [of "me_type e"]
    by (intro utf8_valid_low) (auto simp: list_all_iff printable_def byte_def)
  moreover have "utf8_valid (me_content e)" using assms(2) by (simp add: md_writable_def)
  ultimately have "utf8_valid ((mark @ md_header e @ '' '' @ ''-->'') @ (nl @ ''### '' @ md_ts_text c (me_timestamp e) @ '' ['' @
      entry_type_to_str (me_type e) @ '']'' @ nl @ nl) @ me_content e @ nl)"
    using utf8_valid_append utf8_valid_nl by blast
  then show ?thesis by (simp only: entry_to_markdown_parts md_body_def append.assoc)
qed

lemma md_text_valid: "md_codec_ok c \<Longrightarrow> \<forall>e \<in> set es. md_writable e \<Longrightarrow> utf8_valid (md_text c es)"
proof (induction es)
  case (Cons e es)
  then have e: "utf8_valid (entry_to_markdown c e)" and es: "utf8_valid (md_text c es)"
    using entry_valid by simp_all
  then have "utf8_valid (entry_to_markdown c e @ nl @ md_text c es)" by (intro utf8_valid_append utf8_valid_nl)
  then show ?case using e by (cases es) (simp_all del: utf8_valid.simps)
qed simp

lemma fs_answers:
  assumes "fs_script s = []"
  shows "fs_check s = (Inr (), s)" "write_file p t s = (Inr (), put_file p t s)"
    "utf8_valid (text_of p s) \<Longrightarrow> read_file p s = (Inr (text_of p s), s)"
  using assms by (auto simp: fs_check_def write_file_def read_file_def next_fs_def text_of_def split: option.splits)

lemma md_rep_valid:
  assumes "md_codec_ok c" "md_rep c es s"
  shows "p \<in> set (md_paths s) \<Longrightarrow> utf8_valid (text_of p s)" "md_listed p \<Longrightarrow> utf8_valid (text_of p s)"
proof -
  show *: "p \<in> set (md_paths s) \<Longrightarrow> utf8_valid (text_of p s)" for p
    using assms md_text_valid [OF assms(1)] by (simp add: md_rep_def)
  show "md_listed p \<Longrightarrow> utf8_valid (text_of p s)"
    using * [of p] by (cases "file_text p s") (auto simp: set_md_paths text_of_def)
qed

lemma files_answer:
  assumes "md_codec_ok c" "md_rep c es s" "fs_script s = []"
  shows "all_memory_files s = (Inr (md_paths s), s)"
    and "set fs \<subseteq> set (md_paths s) \<Longrightarrow>
      read_entries c now fs s = (Inr (concat (map (\<lambda>p. parse_entries c now (text_of p s)) fs)), s)"
    and "set fs \<subseteq> set (md_paths s) \<Longrightarrow> fst (delete_in c now i fs s) = Inr ()"
    and "fst (md_store c e s) = Inr ()"
proof -
  note fs = fs_answers [OF assms(3)]
  note v = md_rep_valid [OF assms(1,2)]
  show "all_memory_files s = (Inr (md_paths s), s)"
    by (simp add: all_memory_files_def then_io_def fs md_paths_def)
  show "set fs \<subseteq> set (md_paths s) \<Longrightarrow>
      read_entries c now fs s = (Inr (concat (map (\<lambda>p. parse_entries c now (text_of p s)) fs)), s)"
    by (induction fs) (simp_all add: then_io_def fs v)
  show "set fs \<subseteq> set (md_paths s) \<Longrightarrow> fst (delete_in c now i fs s) = Inr ()"
    by (induction fs) (simp_all add: then_io_def fs v)
  have "md_listed (md_file_of c e)"
    using assms(1) by (auto simp: md_file_of_def md_codec_ok_def has_md_extension_def ends_with_def suffix_def)
  then show "fst (md_store c e s) = Inr ()"
    by (simp add: md_store_def append_to_file_def then_io_def fs v)
qed

section \<open>What the backend keeps\<close>

text \<open>An operation that fails changes nothing, one that succeeds has its effect.\<close>

lemma md_store_effect:
  assumes "md_invar c s" "md_writable e" "md_contents c s (me_id e) = None" "md_store c e s = (r, s')"
  shows "md_invar c s' \<and> md_contents c s' = (if r = Inr () then (md_contents c s)(me_id e \<mapsto> without_metadata e) else md_contents c s)"
proof -
  from assms(1) obtain es where ok: "md_codec_ok c" "md_rep c es s" unfolding md_invar_def by blast
  let ?es = "es(md_file_of c e := es (md_file_of c e) @ [e])"
  have "\<forall>x \<in> set (md_all c 0 s). me_id x \<noteq> me_id e"
    using assms(3) by (auto simp: md_contents_def find_None_iff)
  then have fresh: "\<forall>p. \<forall>e' \<in> set (es p). me_id e' \<noteq> me_id e" by (auto simp: md_rep_set [OF ok])
  from md_store_cases [OF ok assms(2) fresh assms(4)] show ?thesis
  proof (elim disjE conjE)
    assume "r \<noteq> Inr ()" "same_files s s'"
    then show ?thesis using assms(1) md_rep_same [OF ok(2)] ok(1) by (auto simp: md_invar_def md_contents_def same_filesD)
  next
    assume r: "r = Inr ()" and rep: "md_rep c ?es s'"
    have "(\<Union>p. set (?es p)) = insert e (\<Union>p. set (es p))" by (auto split: if_splits)
    then have "set (md_all c 0 s') = insert (without_metadata e) (set (md_all c 0 s))"
      by (simp only: md_rep_set [OF ok] md_rep_set [OF ok(1) rep] image_insert)
    then have "md_contents c s' i = ((md_contents c s)(me_id e \<mapsto> without_metadata e)) i" for i
      using find_added [OF md_rep_unique [OF ok, of 0], of "md_all c 0 s'" "without_metadata e" i] fresh
      by (auto simp: md_contents_def md_rep_set [OF ok])
    then have "md_contents c s' = (md_contents c s)(me_id e \<mapsto> without_metadata e)" by blast
    then show ?thesis using r rep ok(1) by (auto simp: md_invar_def)
  qed
qed

lemma md_delete_effect:
  assumes "md_invar c s" "list_all printable i" "md_delete c now i s = (r, s')"
  shows "md_invar c s' \<and> md_contents c s' = (if r = Inr () then (md_contents c s)(i := None) else md_contents c s)"
proof -
  from assms(1) obtain es where ok: "md_codec_ok c" "md_rep c es s" unfolding md_invar_def by blast
  have same: "md_invar c s'" "md_contents c s' = md_contents c s" if "same_files s s'"
    using that assms(1) md_rep_same [OF ok(2)] ok(1) by (auto simp: md_invar_def md_contents_def same_filesD)
  have all: "es p = []" if "p \<notin> set (md_paths s)" for p using ok(2) that by (metis md_rep_def)
  from assms(3) consider "r \<noteq> Inr ()" "same_files s s'"
    | "r = Inr ()" "same_files s s'" "\<forall>p \<in> set (md_paths s). \<forall>e \<in> set (es p). me_id e \<noteq> i"
    | p where "r = Inr ()" "\<exists>e \<in> set (es p). me_id e = i" "md_rep c (es(p := filter (\<lambda>e. me_id e \<noteq> i) (es p))) s'"
    unfolding md_delete_def
  proof (elim then_ioE, goal_cases)
    case (1 e)
    then show ?case using all_memory_files_same by blast
  next
    case (2 fs s1)
    have s1: "same_files s s1" "fs = md_paths s1" using all_memory_files_same [OF 2(4)] by (auto simp: same_filesD(2))
    from delete_in_cases [OF ok(1) assms(2) md_rep_same [OF ok(2) s1(1)] _ 2(5)] show ?case
      using 2(1-3) same_files_trans [OF s1(1)] s1(2) by (auto simp: same_filesD [OF s1(1)])
  qed
  then show ?thesis
  proof cases
    case 2
    then have "\<forall>p. \<forall>e \<in> set (es p). me_id e \<noteq> i" using all by (metis empty_iff list.set(1))
    then have "md_contents c s i = None" by (auto simp: md_contents_def find_None_iff md_rep_set [OF ok])
    then show ?thesis using 2 same by (simp add: fun_upd_idem)
  next
    case (3 p)
    let ?es = "es(p := filter (\<lambda>e. me_id e \<noteq> i) (es p))"
    have "e \<in> set (es q) \<Longrightarrow> me_id e = i \<Longrightarrow> q = p" for e q using ok(2) 3(2) by (metis md_rep_def)
    then have "set (?es q) = {e \<in> set (es q). me_id e \<noteq> i}" for q by (cases "q = p") auto
    then have "(\<Union>q. set (?es q)) = {e \<in> (\<Union>q. set (es q)). me_id e \<noteq> i}" by (simp only:) blast
    then have "set (md_all c 0 s') = without_metadata ` {e \<in> (\<Union>q. set (es q)). me_id e \<noteq> i}"
      by (simp only: md_rep_set [OF ok(1) 3(3)])
    then have "set (md_all c 0 s') = {x \<in> set (md_all c 0 s). me_id x \<noteq> i}"
      by (auto simp: md_rep_set [OF ok])
    then have "md_contents c s' j = ((md_contents c s)(i := None)) j" for j
      using find_dropped [OF md_rep_unique [OF ok, of 0], of "md_all c 0 s'" i j] by (simp add: md_contents_def)
    then have "md_contents c s' = (md_contents c s)(i := None)" by blast
    then show ?thesis using 3 ok(1) by (auto simp: md_invar_def)
  qed (use same in simp)
qed


text \<open>A codec for the examples: time stamps are decimal numbers, all of one day.\<close>

definition sample_md :: md_codec where
  "sample_md = \<lparr>md_ts_text = plain_int, md_ts_parse = (\<lambda>s. case read_int s of Inl _ \<Rightarrow> None | Inr i \<Rightarrow> Some i),
     md_date = (\<lambda>_. ''2026-01-01''), md_lowercase = to_lowercase, md_alnum = list_all is_ascii_alphanumeric,
     md_ln = (\<lambda>_. 0)\<rparr>"

definition sample_entry :: "string \<Rightarrow> string \<Rightarrow> int \<Rightarrow> memory_entry" where
  "sample_entry i t n = \<lparr>me_id = i, me_content = t, me_metadata = JNull, me_timestamp = n, me_session_id = Some ''s'',
     me_type = Conversation\<rparr>"

definition no_files :: md_files where
  "no_files = \<lparr>daily_files = [], long_term_text = None, fs_script = []\<rparr>"

lemma sample_md_ok: "md_codec_ok sample_md"
proof -
  have "list_all printable (nat_str n)" for n using nat_str_digits [of n] by (auto simp: list_all_iff)
  moreover have "nat_str n \<noteq> []" for n using nat_str_digits [of n] by simp
  moreover have "md_ts_parse sample_md (md_ts_text sample_md t) = Some t" for t by (simp add: sample_md_def)
  ultimately show ?thesis unfolding md_codec_ok_def
    by (auto simp: sample_md_def plain_int_def printable_def byte_def)
qed

lemma no_files_invar: "md_invar sample_md no_files"
proof -
  have "md_rep sample_md (\<lambda>_. []) no_files" by (simp add: md_rep_def no_files_def md_paths_def hm_keys_def)
  then show ?thesis using sample_md_ok by (auto simp: md_invar_def)
qed


section \<open>What a search finds\<close>

lemma to_f32_pos: "0 < x \<Longrightarrow> 0 < to_f32 x"
proof -
  assume x: "0 < x"
  have "0 < round_even (x / 2 powi (ilog2 x - int 24 + 1))"
    using round_bits_frame(1) [OF x, of 24] by simp
  then show ?thesis unfolding round_bits_pos [OF x] by simp
qed

lemma count_f32_nonneg: "0 \<le> count_f32 n"
  by (simp add: count_f32_def round_bits_nonneg)

lemma count_f32_pos: "0 < n \<Longrightarrow> 0 < count_f32 n"
  unfolding count_f32_def by (rule to_f32_pos) simp

lemma term_frequency_pos: "0 \<le> term_frequency ws t" "0 < term_frequency ws t \<longleftrightarrow> t \<in> set ws"
proof -
  have "0 < term_frequency ws t" if "t \<in> set ws"
  proof -
    have "0 < count_f32 (count_list ws t)" by (rule count_f32_pos) (use that count_list_0_iff [of ws t] in simp)
    moreover have "0 < count_f32 (max (length ws) 1)" by (rule count_f32_pos) simp
    ultimately show ?thesis using that unfolding term_frequency_def by (simp add: to_f32_pos)
  qed
  then show "0 \<le> term_frequency ws t" "0 < term_frequency ws t \<longleftrightarrow> t \<in> set ws"
    by (auto simp: term_frequency_def)
qed

text \<open>The logarithm is taken of a number that is 1 at least.\<close>

lemma inverse_frequency_pos:
  assumes "\<forall>x \<ge> 1. 0 \<le> md_ln c x" "df \<le> docs"
  shows "0 < inverse_frequency c docs df"
proof (cases "0 < count_f32 df")
  case True
  let ?d = "to_f32 (count_f32 df + 1)" and ?n = "to_f32 (count_f32 docs + 1)"
  have "count_f32 df \<le> count_f32 docs" unfolding count_f32_def using assms(2) by (intro round_bits_mono) simp_all
  then have "?d \<le> ?n" using count_f32_nonneg [of df] by (intro round_bits_mono) simp_all
  moreover have d: "0 < ?d" using count_f32_nonneg [of df] by (intro to_f32_pos) simp
  ultimately have "1 \<le> ?n / ?d" by simp
  then have "to_f32 1 \<le> to_f32 (?n / ?d)" by (intro round_bits_mono) simp_all
  moreover have "to_f32 1 = 1" using round_bits_exact [of 1 1 0 24] by simp
  ultimately have "0 \<le> md_ln c (to_f32 (?n / ?d))" using assms(1) by simp
  then have "0 < to_f32 (md_ln c (to_f32 (?n / ?d)) + 1)" by (intro to_f32_pos) simp
  then show ?thesis using True by (simp add: inverse_frequency_def)
qed (simp add: inverse_frequency_def)

lemma rounded_sum_pos:
  assumes "\<forall>t. 0 \<le> g t"
  shows "0 \<le> a \<Longrightarrow> 0 \<le> foldl (\<lambda>a t. to_f32 (a + g t)) a ts \<and>
    (0 < foldl (\<lambda>a t. to_f32 (a + g t)) a ts \<longleftrightarrow> 0 < a \<or> (\<exists>t \<in> set ts. 0 < g t))"
proof (induction ts arbitrary: a)
  case (Cons t ts)
  have g: "0 \<le> g t" using assms by simp
  then have "0 \<le> to_f32 (a + g t)" using Cons.prems by (simp add: round_bits_nonneg)
  moreover have "0 < to_f32 (a + g t) \<longleftrightarrow> 0 < a \<or> 0 < g t"
    using to_f32_pos [of "a + g t"] Cons.prems g by (cases "a + g t = 0") auto
  ultimately show ?case using Cons.IH by auto
qed auto

lemma entry_score_pos:
  assumes "\<forall>x \<ge> 1. 0 \<le> md_ln c x"
  shows "0 \<le> entry_score c query docs ws" "0 < entry_score c query docs ws \<longleftrightarrow> (\<exists>t \<in> set query. t \<in> set ws)"
proof -
  let ?g = "\<lambda>t. to_f32 (term_frequency ws t * inverse_frequency c (length docs) (doc_freq docs t))"
  have i: "0 < inverse_frequency c (length docs) (doc_freq docs t)" for t
    by (rule inverse_frequency_pos [OF assms]) (simp add: doc_freq_def)
  have g: "\<forall>t. 0 \<le> ?g t" by (intro allI round_bits_nonneg mult_nonneg_nonneg term_frequency_pos(1) less_imp_le i)
  have p: "0 < ?g t \<longleftrightarrow> t \<in> set ws" for t
  proof (cases "t \<in> set ws")
    case True
    then have "0 < ?g t" using i by (intro to_f32_pos mult_pos_pos) (simp_all add: term_frequency_pos)
    then show ?thesis using True by simp
  qed (simp add: term_frequency_def)
  show "0 \<le> entry_score c query docs ws" "0 < entry_score c query docs ws \<longleftrightarrow> (\<exists>t \<in> set query. t \<in> set ws)"
    using rounded_sum_pos [OF g, of 0 query] unfolding entry_score_def p by simp_all
qed

definition relevance :: "md_codec \<Rightarrow> string list \<Rightarrow> f32 \<Rightarrow> memory_entry list \<Rightarrow> memory_entry \<Rightarrow> f32" where
  "relevance c query keyword es e =
     to_f32 (entry_score c query (map (\<lambda>e. tokenize c (me_content e)) es) (tokenize c (me_content e)) * keyword)"



section \<open>Where it is not a map\<close>

text \<open>A second entry with the identifier of the first is stored, but not found.\<close>

lemma second_store_unseen:
  "fst (md_get sample_md 0 ''a'' (snd (md_store sample_md (sample_entry ''a'' ''new'' 2)
     (snd (md_store sample_md (sample_entry ''a'' ''old'' 1) no_files)))))
   = Inr (Some (without_metadata (sample_entry ''a'' ''old'' 1)))"
  by code_simp

text \<open>A content that shows the mark of an entry is read as two entries.\<close>

lemma marked_content_split:
  "map me_id (parse_entries sample_md 0 (entry_to_markdown sample_md
     (sample_entry ''a'' ''see <!-- entry:b session:none type:skill -->'' 1))) = [''a'', ''b'']"
  by code_simp

text \<open>A deletion loses what is not an entry: a title, and an entry of a type that is not known.\<close>

lemma delete_drops_rest:
  "snd (md_delete sample_md 0 ''b'' \<lparr>daily_files = [], long_term_text =
      Some (''# Notes'' @ nl @ ''<!-- entry:a session:none type:note -->'' @ nl @ entry_to_markdown sample_md (sample_entry ''b'' ''hello'' 1)),
      fs_script = []\<rparr>)
   = \<lparr>daily_files = [], long_term_text = Some [], fs_script = []\<rparr>"
  by code_simp

text \<open>A write that is cut short loses the entries that were stored before.\<close>

lemma cut_write_loses_file:
  "md_store sample_md (sample_entry ''b'' ''x'' 2)
     ((snd (md_store sample_md (sample_entry ''a'' ''old'' 1) no_files))\<lparr>fs_script := [FsOk, FsOk, FsFails ''disk full'' (Some 0)]\<rparr>)
   = (Inl (Io ''disk full''), \<lparr>daily_files = [(''2026-01-01.md'', [])], long_term_text = None, fs_script = []\<rparr>)"
  by code_simp

text \<open>A search without words returns the oldest entries.\<close>

lemma empty_query_oldest_first:
  assumes "tokenize c q = []" "all_entries c now s = (Inr es, s')" "session_filter opts = None" "entry_type_filter opts = None"
  shows "md_search c now q opts s = (Inr (take (so_limit opts) es), s')"
  using assms by (simp add: md_search_def then_io_def hybrid_search_def)

end
