(* ===== verification/Channel_Access.thy ===== *)
theory Channel_Access
  imports Agent_Runtime Plain_Text
begin

text \<open>
  Who may talk to the agent. The adapters of the chat platforms
  (\<open>crates/skyclaw-channels/src/telegram.rs\<close>, \<open>discord.rs\<close>, \<open>slack.rs\<close>) keep the same allowlist and the same
  commands on it, each in a copy of its own; the definitions here are mapped to one of the copies.
  The TOML parser and printer are a parameter, and a script says how the coming attempts to save
  end. A lock is never poisoned, and the handling of one message is one step. The locale \<open>gatekeeper\<close>
  says what all of them have in common.
\<close>

section \<open>The allowlist and its file\<close>

record allowlist_file =
  al_admin :: string
  al_users :: "string list"

record toml_codec =
  al_print :: "allowlist_file \<Rightarrow> string"
  al_parse :: "string \<Rightarrow> allowlist_file option"

datatype save_fault = NoHome | DirFails string | WriteFails string "string option"

record access =
  allowed :: "string list"
  admin :: "string option"
  al_disk :: "string option"
  save_script :: "save_fault option list"

definition load_allowlist_file :: "toml_codec \<Rightarrow> string option \<Rightarrow> allowlist_file option" where
  "load_allowlist_file c disk = Option.bind disk (al_parse c)"

definition save_allowlist_file :: "toml_codec \<Rightarrow> allowlist_file \<Rightarrow> access \<Rightarrow> unit result \<times> access" where
  "save_allowlist_file c data a =
     (case save_script a of
        [] \<Rightarrow> (Inr (), a\<lparr>al_disk := Some (al_print c data)\<rparr>)
      | None # fs \<Rightarrow> (Inr (), a\<lparr>al_disk := Some (al_print c data), save_script := fs\<rparr>)
      | Some NoHome # fs \<Rightarrow> (Inl (Channel ''Cannot determine home directory for allowlist''), a\<lparr>save_script := fs\<rparr>)
      | Some (DirFails e) # fs \<Rightarrow> (Inl (Channel (''Failed to create ~/.skyclaw directory: '' @ e)), a\<lparr>save_script := fs\<rparr>)
      | Some (WriteFails e left) # fs \<Rightarrow>
          (Inl (Channel (''Failed to write allowlist file: '' @ e)), a\<lparr>al_disk := left, save_script := fs\<rparr>))"

definition persist_allowlist :: "toml_codec \<Rightarrow> access \<Rightarrow> unit result \<times> access" where
  "persist_allowlist c a = save_allowlist_file c
     \<lparr>al_admin = (case admin a of None \<Rightarrow> [] | Some i \<Rightarrow> i), al_users = allowed a\<rparr> a"

text \<open>The lists of a new channel: those of the file, or else those of the configuration.\<close>

definition access_new :: "toml_codec \<Rightarrow> string option \<Rightarrow> string list \<Rightarrow> save_fault option list \<Rightarrow> access" where
  "access_new c disk config faults =
     (case load_allowlist_file c disk of
        Some f \<Rightarrow> \<lparr>allowed = al_users f, admin = Some (al_admin f), al_disk = disk, save_script = faults\<rparr>
      | None \<Rightarrow> \<lparr>allowed = config, admin = (case config of [] \<Rightarrow> None | i # _ \<Rightarrow> Some i), al_disk = disk, save_script = faults\<rparr>)"

definition check_allowed :: "access \<Rightarrow> string \<Rightarrow> bool" where
  "check_allowed a i \<longleftrightarrow> allowed a \<noteq> [] \<and> i \<in> set (allowed a)"

text \<open>The first user to write becomes the administrator.\<close>

definition auto_whitelist :: "toml_codec \<Rightarrow> string \<Rightarrow> access \<Rightarrow> access" where
  "auto_whitelist c i a =
     (if allowed a = [] then snd (persist_allowlist c (a\<lparr>allowed := [i], admin := Some i\<rparr>)) else a)"

section \<open>Commands\<close>

definition is_admin_command :: "string \<Rightarrow> bool" where
  "is_admin_command t \<longleftrightarrow> starts_with ''/allow '' t \<or> starts_with ''/revoke '' t \<or> t = ''/users''"

definition users_reply :: "access \<Rightarrow> string" where
  "users_reply a =
     (let admin_id = (case admin a of None \<Rightarrow> [] | Some i \<Rightarrow> i)
      in if allowed a = [] then ''Allowlist is empty.''
         else ''Allowed users:'' @ nl @ join nl (map (\<lambda>i. if i = admin_id then i @ '' (admin)'' else i) (allowed a)))"

definition allow_user :: "toml_codec \<Rightarrow> string \<Rightarrow> access \<Rightarrow> string \<times> access" where
  "allow_user c t a =
     (let target = trim t in
      if target = [] then (''Usage: /allow <user_id>'', a)
      else if target \<in> set (allowed a) then (''User '' @ target @ '' is already allowed.'', a)
      else case persist_allowlist c (a\<lparr>allowed := allowed a @ [target]\<rparr>) of
          (Inl e, a') \<Rightarrow> (''User '' @ target @ '' added (but failed to save to disk: '' @ show_error e @ '').'', a')
        | (Inr _, a') \<Rightarrow> (''User '' @ target @ '' added to the allowlist.'', a'))"

definition revoke_user :: "toml_codec \<Rightarrow> string \<Rightarrow> string \<Rightarrow> access \<Rightarrow> string \<times> access" where
  "revoke_user c i t a =
     (let target = trim t in
      if target = [] then (''Usage: /revoke <user_id>'', a)
      else if target = i then (''You cannot revoke yourself.'', a)
      else let left = filter (\<lambda>u. u \<noteq> target) (allowed a) in
        if \<not> length left < length (allowed a) then (''User '' @ target @ '' is not on the allowlist.'', a\<lparr>allowed := left\<rparr>)
        else case persist_allowlist c (a\<lparr>allowed := left\<rparr>) of
            (Inl e, a') \<Rightarrow> (''User '' @ target @ '' revoked (but failed to save to disk: '' @ show_error e @ '').'', a')
          | (Inr _, a') \<Rightarrow> (''User '' @ target @ '' removed from the allowlist.'', a'))"

text \<open>The command \<open>t\<close> of the user \<open>i\<close>, with the reply.\<close>

definition admin_command :: "toml_codec \<Rightarrow> string \<Rightarrow> string \<Rightarrow> access \<Rightarrow> string \<times> access" where
  "admin_command c i t a =
     (if admin a \<noteq> Some i then (''Only the admin can use this command.'', a)
      else if t = ''/users'' then (users_reply a, a)
      else case strip_prefix ''/allow '' t of
          Some target \<Rightarrow> allow_user c target a
        | None \<Rightarrow> (case strip_prefix ''/revoke '' t of Some target \<Rightarrow> revoke_user c i target a | None \<Rightarrow> ([], a)))"

section \<open>What a command changes\<close>

definition gate :: "access \<Rightarrow> string list \<times> string option" where
  "gate a = (allowed a, admin a)"

lemma persist_gate [simp]:
  "gate (snd (persist_allowlist c a)) = gate a"
  "allowed (snd (persist_allowlist c a)) = allowed a" "admin (snd (persist_allowlist c a)) = admin a"
  by (simp_all add: gate_def persist_allowlist_def save_allowlist_file_def split: list.split option.split save_fault.split)

text \<open>The first sender enters an empty list, as the administrator.\<close>

definition enter :: "string \<Rightarrow> string list \<times> string option \<Rightarrow> string list \<times> string option" where
  "enter i g = (if fst g = [] then ([i], Some i) else g)"

lemma auto_whitelist_gate [simp]: "gate (auto_whitelist c i a) = enter i (gate a)"
  by (simp add: auto_whitelist_def enter_def gate_def)

text \<open>What the command \<open>t\<close> of the administrator \<open>i\<close> says about the user \<open>u\<close>.\<close>

definition ruling :: "string \<Rightarrow> string \<Rightarrow> string \<Rightarrow> bool option" where
  "ruling i t u =
     (case strip_prefix ''/allow '' t of
        Some r \<Rightarrow> if trim r = u \<and> u \<noteq> [] then Some True else None
      | None \<Rightarrow> (case strip_prefix ''/revoke '' t of
          Some r \<Rightarrow> if trim r = u \<and> u \<noteq> [] \<and> u \<noteq> i then Some False else None
        | None \<Rightarrow> None))"

lemma ruling_self: "ruling i t i = None \<or> ruling i t i = Some True"
  by (simp add: ruling_def split: option.split)

lemma allow_user_set:
  "u \<in> set (allowed (snd (allow_user c r a))) \<longleftrightarrow> u \<in> set (allowed a) \<or> trim r = u \<and> u \<noteq> []"
  "admin (snd (allow_user c r a)) = admin a"
proof -
  obtain x a' where p: "persist_allowlist c (a\<lparr>allowed := allowed a @ [trim r]\<rparr>) = (x, a')" by fastforce
  then have "allowed a' = allowed a @ [trim r]" "admin a' = admin a"
    using persist_gate [of c "a\<lparr>allowed := allowed a @ [trim r]\<rparr>"] by simp_all
  then show "u \<in> set (allowed (snd (allow_user c r a))) \<longleftrightarrow> u \<in> set (allowed a) \<or> trim r = u \<and> u \<noteq> []"
    "admin (snd (allow_user c r a)) = admin a"
    using p by (auto simp: allow_user_def Let_def split: sum.split)
qed

lemma revoke_user_set:
  "u \<in> set (allowed (snd (revoke_user c i r a))) \<longleftrightarrow> u \<in> set (allowed a) \<and> \<not> (trim r = u \<and> u \<noteq> [] \<and> u \<noteq> i)"
  "admin (snd (revoke_user c i r a)) = admin a"
proof -
  let ?l = "filter (\<lambda>u. u \<noteq> trim r) (allowed a)"
  obtain x a' where p: "persist_allowlist c (a\<lparr>allowed := ?l\<rparr>) = (x, a')" by fastforce
  then have "allowed a' = ?l" "admin a' = admin a"
    using persist_gate [of c "a\<lparr>allowed := ?l\<rparr>"] by simp_all
  then show "u \<in> set (allowed (snd (revoke_user c i r a))) \<longleftrightarrow> u \<in> set (allowed a) \<and> \<not> (trim r = u \<and> u \<noteq> [] \<and> u \<noteq> i)"
    "admin (snd (revoke_user c i r a)) = admin a"
    using p by (auto simp: revoke_user_def Let_def split: sum.split)
qed

lemma admin_command_set:
  assumes "is_admin_command t"
  shows "admin (snd (admin_command c i t a)) = admin a"
    and "u \<in> set (allowed (snd (admin_command c i t a))) \<longleftrightarrow>
      (case (if admin a = Some i then ruling i t u else None) of None \<Rightarrow> u \<in> set (allowed a) | Some v \<Rightarrow> v)"
  using assms by (auto simp: admin_command_def ruling_def allow_user_set revoke_user_set is_admin_command_def starts_with_def
      strip_prefix_def split: option.splits)

section \<open>The gatekeeper\<close>

text \<open>
  What an adapter does with a message: nothing if it does not listen to it, nothing but the entry of
  the first sender if the sender is not on the list, what the command says if it is one, and
  otherwise, if there is something wanted in it, forward it.
\<close>

locale gatekeeper =
  fixes step :: "'m \<Rightarrow> 's \<Rightarrow> inbound_message list \<times> 's"
    and access_of :: "'s \<Rightarrow> access"
    and heard :: "'m \<Rightarrow> bool"
    and sender :: "'m \<Rightarrow> string"
    and command :: "'m \<Rightarrow> string option"
    and wanted :: "'m \<Rightarrow> bool"
  assumes deaf: "\<not> heard m \<Longrightarrow> fst (step m s) = [] \<and> gate (access_of (snd (step m s))) = gate (access_of s)"
    and stranger: "heard m \<Longrightarrow> enter (sender m) (gate (access_of s)) = (l, a) \<Longrightarrow> sender m \<notin> set l \<Longrightarrow>
      fst (step m s) = [] \<and> gate (access_of (snd (step m s))) = (l, a)"
    and obeyed: "heard m \<Longrightarrow> enter (sender m) (gate (access_of s)) = (l, a) \<Longrightarrow> sender m \<in> set l \<Longrightarrow> command m = Some t \<Longrightarrow>
      fst (step m s) = [] \<and> admin (access_of (snd (step m s))) = a \<and>
      (u \<in> set (allowed (access_of (snd (step m s)))) \<longleftrightarrow>
        (case (if a = Some (sender m) then ruling (sender m) t u else None) of None \<Rightarrow> u \<in> set l | Some v \<Rightarrow> v))"
    and passed: "heard m \<Longrightarrow> enter (sender m) (gate (access_of s)) = (l, a) \<Longrightarrow> sender m \<in> set l \<Longrightarrow> command m = None \<Longrightarrow>
      gate (access_of (snd (step m s))) = (l, a) \<and> (fst (step m s) \<noteq> [] \<longleftrightarrow> wanted m) \<and>
      (\<forall>x \<in> set (fst (step m s)). in_user_id x = sender m)"

text \<open>The last word of the messages \<open>ms\<close> on a question, where \<open>b\<close> is the answer before them.\<close>

fun standing :: "('m \<Rightarrow> bool option) \<Rightarrow> bool \<Rightarrow> 'm list \<Rightarrow> bool" where
  "standing v b [] = b"
| "standing v b (m # ms) = standing v (case v m of None \<Rightarrow> b | Some x \<Rightarrow> x) ms"

definition verdict :: "('m \<Rightarrow> bool) \<Rightarrow> ('m \<Rightarrow> string) \<Rightarrow> ('m \<Rightarrow> string option) \<Rightarrow> string \<Rightarrow> string \<Rightarrow> 'm \<Rightarrow> bool option" where
  "verdict heard sender command a u m = (if heard m \<and> sender m = a then Option.bind (command m) (\<lambda>t. ruling a t u) else None)"

definition run_steps :: "('m \<Rightarrow> 's \<Rightarrow> 'x \<times> 's) \<Rightarrow> 'm list \<Rightarrow> 's \<Rightarrow> 's" where
  "run_steps step ms s = fold (\<lambda>m s. snd (step m s)) ms s"

lemma run_steps_simps [simp]:
  "run_steps step [] s = s" "run_steps step (m # ms) s = run_steps step ms (snd (step m s))"
  by (simp_all add: run_steps_def)

context gatekeeper
begin

lemma step_list:
  assumes "admin (access_of s) = Some a" "a \<in> set (allowed (access_of s))"
  shows "admin (access_of (snd (step m s))) = Some a \<and> a \<in> set (allowed (access_of (snd (step m s)))) \<and>
    (u \<in> set (allowed (access_of (snd (step m s)))) \<longleftrightarrow>
      (case verdict heard sender command a u m of None \<Rightarrow> u \<in> set (allowed (access_of s)) | Some v \<Rightarrow> v))"
proof -
  let ?l = "allowed (access_of s)" and ?s' = "snd (step m s)"
  have e: "enter (sender m) (gate (access_of s)) = (?l, Some a)" using assms by (auto simp: enter_def gate_def)
  consider "\<not> heard m" | "heard m" "sender m \<notin> set ?l" | "heard m" "sender m \<in> set ?l" "command m = None"
    | t where "heard m" "sender m \<in> set ?l" "command m = Some t" by blast
  then show ?thesis
  proof cases
    case 1
    then show ?thesis using deaf [of m s] assms by (simp add: gate_def verdict_def)
  next
    case 2
    then show ?thesis using stranger [OF 2(1) e 2(2)] assms by (auto simp: gate_def verdict_def)
  next
    case 3
    then show ?thesis using passed [OF 3(1) e 3(2,3)] assms by (auto simp: gate_def verdict_def)
  next
    case (4 t)
    note o = obeyed [OF 4(1) e 4(2,3)]
    have "a \<in> set (allowed (access_of ?s'))" using o [of a] assms(2) ruling_self [of a t] by auto
    then show ?thesis using o [of u] 4 by (auto simp: verdict_def split: option.splits)
  qed
qed

lemma run_list:
  assumes "admin (access_of s) = Some a" "a \<in> set (allowed (access_of s))"
  shows "admin (access_of (run_steps step ms s)) = Some a \<and> a \<in> set (allowed (access_of (run_steps step ms s))) \<and>
    (u \<in> set (allowed (access_of (run_steps step ms s))) \<longleftrightarrow>
      standing (verdict heard sender command a u) (u \<in> set (allowed (access_of s))) ms)"
  using assms
proof (induction ms arbitrary: s)
  case (Cons m ms)
  note n = step_list [OF Cons.prems, of m]
  have "admin (access_of (snd (step m s))) = Some a" "a \<in> set (allowed (access_of (snd (step m s))))"
    using n [of a] by simp_all
  from Cons.IH [OF this] show ?case using n [of u] by (auto split: option.splits)
qed simp

lemma admitted_iff:
  assumes "admin (access_of s) = Some a" "a \<in> set (allowed (access_of s))"
  shows "fst (step m (run_steps step ms s)) \<noteq> [] \<longleftrightarrow> heard m \<and> wanted m \<and> command m = None \<and>
    standing (verdict heard sender command a (sender m)) (sender m \<in> set (allowed (access_of s))) ms"
proof -
  let ?s = "run_steps step ms s"
  note r = run_list [OF assms, of ms "sender m"]
  have e: "enter (sender m) (gate (access_of ?s)) = (allowed (access_of ?s), Some a)" using r by (auto simp: enter_def gate_def)
  show ?thesis
    using deaf [of m ?s] stranger [OF _ e] obeyed [OF _ e] passed [OF _ e] r by (cases "heard m"; cases "command m") auto
qed

text \<open>With an empty list, the first message decides who the administrator is.\<close>

lemma first_sender_administers:
  assumes "allowed (access_of s) = []" "heard m"
  shows "admin (access_of (snd (step m s))) = Some (sender m) \<and> sender m \<in> set (allowed (access_of (snd (step m s))))"
proof -
  have e: "enter (sender m) (gate (access_of s)) = ([sender m], Some (sender m))"
    using assms(1) by (simp add: enter_def gate_def)
  show ?thesis
  proof (cases "command m")
    case (Some t)
    then show ?thesis using obeyed [OF assms(2) e _ Some, of "sender m"] ruling_self [of "sender m" t] by auto
  qed (use passed [OF assms(2) e] in \<open>simp add: gate_def\<close>)
qed

end

end
