(* ===== verification/Channels.thy ===== *)
theory Channels
  imports Channel_Access
begin

text \<open>
  The adapters of the chat platforms (\<open>crates/skyclaw-channels/src\<close>): from a platform's message to the
  message the agent sees, behind the allowlist, and from a reply to the pieces a platform accepts.
  What the platforms' crates deliver is a record of the fields the code reads; whether a reply can be
  sent and whether the queue to the dispatcher is open are parameters. Connecting, the flag that
  ends the polling, and the transfer of files over the network are left out.
\<close>

datatype channel_effect = Reply string | Forward inbound_message

definition forwarded :: "channel_effect list \<Rightarrow> inbound_message list" where
  "forwarded es = List.map_filter (\<lambda>e. case e of Forward m \<Rightarrow> Some m | Reply _ \<Rightarrow> None) es"

section \<open>Telegram\<close>

datatype tg_media =
    TgDocument string "string option" "string option" nat
  | TgPhoto "(string \<times> u32 \<times> u32 \<times> nat) list"
  | TgAudio string "string option" "string option" nat
  | TgVoice string "string option" nat
  | TgVideo string "string option" "string option" nat
  | TgVideoNote string nat
  | TgOther

record tg_message =
  tg_from :: "(nat \<times> string option) option"
  tg_chat :: int
  tg_id :: int
  tg_text :: "string option"
  tg_media :: tg_media
  tg_reply_to :: "int option"
  tg_date :: int

text \<open>\<open>max_by_key\<close>: the last one of those with the largest key.\<close>

definition largest_photo :: "(string \<times> u32 \<times> u32 \<times> nat) list \<Rightarrow> (string \<times> u32 \<times> u32 \<times> nat) option" where
  "largest_photo ps = fold (\<lambda>p b. case b of None \<Rightarrow> Some p
     | Some q \<Rightarrow> (case (p, q) of ((_, w, h, _), (_, w', h', _)) \<Rightarrow> if w' * h' \<le> w * h then Some p else Some q)) ps None"

fun tg_attachments :: "tg_media \<Rightarrow> attachment_ref list" where
  "tg_attachments (TgDocument i n t z) = [\<lparr>att_file_id = i, att_file_name = n, att_mime_type = t, att_size = Some z\<rparr>]"
| "tg_attachments (TgPhoto ps) = (case largest_photo ps of None \<Rightarrow> []
     | Some (i, _, _, z) \<Rightarrow> [\<lparr>att_file_id = i, att_file_name = Some ''photo.jpg'', att_mime_type = Some ''image/jpeg'', att_size = Some z\<rparr>])"
| "tg_attachments (TgAudio i n t z) = [\<lparr>att_file_id = i, att_file_name = n, att_mime_type = t, att_size = Some z\<rparr>]"
| "tg_attachments (TgVoice i t z) = [\<lparr>att_file_id = i, att_file_name = Some ''voice.ogg'', att_mime_type = t, att_size = Some z\<rparr>]"
| "tg_attachments (TgVideo i n t z) = [\<lparr>att_file_id = i, att_file_name = n, att_mime_type = t, att_size = Some z\<rparr>]"
| "tg_attachments (TgVideoNote i z) =
     [\<lparr>att_file_id = i, att_file_name = Some ''video_note.mp4'', att_mime_type = Some ''video/mp4'', att_size = Some z\<rparr>]"
| "tg_attachments TgOther = []"

definition tg_user :: "tg_message \<Rightarrow> string" where
  "tg_user m = (case tg_from m of None \<Rightarrow> ''unknown'' | Some (i, _) \<Rightarrow> nat_str i)"

definition tg_command :: "tg_message \<Rightarrow> string option" where
  "tg_command m = (case tg_text m of None \<Rightarrow> None
     | Some t \<Rightarrow> let t' = trim t in if is_admin_command t' then Some t' else None)"

definition tg_inbound :: "tg_message \<Rightarrow> inbound_message" where
  "tg_inbound m = \<lparr>in_id = plain_int (tg_id m), in_channel = ''telegram'', in_chat_id = plain_int (tg_chat m),
     in_user_id = tg_user m, in_username = Option.bind (tg_from m) snd, in_text = tg_text m,
     in_attachments = tg_attachments (tg_media m), in_reply_to = map_option plain_int (tg_reply_to m),
     in_timestamp = tg_date m\<rparr>"

definition handle_telegram_message :: "toml_codec \<Rightarrow> (string \<Rightarrow> string option) \<Rightarrow> bool \<Rightarrow> tg_message \<Rightarrow> access \<Rightarrow>
    unit result \<times> channel_effect list \<times> access" where
  "handle_telegram_message c reply_fails queue_open m a =
     (let i = tg_user m; a1 = auto_whitelist c i a
      in if i \<notin> set (allowed a1) then (Inr (), [], a1)
         else case tg_command m of
             Some t \<Rightarrow> (case admin_command c i t a1 of (reply, a2) \<Rightarrow>
                (case reply_fails reply of
                   None \<Rightarrow> (Inr (), [Reply reply], a2)
                 | Some e \<Rightarrow> (Inl (Channel (''Failed to send admin-command reply: '' @ e)), [], a2)))
           | None \<Rightarrow> if queue_open then (Inr (), [Forward (tg_inbound m)], a1)
               else (Inl (Channel ''Inbound message receiver dropped''), [], a1))"

section \<open>Discord\<close>

record dc_attachment =
  dc_url :: string
  dc_filename :: string
  dc_content_type :: "string option"
  dc_size :: nat

record dc_message =
  dc_bot :: bool
  dc_author :: nat
  dc_author_name :: string
  dc_guild :: "nat option"
  dc_mentions :: "nat list"
  dc_content :: string
  dc_id :: nat
  dc_channel :: nat
  dc_attachments :: "dc_attachment list"
  dc_referenced :: "nat option"
  dc_timestamp :: int

record discord_handler =
  respond_to_dms :: bool
  respond_to_mentions :: bool
  current_user :: nat

text \<open>Messages of bots are ignored, and in a guild those that do not mention the bot.\<close>

definition dc_heard :: "discord_handler \<Rightarrow> dc_message \<Rightarrow> bool" where
  "dc_heard d m \<longleftrightarrow> \<not> dc_bot m \<and>
     (if dc_guild m = None then respond_to_dms d else respond_to_mentions d \<and> current_user d \<in> set (dc_mentions m))"

definition dc_user :: "dc_message \<Rightarrow> string" where
  "dc_user m = nat_str (dc_author m)"

definition dc_command :: "dc_message \<Rightarrow> string option" where
  "dc_command m =
     (let t = trim (case strip_prefix ''!'' (dc_content m) of Some r \<Rightarrow> r | None \<Rightarrow> dc_content m)
      in if is_admin_command t then Some t else None)"

definition dc_text :: "discord_handler \<Rightarrow> dc_message \<Rightarrow> string option" where
  "dc_text d m =
     (let n = nat_str (current_user d);
          cleaned = trim (if dc_guild m = None then dc_content m
            else str_replace (''<@!'' @ n @ ''>'') [] (str_replace (''<@'' @ n @ ''>'') [] (dc_content m)))
      in if cleaned = [] then None else Some cleaned)"

definition dc_attachment_refs :: "dc_message \<Rightarrow> attachment_ref list" where
  "dc_attachment_refs m = map (\<lambda>a. \<lparr>att_file_id = dc_url a, att_file_name = Some (dc_filename a),
     att_mime_type = dc_content_type a, att_size = Some (dc_size a)\<rparr>) (dc_attachments m)"

definition dc_inbound :: "discord_handler \<Rightarrow> dc_message \<Rightarrow> inbound_message" where
  "dc_inbound d m = \<lparr>in_id = nat_str (dc_id m), in_channel = ''discord'', in_chat_id = nat_str (dc_channel m),
     in_user_id = dc_user m, in_username = Some (dc_author_name m), in_text = dc_text d m,
     in_attachments = dc_attachment_refs m, in_reply_to = map_option nat_str (dc_referenced m),
     in_timestamp = dc_timestamp m\<rparr>"

definition dc_run_command :: "toml_codec \<Rightarrow> (string \<Rightarrow> string option) \<Rightarrow> string \<Rightarrow> string \<Rightarrow> access \<Rightarrow> channel_effect list \<times> access" where
  "dc_run_command c reply_fails i t a =
     (case admin_command c i t a of (reply, a') \<Rightarrow> (if reply_fails reply = None then [Reply reply] else [], a'))"

definition discord_message :: "toml_codec \<Rightarrow> discord_handler \<Rightarrow> (string \<Rightarrow> string option) \<Rightarrow> bool \<Rightarrow> dc_message \<Rightarrow> access \<Rightarrow>
    channel_effect list \<times> access" where
  "discord_message c d reply_fails queue_open m a =
     (if \<not> dc_heard d m then ([], a)
      else let i = dc_user m; a1 = auto_whitelist c i a
        in if i \<notin> set (allowed a1) then ([], a1)
           else case dc_command m of
               Some t \<Rightarrow> dc_run_command c reply_fails i t a1
             | None \<Rightarrow> if dc_text d m = None \<and> dc_attachment_refs m = [] then ([], a1)
                 else (if queue_open then [Forward (dc_inbound d m)] else [], a1))"

section \<open>Slack\<close>

record slack_file =
  sf_name :: "string option"
  sf_mimetype :: "string option"
  sf_size :: "nat option"
  sf_url_private :: "string option"

record slack_message =
  sk_ts :: string
  sk_user :: "string option"
  sk_text :: string
  sk_files :: "slack_file list"
  sk_thread_ts :: "string option"
  sk_bot_id :: "string option"

record slack_state =
  sk_access :: access
  sk_latest :: "(string, string) hmap"

definition update_latest_ts :: "string \<Rightarrow> string \<Rightarrow> slack_state \<Rightarrow> slack_state" where
  "update_latest_ts convo ts s =
     (case hm_get (sk_latest s) convo of
        Some c \<Rightarrow> if c < ts then s\<lparr>sk_latest := hm_insert convo ts (sk_latest s)\<rparr> else s
      | None \<Rightarrow> s\<lparr>sk_latest := hm_insert convo ts (sk_latest s)\<rparr>)"

text \<open>\<open>parse::<i64>\<close>.\<close>

definition parse_i64 :: "string \<Rightarrow> int option" where
  "parse_i64 s = (case strip_prefix ''-'' s of
      Some t \<Rightarrow> if t = [] then None
        else (case digits_val 0 t of None \<Rightarrow> None | Some n \<Rightarrow> if n \<le> 2 ^ 63 then Some (- int n) else None)
    | None \<Rightarrow> map_option int (parse_uint 63 s))"

text \<open>\<open>from_timestamp\<close> is \<open>chrono\<close>'s; the multiplication wraps in 32 bits.\<close>

definition parse_slack_ts :: "(int \<Rightarrow> nat \<Rightarrow> int option) \<Rightarrow> string \<Rightarrow> int option" where
  "parse_slack_ts from_timestamp ts =
     (let parts = split_on (\<lambda>c. c = CHR ''.'') ts
      in case parts of [] \<Rightarrow> None
       | p # ps \<Rightarrow> (case parse_i64 p of None \<Rightarrow> None
          | Some sec \<Rightarrow> (case ps of [] \<Rightarrow> from_timestamp sec 0
             | q # _ \<Rightarrow> (case parse_uint 32 q of None \<Rightarrow> None
                 | Some us \<Rightarrow> from_timestamp sec (us * 1000 mod 2 ^ 32)))))"

definition extract_slack_attachments :: "slack_message \<Rightarrow> attachment_ref list" where
  "extract_slack_attachments m = List.map_filter (\<lambda>f. map_option (\<lambda>url.
     \<lparr>att_file_id = url, att_file_name = sf_name f, att_mime_type = sf_mimetype f, att_size = sf_size f\<rparr>)
     (sf_url_private f)) (sk_files m)"

definition slack_text :: "slack_message \<Rightarrow> string option" where
  "slack_text m = (if trim (sk_text m) = [] then None else Some (sk_text m))"

definition slack_inbound :: "(int \<Rightarrow> nat \<Rightarrow> int option) \<Rightarrow> int \<Rightarrow> string \<Rightarrow> string \<Rightarrow> slack_message \<Rightarrow> inbound_message" where
  "slack_inbound from_timestamp now convo i m = \<lparr>in_id = sk_ts m, in_channel = ''slack'', in_chat_id = convo,
     in_user_id = i, in_username = None, in_text = slack_text m, in_attachments = extract_slack_attachments m,
     in_reply_to = sk_thread_ts m,
     in_timestamp = (case parse_slack_ts from_timestamp (sk_ts m) of None \<Rightarrow> now | Some t \<Rightarrow> t)\<rparr>"

record slack_env =
  sk_codec :: toml_codec
  sk_from_timestamp :: "int \<Rightarrow> nat \<Rightarrow> int option"
  sk_now :: int
  sk_bot_user :: "string option"
  sk_queue_open :: bool

text \<open>One message of a conversation: what is forwarded, the state, and whether polling goes on.\<close>

definition slack_message_step :: "slack_env \<Rightarrow> string \<Rightarrow> slack_message \<Rightarrow> slack_state \<Rightarrow> channel_effect list \<times> slack_state \<times> bool" where
  "slack_message_step env convo m s =
     (case sk_bot_id m of
        Some _ \<Rightarrow> ([], update_latest_ts convo (sk_ts m) s, True)
      | None \<Rightarrow> (case sk_user m of
          None \<Rightarrow> ([], update_latest_ts convo (sk_ts m) s, True)
        | Some i \<Rightarrow>
            if sk_bot_user env = Some i then ([], update_latest_ts convo (sk_ts m) s, True)
            else let s1 = s\<lparr>sk_access := auto_whitelist (sk_codec env) i (sk_access s)\<rparr>
              in if i \<notin> set (allowed (sk_access s1)) then ([], update_latest_ts convo (sk_ts m) s1, True)
                 else if slack_text m = None \<and> extract_slack_attachments m = []
                 then ([], update_latest_ts convo (sk_ts m) s1, True)
                 else if \<not> sk_queue_open env then ([], s1, False)
                 else ([Forward (slack_inbound (sk_from_timestamp env) (sk_now env) convo i m)],
                       update_latest_ts convo (sk_ts m) s1, True)))"

fun slack_messages :: "slack_env \<Rightarrow> string \<Rightarrow> slack_message list \<Rightarrow> slack_state \<Rightarrow> channel_effect list \<times> slack_state \<times> bool" where
  "slack_messages env convo [] s = ([], s, True)"
| "slack_messages env convo (m # ms) s =
     (case slack_message_step env convo m s of
        (es, s', False) \<Rightarrow> (es, s', False)
      | (es, s', True) \<Rightarrow> (case slack_messages env convo ms s' of (es', s'', go) \<Rightarrow> (es @ es', s'', go)))"

text \<open>
  \<open>fetch_conversation_history\<close> answers with the messages newest first, which are reversed; a failure
  skips the conversation. A round goes over the conversations.
\<close>

fun slack_round :: "slack_env \<Rightarrow> string \<Rightarrow> (string \<Rightarrow> string \<Rightarrow> skyclaw_error + slack_message list) \<Rightarrow> string list \<Rightarrow> slack_state \<Rightarrow>
    channel_effect list \<times> slack_state \<times> bool" where
  "slack_round env startup fetch [] s = ([], s, True)"
| "slack_round env startup fetch (convo # cs) s =
     (let oldest = (case hm_get (sk_latest s) convo of None \<Rightarrow> startup | Some t \<Rightarrow> t)
      in case fetch convo oldest of
           Inl e \<Rightarrow> slack_round env startup fetch cs s
         | Inr newest_first \<Rightarrow> (case slack_messages env convo (rev newest_first) s of
               (es, s', False) \<Rightarrow> (es, s', False)
             | (es, s', True) \<Rightarrow> (case slack_round env startup fetch cs s' of (es', s'', go) \<Rightarrow> (es @ es', s'', go))))"

text \<open>The polling loop; each round has its own answers and conversations.\<close>

fun slack_rounds :: "slack_env \<Rightarrow> string \<Rightarrow> ((string \<Rightarrow> string \<Rightarrow> skyclaw_error + slack_message list) \<times> string list) list \<Rightarrow>
    slack_state \<Rightarrow> channel_effect list \<times> slack_state \<times> bool" where
  "slack_rounds env startup [] s = ([], s, True)"
| "slack_rounds env startup (r # rs) s =
     (case slack_round env startup (fst r) (snd r) s of
        (es, s', False) \<Rightarrow> (es, s', False)
      | (es, s', True) \<Rightarrow> (case slack_rounds env startup rs s' of (es', s'', go) \<Rightarrow> (es @ es', s'', go)))"

section \<open>Replies in pieces\<close>

text \<open>\<open>rfind\<close> of a character.\<close>

fun rfind_char :: "char \<Rightarrow> string \<Rightarrow> nat option" where
  "rfind_char c [] = None"
| "rfind_char c (d # s) = (case rfind_char c s of Some i \<Rightarrow> Some (Suc i) | None \<Rightarrow> if d = c then Some 0 else None)"

definition split_point :: "nat \<Rightarrow> string \<Rightarrow> nat" where
  "split_point max_len window =
     (case rfind_char (CHR 10) window of
        Some i \<Rightarrow> i
      | None \<Rightarrow> (case rfind_char (CHR '' '') window of Some i \<Rightarrow> i | None \<Rightarrow> max_len))"

text \<open>
  The loop of \<open>split_message\<close>: \<^const>\<open>None\<close> when it does not end, \<open>Some None\<close> when the slice panics.
\<close>

partial_function (option) split_loop :: "nat \<Rightarrow> string \<Rightarrow> string list option option" where
  "split_loop max_len remaining =
     (if remaining = [] then Some (Some [])
      else if length remaining \<le> max_len then Some (Some [remaining])
      else case slice_to remaining max_len of
          None \<Rightarrow> Some None
        | Some window \<Rightarrow>
            Option.bind (split_loop max_len (dropWhile (\<lambda>c. c = CHR 10) (drop (split_point max_len window) remaining)))
              (\<lambda>chunks. Some (map_option (Cons (take (split_point max_len window) remaining)) chunks)))"

definition split_message :: "string \<Rightarrow> nat \<Rightarrow> string list option option" where
  "split_message t max_len = (if length t \<le> max_len then Some (Some [t]) else split_loop max_len t)"

text \<open>The pieces are sent one after the other until one fails.\<close>

fun send_chunks :: "(string \<Rightarrow> 'w \<Rightarrow> string option \<times> 'w) \<Rightarrow> string \<Rightarrow> string list \<Rightarrow> 'w \<Rightarrow> unit result \<times> 'w" where
  "send_chunks post what [] w = (Inr (), w)"
| "send_chunks post what (c # cs) w = (case post c w of
      (None, w') \<Rightarrow> send_chunks post what cs w'
    | (Some e, w') \<Rightarrow> (Inl (Channel (what @ e)), w'))"

definition discord_send :: "bool \<Rightarrow> (nat \<Rightarrow> string \<Rightarrow> 'w \<Rightarrow> string option \<times> 'w) \<Rightarrow> outbound_message \<Rightarrow> 'w \<Rightarrow>
    (unit result \<times> 'w) option option" where
  "discord_send online post m w =
     (if \<not> online then Some (Some (Inl (Channel ''Discord client not connected yet''), w))
      else case parse_uint 64 (out_chat_id m) of
          None \<Rightarrow> Some (Some (Inl (Channel (''Invalid Discord channel_id: '' @ out_chat_id m)), w))
        | Some i \<Rightarrow> map_option (map_option (\<lambda>cs. send_chunks (post i) ''Failed to send Discord message: '' cs w))
            (split_message (out_text m) 2000))"

definition SLACK_MESSAGE_LIMIT :: nat where "SLACK_MESSAGE_LIMIT = 4000"

text \<open>An answer of Slack: the call failed, the answer cannot be read, or it says \<open>ok\<close> or an error.\<close>

datatype slack_answer = CallFails string | Unreadable string | NotOk "string option" | IsOk

definition slack_outcome :: "slack_answer \<Rightarrow> string option" where
  "slack_outcome r = (case r of
      CallFails e \<Rightarrow> Some (''Failed to send Slack message: '' @ e)
    | Unreadable e \<Rightarrow> Some (''Failed to parse Slack chat.postMessage response: '' @ e)
    | NotOk e \<Rightarrow> Some (''Slack chat.postMessage failed: '' @ (case e of None \<Rightarrow> ''unknown error'' | Some t \<Rightarrow> t))
    | IsOk \<Rightarrow> None)"

definition slack_send :: "(string \<Rightarrow> string option \<Rightarrow> string \<Rightarrow> 'w \<Rightarrow> slack_answer \<times> 'w) \<Rightarrow> outbound_message \<Rightarrow> 'w \<Rightarrow>
    (unit result \<times> 'w) option option" where
  "slack_send post m w = map_option (map_option (\<lambda>cs. send_chunks
       (\<lambda>c w. case post (out_chat_id m) (out_reply_to m) c w of (r, w') \<Rightarrow> (slack_outcome r, w')) [] cs w))
     (split_message (out_text m) SLACK_MESSAGE_LIMIT)"

definition telegram_send :: "bool \<Rightarrow> (int \<Rightarrow> string \<Rightarrow> parse_mode option \<Rightarrow> 'w \<Rightarrow> string option \<times> 'w) \<Rightarrow> outbound_message \<Rightarrow> 'w \<Rightarrow>
    unit result \<times> 'w" where
  "telegram_send online post m w =
     (if \<not> online then (Inl (Channel ''Telegram bot not started''), w)
      else case parse_i64 (out_chat_id m) of
          None \<Rightarrow> (Inl (Channel (''Invalid chat_id: '' @ out_chat_id m)), w)
        | Some i \<Rightarrow> send_chunks (\<lambda>t. post i t (out_parse_mode m)) ''Failed to send Telegram message: '' [out_text m] w)"

section \<open>Files\<close>

text \<open>\<open>Path::file_name\<close>.\<close>

definition path_file_name :: "string \<Rightarrow> string option" where
  "path_file_name s = (case rev (components s) of Normal n # _ \<Rightarrow> Some n | _ \<Rightarrow> None)"

definition sanitize_filename :: "string \<Rightarrow> string" where
  "sanitize_filename s = (case path_file_name s of None \<Rightarrow> ''unnamed_file'' | Some n \<Rightarrow> n)"

definition save_received_file :: "(path \<Rightarrow> 'w \<Rightarrow> string option \<times> 'w) \<Rightarrow> (path \<Rightarrow> string \<Rightarrow> 'w \<Rightarrow> string option \<times> 'w) \<Rightarrow>
    received_file \<Rightarrow> path \<Rightarrow> 'w \<Rightarrow> path result \<times> 'w" where
  "save_received_file create_dir write_bytes f workspace w =
     (case create_dir workspace w of
        (Some e, w') \<Rightarrow> (Inl (FileTransfer (''Failed to create workspace dir: '' @ e)), w')
      | (None, w') \<Rightarrow>
          (let safe_name = sanitize_filename (rf_name f); dest = path_join workspace (components safe_name)
           in case write_bytes dest (rf_data f) w' of
                (Some e, w'') \<Rightarrow> (Inl (FileTransfer (''Failed to write file '' @ safe_name @ '': '' @ e)), w'')
              | (None, w'') \<Rightarrow> (Inr dest, w'')))"

text \<open>\<open>Path::extension\<close>: what follows the last dot, if something precedes it.\<close>

definition path_extension :: "string \<Rightarrow> string option" where
  "path_extension s = (case path_file_name s of
      None \<Rightarrow> None
    | Some n \<Rightarrow> (case rfind_char (CHR ''.'') n of
        None \<Rightarrow> None
      | Some i \<Rightarrow> if i = 0 \<or> n = ''..'' then None else Some (drop (Suc i) n)))"

definition mime_table :: "(string \<times> string) list" where
  "mime_table = [(''txt'', ''text/plain''), (''md'', ''text/markdown''), (''json'', ''application/json''),
     (''toml'', ''application/toml''), (''yaml'', ''application/yaml''), (''yml'', ''application/yaml''),
     (''rs'', ''text/x-rust''), (''py'', ''text/x-python''), (''js'', ''text/javascript''), (''ts'', ''text/typescript''),
     (''html'', ''text/html''), (''htm'', ''text/html''), (''css'', ''text/css''), (''png'', ''image/png''),
     (''jpg'', ''image/jpeg''), (''jpeg'', ''image/jpeg''), (''gif'', ''image/gif''), (''pdf'', ''application/pdf''),
     (''zip'', ''application/zip''), (''tar'', ''application/x-tar''), (''gz'', ''application/gzip'')]"

definition mime_from_extension :: "string \<Rightarrow> string" where
  "mime_from_extension s = (case Option.bind (path_extension s) (map_of mime_table) of
      None \<Rightarrow> ''application/octet-stream'' | Some t \<Rightarrow> t)"

section \<open>Only who is admitted is heard\<close>

lemma forwarded_simps [simp]:
  "forwarded [] = []" "forwarded (Reply r # es) = forwarded es" "forwarded (Forward m # es) = m # forwarded es"
  "forwarded (es @ es') = forwarded es @ forwarded es'"
  by (simp_all add: forwarded_def List.map_filter_def)

lemma auto_whitelistD:
  assumes "enter i (gate a) = (l, x)"
  shows "allowed (auto_whitelist c i a) = l" "admin (auto_whitelist c i a) = x"
  using assms auto_whitelist_gate [of c i a] by (simp_all add: gate_def)

definition telegram_step :: "toml_codec \<Rightarrow> (string \<Rightarrow> string option) \<Rightarrow> bool \<Rightarrow> tg_message \<Rightarrow> access \<Rightarrow> inbound_message list \<times> access" where
  "telegram_step c reply_fails queue_open m a =
     (case handle_telegram_message c reply_fails queue_open m a of (_, es, a') \<Rightarrow> (forwarded es, a'))"

definition discord_step :: "toml_codec \<Rightarrow> discord_handler \<Rightarrow> (string \<Rightarrow> string option) \<Rightarrow> bool \<Rightarrow> dc_message \<Rightarrow> access \<Rightarrow>
    inbound_message list \<times> access" where
  "discord_step c d reply_fails queue_open m a =
     (case discord_message c d reply_fails queue_open m a of (es, a') \<Rightarrow> (forwarded es, a'))"

definition slack_step :: "slack_env \<Rightarrow> string \<times> slack_message \<Rightarrow> slack_state \<Rightarrow> inbound_message list \<times> slack_state" where
  "slack_step env x s = (case slack_message_step env (fst x) (snd x) s of (es, s', _) \<Rightarrow> (forwarded es, s'))"

lemma tg_command_is: "tg_command m = Some t \<Longrightarrow> is_admin_command t"
  by (auto simp: tg_command_def Let_def split: option.splits if_splits)

lemma dc_command_is: "dc_command m = Some t \<Longrightarrow> is_admin_command t"
  by (auto simp: dc_command_def Let_def split: if_splits)

interpretation tg: gatekeeper "telegram_step c reply_fails queue_open" "\<lambda>a. a" "\<lambda>_. True" tg_user tg_command "\<lambda>_. queue_open"
  for c reply_fails queue_open
proof (unfold_locales, goal_cases)
  case (2 m s l a)
  then show ?case
    using auto_whitelistD [OF 2(2), of c] by (simp add: telegram_step_def handle_telegram_message_def Let_def gate_def)
next
  case (3 m s l a t u)
  note w = auto_whitelistD [OF 3(2), of c]
  obtain r s' where r: "admin_command c (tg_user m) t (auto_whitelist c (tg_user m) s) = (r, s')" by fastforce
  then show ?case
    using admin_command_set [OF tg_command_is [OF 3(4)], where c = c and i = "tg_user m" and a = "auto_whitelist c (tg_user m) s"] w 3
    by (simp add: telegram_step_def handle_telegram_message_def Let_def split: option.split)
next
  case (4 m s l a)
  then show ?case
    using auto_whitelistD [OF 4(2), of c]
    by (simp add: telegram_step_def handle_telegram_message_def Let_def gate_def tg_inbound_def)
qed simp

interpretation dc: gatekeeper "discord_step c d reply_fails queue_open" "\<lambda>a. a" "dc_heard d" dc_user dc_command
    "\<lambda>m. queue_open \<and> (dc_text d m \<noteq> None \<or> dc_attachments m \<noteq> [])"
  for c d reply_fails queue_open
proof (unfold_locales, goal_cases)
  case (1 m s)
  then show ?case by (simp add: discord_step_def discord_message_def)
next
  case (2 m s l a)
  then show ?case
    using auto_whitelistD [OF 2(2), of c] by (simp add: discord_step_def discord_message_def Let_def gate_def)
next
  case (3 m s l a t u)
  note w = auto_whitelistD [OF 3(2), of c]
  obtain r s' where r: "admin_command c (dc_user m) t (auto_whitelist c (dc_user m) s) = (r, s')" by fastforce
  then show ?case
    using admin_command_set [OF dc_command_is [OF 3(4)], where c = c and i = "dc_user m" and a = "auto_whitelist c (dc_user m) s"] w 3
    by (simp add: discord_step_def discord_message_def dc_run_command_def Let_def split: option.split)
next
  case (4 m s l a)
  then show ?case
    using auto_whitelistD [OF 4(2), of c]
    by (auto simp: discord_step_def discord_message_def Let_def gate_def dc_inbound_def dc_attachment_refs_def)
qed

text \<open>Slack has no commands: its list is that of the configuration, of the file, or of the first sender.\<close>

definition sl_heard :: "slack_env \<Rightarrow> slack_message \<Rightarrow> bool" where
  "sl_heard env m \<longleftrightarrow> sk_bot_id m = None \<and> sk_user m \<noteq> None \<and> sk_user m \<noteq> sk_bot_user env"

definition sl_user :: "slack_message \<Rightarrow> string" where
  "sl_user m = (case sk_user m of None \<Rightarrow> [] | Some i \<Rightarrow> i)"

lemma update_latest_access [simp]: "sk_access (update_latest_ts convo ts s) = sk_access s"
  by (simp add: update_latest_ts_def split: option.split)

interpretation sl: gatekeeper "slack_step env" sk_access "\<lambda>x. sl_heard env (snd x)" "\<lambda>x. sl_user (snd x)" "\<lambda>_. None"
    "\<lambda>x. sk_queue_open env \<and> (slack_text (snd x) \<noteq> None \<or> extract_slack_attachments (snd x) \<noteq> [])"
  for env
proof (unfold_locales, goal_cases)
  case (1 x s)
  then show ?case by (auto simp: slack_step_def slack_message_step_def sl_heard_def split: option.split)
next
  case (2 x s l a)
  then show ?case using auto_whitelistD [OF 2(2), of "sk_codec env"]
    by (auto simp: slack_step_def slack_message_step_def sl_heard_def sl_user_def Let_def gate_def split: option.splits)
next
  case (4 x s l a)
  then show ?case using auto_whitelistD [OF 4(2), of "sk_codec env"]
    by (auto simp: slack_step_def slack_message_step_def sl_heard_def sl_user_def Let_def gate_def slack_inbound_def split: option.splits)
qed simp

text \<open>C12: C0. With an administrator, a Telegram message reaches the agent exactly if it is not a command and
  its sender is admitted: by the last command of the administrator that speaks of him, and by the
  list the channel started with when there is none. Nobody else's commands count.\<close>

theorem telegram_admits:
  assumes "admin s = Some a" "a \<in> set (allowed s)"
  shows "fst (telegram_step c reply_fails True m (run_steps (telegram_step c reply_fails True) ms s)) \<noteq> [] \<longleftrightarrow>
    tg_command m = None \<and>
    standing (verdict (\<lambda>_. True) tg_user tg_command a (tg_user m)) (tg_user m \<in> set (allowed s)) ms"
  using tg.admitted_iff [OF assms, of c reply_fails True m ms] by simp

lemma discord_admits:
  assumes "admin s = Some a" "a \<in> set (allowed s)"
  shows "fst (discord_step c d reply_fails True m (run_steps (discord_step c d reply_fails True) ms s)) \<noteq> [] \<longleftrightarrow>
    dc_heard d m \<and> dc_command m = None \<and> (dc_text d m \<noteq> None \<or> dc_attachments m \<noteq> []) \<and>
    standing (verdict (dc_heard d) dc_user dc_command a (dc_user m)) (dc_user m \<in> set (allowed s)) ms"
  using dc.admitted_iff [OF assms, of c d reply_fails True m ms] by auto

lemma slack_admits:
  assumes "admin (sk_access s) = Some a" "a \<in> set (allowed (sk_access s))"
  shows "fst (slack_step env (convo, m) (run_steps (slack_step env) ms s)) \<noteq> [] \<Longrightarrow> sl_user m \<in> set (allowed (sk_access s))"
proof -
  have "standing (verdict h u (\<lambda>_. None) a i) b ms \<longleftrightarrow> b" for h u i b and ms :: "(string \<times> slack_message) list"
    by (induction ms) (simp_all add: verdict_def)
  then show "fst (slack_step env (convo, m) (run_steps (slack_step env) ms s)) \<noteq> [] \<Longrightarrow> sl_user m \<in> set (allowed (sk_access s))"
    using sl.admitted_iff [OF assms, of env "(convo, m)" ms] by simp
qed

section \<open>Slack delivers a message once\<close>

definition bound :: "string \<Rightarrow> string \<Rightarrow> slack_state \<Rightarrow> string" where
  "bound startup convo s = (case hm_get (sk_latest s) convo of None \<Rightarrow> startup | Some t \<Rightarrow> t)"

text \<open>What Slack's \<open>conversations.history\<close> promises: messages after \<open>oldest\<close>, the newest first.\<close>

definition newer_only :: "(string \<Rightarrow> string \<Rightarrow> skyclaw_error + slack_message list) \<Rightarrow> bool" where
  "newer_only fetch \<longleftrightarrow> (\<forall>convo oldest ms. fetch convo oldest = Inr ms \<longrightarrow>
     sorted_wrt (\<lambda>m n. sk_ts n < sk_ts m) ms \<and> (\<forall>m \<in> set ms. oldest < sk_ts m))"

definition delivered :: "string \<Rightarrow> channel_effect list \<Rightarrow> string list" where
  "delivered convo es = map in_id (filter (\<lambda>m. in_chat_id m = convo) (forwarded es))"

definition delivers :: "string \<Rightarrow> string \<Rightarrow> slack_state \<Rightarrow> channel_effect list \<Rightarrow> slack_state \<Rightarrow> bool" where
  "delivers startup convo s es s' \<longleftrightarrow> sorted_wrt (<) (delivered convo es) \<and> bound startup convo s \<le> bound startup convo s' \<and>
     (\<forall>x \<in> set (delivered convo es). bound startup convo s < x \<and> x \<le> bound startup convo s')"

lemma delivered_simps [simp]:
  "delivered convo [] = []" "delivered convo (es @ es') = delivered convo es @ delivered convo es'"
  by (simp_all add: delivered_def)

lemma delivers_none [simp]: "delivers startup convo s [] s"
  by (simp add: delivers_def)

lemma ascending_append:
  fixes a :: "'a :: linorder"
  assumes "sorted_wrt (<) xs" "\<forall>x \<in> set xs. a < x \<and> x \<le> b" "sorted_wrt (<) ys" "\<forall>y \<in> set ys. b < y \<and> y \<le> d"
    "a \<le> b" "b \<le> d"
  shows "sorted_wrt (<) (xs @ ys) \<and> a \<le> d \<and> (\<forall>x \<in> set (xs @ ys). a < x \<and> x \<le> d)"
proof -
  have "x < y" if "x \<in> set xs" "y \<in> set ys" for x y using assms(2,4) that by (meson le_less_trans)
  then have "sorted_wrt (<) (xs @ ys)" using assms(1,3) by (simp add: sorted_wrt_append)
  moreover have "a \<le> d" using assms(5,6) by simp
  moreover have "a < x \<and> x \<le> d" if "x \<in> set (xs @ ys)" for x
    using assms(2,4-6) that by (metis Un_iff le_less_trans order.trans set_append)
  ultimately show ?thesis by blast
qed

lemma delivers_trans:
  "delivers startup convo s es s1 \<Longrightarrow> delivers startup convo s1 es' s2 \<Longrightarrow> delivers startup convo s (es @ es') s2"
  unfolding delivers_def delivered_simps
  using ascending_append [of "delivered convo es" "bound startup convo s" "bound startup convo s1" "delivered convo es'" "bound startup convo s2"]
  by blast

lemma bound_update:
  assumes "bound startup c s < ts"
  shows "bound startup convo (update_latest_ts c ts s) = (if convo = c then ts else bound startup convo s)"
  using assms by (auto simp: bound_def update_latest_ts_def split: option.splits)

lemma bound_access [simp]: "bound startup convo (s\<lparr>sk_access := a\<rparr>) = bound startup convo s"
  by (simp add: bound_def)

lemma slack_message_step_delivers:
  assumes "slack_message_step env c m s = (es, s', go)" "bound startup c s < sk_ts m"
  shows "delivers startup convo s es s' \<and> bound startup c s \<le> bound startup c s' \<and> (go \<longrightarrow> bound startup c s' = sk_ts m)"
  using assms bound_update [OF assms(2)] bound_update [of startup c "s\<lparr>sk_access := a\<rparr>" "sk_ts m" for a]
  by (auto simp: slack_message_step_def delivers_def delivered_def slack_inbound_def Let_def less_imp_le
      split: option.splits if_splits)

lemma slack_messages_delivers:
  "slack_messages env c ms s = (es, s', go) \<Longrightarrow> sorted_wrt (\<lambda>m n. sk_ts m < sk_ts n) ms \<Longrightarrow>
    \<forall>m \<in> set ms. bound startup c s < sk_ts m \<Longrightarrow> delivers startup convo s es s'"
proof (induction ms arbitrary: s es)
  case (Cons m ms)
  obtain es1 s1 go1 where m: "slack_message_step env c m s = (es1, s1, go1)" by (cases "slack_message_step env c m s")
  note d = slack_message_step_delivers [OF m, of startup convo]
  show ?case
  proof (cases go1)
    case True
    then obtain es2 where r: "slack_messages env c ms s1 = (es2, s', go)" "es = es1 @ es2"
      using Cons.prems(1) m by (auto split: prod.splits)
    have "delivers startup convo s1 es2 s'"
      using Cons.IH [OF r(1)] Cons.prems(2,3) d True by simp
    then show ?thesis using d Cons.prems(3) r(2) delivers_trans by auto
  next
    case False
    then show ?thesis using Cons.prems m d by simp
  qed
qed simp

lemma slack_round_delivers:
  "slack_round env startup fetch cs s = (es, s', go) \<Longrightarrow> newer_only fetch \<Longrightarrow> delivers startup convo s es s'"
proof (induction cs arbitrary: s es)
  case (Cons c cs)
  show ?case
  proof (cases "fetch c (bound startup c s)")
    case (Inl e)
    then show ?thesis using Cons by (simp add: bound_def Let_def)
  next
    case (Inr ms)
    have ms: "sorted_wrt (\<lambda>m n. sk_ts m < sk_ts n) (rev ms)" "\<forall>m \<in> set (rev ms). bound startup c s < sk_ts m"
      using Cons.prems(2) Inr by (auto simp: newer_only_def sorted_wrt_rev)
    obtain es1 s1 go1 where m: "slack_messages env c (rev ms) s = (es1, s1, go1)" by (cases "slack_messages env c (rev ms) s")
    note d = slack_messages_delivers [OF m ms, of convo]
    show ?thesis
    proof (cases go1)
      case True
      then obtain es2 where r: "slack_round env startup fetch cs s1 = (es2, s', go)" "es = es1 @ es2"
        using Cons.prems(1) m Inr by (auto simp: bound_def split: prod.splits)
      then show ?thesis using delivers_trans [OF d Cons.IH [OF r(1) Cons.prems(2)]] by simp
    next
      case False
      then show ?thesis using Cons.prems(1) m d Inr by (simp add: bound_def)
    qed
  qed
qed simp

lemma slack_rounds_delivers:
  "slack_rounds env startup rs s = (es, s', go) \<Longrightarrow> \<forall>r \<in> set rs. newer_only (fst r) \<Longrightarrow> delivers startup convo s es s'"
proof (induction rs arbitrary: s es)
  case (Cons r rs)
  obtain es1 s1 go1 where m: "slack_round env startup (fst r) (snd r) s = (es1, s1, go1)"
    by (cases "slack_round env startup (fst r) (snd r) s")
  have d: "delivers startup convo s es1 s1" using slack_round_delivers [OF m] Cons.prems(2) by simp
  show ?case
  proof (cases go1)
    case True
    then obtain es2 where r: "slack_rounds env startup rs s1 = (es2, s', go)" "es = es1 @ es2"
      using Cons.prems(1) m by (auto split: prod.splits)
    then show ?thesis using delivers_trans [OF d Cons.IH [OF r(1)]] Cons.prems(2) by simp
  next
    case False
    then show ?thesis using Cons.prems(1) m d by simp
  qed
qed simp

text \<open>C14: C0. However long Slack is polled, the messages of a conversation reach the agent in the order of
  their time stamps and none of them twice, if Slack answers with messages after the time it is asked
  for.\<close>

theorem slack_no_repeats:
  assumes "\<forall>r \<in> set rounds. newer_only (fst r)" "slack_rounds env startup rounds s = (es, s', go)"
  shows "sorted_wrt (<) (map in_id (filter (\<lambda>m. in_chat_id m = convo) (forwarded es)))"
  using slack_rounds_delivers [OF assms(2,1), of convo] by (simp add: delivers_def delivered_def)

section \<open>When a reply can be split\<close>

lemma rfind_char_None [simp]: "rfind_char c s = None \<longleftrightarrow> c \<notin> set s"
  by (induction s) (auto split: option.split)

lemma rfind_char_Some: "rfind_char c s = Some i \<Longrightarrow> i < length s \<and> s ! i = c \<and> c \<notin> set (drop (Suc i) s)"
  by (induction s arbitrary: i) (auto split: option.splits if_splits)

definition is_break :: "char \<Rightarrow> bool" where
  "is_break c \<longleftrightarrow> c = CHR 10 \<or> c = CHR '' ''"

text \<open>No word of the text is as long as a piece, less one for a break.\<close>

definition short_words :: "nat \<Rightarrow> string \<Rightarrow> bool" where
  "short_words max_len t \<longleftrightarrow> list_all (\<lambda>w. length w + 1 < max_len) (split_on is_break t)"

lemma split_on_ne [simp]: "split_on P t \<noteq> []"
  by (cases t) (auto split: list.split)

lemma word_prefix: "prefix w t \<Longrightarrow> \<forall>c \<in> set w. \<not> P c \<Longrightarrow> length w \<le> length (hd (split_on P t))"
proof (induction t arbitrary: w)
  case (Cons c t)
  then show ?case by (cases w) (auto split: list.splits)
qed simp

lemma word_in_pieces: "sublist w t \<Longrightarrow> \<forall>c \<in> set w. \<not> P c \<Longrightarrow> \<exists>p \<in> set (split_on P t). length w \<le> length p"
proof (induction t)
  case (Cons c t)
  show ?case
  proof (cases "prefix w (c # t)")
    case True
    then show ?thesis using word_prefix [OF True Cons.prems(2)] hd_in_set [OF split_on_ne] by blast
  next
    case False
    then have "\<exists>p \<in> set (split_on P t). length w \<le> length p"
      using Cons by (simp add: sublist_Cons_right)
    then show ?thesis by (cases "split_on P t") (auto intro: le_SucI)
  qed
qed simp

lemma short_wordsD: "short_words max_len t \<Longrightarrow> sublist w t \<Longrightarrow> \<forall>c \<in> set w. \<not> is_break c \<Longrightarrow> length w + 1 < max_len"
  using word_in_pieces [of w t is_break] by (fastforce simp: short_words_def list_all_iff)

lemma slice_to_ascii:
  assumes "\<forall>c \<in> set t. byte c < 128" "n < length t"
  shows "slice_to t n = Some (take n t)"
proof -
  have "byte (t ! n) < 128" using assms nth_mem by blast
  then show ?thesis using assms(2) by (simp add: slice_to_def is_char_boundary_def is_cont_def)
qed

text \<open>Each turn of the loop makes the rest shorter.\<close>

lemma split_point_progress:
  assumes "\<And>w. sublist w t \<Longrightarrow> \<forall>c \<in> set w. \<not> is_break c \<Longrightarrow> length w + 1 < max_len" "max_len < length t"
  defines "i \<equiv> split_point max_len (take max_len t)"
  shows "length (dropWhile (\<lambda>c. c = CHR 10) (drop i t)) < length t" "i \<le> max_len"
proof -
  let ?w = "take max_len t"
  have short: "length v + 1 < max_len" if "sublist v ?w" "\<forall>c \<in> set v. \<not> is_break c" for v
    using assms(1) [of v] that sublist_order.order.trans [OF that(1) sublist_take] by blast
  have le: "length (dropWhile (\<lambda>c. c = CHR 10) (drop j t)) < length t" if "0 < j" for j
    using that assms(2) length_dropWhile_le [of "\<lambda>c. c = CHR 10" "drop j t"] by simp
  have "length (dropWhile (\<lambda>c. c = CHR 10) (drop i t)) < length t \<and> i \<le> max_len"
  proof (cases "rfind_char (CHR 10) ?w")
    case (Some j)
    then have j: "j < max_len" "t ! j = CHR 10" using rfind_char_Some [OF Some] by auto
    then have "drop j t = CHR 10 # drop (Suc j) t" using assms(2) by (metis Cons_nth_drop_Suc less_trans)
    then have "length (dropWhile (\<lambda>c. c = CHR 10) (drop j t)) \<le> length (drop (Suc j) t)"
      using length_dropWhile_le [of "\<lambda>c. c = CHR 10" "drop (Suc j) t"] by simp
    then show ?thesis using j assms(2) by (simp add: i_def split_point_def Some)
  next
    case nonl: None
    show ?thesis
    proof (cases "rfind_char (CHR '' '') ?w")
      case (Some j)
      have w: "\<forall>c \<in> set (drop (Suc j) ?w). \<not> is_break c"
        using rfind_char_Some [OF Some] nonl by (auto simp: is_break_def dest: in_set_dropD)
      have "j \<noteq> 0" using short [OF sublist_drop w] assms(2) by auto
      have "i = j" unfolding i_def split_point_def nonl Some by simp
      then show ?thesis using le [of j] rfind_char_Some [OF Some] \<open>j \<noteq> 0\<close> by simp
    next
      case None
      then have "\<forall>c \<in> set ?w. \<not> is_break c" using nonl by (auto simp: is_break_def)
      then have False using short [of ?w] assms(2) by simp
      then show ?thesis ..
    qed
  qed
  then show "length (dropWhile (\<lambda>c. c = CHR 10) (drop i t)) < length t" "i \<le> max_len" by simp_all
qed

lemma split_loop_correct:
  assumes "\<And>w. sublist w t \<Longrightarrow> \<forall>c \<in> set w. \<not> is_break c \<Longrightarrow> length w + 1 < max_len" "\<forall>c \<in> set t. byte c < 128"
  shows "\<exists>cs. split_loop max_len t = Some (Some cs) \<and> (\<forall>c \<in> set cs. length c \<le> max_len) \<and>
    filter (\<lambda>c. c \<noteq> CHR 10) (concat cs) = filter (\<lambda>c. c \<noteq> CHR 10) t"
  using assms
proof (induction "length t" arbitrary: t rule: less_induct)
  case less
  show ?case
  proof (cases "length t \<le> max_len")
    case True
    then show ?thesis by (cases "t = []") (simp_all add: split_loop.simps)
  next
    case False
    let ?i = "split_point max_len (take max_len t)" and ?nn = "\<lambda>c. c \<noteq> CHR 10"
    let ?r = "dropWhile (\<lambda>c. c = CHR 10) (drop ?i t)"
    have suf: "suffix ?r t" using suffix_dropWhile suffix_drop suffix_order.trans by blast
    have i: "length ?r < length t" "?i \<le> max_len" using split_point_progress [OF less.prems(1)] False by simp_all
    have w: "length w + 1 < max_len" if "sublist w ?r" "\<forall>c \<in> set w. \<not> is_break c" for w
      using less.prems(1) [of w] that sublist_order.order.trans [OF that(1) suffix_imp_sublist [OF suf]] by blast
    have a: "\<forall>c \<in> set ?r. byte c < 128" using less.prems(2) set_mono_suffix [OF suf] by blast
    obtain cs where cs: "split_loop max_len ?r = Some (Some cs)" "\<forall>c \<in> set cs. length c \<le> max_len"
      "filter ?nn (concat cs) = filter ?nn ?r"
      using less.hyps [OF i(1) w a] by blast
    have "filter ?nn (dropWhile (\<lambda>c. c = CHR 10) s) = filter ?nn s" for s by (induction s) auto
    then have "filter ?nn (take ?i t) @ filter ?nn ?r = filter ?nn t"
      by (metis append_take_drop_id filter_append)
    moreover have "split_loop max_len t = Some (Some (take ?i t # cs))"
      using False cs(1) slice_to_ascii [OF less.prems(2), of max_len] by (subst split_loop.simps) auto
    ultimately show ?thesis using cs i(2) by auto
  qed
qed



text \<open>
  A long word after a blank is never split: the last blank of what is left is its first byte, so the
  loop puts out empty pieces for ever. This holds of Discord and of Slack.
\<close>

lemma long_word_hangs:
  assumes "\<forall>c \<in> set x. \<not> is_break c \<and> byte c < 128" "max_len \<le> length x" "0 < max_len"
  shows "split_loop max_len (CHR '' '' # x) = None"
proof (rule ccontr)
  let ?bad = "\<lambda>n t. \<exists>x. t = CHR '' '' # x \<and> (\<forall>c \<in> set x. \<not> is_break c \<and> byte c < 128) \<and> n \<le> length x \<and> 0 < n"
  assume "split_loop max_len (CHR '' '' # x) \<noteq> None"
  then obtain y where y: "split_loop max_len (CHR '' '' # x) = Some y" by blast
  have "\<not> ?bad max_len (CHR '' '' # x)"
  proof (rule split_loop.raw_induct [where P = "\<lambda>n t _. \<not> ?bad n t", OF _ y])
    fix f n t r
    assume IH: "\<And>n t r. f n t = Some r \<Longrightarrow> \<not> ?bad n t"
      and eq: "(if t = [] then Some (Some []) else if length t \<le> n then Some (Some [t])
        else case slice_to t n of None \<Rightarrow> Some None
          | Some window \<Rightarrow> Option.bind (f n (dropWhile (\<lambda>c. c = CHR 10) (drop (split_point n window) t)))
              (\<lambda>chunks. Some (map_option (Cons (take (split_point n window) t)) chunks))) = Some r"
    show "\<not> ?bad n t"
    proof
      assume "?bad n t"
      then obtain x where x: "t = CHR '' '' # x" "\<forall>c \<in> set x. \<not> is_break c \<and> byte c < 128" "n \<le> length x" "0 < n" by blast
      obtain k where k: "n = Suc k" using x(4) by (cases n) auto
      have s: "slice_to t n = Some (CHR '' '' # take k x)" using slice_to_ascii [of t n] x by (auto simp: byte_def k)
      have "CHR '' '' \<notin> set (take k x)" "CHR 10 \<notin> set (take k x)" using x(2) by (auto simp: is_break_def dest: in_set_takeD)
      then have "split_point n (CHR '' '' # take k x) = 0" by (simp add: split_point_def split: option.split)
      then obtain y where "f n t = Some y" using eq s x by (auto simp: bind_eq_Some_conv)
      then show False using IH \<open>?bad n t\<close> by blast
    qed
  qed
  then show False using assms by blast
qed

lemma long_word_reply_hangs:
  assumes "\<forall>c \<in> set u. \<not> is_break c \<and> byte c < 128" "length u < max_len"
    "\<forall>c \<in> set x. \<not> is_break c \<and> byte c < 128" "max_len \<le> length x"
  shows "split_message (u @ CHR '' '' # x) max_len = None"
proof -
  let ?t = "u @ CHR '' '' # x"
  have s: "slice_to ?t max_len = Some (take max_len ?t)"
    using assms by (intro slice_to_ascii) (auto simp: byte_def)
  have w: "take max_len ?t = u @ CHR '' '' # take (max_len - Suc (length u)) x"
    using assms(2) by (simp add: Suc_diff_Suc take_Cons' )
  have b: "CHR '' '' \<notin> set (take k x)" "CHR 10 \<notin> set (take k x)" for k using assms(3) by (auto simp: is_break_def dest: in_set_takeD)
  have r: "rfind_char (CHR '' '') (u @ CHR '' '' # take k x) = Some (length u)" for k
    using b by (induction u) (auto split: option.split)
  have "CHR 10 \<notin> set u" using assms(1) by (auto simp: is_break_def)
  then have "rfind_char (CHR 10) (u @ CHR '' '' # take k x) = None" for k using b by simp
  then have "split_point max_len (take max_len ?t) = length u"
    using r unfolding w by (simp add: split_point_def del: rfind_char_None)
  then show ?thesis using long_word_hangs [OF assms(3,4)] assms(2,4) s
    by (auto simp: split_message_def split_loop.simps [of max_len ?t])
qed

text \<open>A character that is cut by the limit makes the slice panic.\<close>

lemma wide_character_panics:
  "0 < max_len \<Longrightarrow> max_len < length t \<Longrightarrow> is_cont (t ! max_len) \<Longrightarrow> split_message t max_len = Some None"
  by (auto simp: split_message_def split_loop.simps [of max_len t] slice_to_def is_char_boundary_def)

section \<open>Received files stay in the workspace\<close>

lemma split_on_free: "p \<in> set (split_on P t) \<Longrightarrow> \<forall>c \<in> set p. \<not> P c"
  by (induction t arbitrary: p) (fastforce split: list.splits if_splits)+

lemma split_on_whole: "\<forall>c \<in> set p. \<not> P c \<Longrightarrow> split_on P p = [p]"
  by (induction p) auto

lemma body_components_Normal: "Normal n \<in> set (body_components ps) \<Longrightarrow> n \<in> set ps \<and> n \<noteq> ''.'' \<and> n \<noteq> ''..''"
  by (auto simp: body_components_def List.map_filter_def split: if_splits)

lemma components_Normal:
  assumes "Normal n \<in> set (components t)"
  shows "n \<noteq> []" "CHR ''/'' \<notin> set n" "n \<noteq> ''.''" "n \<noteq> ''..''"
proof -
  let ?ps = "filter (\<lambda>p. p \<noteq> []) (split_on (\<lambda>c. c = CHR ''/'') t)"
  obtain qs where "Normal n \<in> set (body_components qs)" "set qs \<subseteq> set ?ps"
  proof (cases "starts_with ''/'' t")
    case True
    then show ?thesis using assms that [of ?ps] by (simp add: components_def Let_def)
  next
    case False
    then obtain q qs where q: "?ps = q # qs" using assms by (cases ?ps) (auto simp: components_def Let_def)
    then have "Normal n \<in> set (body_components qs) \<or> Normal n \<in> set (body_components ?ps)"
      using assms False by (auto simp: components_def Let_def split: if_splits)
    moreover have "set qs \<subseteq> set ?ps" unfolding q by auto
    ultimately show ?thesis using that [of ?ps] that [of qs] by blast
  qed
  then have "n \<in> set ?ps \<and> n \<noteq> ''.'' \<and> n \<noteq> ''..''" using body_components_Normal by blast
  then show "n \<noteq> []" "CHR ''/'' \<notin> set n" "n \<noteq> ''.''" "n \<noteq> ''..''"
    using split_on_free [of n "\<lambda>c. c = CHR ''/''" t] by auto
qed

lemma components_single:
  assumes "n \<noteq> []" "CHR ''/'' \<notin> set n" "n \<noteq> ''.''" "n \<noteq> ''..''"
  shows "components n = [Normal n]"
proof -
  have "split_on (\<lambda>c. c = CHR ''/'') n = [n]" using assms(2) by (intro split_on_whole) auto
  moreover have "\<not> starts_with ''/'' n" using assms(1,2) by (cases n) (auto simp: starts_with_def)
  ultimately show ?thesis using assms by (simp add: components_def body_components_def List.map_filter_def)
qed

lemma sanitized_single: "components (sanitize_filename t) = [Normal (sanitize_filename t)]"
proof (cases "rev (components t)")
  case (Cons x xs)
  then have x: "x \<in> set (components t)" by (metis list.set_intros(1) set_rev)
  show ?thesis
  proof (cases x)
    case (Normal n)
    then show ?thesis using components_single [OF components_Normal [of n t]] x Cons
      by (simp add: sanitize_filename_def path_file_name_def)
  qed (use Cons in \<open>simp_all add: sanitize_filename_def path_file_name_def components_single\<close>)
qed (simp add: sanitize_filename_def path_file_name_def components_single)

lemma received_file_in_workspace:
  "save_received_file create_dir write_bytes f workspace w = (Inr dest, w') \<Longrightarrow> workspace \<noteq> [] \<Longrightarrow>
    dest = workspace @ [Normal (sanitize_filename (rf_name f))]"
  by (auto simp: save_received_file_def Let_def sanitized_single path_join_def path_absolute_def
      split: prod.splits option.splits)

section \<open>Examples\<close>

definition plain_toml :: toml_codec where
  "plain_toml = \<lparr>al_print = (\<lambda>f. concat (map enc_str (al_admin f # al_users f))),
     al_parse = (\<lambda>t. case dec_strs [] t of [] \<Rightarrow> None | i # us \<Rightarrow> Some \<lparr>al_admin = i, al_users = us\<rparr>)\<rparr>"

definition tg_says :: "nat \<Rightarrow> string \<Rightarrow> tg_message" where
  "tg_says i t = \<lparr>tg_from = Some (i, None), tg_chat = 5, tg_id = 1, tg_text = Some t, tg_media = TgOther, tg_reply_to = None, tg_date = 0\<rparr>"

theorem telegram_admits_witness:
  "fst (telegram_step plain_toml (\<lambda>_. None) True (tg_says 2 ''hello'')
     (run_steps (telegram_step plain_toml (\<lambda>_. None) True) [tg_says 3 ''/allow 3'', tg_says 1 ''/allow 2'']
       \<lparr>allowed = [''1''], admin = Some ''1'', al_disk = None, save_script = []\<rparr>)) \<noteq> []"
proof -
  let ?s = "\<lparr>allowed = [''1''], admin = Some ''1'', al_disk = None, save_script = []\<rparr>"
  have a: "admin ?s = Some ''1''" "''1'' \<in> set (allowed ?s)" by simp_all
  have "tg_command (tg_says 2 ''hello'') = None" by code_simp
  moreover have "standing (verdict (\<lambda>_. True) tg_user tg_command ''1'' (tg_user (tg_says 2 ''hello'')))
      (tg_user (tg_says 2 ''hello'') \<in> set (allowed ?s)) [tg_says 3 ''/allow 3'', tg_says 1 ''/allow 2'']" by code_simp
  ultimately show ?thesis unfolding telegram_admits [OF a] by blast
qed

definition demo_slack :: slack_env where
  "demo_slack = \<lparr>sk_codec = plain_toml, sk_from_timestamp = (\<lambda>s n. Some s), sk_now = 0, sk_bot_user = Some ''B'', sk_queue_open = True\<rparr>"

definition slack_says :: "string \<Rightarrow> slack_message" where
  "slack_says ts = \<lparr>sk_ts = ts, sk_user = Some ''U1'', sk_text = ''hi'', sk_files = [], sk_thread_ts = None, sk_bot_id = None\<rparr>"

text \<open>Slack with two messages in every conversation.\<close>

definition two_messages :: "string \<Rightarrow> string \<Rightarrow> skyclaw_error + slack_message list" where
  "two_messages convo oldest = Inr (filter (\<lambda>m. oldest < sk_ts m) [slack_says ''20.5'', slack_says ''20.1''])"

theorem slack_no_repeats_witness:
  "\<exists>es s' go. slack_rounds demo_slack ''10.0'' [(two_messages, [''C'']), (two_messages, [''C''])]
     \<lparr>sk_access = \<lparr>allowed = [''U1''], admin = Some ''U1'', al_disk = None, save_script = []\<rparr>, sk_latest = []\<rparr> = (es, s', go) \<and>
     sorted_wrt (<) (map in_id (filter (\<lambda>m. in_chat_id m = ''C'') (forwarded es)))"
proof -
  have "newer_only two_messages" by (auto simp: newer_only_def two_messages_def slack_says_def)
  then have n: "\<forall>r \<in> set [(two_messages, [''C'']), (two_messages, [''C''])]. newer_only (fst r)" by simp
  from slack_no_repeats [OF n] show ?thesis by (metis prod.exhaust)
qed

section \<open>Where the list is not what it seems\<close>

text \<open>Posts without a sender, such as those of a Telegram channel, are all of one user.\<close>

lemma anonymous_post_administers:
  "allowed a = [] \<Longrightarrow> tg_from m = None \<Longrightarrow> admin (snd (telegram_step c reply_fails queue_open m a)) = Some ''unknown''"
  using tg.first_sender_administers [where s = a and m = m] by (simp add: tg_user_def)

text \<open>With a saved list, the one of the configuration is ignored.\<close>

lemma config_list_ignored:
  "load_allowlist_file c disk = Some f \<Longrightarrow> allowed (access_new c disk config faults) = al_users f"
  by (simp add: access_new_def)

text \<open>A saved list is the list after a restart.\<close>

lemma list_survives_restart:
  assumes "\<And>f. al_parse c (al_print c f) = Some f" "persist_allowlist c a = (Inr (), a')" "admin a = Some i"
  shows "gate (access_new c (al_disk a') config faults) = gate a"
  using assms by (auto simp: persist_allowlist_def save_allowlist_file_def access_new_def load_allowlist_file_def gate_def
      split: list.splits option.splits save_fault.splits)

text \<open>A list whose save was cut short is lost: the next one to write is the administrator.\<close>

lemma broken_file_opens_bot:
  assumes "al_parse c left = None"
  shows "gate (access_new c (Some left) [] faults) = ([], None)"
  using assms by (simp add: access_new_def load_allowlist_file_def gate_def)

end
