(* ===== verification/Credentials.thy ===== *)
theory Credentials
  imports Providers Setup_Tokens
begin

text \<open>
  The API keys of the command line program (\<open>src/main.rs\<close>): recognising a key in a message,
  checking it with its provider, keeping it in \<open>credentials.toml\<close>, the commands on it, and the filter
  that takes keys out of what is sent. The TOML parser and printer of the crate \<open>toml\<close> and the file
  system are the fields of \<open>cred_env\<close>; the derived \<open>serde\<close> code between a TOML table and
  \<open>CredentialsFile\<close> is written out.
\<close>

section \<open>Keys in messages\<close>

record detected_credential =
  dc_provider :: string
  dc_api_key :: string
  dc_base_url :: "string option"

text \<open>\<open>chars()\<close>: the characters of a text, as their bytes.\<close>

function chars_of :: "string \<Rightarrow> string list" where
  "chars_of [] = []"
| "chars_of (c # s) = (let n = max 1 (utf8_len c) in take n (c # s) # chars_of (drop n (c # s)))"
  by pat_completeness auto
termination by (relation "measure length") (auto simp: max_def)

definition placeholders :: "string list" where
  "placeholders = [''paste_your'', ''your_key'', ''your_api'', ''your-key'', ''your-api'', ''insert_your'', ''insert-your'',
                     ''put_your'', ''put-your'', ''replace_with'', ''replace-with'', ''enter_your'', ''enter-your'',
                     ''placeholder'', ''xxxxxxxx'', ''your_token'', ''your-token'', ''_here'']"

definition is_placeholder_key :: "string \<Rightarrow> bool" where
  "is_placeholder_key key =
     (let k = to_lowercase (trim key)
      in if length k < 10 then True
         else if list_ex (\<lambda>p. str_contains p k) placeholders then True
         else if 10 \<le> length k \<and> list_all (\<lambda>c. c = hd (chars_of k)) (chars_of k) then True
         else False)"

definition normalize_provider_name :: "string \<Rightarrow> string option" where
  "normalize_provider_name name =
     (let n = to_lowercase name
      in if n \<in> {''anthropic'', ''claude''} then Some ''anthropic''
         else if n \<in> {''openai'', ''gpt''} then Some ''openai''
         else if n \<in> {''gemini'', ''google''} then Some ''gemini''
         else if n \<in> {''grok'', ''xai''} then Some ''grok''
         else if n = ''openrouter'' then Some ''openrouter''
         else if n = ''minimax'' then Some ''minimax''
         else if n \<in> {''zai'', ''zhipu'', ''glm''} then Some ''zai''
         else if n = ''ollama'' then Some ''ollama''
         else None)"

type_synonym proxy_state = "string option \<times> string option \<times> string option"

definition proxy_token :: "proxy_state \<Rightarrow> string \<Rightarrow> proxy_state" where
  "proxy_token st token = (case st of (provider, url, key) \<Rightarrow>
     (let lower = to_lowercase token
      in case split_once (CHR '':'') token of
          Some (k, v) \<Rightarrow>
            (let k_lower = to_lowercase k
             in if k_lower \<in> {''provider'', ''type''} then (normalize_provider_name v, url, key)
                else if k_lower \<in> {''base_url'', ''url'', ''endpoint'', ''host''} then (provider, Some v, key)
                else if k_lower \<in> {''key'', ''api_key'', ''apikey'', ''token''} then (provider, url, Some v)
                else if starts_with ''//'' v \<or> starts_with ''http'' v then (provider, Some token, key)
                else if normalize_provider_name lower \<noteq> None then (normalize_provider_name k, url, Some v)
                else (provider, url, key))
        | None \<Rightarrow>
            if starts_with ''http://'' token \<or> starts_with ''https://'' token then (provider, Some token, key)
            else if normalize_provider_name lower \<noteq> None \<and> provider = None
            then (normalize_provider_name lower, url, key)
            else if 8 \<le> length token \<and> key = None then (provider, url, Some token)
            else (provider, url, key)))"

definition parse_proxy_config :: "string \<Rightarrow> detected_credential option" where
  "parse_proxy_config t =
     (let tokens = split_whitespace t
      in if length tokens < 3 then None
         else case foldl proxy_token (None, None, None) (tl tokens) of
            (provider, url, key) \<Rightarrow>
              (case key of
                 None \<Rightarrow> None
               | Some k \<Rightarrow> Some \<lparr>dc_provider = (case provider of None \<Rightarrow> ''openai'' | Some p \<Rightarrow> p),
                                dc_api_key = k, dc_base_url = url\<rparr>))"

text \<open>The provider named before a colon.\<close>

definition explicit_provider :: "string \<Rightarrow> string option" where
  "explicit_provider p =
     (if p \<in> {''anthropic'', ''openai'', ''gemini'', ''openrouter'', ''minimax'', ''ollama''} then Some p
      else if p \<in> {''grok'', ''xai''} then Some ''grok''
      else if p \<in> {''zai'', ''zhipu''} then Some ''zai''
      else None)"

definition detect_raw_key :: "string \<Rightarrow> detected_credential option" where
  "detect_raw_key trimmed =
     (let found = (\<lambda>p. Some \<lparr>dc_provider = p, dc_api_key = trimmed, dc_base_url = None\<rparr>)
      in if is_placeholder_key trimmed then None
         else if starts_with ''sk-ant-'' trimmed then found ''anthropic''
         else if starts_with ''sk-or-'' trimmed then found ''openrouter''
         else if starts_with ''xai-'' trimmed then found ''grok''
         else if starts_with ''sk-'' trimmed then found ''openai''
         else if starts_with ''AIzaSy'' trimmed then found ''gemini''
         else None)"

definition detect_api_key :: "string \<Rightarrow> detected_credential option" where
  "detect_api_key t =
     (let trimmed = trim t
      in if starts_with ''proxy'' (to_lowercase trimmed)
         then (case parse_proxy_config trimmed of
                 Some cred \<Rightarrow> if is_placeholder_key (dc_api_key cred) then None else Some cred
               | None \<Rightarrow> None)
         else case split_once (CHR '':'') trimmed of
             None \<Rightarrow> detect_raw_key trimmed
           | Some (provider, key) \<Rightarrow>
               (let p = to_lowercase provider
                in if p \<noteq> ''http'' \<and> p \<noteq> ''https''
                   then (case explicit_provider p of
                           Some name \<Rightarrow>
                             if 8 \<le> length key \<and> \<not> is_placeholder_key key
                             then Some \<lparr>dc_provider = name, dc_api_key = key, dc_base_url = None\<rparr>
                             else detect_raw_key trimmed
                         | None \<Rightarrow> detect_raw_key trimmed)
                   else detect_raw_key trimmed))"

definition default_model :: "string \<Rightarrow> string" where
  "default_model name =
     (if name = ''anthropic'' then ''claude-sonnet-4-6''
      else if name = ''openai'' then ''gpt-5.2''
      else if name \<in> {''gemini'', ''google''} then ''gemini-2.5-flash-lite''
      else if name \<in> {''grok'', ''xai''} then ''grok-4-1-fast-non-reasoning''
      else if name = ''openrouter'' then ''anthropic/claude-sonnet-4-6''
      else if name = ''minimax'' then ''MiniMax-M2.5''
      else if name = ''zai'' then ''glm-4.7-flash''
      else if name = ''ollama'' then ''llama3.3''
      else ''gemini-2.5-flash-lite'')"

section \<open>Checking a key\<close>

definition auth_failure :: "string \<Rightarrow> bool" where
  "auth_failure err_str = list_ex (\<lambda>p. str_contains p (to_lowercase err_str))
     [''401'', ''403'', ''unauthorized'', ''invalid api key'', ''invalid x-api-key'', ''authentication'',
      ''permission'', ''404'', ''not_found'', ''model:'']"

definition test_request :: "provider_config \<Rightarrow> completion_request" where
  "test_request config =
     \<lparr>cr_model = (case pc_model config of None \<Rightarrow> [] | Some m \<Rightarrow> m),
      cr_messages = [\<lparr>msg_role = User, msg_content = Text ''Hi''\<rparr>], cr_tools = [],
      cr_max_tokens = Some 1, cr_temperature = Some 0, cr_system = None\<rparr>"

text \<open>\<open>answer\<close> is what \<open>Provider::complete\<close> returns.\<close>

definition validate_provider_key ::
    "(provider \<Rightarrow> completion_request \<Rightarrow> completion_response result) \<Rightarrow> provider_config \<Rightarrow> string + provider" where
  "validate_provider_key answer config =
     (case create_provider config of
        Inl e \<Rightarrow> Inl (''Failed to create provider: '' @ show_error e)
      | Inr p \<Rightarrow>
          (case answer p (test_request config) of
             Inr _ \<Rightarrow> Inr p
           | Inl e \<Rightarrow> if auth_failure (show_error e) then Inl (show_error e) else Inr p))"

section \<open>The credentials file\<close>

datatype toml = TomlString string | TomlArray "toml list" | TomlTable "(string \<times> toml) list" | TomlOther

type_synonym toml_table = "(string \<times> toml) list"

record credentials_provider =
  cp_name :: string
  cp_keys :: "string list"
  cp_model :: string
  cp_base_url :: "string option"

record credentials_file =
  cf_active :: string
  cf_providers :: "credentials_provider list"

definition credentials_default :: credentials_file where
  "credentials_default = \<lparr>cf_active = [], cf_providers = []\<rparr>"

fun toml_string :: "toml \<Rightarrow> string option" where
  "toml_string (TomlString s) = Some s"
| "toml_string _ = None"

fun toml_array :: "(toml \<Rightarrow> 'a option) \<Rightarrow> toml \<Rightarrow> 'a list option" where
  "toml_array f (TomlArray ts) = those (map f ts)"
| "toml_array f _ = None"

text \<open>A field with its default, if it has one.\<close>

definition toml_field :: "string \<Rightarrow> 'a option \<Rightarrow> (toml \<Rightarrow> 'a option) \<Rightarrow> toml_table \<Rightarrow> 'a option" where
  "toml_field name dflt f t = (case map_of t name of None \<Rightarrow> dflt | Some v \<Rightarrow> f v)"

fun provider_of_toml :: "toml \<Rightarrow> credentials_provider option" where
  "provider_of_toml (TomlTable t) =
     Option.bind (toml_field ''name'' None toml_string t) (\<lambda>name.
     Option.bind (toml_field ''keys'' (Some []) (toml_array toml_string) t) (\<lambda>keys.
     Option.bind (toml_field ''model'' None toml_string t) (\<lambda>model.
     Option.bind (toml_field ''base_url'' (Some None) (\<lambda>v. map_option Some (toml_string v)) t) (\<lambda>url.
       Some \<lparr>cp_name = name, cp_keys = keys, cp_model = model, cp_base_url = url\<rparr>))))"
| "provider_of_toml _ = None"

definition creds_of_toml :: "toml_table \<Rightarrow> credentials_file option" where
  "creds_of_toml t =
     Option.bind (toml_field ''active'' (Some []) toml_string t) (\<lambda>active.
     Option.bind (toml_field ''providers'' (Some []) (toml_array provider_of_toml) t) (\<lambda>providers.
       Some \<lparr>cf_active = active, cf_providers = providers\<rparr>))"

definition toml_of_provider :: "credentials_provider \<Rightarrow> toml" where
  "toml_of_provider p = TomlTable ([(''name'', TomlString (cp_name p)),
     (''keys'', TomlArray (map TomlString (cp_keys p))), (''model'', TomlString (cp_model p))]
     @ (case cp_base_url p of None \<Rightarrow> [] | Some url \<Rightarrow> [(''base_url'', TomlString url)]))"

definition toml_of_creds :: "credentials_file \<Rightarrow> toml_table" where
  "toml_of_creds c = [(''active'', TomlString (cf_active c)),
     (''providers'', TomlArray (map toml_of_provider (cf_providers c)))]"

text \<open>
  A file is its text, or \<^const>\<open>None\<close> when it cannot be read. Writing returns what became of the
  file, and the error when it failed.
\<close>

type_synonym cred_file = "string option"

record cred_env =
  ce_parse :: "string \<Rightarrow> toml_table option"
  ce_print :: "toml_table \<Rightarrow> string + string"
  ce_create_dir :: "string + unit"
  ce_write :: "string \<Rightarrow> cred_file \<Rightarrow> (string + unit) \<times> cred_file"

text \<open>What the crate \<open>toml\<close> and \<open>std::fs::write\<close> document.\<close>

definition cred_env_ok :: "cred_env \<Rightarrow> bool" where
  "cred_env_ok env \<longleftrightarrow>
     (\<forall>t s. ce_print env t = Inr s \<longrightarrow> ce_parse env s = Some t) \<and>
     (\<forall>s f f'. ce_write env s f = (Inr (), f') \<longrightarrow> f' = Some s)"

definition legacy_credentials :: "toml_table \<Rightarrow> credentials_file option" where
  "legacy_credentials table =
     (case map_of table ''provider'' of
        Some (TomlTable provider) \<Rightarrow>
          Option.bind (Option.bind (map_of provider ''name'') toml_string) (\<lambda>name.
          Option.bind (Option.bind (map_of provider ''api_key'') toml_string) (\<lambda>key.
          Option.bind (Option.bind (map_of provider ''model'') toml_string) (\<lambda>model.
            if name = [] \<or> key = [] then None
            else Some \<lparr>cf_active = name, cf_providers =
                   [\<lparr>cp_name = name, cp_keys = [key], cp_model = model, cp_base_url = None\<rparr>]\<rparr>)))
      | _ \<Rightarrow> None)"

definition load_credentials_file :: "cred_env \<Rightarrow> cred_file \<Rightarrow> credentials_file option" where
  "load_credentials_file env file =
     Option.bind file (\<lambda>content.
       case Option.bind (ce_parse env content) creds_of_toml of
         Some creds \<Rightarrow> if cf_providers creds \<noteq> [] then Some creds
                       else Option.bind (ce_parse env content) legacy_credentials
       | None \<Rightarrow> Option.bind (ce_parse env content) legacy_credentials)"

definition add_key :: "string \<Rightarrow> string \<Rightarrow> string \<Rightarrow> string option \<Rightarrow> credentials_provider list \<Rightarrow> credentials_provider list" where
  "add_key name key model url ps =
     (let matches = (\<lambda>p. cp_name p = name \<and> cp_base_url p = url)
      in if list_ex matches ps
         then update_first matches (\<lambda>p. p\<lparr>cp_keys := (if key \<in> set (cp_keys p) then cp_keys p else cp_keys p @ [key]),
                                           cp_model := model\<rparr>) ps
         else ps @ [\<lparr>cp_name = name, cp_keys = [key], cp_model = model, cp_base_url = url\<rparr>])"

definition save_credentials ::
    "cred_env \<Rightarrow> string \<Rightarrow> string \<Rightarrow> string \<Rightarrow> string option \<Rightarrow> cred_file \<Rightarrow> (string + unit) \<times> cred_file" where
  "save_credentials env name key model url file =
     (case ce_create_dir env of
        Inl e \<Rightarrow> (Inl e, file)
      | Inr _ \<Rightarrow>
          (let creds = (case load_credentials_file env file of None \<Rightarrow> credentials_default | Some c \<Rightarrow> c);
               creds = creds\<lparr>cf_providers := add_key name key model url (cf_providers creds), cf_active := name\<rparr>
           in case ce_print env (toml_of_creds creds) of
                Inl e \<Rightarrow> (Inl e, file)
              | Inr content \<Rightarrow> ce_write env content file))"

text \<open>\<open>find(active).or_else(first)\<close>.\<close>

definition active_or_first :: "credentials_file \<Rightarrow> credentials_provider option" where
  "active_or_first c = (case List.find (\<lambda>p. cp_name p = cf_active c) (cf_providers c) of
      Some p \<Rightarrow> Some p
    | None \<Rightarrow> (case cf_providers c of [] \<Rightarrow> None | p # _ \<Rightarrow> Some p))"

definition load_saved_credentials :: "cred_env \<Rightarrow> cred_file \<Rightarrow> (string \<times> string \<times> string) option" where
  "load_saved_credentials env file =
     Option.bind (load_credentials_file env file) (\<lambda>creds.
     Option.bind (active_or_first creds) (\<lambda>p.
     Option.bind (List.find (\<lambda>k. \<not> is_placeholder_key k) (cp_keys p)) (\<lambda>first_valid_key.
       if cp_name p = [] \<or> first_valid_key = [] then None
       else Some (cp_name p, first_valid_key, cp_model p))))"

definition load_active_provider_keys ::
    "cred_env \<Rightarrow> cred_file \<Rightarrow> (string \<times> string list \<times> string \<times> string option) option" where
  "load_active_provider_keys env file =
     Option.bind (load_credentials_file env file) (\<lambda>creds.
     Option.bind (active_or_first creds) (\<lambda>p.
       let valid_keys = filter (\<lambda>k. \<not> is_placeholder_key k) (cp_keys p)
       in if cp_name p = [] \<or> valid_keys = [] then None
          else Some (cp_name p, valid_keys, cp_model p, cp_base_url p)))"

section \<open>The output filter\<close>

definition censor_key :: "string \<Rightarrow> string \<Rightarrow> string" where
  "censor_key censored key =
     (if key \<noteq> [] \<and> \<not> is_placeholder_key key \<and> 8 \<le> length key then str_replace key ''[REDACTED]'' censored
      else censored)"

definition censor_secrets :: "cred_env \<Rightarrow> cred_file \<Rightarrow> string \<Rightarrow> string" where
  "censor_secrets env file t =
     (case load_credentials_file env file of
        None \<Rightarrow> t
      | Some creds \<Rightarrow> foldl (\<lambda>c p. foldl censor_key c (cp_keys p)) t (cf_providers creds))"

section \<open>Commands on the credentials\<close>

definition no_providers :: string where
  "no_providers = ''No providers configured. Use /addkey to add one.''"

definition valid_key_count :: "credentials_provider \<Rightarrow> nat" where
  "valid_key_count p = length (filter (\<lambda>k. \<not> is_placeholder_key k) (cp_keys p))"

definition list_configured_providers :: "cred_env \<Rightarrow> cred_file \<Rightarrow> string" where
  "list_configured_providers env file =
     (case load_credentials_file env file of
        None \<Rightarrow> no_providers
      | Some creds \<Rightarrow>
          if cf_providers creds = [] then no_providers
          else join nl ([''Configured providers:''] @
            map (\<lambda>p. ''  '' @ cp_name p @ '' '' @ em_dash @ '' model: '' @ cp_model p @ '', '' @ nat_str (valid_key_count p)
                   @ '' key(s)'' @ (case cp_base_url p of None \<Rightarrow> [] | Some url \<Rightarrow> '' via '' @ url)
                   @ (if cp_name p = cf_active creds then '' (active)'' else [])) (cf_providers creds)
            @ [[], ''Use /addkey to add a new key, /removekey <provider> to remove one.'']))"

definition available_models_for_provider :: "string \<Rightarrow> string list" where
  "available_models_for_provider provider =
     (if provider = ''anthropic'' then [''claude-sonnet-4-6'', ''claude-opus-4-6'', ''claude-haiku-4-5'']
      else if provider = ''openai'' then [''gpt-5.2'', ''gpt-4.1'', ''gpt-4.1-mini'', ''gpt-4o'', ''o4-mini'', ''o3-mini'',
        ''gpt-3.5-turbo'']
      else if provider = ''gemini'' then [''gemini-3-flash-preview'', ''gemini-3.1-pro-preview'', ''gemini-2.5-flash'',
        ''gemini-2.5-pro'']
      else if provider \<in> {''grok'', ''xai''} then [''grok-4-1-fast-non-reasoning'', ''grok-3'']
      else if provider = ''openrouter'' then [''anthropic/claude-sonnet-4-6'', ''openai/gpt-5.2'',
        ''google/gemini-3-flash-preview'']
      else if provider \<in> {''zai'', ''zhipu''} then [''glm-4.7-flash'', ''glm-4.7'', ''glm-5'', ''glm-5-code'', ''glm-4.6v'',
        ''glm-4.6v-flash'']
      else if provider = ''minimax'' then [''MiniMax-M2.5'', ''MiniMax-M2.5-highspeed'']
      else [])"

definition is_vision_model :: "string \<Rightarrow> bool" where
  "is_vision_model model =
     (let m = to_lowercase model
      in if starts_with ''glm-'' m then str_contains ''v'' m \<and> \<not> starts_with ''glm-5'' m
         else if starts_with ''minimax'' m then False
         else if starts_with ''gpt-3'' m then False
         else True)"

abbreviation left_arrow :: string where
  "left_arrow \<equiv> [CHR 0xE2, CHR 0x86, CHR 0x90]"

definition is_proxy :: "credentials_provider \<Rightarrow> bool" where
  "is_proxy p \<longleftrightarrow> cp_base_url p \<noteq> None \<or> cp_name p = ''openrouter''"

definition vision_mark :: "string \<Rightarrow> string" where
  "vision_mark model = (if is_vision_model model then '' [vision]'' else [])"

definition model_lines :: "string \<Rightarrow> credentials_provider \<Rightarrow> string list" where
  "model_lines active p =
     (''  '' @ cp_name p @ (if cp_name p = active then '' (active)'' else []) @ '':'') #
     (if is_proxy p
      then [''    '' @ cp_model p @ '' '' @ left_arrow @ '' current'' @ vision_mark (cp_model p),
            ''    (proxy '' @ em_dash @ '' any model name accepted)'']
      else map (\<lambda>model. ''    '' @ model @ vision_mark model
                  @ (if model = cp_model p then '' '' @ left_arrow @ '' current'' else []))
             (available_models_for_provider (cp_name p)))"

definition model_overview :: "credentials_file \<Rightarrow> string" where
  "model_overview creds =
     join nl ((case List.find (\<lambda>p. cp_name p = cf_active creds) (cf_providers creds) of
         None \<Rightarrow> []
       | Some p \<Rightarrow> [''Current: '' @ cp_model p @ '' on '' @ cp_name p @ '' provider''])
      @ [[], ''Available models per provider:'']
      @ concat (map (model_lines (cf_active creds)) (cf_providers creds))
      @ [[], ''Switch model: /model <exact-model-name>'', ''Example: /model claude-sonnet-4-6''])"

definition with_model :: "string \<Rightarrow> string \<Rightarrow> credentials_file \<Rightarrow> credentials_file" where
  "with_model name model creds =
     creds\<lparr>cf_providers := map (\<lambda>p. if cp_name p = name then p\<lparr>cp_model := model\<rparr> else p) (cf_providers creds)\<rparr>"

definition handle_model_command :: "cred_env \<Rightarrow> string \<Rightarrow> cred_file \<Rightarrow> string \<times> cred_file" where
  "handle_model_command env args file =
     (case load_credentials_file env file of
        None \<Rightarrow> (no_providers, file)
      | Some creds \<Rightarrow>
          if cf_providers creds = [] then (no_providers, file)
          else if args = [] then (model_overview creds, file)
          else
            (let target = trim args
             in case List.find (\<lambda>p. cp_name p = cf_active creds) (cf_providers creds) of
                  None \<Rightarrow> (''Active provider not found in credentials.'', file)
                | Some p \<Rightarrow>
                    if cp_model p = target then (''Already using '' @ target @ ''.'', file)
                    else
                      (let known = available_models_for_provider (cp_name p)
                       in if \<not> is_proxy p \<and> known \<noteq> [] \<and> target \<notin> set known
                          then (''Unknown model '' @ quoted target @ '' for provider '' @ quoted (cp_name p) @ ''.''
                                  @ nl @ nl @ ''Available models:'' @ nl
                                  @ join nl (map (\<lambda>model. ''  '' @ model @ vision_mark model) known)
                                  @ nl @ nl @ ''Use exact name: /model <model-name>'', file)
                          else
                            (case ce_print env (toml_of_creds (with_model (cf_active creds) target creds)) of
                               Inl e \<Rightarrow> (''Failed to serialize credentials: '' @ e, file)
                             | Inr content \<Rightarrow>
                                 (case ce_write env content file of
                                    (Inl e, file') \<Rightarrow> (''Failed to write credentials: '' @ e, file')
                                  | (Inr _, file') \<Rightarrow>
                                      (''Model switched: '' @ cp_model p @ '' '' @ arrow @ '' '' @ target @ nl
                                         @ ''Hot-reload will apply after this response.'', file'))))))"

definition without_provider :: "string \<Rightarrow> credentials_file \<Rightarrow> credentials_file" where
  "without_provider name creds =
     (let ps = filter (\<lambda>p. cp_name p \<noteq> name) (cf_providers creds)
      in \<lparr>cf_active = (if cf_active creds = name then (case ps of [] \<Rightarrow> [] | p # _ \<Rightarrow> cp_name p) else cf_active creds),
          cf_providers = ps\<rparr>)"

definition remove_provider :: "cred_env \<Rightarrow> string \<Rightarrow> cred_file \<Rightarrow> string \<times> cred_file" where
  "remove_provider env name file =
     (if name = [] then (''Usage: /removekey <provider>'' @ nl @ ''Example: /removekey openai'', file)
      else case load_credentials_file env file of
          None \<Rightarrow> (''No providers configured.'', file)
        | Some creds \<Rightarrow>
            (let creds' = without_provider name creds
             in if length (cf_providers creds') = length (cf_providers creds)
                then (''Provider '' @ quoted name @ '' not found. Use /keys to see configured providers.'', file)
                else
                  (case ce_print env (toml_of_creds creds') of
                     Inl e \<Rightarrow> (''Failed to serialize: '' @ e, file)
                   | Inr content \<Rightarrow>
                       (case ce_write env content file of
                          (Inl e, file') \<Rightarrow> (''Failed to save: '' @ e, file')
                        | (Inr _, file') \<Rightarrow>
                            (case cf_providers creds' of
                               [] \<Rightarrow> ''Removed '' @ name @ ''. No providers remaining '' @ em_dash
                                      @ '' send a new API key to configure one.''
                             | p # _ \<Rightarrow> ''Removed '' @ name @ ''. Active provider: '' @ cf_active creds'
                                      @ '' (model: '' @ cp_model p @ '')'', file')))))"

section \<open>Encrypted keys\<close>

text \<open>
  \<open>decode\<close> is the base64 decoder and \<open>decrypt\<close> the AES-GCM decryption, of a key, a nonce and a
  ciphertext with its tag.
\<close>

definition decrypt_otk_blob ::
    "(string \<Rightarrow> string + string) \<Rightarrow> (u8 list \<Rightarrow> string \<Rightarrow> string \<Rightarrow> string option) \<Rightarrow> string \<Rightarrow> string \<Rightarrow> nat \<Rightarrow>
     token_store \<Rightarrow> (string + string) \<times> token_store" where
  "decrypt_otk_blob decode decrypt blob_b64 chat now store =
     (case consume now chat store of
        (None, store') \<Rightarrow> (Inl ''No pending setup link for this chat. Run /addkey first.'', store')
      | (Some key, store') \<Rightarrow>
          ((case decode (trim blob_b64) of
              Inl e \<Rightarrow> Inl (''Invalid base64: '' @ e)
            | Inr blob \<Rightarrow>
                if length blob < 29 then Inl ''Encrypted blob too short.''
                else (case decrypt key (take 12 blob) (drop 12 blob) of
                        None \<Rightarrow> Inl (''Decryption failed '' @ em_dash
                                 @ '' the setup link may have expired or the data was tampered with.'')
                      | Some plaintext \<Rightarrow>
                          if utf8_valid plaintext then Inr plaintext
                          else Inl ''Decrypted data is not valid UTF-8.'')), store'))"

section \<open>Stop commands\<close>

definition STOP_WORDS :: "string list" where
  "STOP_WORDS =
    [''stop'', ''cancel'', ''abort'', ''quit'', ''halt'', ''enough'',
    ''d'' @ [CHR 0xE1, CHR 0xBB, CHR 0xAB] @ ''ng'', ''dung'', ''th'' @ [CHR 0xC3, CHR 0xB4] @ ''i'', ''thoi'',
    ''ng'' @ [CHR 0xE1, CHR 0xBB, CHR 0xAB] @ ''ng'', ''ngung'',
    ''h'' @ [CHR 0xE1, CHR 0xBB, CHR 0xA7] @ ''y'', ''huy'', ''d'' @ [CHR 0xE1, CHR 0xBA, CHR 0xB9] @ ''p'',
    ''dep'', ''para'', ''detente'', ''basta'', ''cancela'', ''alto'', ''arr'' @ [CHR 0xC3, CHR 0xAA] @ ''te'',
    ''arrete'', ''arr'' @ [CHR 0xC3, CHR 0xAA] @ ''ter'', ''arreter'', ''annuler'', ''suffit'', ''stopp'',
    ''aufh'' @ [CHR 0xC3, CHR 0xB6] @ ''ren'', ''aufhoren'', ''abbrechen'', ''genug'', ''pare'', ''parar'',
    ''cancele'', ''cancelar'', ''chega'', ''ferma'', ''fermati'', ''basta'', ''annulla'', ''smettila'',
    [CHR 0xD1, CHR 0x81, CHR 0xD1, CHR 0x82, CHR 0xD0, CHR 0xBE, CHR 0xD0, CHR 0xBF],
    [CHR 0xD1, CHR 0x81, CHR 0xD1, CHR 0x82, CHR 0xD0, CHR 0xBE, CHR 0xD0, CHR 0xB9],
    [CHR 0xD1, CHR 0x85, CHR 0xD0, CHR 0xB2, CHR 0xD0, CHR 0xB0, CHR 0xD1, CHR 0x82, CHR 0xD0, CHR 0xB8, CHR 0xD1, CHR 0x82],
    [CHR 0xD0, CHR 0xBE, CHR 0xD1, CHR 0x82, CHR 0xD0, CHR 0xBC, CHR 0xD0, CHR 0xB5, CHR 0xD0, CHR 0xBD, CHR 0xD0, CHR 0xB0],
    [CHR 0xD0, CHR 0xB4, CHR 0xD0, CHR 0xBE, CHR 0xD0, CHR 0xB2, CHR 0xD0, CHR 0xBE, CHR 0xD0, CHR 0xBB, CHR 0xD1, CHR 0x8C, CHR 0xD0, CHR 0xBD, CHR 0xD0, CHR 0xBE],
    [CHR 0xE6, CHR 0xAD, CHR 0xA2, CHR 0xE3, CHR 0x82, CHR 0x81, CHR 0xE3, CHR 0x81, CHR 0xA6],
    [CHR 0xE3, CHR 0x82, CHR 0x84, CHR 0xE3, CHR 0x82, CHR 0x81, CHR 0xE3, CHR 0x81, CHR 0xA6],
    [CHR 0xE3, CHR 0x82, CHR 0x84, CHR 0xE3, CHR 0x82, CHR 0x81, CHR 0xE3, CHR 0x82, CHR 0x8D],
    [CHR 0xE3, CHR 0x82, CHR 0xB9, CHR 0xE3, CHR 0x83, CHR 0x88, CHR 0xE3, CHR 0x83, CHR 0x83, CHR 0xE3, CHR 0x83, CHR 0x97],
    [CHR 0xE6, CHR 0xAD, CHR 0xA2, CHR 0xE3, CHR 0x82, CHR 0x81],
    [CHR 0xE3, CHR 0x82, CHR 0x84, CHR 0xE3, CHR 0x82, CHR 0x81],
    [CHR 0xEB, CHR 0xA9, CHR 0x88, CHR 0xEC, CHR 0xB6, CHR 0xB0],
    [CHR 0xEA, CHR 0xB7, CHR 0xB8, CHR 0xEB, CHR 0xA7, CHR 0x8C],
    [CHR 0xEC, CHR 0xA4, CHR 0x91, CHR 0xEC, CHR 0xA7, CHR 0x80],
    [CHR 0xEC, CHR 0xB7, CHR 0xA8, CHR 0xEC, CHR 0x86, CHR 0x8C],
    [CHR 0xEB, CHR 0x90, CHR 0x90, CHR 0xEC, CHR 0x96, CHR 0xB4], [CHR 0xE5, CHR 0x81, CHR 0x9C],
    [CHR 0xE5, CHR 0x81, CHR 0x9C, CHR 0xE6, CHR 0xAD, CHR 0xA2],
    [CHR 0xE5, CHR 0x8F, CHR 0x96, CHR 0xE6, CHR 0xB6, CHR 0x88],
    [CHR 0xE5, CHR 0x88, CHR 0xAB, CHR 0xE8, CHR 0xAF, CHR 0xB4, CHR 0xE4, CHR 0xBA, CHR 0x86],
    [CHR 0xE5, CHR 0xA4, CHR 0x9F, CHR 0xE4, CHR 0xBA, CHR 0x86],
    [CHR 0xE7, CHR 0xAE, CHR 0x97, CHR 0xE4, CHR 0xBA, CHR 0x86],
    [CHR 0xD8, CHR 0xAA, CHR 0xD9, CHR 0x88, CHR 0xD9, CHR 0x82, CHR 0xD9, CHR 0x81],
    [CHR 0xD8, CHR 0xA7, CHR 0xD9, CHR 0x84, CHR 0xD8, CHR 0xBA, CHR 0xD8, CHR 0xA7, CHR 0xD8, CHR 0xA1],
    [CHR 0xD9, CHR 0x83, CHR 0xD9, CHR 0x81, CHR 0xD9, CHR 0x89], [CHR 0xD9, CHR 0x82, CHR 0xD9, CHR 0x81],
    [CHR 0xE0, CHR 0xB8, CHR 0xAB, CHR 0xE0, CHR 0xB8, CHR 0xA2, CHR 0xE0, CHR 0xB8, CHR 0xB8, CHR 0xE0, CHR 0xB8, CHR 0x94],
    [CHR 0xE0, CHR 0xB8, CHR 0xA2, CHR 0xE0, CHR 0xB8, CHR 0x81, CHR 0xE0, CHR 0xB9, CHR 0x80, CHR 0xE0, CHR 0xB8, CHR 0xA5, CHR 0xE0, CHR 0xB8, CHR 0xB4, CHR 0xE0, CHR 0xB8, CHR 0x81],
    [CHR 0xE0, CHR 0xB8, CHR 0x9E, CHR 0xE0, CHR 0xB8, CHR 0xAD],
    [CHR 0xE0, CHR 0xB9, CHR 0x80, CHR 0xE0, CHR 0xB8, CHR 0xA5, CHR 0xE0, CHR 0xB8, CHR 0xB4, CHR 0xE0, CHR 0xB8, CHR 0x81],
    ''berhenti'', ''hentikan'', ''batalkan'', ''cukup'', ''sudah'',
    [CHR 0xE0, CHR 0xA4, CHR 0xB0, CHR 0xE0, CHR 0xA5, CHR 0x81, CHR 0xE0, CHR 0xA4, CHR 0x95, CHR 0xE0, CHR 0xA5, CHR 0x8B],
    [CHR 0xE0, CHR 0xA4, CHR 0xAC, CHR 0xE0, CHR 0xA4, CHR 0x82, CHR 0xE0, CHR 0xA4, CHR 0xA6],
    [CHR 0xE0, CHR 0xA4, CHR 0xB0, CHR 0xE0, CHR 0xA4, CHR 0xA6, CHR 0xE0, CHR 0xA5, CHR 0x8D, CHR 0xE0, CHR 0xA4, CHR 0xA6],
    [CHR 0xE0, CHR 0xA4, CHR 0xAC, CHR 0xE0, CHR 0xA4, CHR 0xB8], ''ruko'', ''bas'', ''dur'', ''durdur'',
    ''iptal'', ''yeter'']"

definition STOP_PHRASES :: "string list" where
  "STOP_PHRASES =
    [''stop it'', ''stop that'', ''please stop'', ''stop now'', ''cancel that'', ''shut up'',
    ''d'' @ [CHR 0xE1, CHR 0xBB, CHR 0xAB] @ ''ng l'' @ [CHR 0xE1, CHR 0xBA, CHR 0xA1] @ ''i'', ''dung lai'',
    ''th'' @ [CHR 0xC3, CHR 0xB4] @ ''i '' @ [CHR 0xC4, CHR 0x91] @ ''i'', ''thoi di'',
    ''d'' @ [CHR 0xE1, CHR 0xBB, CHR 0xAB] @ ''ng '' @ [CHR 0xC4, CHR 0x91] @ ''i'', ''dung di'',
    ''ng'' @ [CHR 0xE1, CHR 0xBB, CHR 0xAB] @ ''ng l'' @ [CHR 0xE1, CHR 0xBA, CHR 0xA1] @ ''i'', ''ngung lai'',
    ''dung viet'', ''d'' @ [CHR 0xE1, CHR 0xBB, CHR 0xAB] @ ''ng vi'' @ [CHR 0xE1, CHR 0xBA, CHR 0xBF] @ ''t'',
    ''thoi dung'', ''th'' @ [CHR 0xC3, CHR 0xB4] @ ''i d'' @ [CHR 0xE1, CHR 0xBB, CHR 0xAB] @ ''ng'',
    [CHR 0xC4, CHR 0x91, CHR 0xE1, CHR 0xBB, CHR 0xAB] @ ''ng n'' @ [CHR 0xC3, CHR 0xB3] @ ''i n'' @ [CHR 0xE1, CHR 0xBB, CHR 0xAF] @ ''a'',
    ''dung noi nua'', ''im '' @ [CHR 0xC4, CHR 0x91] @ ''i'', ''im di'', ''para ya'', ''deja de'',
    ''arr'' @ [CHR 0xC3, CHR 0xAA] @ ''te '' @ [CHR 0xC3, CHR 0xA7] @ ''a'', ''arrete ca'',
    ''h'' @ [CHR 0xC3, CHR 0xB6] @ ''r auf'', ''hor auf'',
    [CHR 0xE6, CHR 0xAD, CHR 0xA2, CHR 0xE3, CHR 0x82, CHR 0x81, CHR 0xE3, CHR 0x81, CHR 0xA6, CHR 0xE3, CHR 0x81, CHR 0x8F, CHR 0xE3, CHR 0x81, CHR 0xA0, CHR 0xE3, CHR 0x81, CHR 0x95, CHR 0xE3, CHR 0x81, CHR 0x84],
    [CHR 0xE3, CHR 0x82, CHR 0x84, CHR 0xE3, CHR 0x82, CHR 0x81, CHR 0xE3, CHR 0x81, CHR 0xA6, CHR 0xE3, CHR 0x81, CHR 0x8F, CHR 0xE3, CHR 0x81, CHR 0xA0, CHR 0xE3, CHR 0x81, CHR 0x95, CHR 0xE3, CHR 0x81, CHR 0x84],
    [CHR 0xE5, CHR 0x81, CHR 0x9C, CHR 0xE4, CHR 0xB8, CHR 0x8B, CHR 0xE6, CHR 0x9D, CHR 0xA5],
    [CHR 0xE4, CHR 0xB8, CHR 0x8D, CHR 0xE8, CHR 0xA6, CHR 0x81, CHR 0xE8, CHR 0xAF, CHR 0xB4, CHR 0xE4, CHR 0xBA, CHR 0x86],
    [CHR 0xE5, CHR 0x88, CHR 0xAB, CHR 0xE8, CHR 0xAF, CHR 0xB4, CHR 0xE4, CHR 0xBA, CHR 0x86],
    [CHR 0xEA, CHR 0xB7, CHR 0xB8, CHR 0xEB, CHR 0xA7, CHR 0x8C, CHR 0xED, CHR 0x95, CHR 0xB4],
    [CHR 0xEB, CHR 0xA9, CHR 0x88, CHR 0xEC, CHR 0xB6, CHR 0xB0, CHR 0xEC, CHR 0xA4, CHR 0x98]]"

text \<open>\<open>lowercase\<close> is \<open>str::to_lowercase\<close>, which is not limited to ASCII here.\<close>

definition is_stop_command :: "(string \<Rightarrow> string) \<Rightarrow> string \<Rightarrow> bool" where
  "is_stop_command lowercase t0 =
     (let t = lowercase (trim t0)
      in if t \<in> set STOP_WORDS then True
         else if length t \<le> 60 then list_ex (\<lambda>phrase. str_contains phrase t) STOP_PHRASES
         else False)"

section \<open>Sending\<close>

text \<open>
  \<open>send_with_retry\<close>: \<open>send n\<close> is the answer of the channel to the \<open>n\<close>-th attempt. The result is
  whether the message was sent, and the times slept in between, in milliseconds.
\<close>

fun send_attempts :: "(nat \<Rightarrow> bool) \<Rightarrow> nat \<Rightarrow> nat \<Rightarrow> bool \<times> nat list" where
  "send_attempts send 0 attempt = (False, [])"
| "send_attempts send (Suc left) attempt =
     (if send attempt then (True, [])
      else if 3 \<le> attempt then (False, [])
      else case send_attempts send left (attempt + 1) of (sent, sleeps) \<Rightarrow> (sent, 500 * 2 ^ attempt # sleeps))"

definition send_with_retry :: "(nat \<Rightarrow> bool) \<Rightarrow> bool \<times> nat list" where
  "send_with_retry send = send_attempts send 3 1"

definition censored_send :: "cred_env \<Rightarrow> cred_file \<Rightarrow> outbound_message \<Rightarrow> outbound_message" where
  "censored_send env file msg = msg\<lparr>out_text := censor_secrets env file (out_text msg)\<rparr>"

section \<open>Texts\<close>

definition onboarding_message_with_link :: "string \<Rightarrow> string" where
  "onboarding_message_with_link setup_link =
     join nl [
       ''Welcome to SkyClaw! (Skysclawper v.0.01)'',
       [],
       [CHR 0xE3, CHR 0x81, CHR 0xBE, CHR 0xE3, CHR 0x81, CHR 0x9A, CHR 0xE3, CHR 0x81, CHR 0xAF, CHR 0xE3, CHR 0x81, CHR 0x98, CHR 0xE3, CHR 0x82, CHR 0x81, CHR 0xE3, CHR 0x81, CHR 0xAB, CHR 0xE3, CHR 0x80, CHR 0x81, CHR 0xE3, CHR 0x82, CHR 0xBB, CHR 0xE3, CHR 0x82, CHR 0xAD, CHR 0xE3, CHR 0x83, CHR 0xA5, CHR 0xE3, CHR 0x83, CHR 0xAA, CHR 0xE3, CHR 0x83, CHR 0x86, CHR 0xE3, CHR 0x82, CHR 0xA3, CHR 0xE4, CHR 0xBF, CHR 0x9D, CHR 0xE8, CHR 0xAD, CHR 0xB7, CHR 0xE3, CHR 0x81, CHR 0x95, CHR 0xE3, CHR 0x82, CHR 0x8C, CHR 0xE3, CHR 0x81, CHR 0x9F, CHR 0xE4, CHR 0xBB, CHR 0xA5, CHR 0xE4, CHR 0xB8, CHR 0x8B, CHR 0xE3, CHR 0x81, CHR 0xAE, CHR 0xE3, CHR 0x82, CHR 0xBB, CHR 0xE3, CHR 0x83, CHR 0x83, CHR 0xE3, CHR 0x83, CHR 0x88, CHR 0xE3, CHR 0x82, CHR 0xA2, CHR 0xE3, CHR 0x83, CHR 0x83, CHR 0xE3, CHR 0x83, CHR 0x97, CHR 0xE3, CHR 0x83, CHR 0xAA, CHR 0xE3, CHR 0x83, CHR 0xB3, CHR 0xE3, CHR 0x82, CHR 0xAF, CHR 0xE3, CHR 0x82, CHR 0x92, CHR 0xE9, CHR 0x96, CHR 0x8B, CHR 0xE3, CHR 0x81, CHR 0x84, CHR 0xE3, CHR 0x81, CHR 0xA6, CHR 0xE3, CHR 0x81, CHR 0x8F, CHR 0xE3, CHR 0x81, CHR 0xA0, CHR 0xE3, CHR 0x81, CHR 0x95, CHR 0xE3, CHR 0x81, CHR 0x84] @ '':'',
       []]
     @ setup_link
     @ join nl [
       [],
       [],
       [CHR 0xE3, CHR 0x83, CHR 0x95, CHR 0xE3, CHR 0x82, CHR 0xA9, CHR 0xE3, CHR 0x83, CHR 0xBC, CHR 0xE3, CHR 0x83, CHR 0xA0, CHR 0xE3, CHR 0x81, CHR 0xAB] @ ''API'' @ [CHR 0xE3, CHR 0x82, CHR 0xAD, CHR 0xE3, CHR 0x83, CHR 0xBC, CHR 0xE3, CHR 0x82, CHR 0x92, CHR 0xE5, CHR 0x85, CHR 0xA5, CHR 0xE5, CHR 0x8A, CHR 0x9B, CHR 0xE3, CHR 0x81, CHR 0x97, CHR 0xE3, CHR 0x80, CHR 0x81, CHR 0xE7, CHR 0x94, CHR 0x9F, CHR 0xE6, CHR 0x88, CHR 0x90, CHR 0xE3, CHR 0x81, CHR 0x95, CHR 0xE3, CHR 0x82, CHR 0x8C, CHR 0xE3, CHR 0x81, CHR 0x9F, CHR 0xE6, CHR 0x9A, CHR 0x97, CHR 0xE5, CHR 0x8F, CHR 0xB7, CHR 0xE5, CHR 0x8C, CHR 0x96] @ ''Blob'' @ [CHR 0xE3, CHR 0x82, CHR 0x92, CHR 0xE3, CHR 0x82, CHR 0xB3, CHR 0xE3, CHR 0x83, CHR 0x94, CHR 0xE3, CHR 0x83, CHR 0xBC, CHR 0xE3, CHR 0x81, CHR 0x97, CHR 0xE3, CHR 0x81, CHR 0xA6, CHR 0xE3, CHR 0x80, CHR 0x81, CHR 0xE3, CHR 0x81, CHR 0x93, CHR 0xE3, CHR 0x81, CHR 0x93, CHR 0xE3, CHR 0x81, CHR 0xAB, CHR 0xE8, CHR 0xBF, CHR 0x94, CHR 0xE4, CHR 0xBF, CHR 0xA1, CHR 0xE3, CHR 0x81, CHR 0x97, CHR 0xE3, CHR 0x81, CHR 0xA6, CHR 0xE3, CHR 0x81, CHR 0x8F, CHR 0xE3, CHR 0x81, CHR 0xA0, CHR 0xE3, CHR 0x81, CHR 0x95, CHR 0xE3, CHR 0x81, CHR 0x84, CHR 0xE3, CHR 0x80, CHR 0x82],
       [],
       [CHR 0xE3, CHR 0x81, CHR 0xBE, CHR 0xE3, CHR 0x81, CHR 0x9F, CHR 0xE3, CHR 0x81, CHR 0xAF, CHR 0xE3, CHR 0x80, CHR 0x81] @ ''API'' @ [CHR 0xE3, CHR 0x82, CHR 0xAD, CHR 0xE3, CHR 0x83, CHR 0xBC, CHR 0xE3, CHR 0x82, CHR 0x92, CHR 0xE7, CHR 0x9B, CHR 0xB4, CHR 0xE6, CHR 0x8E, CHR 0xA5, CHR 0xE3, CHR 0x81, CHR 0x93, CHR 0xE3, CHR 0x81, CHR 0x93, CHR 0xE3, CHR 0x81, CHR 0xAB, CHR 0xE8, CHR 0xB2, CHR 0xBC, CHR 0xE3, CHR 0x82, CHR 0x8A, CHR 0xE4, CHR 0xBB, CHR 0x98, CHR 0xE3, CHR 0x81, CHR 0x91, CHR 0xE3, CHR 0x82, CHR 0x8B, CHR 0xE3, CHR 0x81, CHR 0xA0, CHR 0xE3, CHR 0x81, CHR 0x91, CHR 0xE3, CHR 0x81, CHR 0xA7, CHR 0xE3, CHR 0x82, CHR 0x82, CHR 0xE6, CHR 0xA7, CHR 0x8B, CHR 0xE3, CHR 0x81, CHR 0x84, CHR 0xE3, CHR 0x81, CHR 0xBE, CHR 0xE3, CHR 0x81, CHR 0x9B, CHR 0xE3, CHR 0x82, CHR 0x93, CHR 0xE3, CHR 0x80, CHR 0x82, CHR 0xE8, CHR 0x87, CHR 0xAA, CHR 0xE5, CHR 0x8B, CHR 0x95, CHR 0xE7, CHR 0x9A, CHR 0x84, CHR 0xE3, CHR 0x81, CHR 0xAB, CHR 0xE3, CHR 0x83, CHR 0x97, CHR 0xE3, CHR 0x83, CHR 0xAD, CHR 0xE3, CHR 0x83, CHR 0x90, CHR 0xE3, CHR 0x82, CHR 0xA4, CHR 0xE3, CHR 0x83, CHR 0x80, CHR 0xE3, CHR 0x83, CHR 0xBC, CHR 0xE3, CHR 0x82, CHR 0x92, CHR 0xE6, CHR 0xA4, CHR 0x9C, CHR 0xE5, CHR 0x87, CHR 0xBA, CHR 0xE3, CHR 0x81, CHR 0x97, CHR 0xE3, CHR 0x80, CHR 0x81, CHR 0xE3, CHR 0x82, CHR 0xAA, CHR 0xE3, CHR 0x83, CHR 0xB3, CHR 0xE3, CHR 0x83, CHR 0xA9, CHR 0xE3, CHR 0x82, CHR 0xA4, CHR 0xE3, CHR 0x83, CHR 0xB3, CHR 0xE3, CHR 0x81, CHR 0xAB, CHR 0xE3, CHR 0x81, CHR 0x97, CHR 0xE3, CHR 0x81, CHR 0xBE, CHR 0xE3, CHR 0x81, CHR 0x99, CHR 0xE3, CHR 0x80, CHR 0x82],
       [],
       [CHR 0xE5, CHR 0xBE, CHR 0x8C, CHR 0xE3, CHR 0x81, CHR 0x8B, CHR 0xE3, CHR 0x82, CHR 0x89] @ '' /addkey '' @ [CHR 0xE3, CHR 0x81, CHR 0xA7, CHR 0xE3, CHR 0x82, CHR 0xAD, CHR 0xE3, CHR 0x83, CHR 0xBC, CHR 0xE3, CHR 0x82, CHR 0x92, CHR 0xE8, CHR 0xBF, CHR 0xBD, CHR 0xE5, CHR 0x8A, CHR 0xA0, CHR 0xE3, CHR 0x81, CHR 0x97, CHR 0xE3, CHR 0x81, CHR 0x9F, CHR 0xE3, CHR 0x82, CHR 0x8A, CHR 0xE3, CHR 0x80, CHR 0x81] @ ''/keys '' @ [CHR 0xE3, CHR 0x81, CHR 0xA7, CHR 0xE4, CHR 0xB8, CHR 0x80, CHR 0xE8, CHR 0xA6, CHR 0xA7, CHR 0xE8, CHR 0xA1, CHR 0xA8, CHR 0xE7, CHR 0xA4, CHR 0xBA, CHR 0xE3, CHR 0x80, CHR 0x81] @ ''/removekey '' @ [CHR 0xE3, CHR 0x81, CHR 0xA7, CHR 0xE5, CHR 0x89, CHR 0x8A, CHR 0xE9, CHR 0x99, CHR 0xA4, CHR 0xE3, CHR 0x82, CHR 0x82, CHR 0xE5, CHR 0x8F, CHR 0xAF, CHR 0xE8, CHR 0x83, CHR 0xBD, CHR 0xE3, CHR 0x81, CHR 0xA7, CHR 0xE3, CHR 0x81, CHR 0x99, CHR 0xE3, CHR 0x80, CHR 0x82],
       [],
       ''(Note: SNS'' @ [CHR 0xE9, CHR 0x81, CHR 0x8B, CHR 0xE7, CHR 0x94, CHR 0xA8, CHR 0xE3, CHR 0x81, CHR 0xAE, CHR 0xE5, CHR 0xA0, CHR 0xB4, CHR 0xE5, CHR 0x90, CHR 0x88, CHR 0xE3, CHR 0x80, CHR 0x81, CHR 0xE3, CHR 0x81, CHR 0x93, CHR 0xE3, CHR 0x81, CHR 0x93, CHR 0xE3, CHR 0x81, CHR 0xA7, CHR 0xE3, CHR 0x82, CHR 0xA2, CHR 0xE3, CHR 0x82, CHR 0xAB, CHR 0xE3, CHR 0x82, CHR 0xA6, CHR 0xE3, CHR 0x83, CHR 0xB3, CHR 0xE3, CHR 0x83, CHR 0x88, CHR 0xE7, CHR 0x99, CHR 0xBB, CHR 0xE9, CHR 0x8C, CHR 0xB2, CHR 0xE3, CHR 0x82, CHR 0x92, CHR 0xE8, CHR 0xA1, CHR 0x8C, CHR 0xE3, CHR 0x81, CHR 0x86, CHR 0xE3, CHR 0x81, CHR 0x93, CHR 0xE3, CHR 0x81, CHR 0xA8, CHR 0xE3, CHR 0x82, CHR 0x82, CHR 0xE5, CHR 0x8F, CHR 0xAF, CHR 0xE8, CHR 0x83, CHR 0xBD, CHR 0xE3, CHR 0x81, CHR 0xA7, CHR 0xE3, CHR 0x81, CHR 0x99, CHR 0xE3, CHR 0x80, CHR 0x82] @ '')'']"

definition ONBOARDING_REFERENCE :: string where
  "ONBOARDING_REFERENCE = join nl [
     [CHR 0xE5, CHR 0xAF, CHR 0xBE, CHR 0xE5, CHR 0xBF, CHR 0x9C, CHR 0xE3, CHR 0x83, CHR 0x95, CHR 0xE3, CHR 0x82, CHR 0xA9, CHR 0xE3, CHR 0x83, CHR 0xBC, CHR 0xE3, CHR 0x83, CHR 0x9E, CHR 0xE3, CHR 0x83, CHR 0x83, CHR 0xE3, CHR 0x83, CHR 0x88] @ '':'',
     [],
     ''1'' @ [CHR 0xEF, CHR 0xB8, CHR 0x8F, CHR 0xE2, CHR 0x83, CHR 0xA3] @ '' '' @ [CHR 0xE8, CHR 0x87, CHR 0xAA, CHR 0xE5, CHR 0x8B, CHR 0x95, CHR 0xE6, CHR 0xA4, CHR 0x9C, CHR 0xE5, CHR 0x87, CHR 0xBA] @ '' ('' @ [CHR 0xE3, CHR 0x82, CHR 0xAD, CHR 0xE3, CHR 0x83, CHR 0xBC, CHR 0xE3, CHR 0x82, CHR 0x92, CHR 0xE8, CHR 0xB2, CHR 0xBC, CHR 0xE3, CHR 0x82, CHR 0x8A, CHR 0xE4, CHR 0xBB, CHR 0x98, CHR 0xE3, CHR 0x81, CHR 0x91, CHR 0xE3, CHR 0x82, CHR 0x8B, CHR 0xE3, CHR 0x81, CHR 0xA0, CHR 0xE3, CHR 0x81, CHR 0x91] @ ''):'',
     ''sk-ant-...     '' @ [CHR 0xE2, CHR 0x86, CHR 0x92] @ '' Anthropic'',
     ''sk-...         '' @ [CHR 0xE2, CHR 0x86, CHR 0x92] @ '' OpenAI'',
     ''AIzaSy...      '' @ [CHR 0xE2, CHR 0x86, CHR 0x92] @ '' Gemini'',
     ''xai-...        '' @ [CHR 0xE2, CHR 0x86, CHR 0x92] @ '' Grok'',
     ''sk-or-...      '' @ [CHR 0xE2, CHR 0x86, CHR 0x92] @ '' OpenRouter'',
     [],
     ''2'' @ [CHR 0xEF, CHR 0xB8, CHR 0x8F, CHR 0xE2, CHR 0x83, CHR 0xA3] @ '' '' @ [CHR 0xE6, CHR 0x98, CHR 0x8E, CHR 0xE7, CHR 0xA4, CHR 0xBA, CHR 0xE7, CHR 0x9A, CHR 0x84, CHR 0xE6, CHR 0x8C, CHR 0x87, CHR 0xE5, CHR 0xAE, CHR 0x9A] @ '' ('' @ [CHR 0xE3, CHR 0x83, CHR 0x97, CHR 0xE3, CHR 0x83, CHR 0xAC, CHR 0xE3, CHR 0x83, CHR 0x95, CHR 0xE3, CHR 0x82, CHR 0xA3, CHR 0xE3, CHR 0x83, CHR 0x83, CHR 0xE3, CHR 0x82, CHR 0xAF, CHR 0xE3, CHR 0x82, CHR 0xB9, CHR 0xE3, CHR 0x81, CHR 0x8C, CHR 0xE3, CHR 0x81, CHR 0xAA, CHR 0xE3, CHR 0x81, CHR 0x84, CHR 0xE3, CHR 0x82, CHR 0xAD, CHR 0xE3, CHR 0x83, CHR 0xBC] @ ''):'',
     ''minimax:YOUR_KEY'',
     ''openrouter:YOUR_KEY'',
     ''ollama:YOUR_KEY'',
     [],
     ''3'' @ [CHR 0xEF, CHR 0xB8, CHR 0x8F, CHR 0xE2, CHR 0x83, CHR 0xA3] @ '' '' @ [CHR 0xE3, CHR 0x83, CHR 0x97, CHR 0xE3, CHR 0x83, CHR 0xAD, CHR 0xE3, CHR 0x82, CHR 0xAD, CHR 0xE3, CHR 0x82, CHR 0xB7] @ '' / '' @ [CHR 0xE3, CHR 0x82, CHR 0xAB, CHR 0xE3, CHR 0x82, CHR 0xB9, CHR 0xE3, CHR 0x82, CHR 0xBF, CHR 0xE3, CHR 0x83, CHR 0xA0, CHR 0xE3, CHR 0x82, CHR 0xA8, CHR 0xE3, CHR 0x83, CHR 0xB3, CHR 0xE3, CHR 0x83, CHR 0x89, CHR 0xE3, CHR 0x83, CHR 0x9D, CHR 0xE3, CHR 0x82, CHR 0xA4, CHR 0xE3, CHR 0x83, CHR 0xB3, CHR 0xE3, CHR 0x83, CHR 0x88] @ '':'',
     ''proxy <provider> <base_url> <api_key>'',
     [],
     [CHR 0xE4, CHR 0xBE, CHR 0x8B] @ '':'',
     ''proxy openai https://my-proxy.com/v1 sk-xxx'',
     ''proxy anthropic https://gateway.ai/v1/anthropic sk-ant-xxx'',
     ''proxy ollama https://ollama.com/v1 your-ollama-key'']"

definition SYSTEM_PROMPT_BASE :: string where
  "SYSTEM_PROMPT_BASE = join nl [
     ''You are SkyClaw, a cloud-native AI agent running on a remote server. You have full access to these tools:'',
     ''- shell: run any command'',
     ''- file_read / file_write / file_list: filesystem operations'',
     ''- web_fetch: HTTP GET requests'',
     ''- browser: control a real Chrome browser (navigate, click, type, screenshot, get_text, evaluate JS, get_html) '' @ [CHR 0xE2, CHR 0x80, CHR 0x94] @ '' use this for any website interaction'',
     ''- send_message: send real-time messages to the user during tasks'',
     ''- send_file: send files to the user'',
     ''- memory_manage: your persistent knowledge store (remember/recall/forget/update/list)'',
     [],
     ''KEY RULES:'',
     ''- Shell output (stdout/stderr) is NOT visible to the user. Only YOUR final text reply and send_message calls reach the user.'',
     ''- To send real-time updates during multi-step work, call send_message each round. You can do this repeatedly '' @ [CHR 0xE2, CHR 0x80, CHR 0x94] @ '' each call delivers instantly.'',
     ''- For timed/periodic tasks (e.g. send something every N seconds), use shell('' @ [CHR 0x22] @ ''sleep N'' @ [CHR 0x22] @ '') then send_message in a loop across tool rounds.'',
     ''- When asked to visit a website, open a page, or interact with a web app, USE THE BROWSER TOOL. Do not refuse or explain why you can'' @ [CHR 0x27] @ ''t '' @ [CHR 0xE2, CHR 0x80, CHR 0x94] @ '' just do it.'',
     ''- After finishing browser work, call browser with action '' @ [CHR 0x27] @ ''close'' @ [CHR 0x27] @ '' to shut it down.'',
     ''- Reply in the same language the user writes in.'',
     ''- Be concise. No emoji unless the user uses them.'',
     ''- NEVER give up on a task by explaining limitations. You have a multi-round tool loop '' @ [CHR 0xE2, CHR 0x80, CHR 0x94] @ '' keep calling tools until the task is done or you hit a real error. Do not stop early to explain what you '' @ [CHR 0x27] @ ''cannot'' @ [CHR 0x27] @ '' do.'',
     [],
     ''PERSISTENT MEMORY:'',
     ''You have a persistent knowledge store via the memory_manage tool. Use it to:'',
     ''- Remember important facts the user tells you (name, preferences, project details)'',
     ''- Save useful context that should persist across conversations'',
     ''- Recall previously saved knowledge when relevant to the conversation'',
     ''When to use memory_manage:'',
     ''- When the user explicitly asks you to remember something'',
     ''- When you learn an important fact about the user or their project'',
     ''- When the user corrects you '' @ [CHR 0xE2, CHR 0x80, CHR 0x94] @ '' update the relevant memory'',
     ''- When you need context from a previous conversation'',
     ''CRITICAL: After EVERY remember/update/forget action, you MUST tell the user what you did. For example: '' @ [CHR 0x27] @ ''I'' @ [CHR 0x27] @ ''ve remembered that your name is Alice'' @ [CHR 0x27] @ '' or '' @ [CHR 0x27] @ ''I'' @ [CHR 0x27] @ ''ve updated the project status to completed'' @ [CHR 0x27] @ '' or '' @ [CHR 0x27] @ ''I'' @ [CHR 0x27] @ ''ve forgotten the old API endpoint'' @ [CHR 0x27] @ ''. Never silently save or delete memories.'']"

definition PROVIDERS_PROMPT :: string where
  "PROVIDERS_PROMPT = join nl [
     [],
     [],
     ''SUPPORTED PROVIDERS & DEFAULT MODELS:'',
     ''- anthropic: claude-sonnet-4-6, claude-opus-4-6, claude-haiku-4-6'',
     ''- openai: gpt-5.2, gpt-4.1, gpt-4.1-mini, o4-mini'',
     ''- gemini: gemini-3-flash-preview, gemini-3.1-pro-preview, gemini-2.5-flash, gemini-2.5-pro'',
     ''- grok (xai): grok-4-1-fast-non-reasoning, grok-3'',
     ''- openrouter: any model via anthropic/claude-sonnet-4-6, openai/gpt-5.2, etc.'',
     ''- zai (zhipu): glm-4.7-flash, glm-4.7, glm-5, glm-5-code, glm-4.6v'',
     ''- minimax: MiniMax-M2.5'',
     []]"

definition VISION_PROMPT :: string where
  "VISION_PROMPT = join nl [
     [],
     ''VISION (IMAGE) SUPPORT:'',
     ''Models that can see images: all claude-*, all gpt-4o/gpt-4.1/gpt-5.*, all gemini-*, grok-3/grok-4, glm-*v* (V-suffix only, e.g. glm-4.6v-flash).'',
     ''Text-only (NO vision): gpt-3.5-turbo, glm-4.7-flash, glm-4.7, glm-5, glm-5-code, glm-4.5-flash, all MiniMax models.'',
     ''If the user sends an image on a text-only model, images are auto-stripped and the user is notified. Suggest switching to a vision model.'',
     []]"

definition RULES_PROMPT :: string where
  "RULES_PROMPT = join nl [
     [],
     ''SELF-CONFIGURATION:'',
     ''Your config lives at ~/.skyclaw/credentials.toml.'',
     ''To change the active provider or model, edit ONLY the '' @ [CHR 0x27] @ ''active'' @ [CHR 0x27] @ '' field or '' @ [CHR 0x27] @ ''model'' @ [CHR 0x27] @ '' field in credentials.toml. NEVER modify or add API keys directly '' @ [CHR 0xE2, CHR 0x80, CHR 0x94] @ '' keys are managed by the onboarding system. If the user wants to add a key, tell them to paste it in chat.'',
     ''Changes take effect immediately '' @ [CHR 0xE2, CHR 0x80, CHR 0x94] @ '' SkyClaw validates the key and auto-reloads after each response. If a key is invalid, the switch is rejected and the current provider stays active.'',
     ''Users can add keys anytime by pasting them in chat. SkyClaw auto-detects the provider and validates before saving.'',
     [],
     ''SECRET HANDLING (MANDATORY '' @ [CHR 0xE2, CHR 0x80, CHR 0x94] @ '' NEVER VIOLATE):'',
     ''There are 3 environments: USER (human) '' @ [CHR 0xE2, CHR 0x86, CHR 0x92] @ '' CLAW (you, the agent) '' @ [CHR 0xE2, CHR 0x86, CHR 0x92] @ '' PC (the server you run on).'',
     ''- Users give you secrets (API keys, passwords, tokens, account IDs) for YOU to use.'',
     ''- You ARE allowed to use secrets on the PC: log into services, call APIs, configure tools, do personal tasks for the user. This is your job.'',
     ''- You must NEVER send secrets BACK to the user in your replies. Secrets flow one way: user '' @ [CHR 0xE2, CHR 0x86, CHR 0x92] @ '' claw. Never claw '' @ [CHR 0xE2, CHR 0x86, CHR 0x92] @ '' user.'',
     ''- You must NEVER post secrets on the internet (no pasting keys in public repos, web forms, or chat services other than the user'' @ [CHR 0x27] @ ''s own channel).'',
     ''Specific rules:'',
     ''- NEVER echo back an API key the user pasted, not even partially.'',
     ''- NEVER read credentials.toml and show its contents to the user.'',
     ''- NEVER include API keys in shell commands visible to the user.'',
     ''- If the user asks to see their key, say it'' @ [CHR 0x27] @ ''s stored securely and cannot be displayed.'',
     ''- When confirming a key was added, say '' @ [CHR 0x27] @ ''Key saved for [provider]'' @ [CHR 0x27] @ '' '' @ [CHR 0xE2, CHR 0x80, CHR 0x94] @ '' never show the key.'',
     ''- This applies to ALL secrets: API keys, tokens, passwords, encrypted blobs, account IDs.'',
     ''A secondary output filter censors any key that leaks, but you must not rely on it. The primary defense is YOU never including secrets in your output.'']"

text \<open>\<open>soul\<close> is the file \<open>SOUL.md\<close> of the workspace.\<close>

definition build_system_prompt :: "cred_env \<Rightarrow> string option \<Rightarrow> cred_file \<Rightarrow> string" where
  "build_system_prompt env soul file =
     SYSTEM_PROMPT_BASE
     @ (case soul of
          None \<Rightarrow> []
        | Some s \<Rightarrow> nl @ nl @ ''==== IDENTITY & PERSONA ===='' @ nl @ s @ nl @ ''==========================='' @ nl)
     @ PROVIDERS_PROMPT @ VISION_PROMPT
     @ (case load_credentials_file env file of
          None \<Rightarrow> []
        | Some creds \<Rightarrow>
            nl @ ''CURRENT CONFIGURATION:'' @ nl @ ''Active provider: '' @ cf_active creds @ nl
            @ concat (map (\<lambda>p. ''- '' @ cp_name p @ '': model='' @ cp_model p @ '', '' @ nat_str (valid_key_count p) @ '' key(s)''
                  @ (case cp_base_url p of None \<Rightarrow> [] | Some url \<Rightarrow> '' (via '' @ url @ '')'') @ nl) (cf_providers creds)))
     @ RULES_PROMPT"

section \<open>The file\<close>

lemma those_strings [simp]: "those (map (\<lambda>x. toml_string (TomlString x)) ks) = Some ks"
  by (induction ks) simp_all

lemma provider_roundtrip [simp]: "provider_of_toml (toml_of_provider p) = Some p"
  by (cases p; cases "cp_base_url p") (auto simp: toml_of_provider_def toml_field_def comp_def)

lemma those_providers [simp]: "those (map (\<lambda>x. provider_of_toml (toml_of_provider x)) ps) = Some ps"
  by (induction ps) simp_all

lemma creds_roundtrip [simp]: "creds_of_toml (toml_of_creds c) = Some c"
  by (simp add: creds_of_toml_def toml_of_creds_def toml_field_def comp_def del: provider_roundtrip)

lemma load_written:
  assumes "cred_env_ok env" "ce_print env (toml_of_creds c) = Inr s" "cf_providers c \<noteq> []"
  shows "load_credentials_file env (Some s) = Some c"
  using assms by (simp add: load_credentials_file_def cred_env_ok_def)

definition loaded :: "cred_env \<Rightarrow> cred_file \<Rightarrow> credentials_file" where
  "loaded env file = (case load_credentials_file env file of None \<Rightarrow> credentials_default | Some c \<Rightarrow> c)"

lemma add_key_nonempty: "add_key name key model url ps \<noteq> []"
  by (cases ps) (auto simp: add_key_def Let_def)

lemma save_written:
  assumes "cred_env_ok env" "save_credentials env name key model url file = (Inr (), file')"
  shows "load_credentials_file env file' = Some ((loaded env file)
    \<lparr>cf_providers := add_key name key model url (cf_providers (loaded env file)), cf_active := name\<rparr>)"
proof -
  define c where "c = (loaded env file)\<lparr>cf_providers := add_key name key model url (cf_providers (loaded env file)), cf_active := name\<rparr>"
  have "cf_providers c \<noteq> []" by (simp add: c_def add_key_nonempty)
  moreover obtain s where "ce_print env (toml_of_creds c) = Inr s" "ce_write env s file = (Inr (), file')"
    using assms(2) by (auto simp: save_credentials_def c_def loaded_def Let_def split: sum.splits)
  moreover from this(2) have "file' = Some s" using assms(1) by (simp add: cred_env_ok_def)
  ultimately show ?thesis using load_written [OF assms(1), of c s] by (simp add: c_def)
qed

lemma add_key_find:
  "\<forall>p \<in> set ps. cp_name p = name \<longrightarrow> cp_base_url p = url \<Longrightarrow>
   \<exists>p. List.find (\<lambda>p. cp_name p = name) (add_key name key model url ps) = Some p \<and> cp_name p = name \<and> cp_base_url p = url
     \<and> cp_model p = model \<and> key \<in> set (cp_keys p)
     \<and> (\<forall>q. List.find (\<lambda>p. cp_name p = name) ps = Some q \<longrightarrow> set (cp_keys q) \<subseteq> set (cp_keys p))"
proof (induction ps)
  case (Cons q ps)
  show ?case
  proof (cases "cp_name q = name")
    case True
    then show ?thesis using Cons.prems by (auto simp: add_key_def Let_def)
  next
    case False
    then have "List.find (\<lambda>p. cp_name p = name) (add_key name key model url (q # ps))
        = List.find (\<lambda>p. cp_name p = name) (add_key name key model url ps)"
      by (simp add: add_key_def Let_def)
    then show ?thesis using Cons False by simp
  qed
qed (simp add: add_key_def)

lemma add_key_others:
  "filter (\<lambda>p. cp_name p \<noteq> name) (add_key name key model url ps) = filter (\<lambda>p. cp_name p \<noteq> name) ps"
proof -
  have "filter (\<lambda>p. cp_name p \<noteq> name) (update_first (\<lambda>p. cp_name p = name \<and> cp_base_url p = url)
      (\<lambda>p. p\<lparr>cp_keys := g p, cp_model := model\<rparr>) ps) = filter (\<lambda>p. cp_name p \<noteq> name) ps" for g
    by (induction ps) auto
  then show ?thesis by (simp add: add_key_def Let_def)
qed

text \<open>C32: A key that was saved is in use: when the file is read again, the provider is active with its
  model, the new key is among its keys, none of the keys it had is lost, and the entries of the other
  providers are as they were. The provider must not have an entry with another base URL.
\<close>

theorem saved_key_is_loaded:
  assumes "cred_env_ok env" "save_credentials env name key model url file = (Inr (), file')"
    and "name \<noteq> []" "\<not> is_placeholder_key key"
    and "\<forall>p \<in> set (cf_providers (loaded env file)). cp_name p = name \<longrightarrow> cp_base_url p = url"
  shows "(\<exists>keys. load_active_provider_keys env file' = Some (name, keys, model, url) \<and> key \<in> set keys
      \<and> (\<forall>q k. List.find (\<lambda>p. cp_name p = name) (cf_providers (loaded env file)) = Some q
            \<longrightarrow> k \<in> set (cp_keys q) \<longrightarrow> \<not> is_placeholder_key k \<longrightarrow> k \<in> set keys))
    \<and> filter (\<lambda>p. cp_name p \<noteq> name) (cf_providers (loaded env file'))
      = filter (\<lambda>p. cp_name p \<noteq> name) (cf_providers (loaded env file))"
proof -
  define c where "c = (loaded env file)\<lparr>cf_providers := add_key name key model url (cf_providers (loaded env file)), cf_active := name\<rparr>"
  have load: "load_credentials_file env file' = Some c" using save_written [OF assms(1,2)] by (simp add: c_def)
  obtain p where p: "List.find (\<lambda>p. cp_name p = name) (cf_providers c) = Some p" "cp_name p = name" "cp_base_url p = url"
      "cp_model p = model" "key \<in> set (cp_keys p)"
      "\<forall>q. List.find (\<lambda>p. cp_name p = name) (cf_providers (loaded env file)) = Some q \<longrightarrow> set (cp_keys q) \<subseteq> set (cp_keys p)"
    using add_key_find [OF assms(5), of key model] by (auto simp: c_def)
  have "active_or_first c = Some p" using p(1) by (simp add: active_or_first_def c_def)
  moreover have "filter (\<lambda>k. \<not> is_placeholder_key k) (cp_keys p) \<noteq> []" using p(5) assms(4) by (auto simp: filter_empty_conv)
  ultimately have "load_active_provider_keys env file'
      = Some (name, filter (\<lambda>k. \<not> is_placeholder_key k) (cp_keys p), model, url)"
    using load p assms(3) by (simp add: load_active_provider_keys_def)
  moreover have "loaded env file' = c" by (simp add: loaded_def load)
  ultimately show ?thesis using p(5,6) assms(4) by (auto simp: c_def add_key_others)
qed

text \<open>
  With an entry for the same provider at another URL before it, the new one is not used: the proxy
  that was configured last is saved and never asked.
\<close>

lemma proxy_saved_not_used:
  assumes "cred_env_ok env" "load_credentials_file env file = Some \<lparr>cf_active = ''openai'', cf_providers =
      [\<lparr>cp_name = ''openai'', cp_keys = [old], cp_model = model0, cp_base_url = None\<rparr>]\<rparr>"
    and "\<not> is_placeholder_key old"
    and "save_credentials env ''openai'' key model (Some url) file = (Inr (), file')"
  shows "load_active_provider_keys env file' = Some (''openai'', [old], model0, None)"
  using save_written [OF assms(1,4)] assms(2,3)
  by (simp add: loaded_def add_key_def load_active_provider_keys_def active_or_first_def)

text \<open>A file that cannot be read is replaced: the keys it held are gone.\<close>

lemma unreadable_file_replaced:
  assumes "cred_env_ok env" "load_credentials_file env file = None"
    and "save_credentials env name key model url file = (Inr (), file')"
  shows "load_credentials_file env file' = Some \<lparr>cf_active = name, cf_providers =
      [\<lparr>cp_name = name, cp_keys = [key], cp_model = model, cp_base_url = url\<rparr>]\<rparr>"
  using save_written [OF assms(1,3)] assms(2) by (simp add: loaded_def credentials_default_def add_key_def)

text \<open>After a removal the provider is gone, and the other providers are as they were.\<close>

lemma removed_provider_gone:
  assumes "cred_env_ok env" "load_credentials_file env file = Some creds" "name \<noteq> []"
    and "\<exists>p \<in> set (cf_providers creds). cp_name p = name" "cf_providers (without_provider name creds) \<noteq> []"
    and "ce_print env (toml_of_creds (without_provider name creds)) = Inr s" "ce_write env s file = (Inr (), file')"
  shows "snd (remove_provider env name file) = file'
    \<and> load_credentials_file env file' = Some (without_provider name creds)"
proof -
  have "length (filter (\<lambda>p. cp_name p \<noteq> name) (cf_providers creds)) < length (cf_providers creds)"
    using assms(4) by (auto intro: length_filter_less)
  then have "length (cf_providers (without_provider name creds)) \<noteq> length (cf_providers creds)"
    by (simp add: without_provider_def Let_def)
  moreover have "file' = Some s" using assms(1,7) by (simp add: cred_env_ok_def)
  ultimately show ?thesis using load_written [OF assms(1,6,5)] assms(2,3,6,7)
    by (simp add: remove_provider_def Let_def)
qed

text \<open>The reply to a removal names the model of the first provider, not of the active one.\<close>

lemma removal_names_other_model:
  assumes "load_credentials_file env file = Some \<lparr>cf_active = ''b'', cf_providers =
      [\<lparr>cp_name = ''a'', cp_keys = [], cp_model = ''model-a'', cp_base_url = None\<rparr>,
       \<lparr>cp_name = ''b'', cp_keys = [], cp_model = ''model-b'', cp_base_url = None\<rparr>,
       \<lparr>cp_name = ''c'', cp_keys = [], cp_model = ''model-c'', cp_base_url = None\<rparr>]\<rparr>"
    and "\<And>t. \<exists>s. ce_print env t = Inr s" "\<And>s f. fst (ce_write env s f) = Inr ()"
  shows "fst (remove_provider env ''c'' file) = ''Removed c. Active provider: b (model: model-a)''"
proof -
  obtain s where s: "ce_print env (toml_of_creds (without_provider ''c'' \<lparr>cf_active = ''b'', cf_providers =
      [\<lparr>cp_name = ''a'', cp_keys = [], cp_model = ''model-a'', cp_base_url = None\<rparr>,
       \<lparr>cp_name = ''b'', cp_keys = [], cp_model = ''model-b'', cp_base_url = None\<rparr>,
       \<lparr>cp_name = ''c'', cp_keys = [], cp_model = ''model-c'', cp_base_url = None\<rparr>]\<rparr>)) = Inr s"
    using assms(2) by blast
  obtain f' where "ce_write env s file = (Inr (), f')" using assms(3) [of s "file"] by (cases "ce_write env s file") auto
  then show ?thesis using assms(1) s by (simp add: remove_provider_def without_provider_def)
qed

section \<open>The filter takes every key out\<close>

lemma sublist_apart: "c \<notin> set k \<Longrightarrow> sublist k (a @ c # b) \<Longrightarrow> sublist k a \<or> sublist k b"
  by (auto simp: sublist_append sublist_Cons_right prefix_Cons)

lemma redacted_apart:
  assumes "CHR ''['' \<notin> set k" "CHR '']'' \<notin> set k" "8 < length k"
    and "sublist k (a @ ''[REDACTED]'' @ b)"
  shows "sublist k a \<or> sublist k b"
proof -
  have "sublist k (a @ CHR ''['' # (''REDACTED'' @ CHR '']'' # b))" using assms(4) by simp
  then have "sublist k a \<or> sublist k (''REDACTED'' @ CHR '']'' # b)" by (rule sublist_apart [OF assms(1)])
  then have "sublist k a \<or> sublist k ''REDACTED'' \<or> sublist k b" using sublist_apart [OF assms(2)] by blast
  moreover have "\<not> sublist k ''REDACTED''" using assms(3) sublist_length_le [of k "''REDACTED''"] by auto
  ultimately show ?thesis by blast
qed

lemma str_replace_no_new:
  assumes "CHR ''['' \<notin> set k" "CHR '']'' \<notin> set k" "8 < length k"
  shows "\<not> sublist k s \<Longrightarrow> \<not> sublist k (str_replace p ''[REDACTED]'' s)"
proof (induction "length s" arbitrary: s rule: less_induct)
  case less
  show ?case
  proof (cases "p = [] \<or> str_find p s = None")
    case True
    then have "str_replace p ''[REDACTED]'' s = s" by (subst str_replace.simps) auto
    then show ?thesis using less.prems by simp
  next
    case False
    then obtain i where i: "str_find p s = Some i" "p \<noteq> []" by auto
    let ?rest = "drop (i + length p) s"
    have "length ?rest < length s" using str_find_Some [OF i(1)] i(2) by (cases p) auto
    moreover have "\<not> sublist k ?rest" "\<not> sublist k (take i s)"
      using less.prems sublist_order.order.trans [OF _ sublist_drop] sublist_order.order.trans [OF _ sublist_take] by blast+
    ultimately have "\<not> sublist k (str_replace p ''[REDACTED]'' ?rest)" using less.hyps by blast
    then show ?thesis using redacted_apart [OF assms] \<open>\<not> sublist k (take i s)\<close> i
      by (subst str_replace.simps) auto
  qed
qed

lemma str_replace_gone:
  assumes "CHR ''['' \<notin> set k" "CHR '']'' \<notin> set k" "8 < length k"
  shows "\<not> sublist k (str_replace k ''[REDACTED]'' s)"
proof (induction "length s" arbitrary: s rule: less_induct)
  case less
  show ?case
  proof (cases "str_find k s")
    case None
    then have "str_replace k ''[REDACTED]'' s = s" by (subst str_replace.simps) simp
    then show ?thesis using None by (simp add: str_find_None str_contains_sublist)
  next
    case (Some i)
    let ?rest = "drop (i + length k) s"
    have "k \<noteq> []" using assms(3) by auto
    have "length ?rest < length s" using str_find_Some [OF Some] \<open>k \<noteq> []\<close> by (cases k) auto
    then have "\<not> sublist k (str_replace k ''[REDACTED]'' ?rest)" using less.hyps by blast
    moreover have "\<not> sublist k (take i s)"
    proof
      assume "sublist k (take i s)"
      then obtain a b where ab: "take i s = a @ k @ b" by (auto simp: sublist_def)
      then have "length a < i" using \<open>k \<noteq> []\<close> by (metis length_append length_greater_0_conv length_take less_add_same_cancel1 min.strict_boundedE trans_less_add1)
      moreover have "s = a @ k @ b @ drop i s" using ab by (metis append.assoc append_take_drop_id)
      then have "prefix k (drop (length a) s)" by (metis append_eq_conv_conj prefixI)
      ultimately show False using str_find_first [OF Some] by blast
    qed
    ultimately show ?thesis using redacted_apart [OF assms] Some \<open>k \<noteq> []\<close> by (subst str_replace.simps) auto
  qed
qed

lemma real_key_long: "\<not> is_placeholder_key k \<Longrightarrow> 10 \<le> length k"
  using length_trim_le [of k] by (simp add: is_placeholder_key_def Let_def split: if_splits)

lemma censor_key_keeps_out:
  assumes "CHR ''['' \<notin> set k" "CHR '']'' \<notin> set k" "8 < length k" "\<not> sublist k s"
  shows "\<not> sublist k (censor_key s j)"
  using assms str_replace_no_new by (simp add: censor_key_def)

lemma censor_keys_keep_out:
  assumes "CHR ''['' \<notin> set k" "CHR '']'' \<notin> set k" "8 < length k"
  shows "\<not> sublist k s \<Longrightarrow> \<not> sublist k (foldl censor_key s js)"
  using censor_key_keeps_out [OF assms] by (induction js arbitrary: s) simp_all

lemma censor_keys_gone:
  assumes "CHR ''['' \<notin> set k" "CHR '']'' \<notin> set k" "\<not> is_placeholder_key k"
  shows "k \<in> set js \<Longrightarrow> \<not> sublist k (foldl censor_key s js)"
proof (induction js arbitrary: s)
  case (Cons j js)
  have k: "8 < length k" "k \<noteq> []" using real_key_long [OF assms(3)] by auto
  show ?case
  proof (cases "j = k")
    case True
    then have "\<not> sublist k (censor_key s j)" using str_replace_gone [OF assms(1,2) k(1)] assms(3) k by (simp add: censor_key_def)
    then show ?thesis using censor_keys_keep_out [OF assms(1,2) k(1)] by simp
  next
    case False
    then show ?thesis using Cons by simp
  qed
qed simp

text \<open>C30: No configured key is left in a text that went through the filter: whatever the text, and
  whatever the other keys are, no key of the credentials file occurs in the result. The key must be
  one that could be a real key, and free of the brackets the filter writes.
\<close>

theorem censored_text_has_no_key:
  assumes "load_credentials_file env file = Some creds" "p \<in> set (cf_providers creds)" "k \<in> set (cp_keys p)"
    and "\<not> is_placeholder_key k" "CHR ''['' \<notin> set k" "CHR '']'' \<notin> set k"
  shows "\<not> sublist k (censor_secrets env file t)"
proof -
  have k: "8 < length k" using real_key_long [OF assms(4)] by simp
  have keep: "\<not> sublist k s \<Longrightarrow> \<not> sublist k (foldl (\<lambda>c p. foldl censor_key c (cp_keys p)) s ps)" for s ps
    using censor_keys_keep_out [OF assms(5,6) k] by (induction ps arbitrary: s) simp_all
  have "p \<in> set ps \<Longrightarrow> \<not> sublist k (foldl (\<lambda>c p. foldl censor_key c (cp_keys p)) s ps)" for s ps
  proof (induction ps arbitrary: s)
    case (Cons q ps)
    have "\<not> sublist k (foldl censor_key s (cp_keys q))" if "p = q"
      using censor_keys_gone [OF assms(5,6,4)] assms(3) that by blast
    then show ?case using Cons keep by auto
  qed simp
  then show ?thesis using assms(1,2) by (simp add: censor_secrets_def)
qed

text \<open>
  A key that starts with another one is cut short before it is looked for: its last part is sent.
\<close>

lemma longer_key_shows_tail:
  "foldl censor_key ''key: sk-abcdefgh12-extra99'' [''sk-abcdefgh12'', ''sk-abcdefgh12-extra99''] = ''key: [REDACTED]-extra99''"
  by code_simp

section \<open>What the commands show\<close>

text \<open>Two files that differ in the keys only, with as many real ones.\<close>

definition same_but_keys :: "credentials_provider \<Rightarrow> credentials_provider \<Rightarrow> bool" where
  "same_but_keys p q \<longleftrightarrow> cp_name p = cp_name q \<and> cp_model p = cp_model q \<and> cp_base_url p = cp_base_url q
     \<and> valid_key_count p = valid_key_count q"

definition creds_agree :: "credentials_file \<Rightarrow> credentials_file \<Rightarrow> bool" where
  "creds_agree c d \<longleftrightarrow> cf_active c = cf_active d \<and> list_all2 same_but_keys (cf_providers c) (cf_providers d)"

lemma agree_map: "list_all2 R xs ys \<Longrightarrow> (\<And>x y. R x y \<Longrightarrow> f x = f y) \<Longrightarrow> map f xs = map f ys"
  by (induction rule: list_all2_induct) auto

lemma agree_filter: "list_all2 R xs ys \<Longrightarrow> (\<And>x y. R x y \<Longrightarrow> P x = P y) \<Longrightarrow> list_all2 R (filter P xs) (filter P ys)"
  by (induction rule: list_all2_induct) auto

lemma agree_find: "list_all2 R xs ys \<Longrightarrow> (\<And>x y. R x y \<Longrightarrow> P x = P y) \<Longrightarrow> rel_option R (List.find P xs) (List.find P ys)"
  by (induction rule: list_all2_induct) auto

lemma agree_Nil: "list_all2 R xs ys \<Longrightarrow> xs = [] \<longleftrightarrow> ys = []"
  by (cases xs; cases ys) auto

definition always_saves :: "cred_env \<Rightarrow> bool" where
  "always_saves env \<longleftrightarrow> (\<forall>t. \<not> isl (ce_print env t)) \<and> (\<forall>s f. fst (ce_write env s f) = Inr ())"

lemma saves_case:
  assumes "always_saves env"
  shows "fst (case ce_print env t of Inl e \<Rightarrow> (a e, file) | Inr content \<Rightarrow>
      (case ce_write env content file of (Inl e, file') \<Rightarrow> (b e, file') | (Inr _, file') \<Rightarrow> (reply, file'))) = reply"
proof -
  obtain s where s: "ce_print env t = Inr s"
    using assms by (cases "ce_print env t") (auto simp: always_saves_def isl_def)
  obtain f' where "ce_write env s file = (Inr (), f')"
    using assms by (cases "ce_write env s file") (auto simp: always_saves_def dest!: spec [of _ s] spec [of _ "file"])
  with s show ?thesis by simp
qed

lemma agree_list_configured:
  assumes "load_credentials_file env f = Some c" "load_credentials_file env g = Some d" "creds_agree c d"
  shows "list_configured_providers env f = list_configured_providers env g"
proof -
  let ?row = "\<lambda>p. ''  '' @ cp_name p @ '' '' @ em_dash @ '' model: '' @ cp_model p @ '', '' @ nat_str (valid_key_count p)
     @ '' key(s)'' @ (case cp_base_url p of None \<Rightarrow> [] | Some url \<Rightarrow> '' via '' @ url)
     @ (if cp_name p = cf_active d then '' (active)'' else [])"
  have "map ?row (cf_providers c) = map ?row (cf_providers d)"
    using assms(3) by (intro agree_map [of same_but_keys]) (auto simp: creds_agree_def same_but_keys_def)
  moreover have "cf_active c = cf_active d" "cf_providers c = [] \<longleftrightarrow> cf_providers d = []"
    using assms(3) agree_Nil by (auto simp: creds_agree_def)
  ultimately show ?thesis using assms(1,2) by (simp add: list_configured_providers_def)
qed

lemma agree_prompt:
  assumes "load_credentials_file env f = Some c" "load_credentials_file env g = Some d" "creds_agree c d"
  shows "build_system_prompt env soul f = build_system_prompt env soul g"
proof -
  let ?row = "\<lambda>p. ''- '' @ cp_name p @ '': model='' @ cp_model p @ '', '' @ nat_str (valid_key_count p) @ '' key(s)''
     @ (case cp_base_url p of None \<Rightarrow> [] | Some url \<Rightarrow> '' (via '' @ url @ '')'') @ nl"
  have "map ?row (cf_providers c) = map ?row (cf_providers d)"
    using assms(3) by (intro agree_map [of same_but_keys]) (auto simp: creds_agree_def same_but_keys_def)
  moreover have "cf_active c = cf_active d" using assms(3) by (simp add: creds_agree_def)
  ultimately show ?thesis using assms(1,2) by (simp add: build_system_prompt_def)
qed

lemma agree_overview: "creds_agree c d \<Longrightarrow> model_overview c = model_overview d"
proof -
  assume agree: "creds_agree c d"
  then have "map (model_lines (cf_active c)) (cf_providers c) = map (model_lines (cf_active c)) (cf_providers d)"
    by (intro agree_map [of same_but_keys]) (auto simp: creds_agree_def same_but_keys_def model_lines_def is_proxy_def)
  moreover have "rel_option same_but_keys (List.find (\<lambda>p. cp_name p = cf_active c) (cf_providers c))
      (List.find (\<lambda>p. cp_name p = cf_active c) (cf_providers d))"
    using agree by (intro agree_find) (auto simp: creds_agree_def same_but_keys_def)
  moreover have "cf_active c = cf_active d" using agree by (simp add: creds_agree_def)
  ultimately show ?thesis by (auto simp: model_overview_def same_but_keys_def elim!: option.rel_cases)
qed

lemma agree_model_command:
  assumes "load_credentials_file env f = Some c" "load_credentials_file env g = Some d" "creds_agree c d" "always_saves env"
  shows "fst (handle_model_command env args f) = fst (handle_model_command env args g)"
proof -
  have agree: "cf_active c = cf_active d" "cf_providers c = [] \<longleftrightarrow> cf_providers d = []"
      "rel_option same_but_keys (List.find (\<lambda>p. cp_name p = cf_active d) (cf_providers c))
        (List.find (\<lambda>p. cp_name p = cf_active d) (cf_providers d))"
    using assms(3) agree_Nil by (auto simp: creds_agree_def same_but_keys_def intro!: agree_find)
  show ?thesis
    using agree(3) assms(1,2) agree(1,2)
    by (auto simp: handle_model_command_def agree_overview [OF assms(3)] Let_def saves_case [OF assms(4)]
        same_but_keys_def is_proxy_def elim!: option.rel_cases)
qed

lemma agree_remove:
  assumes "load_credentials_file env f = Some c" "load_credentials_file env g = Some d" "creds_agree c d" "always_saves env"
  shows "fst (remove_provider env name f) = fst (remove_provider env name g)"
proof -
  have all2: "list_all2 same_but_keys (cf_providers (without_provider name c)) (cf_providers (without_provider name d))"
    using assms(3) by (auto simp: without_provider_def Let_def creds_agree_def same_but_keys_def intro!: agree_filter)
  have "length (cf_providers c) = length (cf_providers d)" "length (cf_providers (without_provider name c)) = length (cf_providers (without_provider name d))"
    using assms(3) all2 by (auto simp: creds_agree_def dest: list_all2_lengthD)
  moreover have "cf_active (without_provider name c) = cf_active (without_provider name d)"
    using all2 assms(3) by (auto simp: without_provider_def Let_def creds_agree_def same_but_keys_def split: list.splits)
  ultimately show ?thesis using all2 assms(1,2)
    by (auto simp: remove_provider_def Let_def saves_case [OF assms(4)] same_but_keys_def split: list.splits)
qed


section \<open>What is taken for a key\<close>

lemma split_whitespace_sublist: "w \<in> set (split_whitespace s) \<Longrightarrow> sublist w s"
proof (induction s rule: split_whitespace.induct)
  case (1 s)
  let ?t = "trim_start s"
  have t: "sublist ?t s" by (simp add: trim_start_suffix suffix_imp_sublist)
  from 1(2) have "w = take (word_len ?t) ?t \<or> (?t \<noteq> [] \<and> w \<in> set (split_whitespace (drop (word_len ?t) ?t)))"
    by (subst (asm) split_whitespace.simps) (auto simp: Let_def split: if_splits)
  then have "sublist w ?t"
    using 1(1) [OF refl] sublist_order.order.trans [OF _ sublist_drop] by (auto simp: sublist_take)
  then show ?case using t by (rule sublist_order.order.trans)
qed

lemma split_once_sublist: "split_once d s = Some (a, b) \<Longrightarrow> sublist b s"
  by (auto simp: split_once_Some intro!: suffix_imp_sublist suffixI [of _ "a @ [d]"])

definition supported_providers :: "string list" where
  "supported_providers = [''anthropic'', ''openai'', ''gemini'', ''grok'', ''openrouter'', ''minimax'', ''zai'', ''ollama'']"

lemma normalize_supported: "normalize_provider_name n = Some p \<Longrightarrow> p \<in> set supported_providers"
  by (auto simp: normalize_provider_name_def supported_providers_def Let_def split: if_splits)

definition proxy_inv :: "string \<Rightarrow> proxy_state \<Rightarrow> bool" where
  "proxy_inv s st \<longleftrightarrow> (case st of (provider, _, key) \<Rightarrow>
     (\<forall>p. provider = Some p \<longrightarrow> p \<in> set supported_providers) \<and> (\<forall>k. key = Some k \<longrightarrow> sublist k s))"

lemma proxy_inv_token:
  assumes "proxy_inv s st" "sublist token s"
  shows "proxy_inv s (proxy_token st token)"
proof (cases "split_once (CHR '':'') token")
  case None
  then show ?thesis using assms normalize_supported
    by (auto simp: proxy_token_def proxy_inv_def Let_def split: prod.splits)
next
  case (Some kv)
  then have "sublist (snd kv) s" using split_once_sublist [of _ token "fst kv" "snd kv"] assms(2) sublist_order.order.trans by auto
  then show ?thesis using assms Some normalize_supported
    by (auto simp: proxy_token_def proxy_inv_def Let_def split: prod.splits)
qed

lemma proxy_inv_tokens: "proxy_inv s st \<Longrightarrow> \<forall>t \<in> set ts. sublist t s \<Longrightarrow> proxy_inv s (foldl proxy_token st ts)"
  by (induction ts arbitrary: st) (simp_all add: proxy_inv_token)

lemma parse_proxy_Some:
  assumes "parse_proxy_config s = Some c"
  shows "dc_provider c \<in> set supported_providers \<and> sublist (dc_api_key c) s"
proof -
  have "\<forall>t \<in> set (tl (split_whitespace s)). sublist t s"
    using split_whitespace_sublist by (metis list.sel(2) list.set_sel(2))
  then have "proxy_inv s (foldl proxy_token (None, None, None) (tl (split_whitespace s)))"
    by (intro proxy_inv_tokens) (simp_all add: proxy_inv_def)
  moreover obtain pv url key where st: "foldl proxy_token (None, None, None) (tl (split_whitespace s)) = (pv, url, key)"
    by (cases "foldl proxy_token (None, None, None) (tl (split_whitespace s))") auto
  moreover from assms st obtain k where "key = Some k"
      "c = \<lparr>dc_provider = (case pv of None \<Rightarrow> ''openai'' | Some p \<Rightarrow> p), dc_api_key = k, dc_base_url = url\<rparr>"
    by (auto simp: parse_proxy_config_def Let_def split: option.splits if_splits)
  ultimately show ?thesis by (cases pv) (simp_all add: proxy_inv_def, simp add: supported_providers_def)
qed

lemma detect_raw_Some:
  "detect_raw_key s = Some c \<Longrightarrow> \<not> is_placeholder_key (dc_api_key c) \<and> dc_provider c \<in> set supported_providers \<and> dc_api_key c = s"
  by (auto simp: detect_raw_key_def Let_def supported_providers_def split: if_splits)

text \<open>
  What is taken for an API key is a part of the message, is not one of the placeholders of
  documentation and examples, has at least ten bytes, and comes with one of the eight providers.
\<close>

theorem detected_key_is_real:
  assumes "detect_api_key t = Some c"
  shows "\<not> is_placeholder_key (dc_api_key c) \<and> 10 \<le> length (dc_api_key c)
    \<and> dc_provider c \<in> set supported_providers \<and> sublist (dc_api_key c) t"
proof -
  have "\<not> is_placeholder_key (dc_api_key c) \<and> dc_provider c \<in> set supported_providers \<and> sublist (dc_api_key c) (trim t)"
  proof (cases "starts_with ''proxy'' (to_lowercase (trim t))")
    case True
    then show ?thesis using assms parse_proxy_Some [of "trim t"]
      by (auto simp: detect_api_key_def split: option.splits if_splits)
  next
    case False
    then consider "detect_raw_key (trim t) = Some c"
      | p key where "split_once (CHR '':'') (trim t) = Some (p, key)" "explicit_provider (to_lowercase p) = Some (dc_provider c)"
          "\<not> is_placeholder_key key" "dc_api_key c = key"
      using assms by (auto simp: detect_api_key_def Let_def split: option.splits if_splits)
    then show ?thesis
    proof cases
      case 1
      then show ?thesis using detect_raw_Some [of "trim t" c] by (metis sublist_order.order_refl)
    next
      case 2
      then show ?thesis using split_once_sublist
        by (auto simp: explicit_provider_def supported_providers_def split: if_splits)
    qed
  qed
  then show ?thesis using real_key_long trim_sublist sublist_order.order.trans by blast
qed

text \<open>A provider with its key in one word is not understood in a proxy configuration.\<close>

lemma proxy_provider_key_ignored:
  "parse_proxy_config ''proxy https://my-proxy/v1 openai:sk-abcdefghij'' = None"
  by code_simp

section \<open>Smaller facts\<close>

lemma vision_checks_agree: "is_vision_model model = model_supports_vision model"
  by (simp add: is_vision_model_def model_supports_vision_def)

text \<open>The default model of Gemini cannot be chosen again with \<open>/model\<close>.\<close>

lemma gemini_default_unknown: "default_model ''gemini'' \<notin> set (available_models_for_provider ''gemini'')"
  by (simp add: default_model_def available_models_for_provider_def)

text \<open>A key is accepted when its provider cannot be reached.\<close>

lemma unreachable_provider_accepts:
  assumes "create_provider config = Inr p" "\<And>p r. answer p r = Inl (Provider ''HTTP request failed: connection refused'')"
  shows "validate_provider_key answer config = Inr p"
proof -
  have "\<not> auth_failure (show_error (Provider ''HTTP request failed: connection refused''))" by code_simp
  then show ?thesis using assms by (simp add: validate_provider_key_def)
qed

text \<open>A setup link is good for one attempt, whatever comes of it.\<close>

lemma setup_link_single_use:
  "fst (decrypt_otk_blob decode decrypt b' chat now' (snd (decrypt_otk_blob decode decrypt b chat now store)))
    = Inl ''No pending setup link for this chat. Run /addkey first.''"
proof -
  have "fst (consume now' chat (snd (consume now chat store))) = None"
    by (auto simp: consume_def split: option.splits)
  then have "fst (consume now' chat (snd (decrypt_otk_blob decode decrypt b chat now store))) = None"
    by (cases "consume now chat store") (auto simp: decrypt_otk_blob_def split: option.splits)
  then show ?thesis
    by (cases "consume now' chat (snd (decrypt_otk_blob decode decrypt b chat now store))") (auto simp: decrypt_otk_blob_def [of _ _ b'])
qed

text \<open>Stop phrases are looked for inside words.\<close>

lemma jim_directly_stops: "is_stop_command to_lowercase ''Please ask Jim directly''"
  by code_simp

lemma send_with_retry_sent: "fst (send_with_retry send) \<longleftrightarrow> send 1 \<or> send 2 \<or> send 3"
  by (simp add: send_with_retry_def numeral_3_eq_3 numeral_2_eq_2)

lemma send_with_retry_sleeps: "prefix (snd (send_with_retry send)) [1000, 2000]"
  by (simp add: send_with_retry_def numeral_3_eq_3 numeral_2_eq_2)

section \<open>Examples\<close>

definition demo_creds :: credentials_file where
  "demo_creds = \<lparr>cf_active = ''openai'', cf_providers =
     [\<lparr>cp_name = ''openai'', cp_keys = [''sk-abcdefgh12''], cp_model = ''gpt-5.2'', cp_base_url = None\<rparr>]\<rparr>"

definition demo_creds2 :: credentials_file where
  "demo_creds2 = \<lparr>cf_active = ''openai'', cf_providers =
     [\<lparr>cp_name = ''openai'', cp_keys = [''sk-zyxwvuts34''], cp_model = ''gpt-5.2'', cp_base_url = None\<rparr>]\<rparr>"

text \<open>A format with two files and the result of adding a key to the first.\<close>

definition demo_table :: toml_table where
  "demo_table = toml_of_creds (demo_creds\<lparr>cf_providers := add_key ''openai'' ''sk-newkey5678'' ''gpt-5.2'' None (cf_providers demo_creds)\<rparr>)"

definition demo_cred_env :: cred_env where
  "demo_cred_env =
     \<lparr>ce_parse = (\<lambda>s. if s = ''1'' then Some (toml_of_creds demo_creds) else if s = ''2'' then Some (toml_of_creds demo_creds2)
         else if s = ''3'' then Some demo_table else None),
      ce_print = (\<lambda>t. if t = demo_table then Inr ''3'' else Inl ''unsupported''),
      ce_create_dir = Inr (), ce_write = (\<lambda>s f. (Inr (), Some s))\<rparr>"

lemma demo_real_keys:
  "\<not> is_placeholder_key ''sk-abcdefgh12''" "\<not> is_placeholder_key ''sk-zyxwvuts34''" "\<not> is_placeholder_key ''sk-newkey5678''"
  by code_simp+

lemma demo_load: "load_credentials_file demo_cred_env (Some ''1'') = Some demo_creds"
  "load_credentials_file demo_cred_env (Some ''2'') = Some demo_creds2"
  by (simp_all add: load_credentials_file_def demo_cred_env_def) (simp_all add: demo_creds_def demo_creds2_def)

lemma demo_cred_env_ok: "cred_env_ok demo_cred_env"
  by (auto simp: cred_env_ok_def demo_cred_env_def)

lemma demo_save: "save_credentials demo_cred_env ''openai'' ''sk-newkey5678'' ''gpt-5.2'' None (Some ''1'') = (Inr (), Some ''3'')"
  using demo_load(1) by (simp add: save_credentials_def) (simp add: demo_cred_env_def demo_table_def demo_creds_def)

theorem saved_key_is_loaded_witness:
  "\<exists>keys. load_active_provider_keys demo_cred_env (Some ''3'') = Some (''openai'', keys, ''gpt-5.2'', None) \<and> ''sk-newkey5678'' \<in> set keys"
  using saved_key_is_loaded [OF demo_cred_env_ok demo_save _ demo_real_keys(3)]
  by (auto simp: loaded_def demo_load(1)) (auto simp: demo_creds_def)

theorem censored_text_has_no_key_witness:
  "\<not> sublist ''sk-abcdefgh12'' (censor_secrets demo_cred_env (Some ''1'') ''the key is sk-abcdefgh12, keep it'')"
  by (rule censored_text_has_no_key [OF demo_load(1), of "hd (cf_providers demo_creds)"])
    (simp_all add: demo_creds_def demo_real_keys)

definition demo_saving_env :: cred_env where
  "demo_saving_env = demo_cred_env\<lparr>ce_print := (\<lambda>_. Inr ''3'')\<rparr>"


theorem detected_key_is_real_witness:
  "\<exists>c. detect_api_key ''grok:xai-abcdefgh12'' = Some c \<and> \<not> is_placeholder_key (dc_api_key c)"
proof -
  have "detect_api_key ''grok:xai-abcdefgh12'' = Some \<lparr>dc_provider = ''grok'', dc_api_key = ''xai-abcdefgh12'', dc_base_url = None\<rparr>"
    by code_simp
  then show ?thesis using detected_key_is_real by blast
qed


end
