(* ===== verification/Chat_Dispatch.thy ===== *)
theory Chat_Dispatch
  imports Credentials
begin

text \<open>
  How messages reach the agent (the dispatcher of \<open>src/main.rs\<close>): all channels feed one queue, the
  dispatcher gives each chat a worker of its own, and a worker handles the messages of its chat one
  after the other, while the dispatcher goes on reading, to see stop commands and to collect what
  the user adds in the meantime. The tasks are modelled by the events at which they meet: a channel
  puts a message in the queue, the dispatcher takes one, the message arrives at the worker, the
  worker begins and ends. \<open>lowercase\<close> is \<open>str::to_lowercase\<close>. A lock is never poisoned.
\<close>

section \<open>State\<close>

text \<open>The worker's queue, its two flags, the message it works on, and whether its task still runs.\<close>

record chat_slot =
  sl_queue :: "inbound_message list"
  sl_interrupt :: bool
  sl_heartbeat :: bool
  sl_current :: "inbound_message option"
  sl_alive :: bool

definition slot_new :: chat_slot where
  "slot_new = \<lparr>sl_queue = [], sl_interrupt = False, sl_heartbeat = False, sl_current = None, sl_alive = True\<rparr>"

text \<open>
  \<open>ds_sending\<close> is the message of an unfinished \<open>tx.send\<close>, \<open>ds_resending\<close> that of an unfinished
  \<open>msg_tx_redispatch.send\<close>: the dispatcher waits in both.
\<close>

record dispatcher =
  ds_inbox :: "inbound_message list"
  ds_slots :: "(string, chat_slot) hmap"
  ds_pending :: "(string, string list) hmap"
  ds_sending :: "inbound_message option"
  ds_resending :: "inbound_message option"

definition dispatcher_new :: dispatcher where
  "dispatcher_new = \<lparr>ds_inbox = [], ds_slots = [], ds_pending = [], ds_sending = None, ds_resending = None\<rparr>"

definition is_heartbeat_msg :: "inbound_message \<Rightarrow> bool" where
  "is_heartbeat_msg m \<longleftrightarrow> in_channel m = ''heartbeat''"

definition is_stop_msg :: "(string \<Rightarrow> string) \<Rightarrow> inbound_message \<Rightarrow> bool" where
  "is_stop_msg lowercase m = (case in_text m of None \<Rightarrow> False | Some t \<Rightarrow> is_stop_command lowercase t)"

definition put_slot :: "string \<Rightarrow> chat_slot \<Rightarrow> dispatcher \<Rightarrow> dispatcher" where
  "put_slot c slot d = d\<lparr>ds_slots := hm_insert c slot (ds_slots d)\<rparr>"

definition add_pending :: "inbound_message \<Rightarrow> (string, string list) hmap \<Rightarrow> (string, string list) hmap" where
  "add_pending m pq = (case in_text m of
      None \<Rightarrow> pq
    | Some t \<Rightarrow> hm_insert (in_chat_id m)
        ((case hm_get pq (in_chat_id m) of None \<Rightarrow> [] | Some ts \<Rightarrow> ts) @ [t]) pq)"

section \<open>The dispatcher\<close>

definition dispatch :: "(string \<Rightarrow> string) \<Rightarrow> inbound_message \<Rightarrow> dispatcher \<Rightarrow> dispatcher" where
  "dispatch lowercase m d =
     (let c = in_chat_id m
      in case hm_get (ds_slots d) c of
          Some slot \<Rightarrow>
            if is_heartbeat_msg m
            then (if sl_alive slot \<and> length (sl_queue slot) < 4
                  then put_slot c (slot\<lparr>sl_queue := sl_queue slot @ [m]\<rparr>) d else d)
            else
              (let slot = (if sl_heartbeat slot then slot\<lparr>sl_interrupt := True\<rparr> else slot)
               in if is_stop_msg lowercase m
                  then put_slot c (slot\<lparr>sl_interrupt := True\<rparr>) d
                  else (put_slot c slot d)\<lparr>ds_pending := add_pending m (ds_pending d), ds_sending := Some m\<rparr>)
        | None \<Rightarrow> (put_slot c slot_new d)\<lparr>ds_sending := (if is_heartbeat_msg m then None else Some m)\<rparr>)"

text \<open>\<open>tx.send\<close>: into the worker's queue, or back to the common queue when the worker is gone.\<close>

definition deliver :: "inbound_message \<Rightarrow> dispatcher \<Rightarrow> dispatcher option" where
  "deliver m d = (case hm_get (ds_slots d) (in_chat_id m) of
      None \<Rightarrow> None
    | Some slot \<Rightarrow>
        if \<not> sl_alive slot
        then Some (d\<lparr>ds_slots := hm_remove (in_chat_id m) (ds_slots d), ds_sending := None, ds_resending := Some m\<rparr>)
        else if length (sl_queue slot) < 4
        then Some ((put_slot (in_chat_id m) (slot\<lparr>sl_queue := sl_queue slot @ [m]\<rparr>) d)\<lparr>ds_sending := None\<rparr>)
        else None)"

section \<open>Workers\<close>

definition worker_begin :: "string \<Rightarrow> dispatcher \<Rightarrow> dispatcher option" where
  "worker_begin c d = (case hm_get (ds_slots d) c of
      None \<Rightarrow> None
    | Some slot \<Rightarrow>
        (case sl_queue slot of
           [] \<Rightarrow> None
         | m # q \<Rightarrow>
             if sl_alive slot \<and> sl_current slot = None
             then Some (put_slot c (slot\<lparr>sl_queue := q, sl_current := Some m,
                    sl_heartbeat := is_heartbeat_msg m, sl_interrupt := False\<rparr>) d)
             else None))"

text \<open>
  A message ends in one of three ways: a command clears the heartbeat flag only, an encrypted key
  also the messages collected, everything else the interrupt as well.
\<close>

definition worker_end :: "string \<Rightarrow> bool \<Rightarrow> bool \<Rightarrow> dispatcher \<Rightarrow> dispatcher option" where
  "worker_end c clear_interrupt clear_pending d = (case hm_get (ds_slots d) c of
      None \<Rightarrow> None
    | Some slot \<Rightarrow>
        if sl_current slot = None then None
        else Some ((put_slot c (slot\<lparr>sl_current := None, sl_heartbeat := False,
                 sl_interrupt := (if clear_interrupt then False else sl_interrupt slot)\<rparr>) d)
               \<lparr>ds_pending := (if clear_pending then hm_remove c (ds_pending d) else ds_pending d)\<rparr>))"

definition worker_die :: "string \<Rightarrow> dispatcher \<Rightarrow> dispatcher option" where
  "worker_die c d = (case hm_get (ds_slots d) c of
      None \<Rightarrow> None
    | Some slot \<Rightarrow> Some (put_slot c (slot\<lparr>sl_queue := [], sl_current := None, sl_alive := False\<rparr>) d))"

section \<open>Events\<close>

datatype chat_event = Arrive inbound_message | Dispatch | Deliver | Redispatch | Begin string | End string bool bool | Die string

text \<open>\<^const>\<open>None\<close>: the event cannot happen in this state.\<close>

fun chat_step :: "(string \<Rightarrow> string) \<Rightarrow> chat_event \<Rightarrow> dispatcher \<Rightarrow> dispatcher option" where
  "chat_step lower (Arrive m) d = (if length (ds_inbox d) < 32 then Some (d\<lparr>ds_inbox := ds_inbox d @ [m]\<rparr>) else None)"
| "chat_step lower Dispatch d = (case ds_inbox d of
      [] \<Rightarrow> None
    | m # ms \<Rightarrow> if ds_sending d = None \<and> ds_resending d = None then Some (dispatch lower m (d\<lparr>ds_inbox := ms\<rparr>)) else None)"
| "chat_step lower Deliver d = Option.bind (ds_sending d) (\<lambda>m. deliver m d)"
| "chat_step lower Redispatch d = Option.bind (ds_resending d) (\<lambda>m.
      if length (ds_inbox d) < 32 then Some (d\<lparr>ds_inbox := ds_inbox d @ [m], ds_resending := None\<rparr>) else None)"
| "chat_step lower (Begin c) d = worker_begin c d"
| "chat_step lower (End c i p) d = worker_end c i p d"
| "chat_step lower (Die c) d = worker_die c d"

text \<open>The message a worker takes up at an event, if it is one of chat \<open>c\<close>.\<close>

definition begun :: "string \<Rightarrow> chat_event \<Rightarrow> dispatcher \<Rightarrow> inbound_message list" where
  "begun c e d = (if e = Begin c then (case hm_get (ds_slots d) c of None \<Rightarrow> [] | Some slot \<Rightarrow> take 1 (sl_queue slot)) else [])"

text \<open>A run from the start, with the messages that the worker of chat \<open>c\<close> took up.\<close>

definition chat_run :: "(string \<Rightarrow> string) \<Rightarrow> string \<Rightarrow> chat_event list \<Rightarrow> (dispatcher \<times> inbound_message list) option" where
  "chat_run lower c es = foldl (\<lambda>s e. Option.bind s (\<lambda>(d, taken). map_option (\<lambda>d'. (d', taken @ begun c e d)) (chat_step lower e d)))
     (Some (dispatcher_new, [])) es"

definition arrivals :: "chat_event list \<Rightarrow> inbound_message list" where
  "arrivals es = List.map_filter (\<lambda>e. case e of Arrive m \<Rightarrow> Some m | _ \<Rightarrow> None) es"

text \<open>The messages of a chat that are to be worked on: of a user, and not a stop command.\<close>

definition to_handle :: "(string \<Rightarrow> string) \<Rightarrow> string \<Rightarrow> inbound_message \<Rightarrow> bool" where
  "to_handle lower c m \<longleftrightarrow> in_chat_id m = c \<and> \<not> is_heartbeat_msg m \<and> \<not> is_stop_msg lower m"

section \<open>Order\<close>

lemma chat_run_Nil [simp]: "chat_run lower c [] = Some (dispatcher_new, [])"
  by (simp add: chat_run_def)

lemma chat_run_snoc: "chat_run lower c (es @ [e]) = Option.bind (chat_run lower c es)
    (\<lambda>(d, taken). map_option (\<lambda>d'. (d', taken @ begun c e d)) (chat_step lower e d))"
  by (simp add: chat_run_def)

lemma arrivals_snoc: "arrivals (es @ [e]) = arrivals es @ (case e of Arrive m \<Rightarrow> [m] | _ \<Rightarrow> [])"
  by (cases e) (simp_all add: arrivals_def List.map_filter_def)

text \<open>What is on its way to the worker of a chat.\<close>

definition queued :: "string \<Rightarrow> dispatcher \<Rightarrow> inbound_message list" where
  "queued c d = (case hm_get (ds_slots d) c of None \<Rightarrow> [] | Some slot \<Rightarrow> sl_queue slot)"

definition waiting :: "string \<Rightarrow> dispatcher \<Rightarrow> inbound_message list" where
  "waiting c d = queued c d @ (case ds_sending d of None \<Rightarrow> [] | Some m \<Rightarrow> [m]) @ ds_inbox d"

definition dispatcher_ok :: "dispatcher \<Rightarrow> bool" where
  "dispatcher_ok d \<longleftrightarrow> ds_resending d = None
     \<and> (\<forall>c slot. hm_get (ds_slots d) c = Some slot \<longrightarrow> sl_alive slot)
     \<and> (\<forall>m. ds_sending d = Some m \<longrightarrow> hm_get (ds_slots d) (in_chat_id m) \<noteq> None)"

lemma put_slot_simps [simp]:
  "hm_get (ds_slots (put_slot c slot d)) c' = (if c' = c then Some slot else hm_get (ds_slots d) c')"
  "ds_inbox (put_slot c slot d) = ds_inbox d" "ds_sending (put_slot c slot d) = ds_sending d"
  "ds_resending (put_slot c slot d) = ds_resending d" "ds_pending (put_slot c slot d) = ds_pending d"
  by (simp_all add: put_slot_def)

lemma dispatch_waiting:
  assumes "dispatcher_ok d" "ds_sending d = None"
  shows "filter (to_handle lower c) (waiting c (dispatch lower m d)) = filter (to_handle lower c) (waiting c (d\<lparr>ds_inbox := m # ds_inbox d\<rparr>))"
    and "dispatcher_ok (dispatch lower m d)"
  using assms
  by (auto simp: dispatch_def waiting_def queued_def to_handle_def dispatcher_ok_def slot_new_def Let_def
      split: option.splits)

lemma deliver_waiting:
  assumes "dispatcher_ok d" "ds_sending d = Some m" "deliver m d = Some d'"
  shows "filter (to_handle lower c) (waiting c d') = filter (to_handle lower c) (waiting c d)" "dispatcher_ok d'"
  using assms
  by (auto simp: deliver_def waiting_def queued_def to_handle_def dispatcher_ok_def split: option.splits if_splits)

lemma begin_waiting:
  assumes "dispatcher_ok d" "worker_begin c' d = Some d'"
  shows "begun c (Begin c') d @ waiting c d' = waiting c d" "dispatcher_ok d'"
  using assms
  by (auto simp: worker_begin_def begun_def waiting_def queued_def dispatcher_ok_def split: option.splits list.splits if_splits)

lemma end_waiting:
  assumes "dispatcher_ok d" "worker_end c' i p d = Some d'"
  shows "waiting c d' = waiting c d" "dispatcher_ok d'"
  using assms
  by (auto simp: worker_end_def waiting_def queued_def dispatcher_ok_def split: option.splits if_splits)

lemma run_conserves:
  "chat_run lower c es = Some (d, taken) \<Longrightarrow> \<forall>c'. Die c' \<notin> set es \<Longrightarrow>
   dispatcher_ok d \<and> filter (to_handle lower c) (taken @ waiting c d) = filter (to_handle lower c) (arrivals es)"
proof (induction es arbitrary: d taken rule: rev_induct)
  case Nil
  then show ?case
    by (auto simp: dispatcher_new_def dispatcher_ok_def waiting_def queued_def arrivals_def List.map_filter_def hm_lemmas)
next
  case (snoc e es)
  obtain d0 taken0 where run: "chat_run lower c es = Some (d0, taken0)" and step: "chat_step lower e d0 = Some d"
    and taken: "taken = taken0 @ begun c e d0"
    using snoc.prems(1) by (auto simp: chat_run_snoc bind_eq_Some_conv)
  have IH: "dispatcher_ok d0" "filter (to_handle lower c) (taken0 @ waiting c d0) = filter (to_handle lower c) (arrivals es)"
    using snoc.IH [OF run] snoc.prems(2) by auto
  show ?case
  proof (cases e)
    case (Arrive m)
    then have d: "d = d0\<lparr>ds_inbox := ds_inbox d0 @ [m]\<rparr>" using step by (simp split: if_splits)
    have "waiting c d = waiting c d0 @ [m]" by (simp add: d waiting_def queued_def)
    moreover have "dispatcher_ok d" using IH(1) by (simp add: d dispatcher_ok_def)
    ultimately show ?thesis using IH(2) taken Arrive by (simp add: arrivals_snoc begun_def)
  next
    case Dispatch
    then obtain m ms where d: "ds_inbox d0 = m # ms" "ds_sending d0 = None" "d = dispatch lower m (d0\<lparr>ds_inbox := ms\<rparr>)"
      using step by (auto split: list.splits if_splits)
    have ok: "dispatcher_ok (d0\<lparr>ds_inbox := ms\<rparr>)" using IH(1) by (simp add: dispatcher_ok_def)
    have "waiting c (d0\<lparr>ds_inbox := m # ms\<rparr>) = waiting c d0" using d(1) by (simp add: waiting_def queued_def)
    then show ?thesis using dispatch_waiting(1) [OF ok, of lower c m] dispatch_waiting(2) [OF ok, of lower m] d IH(2) taken Dispatch
      by (simp add: arrivals_snoc begun_def)
  next
    case Deliver
    then show ?thesis using deliver_waiting [OF IH(1)] step IH(2) taken
      by (auto simp: arrivals_snoc begun_def bind_eq_Some_conv)
  next
    case Redispatch
    then show ?thesis using step IH(1) by (simp add: dispatcher_ok_def)
  next
    case (Begin c')
    then show ?thesis using begin_waiting(1) [OF IH(1), of c' d c] begin_waiting(2) [OF IH(1), of c' d] step IH(2) taken
      by (simp add: arrivals_snoc flip: filter_append)
  next
    case (End c' i p)
    then show ?thesis using end_waiting(1) [OF IH(1), of c' i p d c] end_waiting(2) [OF IH(1), of c' i p d] step IH(2) taken
      by (simp add: arrivals_snoc begun_def)
  next
    case (Die c')
    then show ?thesis using snoc.prems(2) by auto
  qed
qed

text \<open>C9: 
  Each message of a user is handled once, in the order the messages of the chat arrived: in
  every interleaving of channels, dispatcher and workers in which no worker dies, what the worker of
  a chat took up and what still waits for it are together what arrived for the chat, stop commands
  and heartbeats aside; so nothing is lost, doubled or overtaken.
\<close>

theorem chat_messages_in_order:
  assumes "chat_run lower c es = Some (d, taken)" "\<forall>c'. Die c' \<notin> set es"
  shows "filter (to_handle lower c) taken @ filter (to_handle lower c) (waiting c d) = filter (to_handle lower c) (arrivals es)"
  using run_conserves [OF assms] by simp

section \<open>Stopping\<close>

text \<open>
  A stop command for a chat at work sets its interrupt flag, and the flag stays until that message
  is done: no later message, of whatever chat, takes it back.
\<close>

definition interrupted :: "string \<Rightarrow> inbound_message \<Rightarrow> dispatcher \<Rightarrow> bool" where
  "interrupted c m d = (case hm_get (ds_slots d) c of
      None \<Rightarrow> False | Some slot \<Rightarrow> sl_alive slot \<and> sl_current slot = Some m \<and> sl_interrupt slot)"

lemma interrupted_step:
  assumes "interrupted c m d" "chat_step lower e d = Some d'" "\<forall>i p. e \<noteq> End c i p" "e \<noteq> Die c"
  shows "interrupted c m d'"
proof (cases e)
  case Dispatch
  then show ?thesis using assms
    by (auto simp: interrupted_def dispatch_def Let_def split: list.splits if_splits option.splits)
qed (use assms in \<open>auto simp: interrupted_def deliver_def worker_begin_def worker_end_def worker_die_def bind_eq_Some_conv
    split: if_splits option.splits list.splits\<close>)

definition chat_steps :: "(string \<Rightarrow> string) \<Rightarrow> chat_event list \<Rightarrow> dispatcher \<Rightarrow> dispatcher option" where
  "chat_steps lower es d = foldl (\<lambda>s e. Option.bind s (chat_step lower e)) (Some d) es"

lemma chat_steps_snoc: "chat_steps lower (es @ [e]) d = Option.bind (chat_steps lower es d) (chat_step lower e)"
  by (simp add: chat_steps_def)

theorem stop_reaches_worker:
  assumes "ds_inbox d = s # ms" "is_stop_msg lower s" "\<not> is_heartbeat_msg s"
    and "hm_get (ds_slots d) (in_chat_id s) = Some slot" "sl_alive slot" "sl_current slot = Some m"
    and "chat_steps lower (Dispatch # es) d = Some d'"
    and "\<forall>e \<in> set es. (\<forall>i p. e \<noteq> End (in_chat_id s) i p) \<and> e \<noteq> Die (in_chat_id s)"
  shows "interrupted (in_chat_id s) m d' \<and> queued (in_chat_id s) (dispatch lower s (d\<lparr>ds_inbox := ms\<rparr>)) = sl_queue slot"
proof
  have "chat_steps lower (Dispatch # es) d = Some d' \<Longrightarrow>
      \<forall>e \<in> set es. (\<forall>i p. e \<noteq> End (in_chat_id s) i p) \<and> e \<noteq> Die (in_chat_id s) \<Longrightarrow> interrupted (in_chat_id s) m d'"
  proof (induction es arbitrary: d' rule: rev_induct)
    case Nil
    then show ?case using assms(1-6)
      by (auto simp: chat_steps_def dispatch_def interrupted_def Let_def split: if_splits)
  next
    case (snoc e es)
    then obtain d1 where "chat_steps lower (Dispatch # es) d = Some d1" "chat_step lower e d1 = Some d'"
      using chat_steps_snoc [of lower "Dispatch # es" e d]
      by (cases "chat_steps lower (Dispatch # es) d") auto
    then show ?case using snoc interrupted_step by auto
  qed
  then show "interrupted (in_chat_id s) m d'" using assms(7,8) by blast
  show "queued (in_chat_id s) (dispatch lower s (d\<lparr>ds_inbox := ms\<rparr>)) = sl_queue slot"
    using assms(2-4) by (auto simp: dispatch_def queued_def Let_def)
qed

section \<open>Examples and gaps\<close>

definition demo_inbound :: "string \<Rightarrow> string \<Rightarrow> inbound_message" where
  "demo_inbound channel t = \<lparr>in_id = ''1'', in_channel = channel, in_chat_id = ''c'', in_user_id = ''u'', in_username = None,
     in_text = Some t, in_attachments = [], in_reply_to = None, in_timestamp = 0\<rparr>"

lemma demo_inbound_simps [simp]:
  "in_chat_id (demo_inbound channel t) = ''c''" "in_text (demo_inbound channel t) = Some t"
  "is_heartbeat_msg (demo_inbound channel t) \<longleftrightarrow> channel = ''heartbeat''"
  by (simp_all add: demo_inbound_def is_heartbeat_msg_def)

lemma demo_stop:
  "\<not> is_stop_msg to_lowercase (demo_inbound ''cli'' ''hello'')" "is_stop_msg to_lowercase (demo_inbound ''cli'' ''Stop'')"
  by (simp_all add: is_stop_msg_def) code_simp+

theorem chat_messages_in_order_witness:
  "\<exists>d taken. chat_run to_lowercase ''c'' [Arrive (demo_inbound ''cli'' ''hello''), Dispatch, Deliver, Begin ''c''] = Some (d, taken)
    \<and> filter (to_handle to_lowercase ''c'') taken @ filter (to_handle to_lowercase ''c'') (waiting ''c'' d)
      = filter (to_handle to_lowercase ''c'') [demo_inbound ''cli'' ''hello'']"
proof -
  let ?es = "[Arrive (demo_inbound ''cli'' ''hello''), Dispatch, Deliver, Begin ''c'']"
  have "chat_run to_lowercase ''c'' ?es \<noteq> None"
    by (simp add: chat_run_def dispatcher_new_def dispatch_def deliver_def worker_begin_def hm_lemmas slot_new_def Let_def)
  then obtain d taken where run: "chat_run to_lowercase ''c'' ?es = Some (d, taken)" by auto
  have "arrivals ?es = [demo_inbound ''cli'' ''hello'']" by (simp add: arrivals_def List.map_filter_def)
  then show ?thesis using chat_messages_in_order [OF run] run by auto
qed

definition demo_busy :: dispatcher where
  "demo_busy = \<lparr>ds_inbox = [demo_inbound ''cli'' ''Stop''],
     ds_slots = [(''c'', slot_new\<lparr>sl_current := Some (demo_inbound ''cli'' ''hello'')\<rparr>)],
     ds_pending = [], ds_sending = None, ds_resending = None\<rparr>"

theorem stop_reaches_worker_witness:
  "\<exists>d'. chat_steps to_lowercase [Dispatch, Arrive (demo_inbound ''cli'' ''hello''), Dispatch] demo_busy = Some d'
    \<and> interrupted ''c'' (demo_inbound ''cli'' ''hello'') d'"
proof -
  let ?es = "[Arrive (demo_inbound ''cli'' ''hello''), Dispatch]"
  have "chat_steps to_lowercase (Dispatch # ?es) demo_busy \<noteq> None"
    using demo_stop by (simp add: chat_steps_def demo_busy_def dispatch_def hm_lemmas Let_def slot_new_def put_slot_def)
  then obtain d' where "chat_steps to_lowercase (Dispatch # ?es) demo_busy = Some d'" by auto
  then show ?thesis
    using stop_reaches_worker [of demo_busy "demo_inbound ''cli'' ''Stop''" "[]" to_lowercase
        "slot_new\<lparr>sl_current := Some (demo_inbound ''cli'' ''hello'')\<rparr>" "demo_inbound ''cli'' ''hello''" ?es d'] demo_stop
    by (auto simp: demo_busy_def hm_lemmas slot_new_def)
qed

text \<open>The first heartbeat of a chat makes a worker and is not given to it.\<close>

lemma first_heartbeat_lost:
  assumes "is_heartbeat_msg m" "hm_get (ds_slots d) (in_chat_id m) = None" "ds_sending d = None"
  shows "queued (in_chat_id m) (dispatch lower m d) = [] \<and> ds_sending (dispatch lower m d) = None
    \<and> hm_get (ds_slots (dispatch lower m d)) (in_chat_id m) = Some slot_new"
  using assms by (simp add: dispatch_def queued_def slot_new_def)

text \<open>
  A message to a chat that has a worker, idle or not, is also put among the messages collected for
  the task at work: when the worker takes it up, the agent finds the text of the message it is
  answering as an addition of the user's.
\<close>

lemma message_pending_to_itself:
  assumes "hm_get (ds_slots d) (in_chat_id m) = Some slot" "sl_alive slot" "sl_queue slot = []" "sl_current slot = None"
    and "\<not> is_heartbeat_msg m" "\<not> is_stop_msg lower m" "in_text m = Some t" "hm_get (ds_pending d) (in_chat_id m) = None"
  shows "\<exists>d1 d2 slot'. deliver m (dispatch lower m d) = Some d1 \<and> worker_begin (in_chat_id m) d1 = Some d2
    \<and> hm_get (ds_slots d2) (in_chat_id m) = Some slot' \<and> sl_current slot' = Some m
    \<and> hm_get (ds_pending d2) (in_chat_id m) = Some [t]"
  using assms by (auto simp: dispatch_def deliver_def worker_begin_def add_pending_def Let_def)

text \<open>A command leaves what was collected, its own text included, for the next task.\<close>

lemma command_stays_pending:
  "worker_end c i False d = Some d' \<Longrightarrow> ds_pending d' = ds_pending d"
  by (auto simp: worker_end_def split: option.splits if_splits)

text \<open>With a worker's queue full the dispatcher waits, and no stop command of any chat is seen.\<close>

lemma full_queue_blocks_dispatch:
  assumes "ds_sending d = Some m" "hm_get (ds_slots d) (in_chat_id m) = Some slot" "sl_alive slot" "4 \<le> length (sl_queue slot)"
  shows "chat_step lower Dispatch d = None \<and> chat_step lower Deliver d = None"
  using assms by (auto simp: deliver_def split: list.split)

text \<open>The messages in the queue of a worker that dies are lost; one in the dispatcher's hand is kept.\<close>

lemma queue_of_dead_worker_lost:
  assumes "hm_get (ds_slots d) c = Some slot" "worker_die c d = Some d'"
  shows "queued c d' = [] \<and> ds_inbox d' = ds_inbox d"
  using assms by (auto simp: worker_die_def queued_def)

text \<open>Sending it back can wait for the dispatcher itself, when the common queue is full.\<close>

lemma redispatch_deadlock:
  assumes "ds_resending d = Some m" "ds_inbox d \<noteq> []" "32 \<le> length (ds_inbox d)" "ds_sending d = None"
  shows "chat_step lower Dispatch d = None \<and> chat_step lower Deliver d = None \<and> chat_step lower Redispatch d = None
    \<and> chat_step lower (Arrive m') d = None"
  using assms by (auto split: list.split)

end
