(* ===== verification/Chat_Worker.thy ===== *)
theory Chat_Worker
  imports Chat_Dispatch Rust_Float Memory_Store
begin

text \<open>
  What a worker does with a message (the body of the worker task of \<open>src/main.rs\<close>): the commands, a
  new API key, an attachment, a turn of the agent, and after it the history, the usage and the
  reload of changed credentials. The parts of the program that are modelled elsewhere are used as
  they are (credentials, setup tokens, \<open>create_provider\<close>); the agent's turn is a field of
  \<open>worker_env\<close>, about which the locale \<open>chat_agent\<close> says what a worker relies on, and which
  \<open>agent_turn\<close> provides from the agent's own model.
\<close>

section \<open>State and surroundings\<close>

text \<open>An \<open>AgentRuntime\<close> as the worker made it, with the breaker and the budget it keeps.\<close>

record live_agent =
  la_provider :: provider
  la_model :: string
  la_prompt :: string
  la_breaker :: circuit_breaker
  la_budget :: budget_tracker

datatype turn_end = TurnReply outbound_message turn_usage | TurnError skyclaw_error | TurnPanic

record usage_summary =
  sum_api_calls :: u64
  sum_input_tokens :: u64
  sum_output_tokens :: u64
  sum_tools_used :: u64
  sum_cost_usd :: f64
  sum_turn_count :: u64

record usage_record =
  ur_id :: string
  ur_chat_id :: string
  ur_session_id :: string
  ur_timestamp :: int
  ur_usage :: turn_usage

text \<open>
  \<open>we_now\<close> is the clock of the setup tokens in nanoseconds, \<open>we_utc\<close> that of the records; \<open>we_otk\<close>
  the random bytes of a setup link; \<open>we_receive\<close> is \<^const>\<open>None\<close> for a channel without file transfer;
  \<open>we_write_file\<close> says whether a file could be written.
\<close>

record 'w worker_env =
  we_cred :: cred_env
  we_answer :: "provider \<Rightarrow> completion_request \<Rightarrow> completion_response result"
  we_base_url :: "string option"
  we_soul :: "string option"
  we_spend_limit :: f64
  we_turn :: "live_agent \<Rightarrow> inbound_message \<Rightarrow> session_context \<Rightarrow> 'w \<Rightarrow> session_context \<times> turn_end \<times> live_agent \<times> 'w"
  we_usage_summary :: "string \<Rightarrow> usage_summary result"
  we_usage_display :: "string \<Rightarrow> bool result"
  we_decode :: "string \<Rightarrow> string + string"
  we_decrypt :: "u8 list \<Rightarrow> string \<Rightarrow> string \<Rightarrow> string option"
  we_hex :: "u8 list \<Rightarrow> string"
  we_otk :: "u8 list"
  we_now :: nat
  we_utc :: int
  we_uuid :: string
  we_receive :: "(inbound_message \<Rightarrow> received_file list result) option"
  we_write_file :: "path \<Rightarrow> string \<Rightarrow> bool"
  we_history_json :: "chat_message list \<Rightarrow> string option"
  we_workspace :: string

record 'w worker =
  wk_chat :: string
  wk_file :: cred_file
  wk_tokens :: token_store
  wk_raw_keys :: "string list"
  wk_agent :: "live_agent option"
  wk_history :: "chat_message list"
  wk_sent :: "outbound_message list"
  wk_stored :: "memory_entry list"
  wk_usage :: "usage_record list"
  wk_written :: "path list"
  wk_world :: 'w

section \<open>Helpers\<close>

definition or_else :: "'a option \<Rightarrow> 'a option \<Rightarrow> 'a option" where
  "or_else a b = (case a of None \<Rightarrow> b | Some x \<Rightarrow> Some x)"

definition msg_str :: "inbound_message \<Rightarrow> string" where
  "msg_str msg = (case in_text msg of None \<Rightarrow> [] | Some t \<Rightarrow> t)"

definition send :: "outbound_message \<Rightarrow> 'w worker \<Rightarrow> 'w worker" where
  "send m w = w\<lparr>wk_sent := wk_sent w @ [m]\<rparr>"

definition say :: "inbound_message \<Rightarrow> string \<Rightarrow> 'w worker \<Rightarrow> 'w worker" where
  "say msg t = send \<lparr>out_chat_id = in_chat_id msg, out_text = t, out_reply_to = Some (in_id msg), out_parse_mode = None\<rparr>"

definition config_of :: "string \<Rightarrow> string list \<Rightarrow> string option \<Rightarrow> string \<Rightarrow> string option \<Rightarrow> provider_config" where
  "config_of name keys key model url =
     \<lparr>pc_name = Some name, pc_api_key = key, pc_keys = keys, pc_model = Some model, pc_base_url = url, pc_extra_headers = []\<rparr>"

definition first_key :: "string list \<Rightarrow> string option" where
  "first_key ks = (case ks of [] \<Rightarrow> None | k # _ \<Rightarrow> Some k)"

definition validate :: "'w worker_env \<Rightarrow> provider_config \<Rightarrow> string + provider" where
  "validate env = validate_provider_key (we_answer env)"

definition load_file :: "'w worker_env \<Rightarrow> 'w worker \<Rightarrow> credentials_file option" where
  "load_file env w = load_credentials_file (we_cred env) (wk_file w)"

definition valid_keys :: "credentials_provider \<Rightarrow> string list" where
  "valid_keys p = filter (\<lambda>k. \<not> is_placeholder_key k) (cp_keys p)"

text \<open>\<open>AgentRuntime::with_limits\<close>, stored in \<open>agent_state\<close>.\<close>

definition go_online :: "'w worker_env \<Rightarrow> provider \<Rightarrow> string \<Rightarrow> 'w worker \<Rightarrow> 'w worker" where
  "go_online env p model w = w\<lparr>wk_agent := Some
     \<lparr>la_provider = p, la_model = model, la_prompt = build_system_prompt (we_cred env) (we_soul env) (wk_file w),
      la_breaker = cb_default, la_budget = bt_new (we_spend_limit env)\<rparr>\<rparr>"

definition save_key :: "'w worker_env \<Rightarrow> detected_credential \<Rightarrow> string \<Rightarrow> 'w worker \<Rightarrow> (string + unit) \<times> 'w worker" where
  "save_key env cred model w =
     (case save_credentials (we_cred env) (dc_provider cred) (dc_api_key cred) model (dc_base_url cred) (wk_file w) of
        (r, file) \<Rightarrow> (r, w\<lparr>wk_file := file\<rparr>))"

text \<open>Write the model back to the file, as far as that goes.\<close>

definition revert_model :: "'w worker_env \<Rightarrow> string \<Rightarrow> string \<Rightarrow> credentials_file \<Rightarrow> 'w worker \<Rightarrow> 'w worker" where
  "revert_model env name model creds w =
     (case ce_print (we_cred env) (toml_of_creds (with_model name model creds)) of
        Inl _ \<Rightarrow> w
      | Inr content \<Rightarrow> w\<lparr>wk_file := snd (ce_write (we_cred env) content (wk_file w))\<rparr>)"

section \<open>Commands\<close>

definition setup_link :: "'w worker_env \<Rightarrow> inbound_message \<Rightarrow> 'w worker \<Rightarrow> string \<times> 'w worker" where
  "setup_link env msg w =
     (case generate (we_otk env) (we_now env) (in_chat_id msg) (wk_tokens w) of
        (otk_bytes, store) \<Rightarrow>
          (''https://nagisanzenin.github.io/skyclaw/setup#'' @ we_hex env otk_bytes, w\<lparr>wk_tokens := store\<rparr>))"

definition cmd_addkey :: "'w worker_env \<Rightarrow> inbound_message \<Rightarrow> 'w worker \<Rightarrow> 'w worker" where
  "cmd_addkey env msg w = (case setup_link env msg w of (link, w) \<Rightarrow>
     say msg (join nl [''Secure key setup:'', [], ''1. Open this link:'', link, [], ''2. Paste your API key in the form'',
       ''3. Copy the encrypted blob'', ''4. Paste it back here'', [], ''Link expires in 10 minutes.'', [],
       ''For a quick (less secure) method: /addkey unsafe'']) w)"

definition cmd_addkey_unsafe :: "inbound_message \<Rightarrow> 'w worker \<Rightarrow> 'w worker" where
  "cmd_addkey_unsafe msg w =
     say msg (join nl [''Paste your API key in the next message.'', [],
       ''Warning: the key will be visible in chat history.'', ''For a secure method, use /addkey instead.''])
       (w\<lparr>wk_raw_keys := (if in_chat_id msg \<in> set (wk_raw_keys w) then wk_raw_keys w else in_chat_id msg # wk_raw_keys w)\<rparr>)"

definition cmd_keys :: "'w worker_env \<Rightarrow> inbound_message \<Rightarrow> 'w worker \<Rightarrow> 'w worker" where
  "cmd_keys env msg w = say msg (list_configured_providers (we_cred env) (wk_file w)) w"

definition after_switch :: "'w worker_env \<Rightarrow> string \<Rightarrow> 'w worker \<Rightarrow> string \<times> 'w worker" where
  "after_switch env told w =
     (case load_file env w of
        None \<Rightarrow> (told, w)
      | Some creds \<Rightarrow>
          (case List.find (\<lambda>p. cp_name p = cf_active creds) (cf_providers creds) of
             None \<Rightarrow> (told, w)
           | Some prov \<Rightarrow>
               (case validate env (config_of (cf_active creds) (valid_keys prov) (first_key (valid_keys prov)) (cp_model prov)
                       (or_else (cp_base_url prov) (we_base_url env))) of
                  Inr p \<Rightarrow> (told @ nl @ ''Active now.'', go_online env p (cp_model prov) w)
                | Inl err \<Rightarrow>
                    (''Model switch failed: '' @ err @ nl @ ''Reverted to previous model.'',
                     case wk_agent w of
                       None \<Rightarrow> w
                     | Some old_agent \<Rightarrow> revert_model env (cf_active creds) (la_model old_agent) creds w))))"

definition cmd_model :: "'w worker_env \<Rightarrow> inbound_message \<Rightarrow> string \<Rightarrow> 'w worker \<Rightarrow> 'w worker" where
  "cmd_model env msg cmd_lower w =
     (let args = (if cmd_lower = ''/model'' then [] else trim (drop 6 (trim (msg_str msg))))
      in case handle_model_command (we_cred env) args (wk_file w) of
          (told, file) \<Rightarrow>
            (case (if starts_with ''Model switched:'' told then after_switch env told (w\<lparr>wk_file := file\<rparr>)
                   else (told, w\<lparr>wk_file := file\<rparr>)) of
               (final, w) \<Rightarrow> say msg final w))"

definition cmd_removekey :: "'w worker_env \<Rightarrow> inbound_message \<Rightarrow> 'w worker \<Rightarrow> 'w worker" where
  "cmd_removekey env msg w =
     (let provider_arg = trim (drop 10 (trim (msg_str msg)))
      in case remove_provider (we_cred env) provider_arg (wk_file w) of
          (told, file) \<Rightarrow>
            (let w = say msg told (w\<lparr>wk_file := file\<rparr>)
             in if provider_arg \<noteq> [] \<and> load_active_provider_keys (we_cred env) (wk_file w) = None
                then w\<lparr>wk_agent := None\<rparr> else w))"

definition cmd_usage :: "'w worker_env \<Rightarrow> inbound_message \<Rightarrow> 'w worker \<Rightarrow> 'w worker" where
  "cmd_usage env msg w = say msg
     (case we_usage_summary env (in_chat_id msg) of
        Inl e \<Rightarrow> ''Failed to query usage: '' @ show_error e
      | Inr s \<Rightarrow>
          if sum_turn_count s = 0 then ''No usage records for this chat yet.''
          else join nl [''Usage Summary'', ''Turns: '' @ nat_str (unat (sum_turn_count s)),
            ''API Calls: '' @ nat_str (unat (sum_api_calls s)),
            ''Input Tokens: '' @ nat_str (unat (sum_input_tokens s)),
            ''Output Tokens: '' @ nat_str (unat (sum_output_tokens s)),
            ''Combined Tokens: '' @ nat_str (unat (sum_input_tokens s + sum_output_tokens s)),
            ''Tools Used: '' @ nat_str (unat (sum_tools_used s)),
            ''Total Cost: $'' @ fixed 4 (sum_cost_usd s)]) w"

definition test_config :: "'w worker_env \<Rightarrow> detected_credential \<Rightarrow> provider_config" where
  "test_config env cred = config_of (dc_provider cred) [dc_api_key cred] (Some (dc_api_key cred))
     (default_model (dc_provider cred)) (or_else (dc_base_url cred) (we_base_url env))"

definition cmd_blob :: "'w worker_env \<Rightarrow> inbound_message \<Rightarrow> 'w worker \<Rightarrow> 'w worker" where
  "cmd_blob env msg w =
     (case decrypt_otk_blob (we_decode env) (we_decrypt env) (drop 7 (trim (msg_str msg))) (in_chat_id msg)
             (we_now env) (wk_tokens w) of
        (r, store) \<Rightarrow>
          (let w = w\<lparr>wk_tokens := store\<rparr>
           in case r of
               Inl err \<Rightarrow> say msg err w
             | Inr api_key_text \<Rightarrow>
                 (case detect_api_key api_key_text of
                    None \<Rightarrow> say msg (''Decrypted successfully but couldn'' @ [CHR 0x27] @ ''t detect the provider. ''
                              @ ''Make sure you pasted a valid API key in the setup page.'') w
                  | Some cred \<Rightarrow>
                      (let model = default_model (dc_provider cred)
                       in case validate env (test_config env cred) of
                           Inr p \<Rightarrow>
                             say msg (''API key securely received and verified! Configured '' @ dc_provider cred
                                 @ '' with model '' @ model @ ''.'' @ nl @ nl @ ''SkyClaw is online.'')
                               (go_online env p model (snd (save_key env cred model w)))
                         | Inl err \<Rightarrow>
                             say msg (''Key decrypted but validation failed '' @ em_dash @ '' '' @ dc_provider cred
                               @ '' returned:'' @ nl @ err @ nl @ nl @ ''Check the key and try /addkey again.'') w))))"

section \<open>A key in the conversation\<close>

definition key_message :: "'w worker_env \<Rightarrow> inbound_message \<Rightarrow> detected_credential \<Rightarrow> 'w worker \<Rightarrow> 'w worker" where
  "key_message env msg cred w =
     (case validate env (test_config env cred) of
        Inl err \<Rightarrow>
          say msg (''Invalid API key '' @ em_dash @ '' '' @ dc_provider cred @ '' returned an error:'' @ nl @ err @ nl @ nl
            @ ''The current provider is still active. Check the key and try again.'') w
      | Inr _ \<Rightarrow>
          (case save_key env cred (default_model (dc_provider cred)) w of
             (Inl _, w) \<Rightarrow> w
           | (Inr _, w) \<Rightarrow>
               (case load_active_provider_keys (we_cred env) (wk_file w) of
                  None \<Rightarrow> w
                | Some (name, keys, mdl, url) \<Rightarrow>
                    (case create_provider (config_of name keys (first_key keys) mdl (or_else url (we_base_url env))) of
                       Inl _ \<Rightarrow> w
                     | Inr p \<Rightarrow>
                         say msg (''Key verified and added for '' @ name @ ''! Now using '' @ nat_str (length keys) @ '' key''
                             @ (if 1 < length keys then ''s (rotation on error)'' else []) @ '' with model '' @ mdl @ ''.'')
                           (go_online env p mdl w)))))"

definition onboarding :: "'w worker_env \<Rightarrow> inbound_message \<Rightarrow> 'w worker \<Rightarrow> 'w worker" where
  "onboarding env msg w =
     (case detect_api_key (msg_str msg) of
        None \<Rightarrow>
          (case setup_link env msg w of (link, w) \<Rightarrow>
             send \<lparr>out_chat_id = in_chat_id msg, out_text = ONBOARDING_REFERENCE, out_reply_to = None, out_parse_mode = None\<rparr>
               (say msg (onboarding_message_with_link link) w))
      | Some cred \<Rightarrow>
          (let name = dc_provider cred; model = default_model name;
               saved = (case load_file env w of
                   None \<Rightarrow> []
                 | Some creds \<Rightarrow>
                     (case List.find (\<lambda>p. cp_name p = name) (cf_providers creds) of None \<Rightarrow> [] | Some p \<Rightarrow> cp_keys p));
               all = foldl (\<lambda>ks k. if k \<in> set ks then ks else ks @ [k]) [dc_api_key cred] saved;
               config = config_of name all (Some (dc_api_key cred)) model (or_else (dc_base_url cred) (we_base_url env))
           in case create_provider config of
               Inl e \<Rightarrow> say msg (''Failed to configure provider: '' @ show_error e) w
             | Inr _ \<Rightarrow>
                 (case validate env config of
                    Inl e \<Rightarrow>
                      say msg (''Invalid API key '' @ em_dash @ '' the '' @ name @ '' API returned an error:'' @ nl @ e @ nl @ nl
                        @ ''Please check your key and paste it again.'') w
                  | Inr p \<Rightarrow>
                      say msg (join nl [''API key verified! Configured '' @ name
                          @ (if dc_base_url cred \<noteq> None then '' (via proxy)'' else []) @ '' with model '' @ model @ ''.'', [],
                          ''SkyClaw is online! You can:'', ''- Add more keys anytime (just paste them)'',
                          ''- Use a proxy: '' @ [CHR 0x22] @ ''proxy openai https://your-proxy/v1 your-key'' @ [CHR 0x22],
                          ''- Change settings in natural language'', [], ''How can I help?''])
                        (snd (save_key env cred model (go_online env p model w))))))"

section \<open>A turn of the agent\<close>

definition save_attachment :: "'w worker_env \<Rightarrow> received_file \<Rightarrow> 'w worker \<Rightarrow> string list \<times> 'w worker" where
  "save_attachment env f w =
     (let path = path_join (components (we_workspace env)) (components (rf_name f))
      in if we_write_file env path (rf_data f)
         then ([''[File received: '' @ rf_name f @ '' ('' @ rf_mime_type f @ '', '' @ nat_str (rf_size f) @ '' bytes) ''
                  @ em_dash @ '' saved to workspace/'' @ rf_name f @ '']''], w\<lparr>wk_written := wk_written w @ [path]\<rparr>)
         else ([], w))"

fun save_attachments :: "'w worker_env \<Rightarrow> received_file list \<Rightarrow> 'w worker \<Rightarrow> string list \<times> 'w worker" where
  "save_attachments env [] w = ([], w)"
| "save_attachments env (f # fs) w =
     (case save_attachment env f w of (notes, w) \<Rightarrow>
        (case save_attachments env fs w of (rest, w) \<Rightarrow> (notes @ rest, w)))"

definition take_attachments :: "'w worker_env \<Rightarrow> inbound_message \<Rightarrow> 'w worker \<Rightarrow> inbound_message \<times> 'w worker" where
  "take_attachments env msg w =
     (if in_attachments msg = [] then (msg, w)
      else case we_receive env of
          None \<Rightarrow> (msg, w)
        | Some receive \<Rightarrow>
            (case receive msg of
               Inl _ \<Rightarrow> (msg, w)
             | Inr files \<Rightarrow>
                 (case save_attachments env files w of (notes, w) \<Rightarrow>
                    (if notes = [] then msg else msg\<lparr>in_text := Some (join nl notes @ nl @ msg_str msg)\<rparr>, w))))"

definition session_of :: "'w worker_env \<Rightarrow> inbound_message \<Rightarrow> chat_message list \<Rightarrow> session_context" where
  "session_of env msg history =
     \<lparr>session_id = in_channel msg @ ''-'' @ in_chat_id msg, sess_channel = in_channel msg, sess_chat_id = in_chat_id msg,
      sess_user_id = in_user_id msg, sess_history = history, workspace_path = we_workspace env\<rparr>"

definition format_summary :: "turn_usage \<Rightarrow> string" where
  "format_summary u = join nl [''Model: '' @ tu_model u, ''API Calls: '' @ nat_str (unat (tu_api_calls u)),
     ''Input Tokens: '' @ format_number (tu_input_tokens u),
     ''Output Tokens: '' @ format_number (tu_output_tokens u),
     ''Tools Used: '' @ nat_str (unat (tu_tools_used u)),
     ''Combined Tokens: '' @ format_number (tu_input_tokens u + tu_output_tokens u),
     ''Total Cost: $'' @ fixed 4 (tu_total_cost_usd u)]"

definition censored :: "'w worker_env \<Rightarrow> 'w worker \<Rightarrow> string \<Rightarrow> string" where
  "censored env w = censor_secrets (we_cred env) (wk_file w)"

definition after_turn :: "'w worker_env \<Rightarrow> inbound_message \<Rightarrow> turn_end \<Rightarrow> 'w worker \<Rightarrow> 'w worker" where
  "after_turn env msg r w = (case r of
      TurnReply reply u \<Rightarrow>
        (let w = send (reply\<lparr>out_text := censored env w (out_text reply)\<rparr>) w;
             w = w\<lparr>wk_usage := wk_usage w @ [\<lparr>ur_id = we_uuid env, ur_chat_id = in_chat_id msg,
               ur_session_id = in_channel msg @ ''-'' @ in_chat_id msg, ur_timestamp = we_utc env, ur_usage = u\<rparr>]\<rparr>
         in if 0 < tu_api_calls u \<and> we_usage_display env (in_chat_id msg) = Inr True
            then send \<lparr>out_chat_id = in_chat_id msg, out_text = format_summary u, out_reply_to = None, out_parse_mode = None\<rparr> w
            else w)
    | TurnError e \<Rightarrow> say msg (censored env w (''Error: '' @ show_error e)) w
    | TurnPanic \<Rightarrow> say msg (''An internal error occurred while processing your message. ''
                    @ ''I'' @ [CHR 0x27] @ ''ve recovered and am ready for your next message.'') w)"

definition rolled_back :: "turn_end \<Rightarrow> chat_message list \<Rightarrow> chat_message list \<Rightarrow> chat_message list" where
  "rolled_back r old new = (if r = TurnPanic \<and> length old < length new then old else new)"

definition cap_history :: "chat_message list \<Rightarrow> chat_message list" where
  "cap_history h = (if 200 < length h then drop (length h - 200) h else h)"

definition history_key :: "string \<Rightarrow> string" where
  "history_key chat = ''chat_history:'' @ chat"

definition store_history :: "'w worker_env \<Rightarrow> 'w worker \<Rightarrow> 'w worker" where
  "store_history env w =
     (case we_history_json env (wk_history w) of
        None \<Rightarrow> w
      | Some json \<Rightarrow> w\<lparr>wk_stored := wk_stored w @ [\<lparr>me_id = history_key (wk_chat w), me_content = json,
           me_metadata = JObject [(''chat_id'', JString (wk_chat w))], me_timestamp = we_utc env,
           me_session_id = Some (wk_chat w), me_type = Conversation\<rparr>]\<rparr>)"

text \<open>The history a new worker starts with, of what \<open>memory.get\<close> returns.\<close>

definition restore_history :: "(string \<Rightarrow> chat_message list option) \<Rightarrow> memory_entry option result \<Rightarrow> chat_message list" where
  "restore_history parse r = (case r of
      Inr (Some e) \<Rightarrow> (case parse (me_content e) of None \<Rightarrow> [] | Some h \<Rightarrow> h)
    | _ \<Rightarrow> [])"

definition hot_reload :: "'w worker_env \<Rightarrow> live_agent \<Rightarrow> 'w worker \<Rightarrow> 'w worker" where
  "hot_reload env agent w =
     (case load_active_provider_keys (we_cred env) (wk_file w) of
        None \<Rightarrow> w
      | Some (name, keys, model, url) \<Rightarrow>
          if model \<noteq> la_model agent \<or> 1 < length keys
          then (let valid = filter (\<lambda>k. \<not> is_placeholder_key k) keys
                in if valid = [] then w
                   else (case validate env (config_of name valid (first_key valid) model (or_else url (we_base_url env))) of
                           Inr p \<Rightarrow> go_online env p model w
                         | Inl _ \<Rightarrow>
                             (case load_file env w of
                                None \<Rightarrow> w
                              | Some creds \<Rightarrow> revert_model env name (la_model agent) creds w)))
          else w)"

definition agent_message :: "'w worker_env \<Rightarrow> live_agent \<Rightarrow> inbound_message \<Rightarrow> 'w worker \<Rightarrow> 'w worker" where
  "agent_message env agent msg w =
     (case take_attachments env msg w of
        (msg, w) \<Rightarrow>
          (case we_turn env agent msg (session_of env msg (wk_history w)) (wk_world w) of
             (session, r, agent, world) \<Rightarrow>
               (let history = rolled_back r (wk_history w) (sess_history session);
                    w = after_turn env msg r (w\<lparr>wk_agent := Some agent, wk_world := world\<rparr>);
                    w = store_history env (w\<lparr>wk_history := cap_history history\<rparr>)
                in hot_reload env agent w)))"

section \<open>A message\<close>

text \<open>
  The state afterwards, and what the end of the message clears: the interrupt flag, and the
  messages collected.
\<close>

definition handle_message :: "'w worker_env \<Rightarrow> inbound_message \<Rightarrow> 'w worker \<Rightarrow> 'w worker \<times> bool \<times> bool" where
  "handle_message env msg w =
     (let cmd = trim (msg_str msg); cmd_lower = to_lowercase cmd
      in if cmd_lower = ''/addkey'' then (cmd_addkey env msg w, False, False)
         else if cmd_lower = ''/addkey unsafe'' then (cmd_addkey_unsafe msg w, False, False)
         else if cmd_lower = ''/keys'' then (cmd_keys env msg w, False, False)
         else if cmd_lower = ''/model'' \<or> starts_with ''/model '' cmd_lower
         then (cmd_model env msg cmd_lower w, False, False)
         else if starts_with ''/removekey'' cmd_lower then (cmd_removekey env msg w, False, False)
         else if cmd_lower = ''/usage'' then (cmd_usage env msg w, False, False)
         else if starts_with ''enc:v1:'' cmd then (cmd_blob env msg w, False, True)
         else
           (let w = w\<lparr>wk_raw_keys := remove1 (in_chat_id msg) (wk_raw_keys w)\<rparr>
            in (case wk_agent w of
                  None \<Rightarrow> onboarding env msg w
                | Some agent \<Rightarrow>
                    (case detect_api_key (msg_str msg) of
                       Some cred \<Rightarrow> key_message env msg cred w
                     | None \<Rightarrow> agent_message env agent msg w), True, True)))"

section \<open>What is kept\<close>

lemma send_simps [simp]:
  "wk_history (send m w) = wk_history w" "wk_file (send m w) = wk_file w" "wk_agent (send m w) = wk_agent w"
  "wk_sent (send m w) = wk_sent w @ [m]" "wk_history (say msg t w) = wk_history w" "wk_file (say msg t w) = wk_file w"
  "wk_agent (say msg t w) = wk_agent w"
  "wk_sent (say msg t w) = wk_sent w @ [\<lparr>out_chat_id = in_chat_id msg, out_text = t, out_reply_to = Some (in_id msg), out_parse_mode = None\<rparr>]"
  by (simp_all add: send_def say_def)

lemma history_kept [simp]:
  "wk_history (go_online env p model w) = wk_history w"
  "wk_history (revert_model env name model creds w) = wk_history w"
  "wk_history (snd (setup_link env msg w)) = wk_history w"
  "wk_history (snd (save_key env cred model w)) = wk_history w"
  by (simp_all add: go_online_def revert_model_def setup_link_def save_key_def split: sum.splits prod.splits)

lemma step_history:
  "setup_link env msg w = (link, w') \<Longrightarrow> wk_history w' = wk_history w"
  "save_key env cred model w = (r, w') \<Longrightarrow> wk_history w' = wk_history w"
  "after_switch env t w = (t', w') \<Longrightarrow> wk_history w' = wk_history w"
  by (auto simp: setup_link_def save_key_def after_switch_def split: option.splits sum.splits prod.splits)

lemma command_history [simp]:
  "wk_history (cmd_addkey env msg w) = wk_history w" "wk_history (cmd_addkey_unsafe msg w) = wk_history w"
  "wk_history (cmd_keys env msg w) = wk_history w" "wk_history (cmd_removekey env msg w) = wk_history w"
  "wk_history (cmd_usage env msg w) = wk_history w"
  by (auto simp: cmd_addkey_def cmd_addkey_unsafe_def cmd_keys_def cmd_removekey_def cmd_usage_def Let_def
      split: prod.splits dest: step_history)

lemma cmd_model_history [simp]: "wk_history (cmd_model env msg cmd w) = wk_history w"
  by (auto simp: cmd_model_def Let_def split: prod.splits dest!: step_history(3))

lemma cmd_blob_history [simp]: "wk_history (cmd_blob env msg w) = wk_history w"
  by (simp add: cmd_blob_def Let_def split: prod.splits sum.splits option.splits)

lemma key_message_history [simp]: "wk_history (key_message env msg cred w) = wk_history w"
  by (auto simp: key_message_def split: prod.splits sum.splits option.splits dest!: step_history(2))

lemma onboarding_history [simp]: "wk_history (onboarding env msg w) = wk_history w"
proof (cases "detect_api_key (msg_str msg)")
  case None
  obtain link w' where "setup_link env msg w = (link, w')" by fastforce
  then show ?thesis using None step_history(1) by (simp add: onboarding_def)
next
  case (Some cred)
  then show ?thesis by (simp add: onboarding_def Let_def split: sum.split)
qed

lemma save_attachment_history: "save_attachment env f w = (found, w') \<Longrightarrow> wk_history w' = wk_history w"
  by (auto simp: save_attachment_def Let_def split: if_splits)

lemma save_attachments_history: "save_attachments env fs w = (found, w') \<Longrightarrow> wk_history w' = wk_history w"
proof (induction fs arbitrary: w found)
  case (Cons f fs)
  obtain n w1 where "save_attachment env f w = (n, w1)" by fastforce
  moreover obtain n' w2 where "save_attachments env fs w1 = (n', w2)" by fastforce
  ultimately show ?case using Cons.IH [of w1 n'] Cons.prems save_attachment_history by simp
qed simp

lemma take_attachments_history: "take_attachments env msg w = (msg', w') \<Longrightarrow> wk_history w' = wk_history w"
  by (auto simp: take_attachments_def split: option.splits sum.splits prod.splits if_splits dest!: save_attachments_history)

lemma after_turn_history [simp]: "wk_history (after_turn env msg r w) = wk_history w"
  by (cases r) (simp_all add: after_turn_def Let_def)

lemma store_history_history [simp]: "wk_history (store_history env w) = wk_history w"
  by (simp add: store_history_def split: option.splits)

lemma hot_reload_history [simp]: "wk_history (hot_reload env a w) = wk_history w"
  by (simp add: hot_reload_def Let_def split: option.splits prod.splits sum.splits)

lemma agent_message_history:
  assumes "take_attachments env msg w = (msg', w1)"
    and "we_turn env agent msg' (session_of env msg' (wk_history w)) (wk_world w1) = (s, r, agent', world)"
  shows "wk_history (agent_message env agent msg w) = cap_history (rolled_back r (wk_history w) (sess_history s))"
  using assms take_attachments_history [OF assms(1)] by (simp add: agent_message_def)

text \<open>A message leaves the history as it is, or it is one for the agent.\<close>

lemma handle_message_cases:
  "wk_history (fst (handle_message env msg w)) = wk_history w \<or>
   (\<exists>agent w0. wk_history w0 = wk_history w \<and> fst (handle_message env msg w) = agent_message env agent msg w0)"
proof -
  define w0 where "w0 = w\<lparr>wk_raw_keys := remove1 (in_chat_id msg) (wk_raw_keys w)\<rparr>"
  have "wk_history w0 = wk_history w" by (simp add: w0_def)
  moreover have "wk_history (fst (handle_message env msg w)) = wk_history w \<or>
      (\<exists>agent. fst (handle_message env msg w) = agent_message env agent msg w0)"
    by (auto simp: handle_message_def Let_def w0_def split: option.split)
  ultimately show ?thesis by blast
qed

lemma cap_history_length [simp]: "length (cap_history h) \<le> 200"
  by (simp add: cap_history_def)

text \<open>The history never has more than 200 messages.\<close>

lemma agent_message_bounded: "length (wk_history (agent_message env agent msg w)) \<le> 200"
proof -
  obtain msg' w1 where take: "take_attachments env msg w = (msg', w1)" by fastforce
  obtain s r agent' world where "we_turn env agent msg' (session_of env msg' (wk_history w)) (wk_world w1) = (s, r, agent', world)"
    by (metis prod_cases4)
  then show ?thesis using agent_message_history [OF take] by simp
qed

lemma history_bounded:
  "length (wk_history w) \<le> 200 \<Longrightarrow> length (wk_history (fst (handle_message env msg w))) \<le> 200"
  using handle_message_cases [of env msg w] agent_message_bounded by metis

section \<open>The agent behind a worker\<close>

text \<open>
  What a worker relies on: a turn only adds to the history, and unless it panics what it adds
  answers every tool call in it.
\<close>

locale chat_agent =
  fixes env :: "'w worker_env"
  assumes turn_grows: "we_turn env agent msg session world = (session', r, agent', world') \<Longrightarrow>
    \<exists>new. sess_history session' = sess_history session @ new \<and> (r \<noteq> TurnPanic \<longrightarrow> history_answered [] new)"
begin

lemma turn_answers:
  assumes "we_turn env agent msg session world = (session', r, agent', world')" "history_answered [] (sess_history session)"
  shows "history_answered [] (rolled_back r (sess_history session) (sess_history session'))"
  using turn_grows [OF assms(1)] assms(2) history_answered_append
  by (auto simp: rolled_back_def)

lemma message_keeps_answered:
  assumes "history_answered [] (wk_history w)" "length (wk_history (fst (handle_message env msg w))) < 200"
  shows "history_answered [] (wk_history (fst (handle_message env msg w)))"
  using handle_message_cases [of env msg w]
proof
  assume "\<exists>agent w0. wk_history w0 = wk_history w
      \<and> fst (handle_message env msg w) = agent_message env agent msg w0"
  then obtain agent w0 where w0: "wk_history w0 = wk_history w"
      "fst (handle_message env msg w) = agent_message env agent msg w0" by blast
  obtain msg' w1 where take: "take_attachments env msg w0 = (msg', w1)" by fastforce
  obtain s r agent' world where turn: "we_turn env agent msg' (session_of env msg' (wk_history w0)) (wk_world w1) = (s, r, agent', world)"
    by (metis prod_cases4)
  have h: "wk_history (fst (handle_message env msg w)) = cap_history (rolled_back r (wk_history w) (sess_history s))"
    using agent_message_history [OF take turn] w0 by simp
  have "history_answered [] (rolled_back r (wk_history w) (sess_history s))"
    using turn_answers [OF turn] assms(1) w0(1) by (simp add: session_of_def)
  moreover have "cap_history (rolled_back r (wk_history w) (sess_history s)) = rolled_back r (wk_history w) (sess_history s)"
    using assms(2) unfolding h by (simp add: cap_history_def split: if_splits)
  ultimately show ?thesis using h by simp
qed (use assms in simp)

end

text \<open>
  The agent of \<open>Agent_Runtime\<close> as such an agent: it is made with the limits of the configuration,
  here with a number of rounds below \<open>2 ^ 32\<close>; \<open>aenv\<close> is what surrounds it when it runs with a
  provider, and \<open>partial\<close> what a turn that panics had put in the history.
\<close>

definition agent_turn :: "'w tool list \<Rightarrow> ('w tool \<Rightarrow> string \<times> json) \<Rightarrow> nat \<Rightarrow> nat \<Rightarrow> u32 \<Rightarrow> nat \<Rightarrow> f64 \<Rightarrow>
    (live_agent \<Rightarrow> 'w agent_env) \<Rightarrow> (inbound_message \<Rightarrow> chat_message list) \<Rightarrow>
    live_agent \<Rightarrow> inbound_message \<Rightarrow> session_context \<Rightarrow> 'w \<Rightarrow> session_context \<times> turn_end \<times> live_agent \<times> 'w" where
  "agent_turn tools describe turns budget rounds seconds spend aenv partial l msg session world =
     (let a = fst (agent_with_limits tools describe (la_model l) (Some (la_prompt l)) turns budget (unat rounds) seconds spend)
      in case process_message a (aenv l) msg \<lparr>as_breaker = la_breaker l, as_budget = la_budget l, as_queue = [],
               as_session = session, as_world = world\<rparr> of
          None \<Rightarrow> (session\<lparr>sess_history := sess_history session @ partial msg\<rparr>, TurnPanic, l, world)
        | Some (r, st) \<Rightarrow>
            (as_session st, (case r of Inl e \<Rightarrow> TurnError e | Inr (reply, u) \<Rightarrow> TurnReply reply u),
             l\<lparr>la_breaker := as_breaker st, la_budget := as_budget st\<rparr>, as_world st))"

definition with_agent :: "'w tool list \<Rightarrow> ('w tool \<Rightarrow> string \<times> json) \<Rightarrow> nat \<Rightarrow> nat \<Rightarrow> u32 \<Rightarrow> nat \<Rightarrow>
    (live_agent \<Rightarrow> 'w agent_env) \<Rightarrow> (inbound_message \<Rightarrow> chat_message list) \<Rightarrow> 'w worker_env \<Rightarrow> 'w worker_env" where
  "with_agent tools describe turns budget rounds seconds aenv partial env =
     env\<lparr>we_turn := agent_turn tools describe turns budget rounds seconds (we_spend_limit env) aenv partial\<rparr>"

lemma agent_turn_grows:
  assumes "agent_turn tools describe turns budget rounds seconds spend aenv partial l msg session world = (session', r, l', world')"
  shows "\<exists>new. sess_history session' = sess_history session @ new \<and> (r \<noteq> TurnPanic \<longrightarrow> history_answered [] new)"
proof -
  define a where "a = fst (agent_with_limits tools describe (la_model l) (Some (la_prompt l)) turns budget (unat rounds) seconds spend)"
  define st where "st = \<lparr>as_breaker = la_breaker l, as_budget = la_budget l, as_queue = [], as_session = session, as_world = world\<rparr>"
  have rounds: "ar_max_tool_rounds a < 2 ^ 32"
    using unat_u32_less [of rounds] by (simp add: a_def agent_with_limits_def)
  show ?thesis
  proof (cases "process_message a (aenv l) msg st")
    case None
    then show ?thesis using assms by (auto simp: agent_turn_def a_def st_def)
  next
    case (Some out)
    obtain q st' where out: "out = (q, st')" by fastforce
    then obtain new where "hist st' = hist st @ new" "turn_ok new"
      using process_message_history [of a "aenv l" msg st q st'] Some rounds by auto
    moreover have "session' = as_session st'"
      using assms Some out by (simp add: agent_turn_def a_def [symmetric] st_def [symmetric])
    ultimately show ?thesis using turn_answered by (auto simp: st_def)
  qed
qed

interpretation worker: chat_agent "with_agent tools describe turns budget rounds seconds aenv partial env"
  for tools describe turns budget rounds seconds aenv partial env
proof unfold_locales
qed (use agent_turn_grows in \<open>simp add: with_agent_def\<close>)

text \<open>C10: 
  Whatever a user sends and whatever provider, tools and memory do, a worker hands on a history in
  which every tool call is answered: after a command, a key, an attachment, a turn, a turn that fails
  and a turn that panics alike, as long as the history is below its limit of 200 messages.
\<close>

theorem worker_keeps_calls_answered:
  assumes "history_answered [] (wk_history w)"
    and "length (wk_history (fst (handle_message (with_agent tools describe turns budget rounds seconds aenv partial env) msg w))) < 200"
  shows "history_answered [] (wk_history (fst (handle_message (with_agent tools describe turns budget rounds seconds aenv partial env) msg w)))"
  using assms by (rule worker.message_keeps_answered)

text \<open>At the limit the oldest message is cut off, and the results of its calls are left without them.\<close>

definition user_note :: "nat \<Rightarrow> chat_message" where
  "user_note n = \<lparr>msg_role = User, msg_content = Text (nat_str n)\<rparr>"

definition long_history :: "chat_message list" where
  "long_history = [\<lparr>msg_role = Assistant, msg_content = Parts [ToolUse ''1'' ''shell'' JNull]\<rparr>,
     \<lparr>msg_role = RoleTool, msg_content = Parts [ToolResult ''1'' ''ok'' False None]\<rparr>] @ map user_note [0..<199]"

lemma cap_leaves_orphan:
  "history_answered [] long_history \<and> \<not> history_answered [] (cap_history long_history)"
proof -
  have answered: "history_answered [] (map user_note ns)" for ns
    by (induction ns) (simp_all add: user_note_def use_ids_def)
  have "cap_history long_history = tl long_history"
    by (simp add: cap_history_def long_history_def del: upt_Suc upt_conv_Cons)
  then show ?thesis using answered
    by (simp add: long_history_def use_ids_def result_ids_def uses_in_def results_in_def map_filter_simps del: upt_Suc)
qed

section \<open>A key that is refused\<close>

lemma ascii_lower_slash: "ascii_lower c = CHR ''/'' \<longleftrightarrow> c = CHR ''/''"
proof
  assume *: "ascii_lower c = CHR ''/''"
  show "c = CHR ''/''"
  proof (rule ccontr)
    assume "c \<noteq> CHR ''/''"
    then have "65 \<le> byte c" "byte c \<le> 90" "char_of (byte c + 32) = CHR ''/''"
      using * by (auto simp: ascii_lower_def split: if_splits)
    then have "byte (char_of (byte c + 32)) = 47" by (simp add: byte_def)
    then show False using \<open>65 \<le> byte c\<close> \<open>byte c \<le> 90\<close> by simp
  qed
qed (simp add: ascii_lower_def byte_def)

lemma not_a_key:
  assumes "prefix ''/'' (trim t) \<or> prefix ''enc:v1:'' (trim t)"
  shows "detect_api_key t = None"
proof -
  have raw: "detect_raw_key (trim t) = None"
    using assms by (auto simp: detect_raw_key_def Let_def starts_with_def prefix_def)
  have "\<not> prefix ''proxy'' (to_lowercase (trim t))"
    using assms by (auto simp: to_lowercase_def prefix_def ascii_lower_def byte_def)
  moreover have "explicit_provider (to_lowercase p) = None" if "split_once (CHR '':'') (trim t) = Some (p, k)" for p k
  proof -
    have "prefix ''/'' p \<or> p = [] \<or> p = ''enc''" using that assms
      by (auto simp: split_once_Some prefix_def append_eq_Cons_conv Cons_eq_append_conv)
    then show ?thesis by (auto simp: explicit_provider_def to_lowercase_def prefix_def ascii_lower_def byte_def)
  qed
  ultimately show ?thesis using raw
    by (auto simp: detect_api_key_def starts_with_def Let_def split: option.splits)
qed

lemma lower_slash: "to_lowercase s = CHR ''/'' # r \<Longrightarrow> prefix ''/'' s"
  by (cases s) (auto simp: to_lowercase_def ascii_lower_slash)

text \<open>A message with a key is no command.\<close>

lemma key_is_no_command:
  assumes "detect_api_key (msg_str msg) = Some cred" "wk_agent w = Some agent"
  shows "fst (handle_message env msg w) = key_message env msg cred (w\<lparr>wk_raw_keys := remove1 (in_chat_id msg) (wk_raw_keys w)\<rparr>)"
proof -
  have no: "\<not> prefix ''/'' (trim (msg_str msg))" "\<not> prefix ''enc:v1:'' (trim (msg_str msg))"
    using assms(1) not_a_key [of "msg_str msg"] by auto
  then have "to_lowercase (trim (msg_str msg)) \<noteq> CHR ''/'' # r" for r using lower_slash by blast
  then show ?thesis using no assms
    by (auto simp: handle_message_def Let_def starts_with_def prefix_def)
qed

text \<open>C11: 
  A key that its provider refuses changes nothing: the credentials file, the agent that is online
  with its provider, its model and its budget, and the history are as before, and the user gets one
  reply, which names the provider and does not repeat the key unless the provider did.
\<close>

theorem rejected_key_changes_nothing:
  assumes "wk_agent w = Some agent" "detect_api_key (msg_str msg) = Some cred"
    and "validate_provider_key (we_answer env) (test_config env cred) = Inl err"
  shows "wk_file (fst (handle_message env msg w)) = wk_file w \<and> wk_agent (fst (handle_message env msg w)) = Some agent
    \<and> wk_history (fst (handle_message env msg w)) = wk_history w
    \<and> (\<exists>m. wk_sent (fst (handle_message env msg w)) = wk_sent w @ [m]
        \<and> out_text m = ''Invalid API key '' @ em_dash @ '' '' @ dc_provider cred @ '' returned an error:'' @ nl @ err @ nl @ nl
          @ ''The current provider is still active. Check the key and try again.'')"
  using assms by (simp add: key_is_no_command key_message_def validate_def)

section \<open>Gaps\<close>

text \<open>
  With two keys the agent is made anew after each message, and with it the budget: what was spent
  is forgotten, so the limit holds for a message, not for the run of the program.
\<close>

lemma two_keys_reset_budget:
  assumes "load_active_provider_keys (we_cred env) (wk_file w) = Some (name, keys, model, url)" "1 < length keys"
    and "validate_provider_key (we_answer env) (config_of name keys (first_key keys) model (or_else url (we_base_url env))) = Inr p"
    and "\<forall>k \<in> set keys. \<not> is_placeholder_key k"
  shows "\<exists>a. wk_agent (hot_reload env agent w) = Some a \<and> la_budget a = bt_new (we_spend_limit env) \<and> la_breaker a = cb_default"
proof -
  have "filter (\<lambda>k. \<not> is_placeholder_key k) keys = keys" using assms(4) by (simp add: filter_id_conv)
  moreover have "keys \<noteq> []" using assms(2) by auto
  ultimately show ?thesis using assms(1-3) by (simp add: hot_reload_def validate_def go_online_def)
qed

text \<open>
  With a second key of the old provider removed, the agent goes on with the keys it was made with,
  also when its provider is no longer configured, as long as there is another one.
\<close>

lemma removed_key_in_use:
  assumes "remove_provider (we_cred env) (trim (drop 10 (trim (msg_str msg)))) (wk_file w) = (told, file')"
    and "load_active_provider_keys (we_cred env) file' \<noteq> None"
  shows "wk_agent (cmd_removekey env msg w) = wk_agent w"
  using assms by (auto simp: cmd_removekey_def Let_def)

text \<open>An attachment is written where its name says, outside the workspace if that is an absolute path.\<close>

lemma attachment_outside_workspace:
  assumes "we_write_file env (components ''/etc/passwd'') (rf_data f)" "rf_name f = ''/etc/passwd''"
  shows "wk_written (snd (save_attachment env f w)) = wk_written w @ [components ''/etc/passwd'']"
proof -
  have "path_join ws (components ''/etc/passwd'') = components ''/etc/passwd''" for ws
    by (simp add: path_join_def path_absolute_def components_def starts_with_def)
  then show ?thesis using assms by (simp add: save_attachment_def)
qed

section \<open>Examples\<close>

definition demo_worker_env :: "nat worker_env" where
  "demo_worker_env = \<lparr>we_cred = demo_cred_env, we_answer = (\<lambda>_ _. Inl (Provider ''401 Unauthorized'')), we_base_url = None,
     we_soul = None, we_spend_limit = 0, we_turn = (\<lambda>l _ session world. (session, TurnPanic, l, world)),
     we_usage_summary = (\<lambda>_. Inl (Memory ''down'')), we_usage_display = (\<lambda>_. Inr False),
     we_decode = (\<lambda>_. Inl ''bad''), we_decrypt = (\<lambda>_ _ _. None), we_hex = (\<lambda>_. []), we_otk = [], we_now = 0, we_utc = 0,
     we_uuid = ''u'', we_receive = None, we_write_file = (\<lambda>_ _. False), we_history_json = (\<lambda>_. Some ''[]''),
     we_workspace = ''/w''\<rparr>"

definition demo_live_agent :: live_agent where
  "demo_live_agent = \<lparr>la_provider = OpenAICompatProvider (openai_new ''k''), la_model = ''gpt-5.2'', la_prompt = [],
     la_breaker = cb_default, la_budget = bt_new 0\<rparr>"

definition demo_worker :: "nat worker" where
  "demo_worker = \<lparr>wk_chat = ''c'', wk_file = None, wk_tokens = store_new, wk_raw_keys = [], wk_agent = Some demo_live_agent,
     wk_history = take 2 long_history, wk_sent = [], wk_stored = [], wk_usage = [], wk_written = [], wk_world = 0\<rparr>"

text \<open>A message without a text.\<close>

definition demo_empty :: inbound_message where
  "demo_empty = (demo_inbound ''cli'' [])\<lparr>in_text := None\<rparr>"

abbreviation demo_with_agent :: "nat worker_env" where
  "demo_with_agent \<equiv> with_agent [] (\<lambda>_. ([], JNull)) 200 30000 200 1800 (\<lambda>_. demo_env) (\<lambda>_. []) demo_worker_env"

lemma demo_history: "wk_history (fst (handle_message demo_with_agent demo_empty demo_worker)) = take 2 long_history"
proof -
  have blank: "msg_str demo_empty = []" "in_attachments demo_empty = []" "message_text demo_empty = None"
    by (simp_all add: demo_empty_def demo_inbound_def msg_str_def message_text_def)
  have "trim [] = []" "to_lowercase [] = []" "detect_api_key [] = None" by code_simp+
  then have h: "fst (handle_message demo_with_agent demo_empty demo_worker) = agent_message demo_with_agent demo_live_agent demo_empty demo_worker"
    by (simp add: handle_message_def blank starts_with_def demo_worker_def)
  obtain s r a wo where turn: "we_turn demo_with_agent demo_live_agent demo_empty
      (session_of demo_with_agent demo_empty (wk_history demo_worker)) (wk_world demo_worker) = (s, r, a, wo)"
    by (metis prod_cases4)
  then have "sess_history s = wk_history demo_worker"
    by (auto simp: with_agent_def agent_turn_def process_message_def blank session_of_def)
  then have "rolled_back r (wk_history demo_worker) (sess_history s) = wk_history demo_worker"
    by (simp add: rolled_back_def)
  moreover have "take_attachments demo_with_agent demo_empty demo_worker = (demo_empty, demo_worker)"
    by (simp add: take_attachments_def blank)
  ultimately show ?thesis using agent_message_history [OF _ turn] h
    by (simp add: demo_worker_def cap_history_def)
qed

theorem worker_keeps_calls_answered_witness:
  "history_answered [] (wk_history (fst (handle_message demo_with_agent demo_empty demo_worker)))"
proof (rule worker_keeps_calls_answered)
  show "history_answered [] (wk_history demo_worker)"
    by (simp add: demo_worker_def long_history_def use_ids_def result_ids_def uses_in_def results_in_def map_filter_simps del: upt_Suc)
  show "length (wk_history (fst (handle_message demo_with_agent demo_empty demo_worker))) < 200"
    by (simp add: demo_history)
qed

theorem rejected_key_changes_nothing_witness:
  "\<exists>m. wk_sent (fst (handle_message demo_worker_env (demo_inbound ''cli'' ''grok:xai-abcdefgh12'') demo_worker)) = [m]"
proof -
  let ?msg = "demo_inbound ''cli'' ''grok:xai-abcdefgh12''" and ?cred = "\<lparr>dc_provider = ''grok'', dc_api_key = ''xai-abcdefgh12'', dc_base_url = None\<rparr>"
  have key: "detect_api_key (msg_str ?msg) = Some ?cred"
    by (simp add: msg_str_def) code_simp
  have "auth_failure (show_error (Provider ''401 Unauthorized''))" by code_simp
  moreover obtain p where "create_provider (test_config demo_worker_env ?cred) = Inr p"
    by (simp add: test_config_def config_of_def create_provider_def all_keys_def Let_def split: option.split)
  ultimately have "validate_provider_key (we_answer demo_worker_env) (test_config demo_worker_env ?cred)
      = Inl (show_error (Provider ''401 Unauthorized''))"
    by (simp add: validate_provider_key_def demo_worker_env_def)
  from rejected_key_changes_nothing [OF _ key this, of demo_worker demo_live_agent] show ?thesis
    by (auto simp: demo_worker_def)
qed

end
