(* ===== verification/Spec2Isabelle.thy ===== *)
theory Spec2Isabelle
  imports Circuit_Breaker Task_Graph Tool_Executor Self_Correction Watchdog Recovery Setup_Tokens
    Session_Manager Model_Router Done_Criteria History_Pruning Output_Compression Streaming
    Durations Vault Tenants Failover Orchestrator Agent_Runtime Providers Delegation Proactive Identity Prompt_Patches Markdown_Memory
    Channels Chat_Worker
begin

text \<open>
  \<^bold>\<open>A verification library for the SkySclawper agent runtime.\<close>

  The program is a Rust workspace. A \<^emph>\<open>channel\<close> (a chat platform) receives a user's message;
  the \<^emph>\<open>dispatcher\<close> of \<open>src/main.rs\<close> hands it to the worker of its chat; the worker handles
  commands and API keys itself and gives everything else to the \<^emph>\<open>agent\<close>, which builds a request
  from the history and the \<^emph>\<open>memory\<close>, asks a model \<^emph>\<open>provider\<close>, runs the tools it calls and asks
  again until there is an answer, which goes back to the channel. This library models the parts
  that hold state and take decisions; network, disk, clocks and third-party crates are parameters.

  \<^bold>\<open>Foundations.\<close>
  \<^item> \<open>Prelude\<close>: machine-integer names, option and list lemmas, association lists for
    \<open>HashMap\<close> (iteration order is the list's order), and the locale \<open>failure_counter\<close>.
  \<^item> \<open>Rust_Str\<close>: \<open>str\<close> as its bytes: UTF-8, character boundaries, slices that panic (\<open>None\<close>),
    trimming, lines, searching, numbers. Lower-casing is ASCII only; where the code lower-cases
    text that need not be ASCII, the mapping is a parameter \<open>lowercase\<close>.
  \<^item> \<open>Rust_Float\<close>: \<open>f32\<close> and \<open>f64\<close> as rationals with IEEE rounding, which keeps the order.
  \<^item> \<open>Skyclaw_Types\<close>: \<open>crates/skyclaw-core/src/types\<close> and \<open>traits/tool.rs\<close>.
  \<^item> \<open>Paths\<close>: \<open>std::path\<close> components. \<open>Kahn\<close> and \<open>Union_Find\<close>: the two algorithms.
    \<open>Plain_Text\<close>: a text format with its reader, the concrete instance of the parsers and
    printers that are parameters. \<open>Durations\<close>: \<open>crates/skyclaw-automation/src/duration.rs\<close>.

  \<^bold>\<open>Agent\<close> (\<open>crates/skyclaw-agent/src\<close>).
  \<^item> \<open>Agent_Runtime\<close> (\<open>runtime.rs\<close>): \<open>process_message\<close> as the loop over rounds \<open>agent_loop\<close>, composed of
    the theories below. Its lemmas: the history stays a sequence of answered tool calls, the
    status of the task follows the turn, the provider is not called behind an open breaker or
    over the budget. The number of rounds is the code's own limit, so no fuel is added.
  \<^item> \<open>Tool_Executor\<close> (\<open>executor.rs\<close>): validation of a call (\<open>execute_tool\<close>), dependency groups
    (\<open>detect_dependencies\<close>), and the parallel run under an explicit schedule.
  \<^item> \<open>Context\<close> (\<open>context.rs\<close>): the request within the token budget. \<open>History_Pruning\<close>,
    \<open>Output_Compression\<close>, \<open>Done_Criteria\<close>, \<open>Model_Router\<close>, \<open>Streaming\<close>: what the agent sends to the model
    and to the user.
  \<^item> \<open>Task_Graph\<close> (\<open>task_decomposition.rs\<close>): sub-tasks, cycle check, topological order, progress.
  \<^item> \<open>Task_Queue\<close> (\<open>task_queue.rs\<close>) and \<open>Recovery\<close> (\<open>recovery.rs\<close>): the persistent queue as a table
    that refines a map, and the scan after a restart, which reaches the queue through the locale
    \<open>task_store\<close>, interpreted on the table.
  \<^item> \<open>Circuit_Breaker\<close>, \<open>Watchdog\<close>, \<open>Self_Correction\<close>: failure handling; the last two share the
    locale \<open>failure_counter\<close>.
  \<^item> \<open>Budget\<close> (\<open>budget.rs\<close>): prices and spend. \<open>Learning\<close> (\<open>learning.rs\<close>) and \<open>Prompt_Patches\<close>
    (\<open>prompt_patches.rs\<close>): what the agent keeps of a finished task; a patch is active only by consent.
  \<^item> \<open>Delegation\<close> (\<open>delegation.rs\<close>) and \<open>Proactive\<close> (\<open>proactive.rs\<close>): sub-agents with their limit under
    interleaved registration, and triggers with cooldowns.

  \<^bold>\<open>Providers\<close> (\<open>crates/skyclaw-providers/src\<close>): \<open>Provider_Client\<close> (keys, HTTP errors), \<open>Sse\<close> (the event
  stream, cut into pieces anywhere, with the locale \<open>event_client\<close>), \<open>Anthropic\<close> and \<open>Openai_Compat\<close> (the
  wire formats; both interpret \<open>event_client\<close>), \<open>Providers\<close> (\<open>create_provider\<close>, and what the agent's
  histories become on the wire). The lemmas: a stream gives back the message that was sent however
  it is cut, and every tool call that goes out is answered.

  \<^bold>\<open>Memory\<close> (\<open>crates/skyclaw-memory/src\<close>): \<open>Memory_Store\<close> holds the trait as the record \<open>memory_ops\<close> and
  what a client relies on as the locale \<open>memory_contract\<close>, which \<open>Sqlite_Memory\<close> (\<open>sqlite.rs\<close>) interprets;
  \<open>Markdown_Memory\<close> (\<open>markdown.rs\<close>, \<open>search.rs\<close>) is the backend of text files;
  \<open>Failover\<close> (\<open>failover.rs\<close>) decorates any backend and shows what survives its failures.

  \<^bold>\<open>Gateway, core and vault.\<close> \<open>Session_Manager\<close>, \<open>Setup_Tokens\<close> and \<open>Identity\<close>
  (\<open>crates/skyclaw-gateway/src\<close>): LRU sessions, one-time keys, users and the OAuth flow as interleaved
  atomic steps. \<open>Tenants\<close> and \<open>Orchestrator\<close> (\<open>crates/skyclaw-core/src\<close>): tenant paths and rate limits, and
  the containers with their cap. \<open>Vault\<close> (\<open>crates/skyclaw-vault/src\<close>): encrypted secrets.

  \<^bold>\<open>Channels\<close> (\<open>crates/skyclaw-channels/src\<close>). \<open>Channel_Access\<close>: the allowlist, its file and its
  commands, and the locale \<open>gatekeeper\<close>, in which is proved who is heard. \<open>Channels\<close>: the adapters of
  Telegram, Discord and Slack (\<open>telegram.rs\<close>, \<open>discord.rs\<close>, \<open>slack.rs\<close>), each an interpretation of it, with
  the polling of Slack and the splitting of long replies; \<open>file_transfer.rs\<close>.

  \<^bold>\<open>The program\<close> (\<open>src/main.rs\<close>). \<open>Credentials\<close>: recognising, checking, keeping and hiding API keys.
  \<open>Chat_Dispatch\<close>: the dispatcher and the workers as a state machine of events. \<open>Chat_Worker\<close>: what a
  worker does with one message; it relies on the agent's turn by the locale \<open>chat_agent\<close>, which is
  interpreted with \<open>Agent_Runtime\<close>'s \<open>process_message\<close>.

  \<^bold>\<open>Conventions.\<close> A panic is \<open>None\<close>, \<open>Result<T, E>\<close> is \<open>E + T\<close>. Integers keep their width and wrap as
  in a release build, except collection lengths. Time is a number of nanoseconds given to
  the operation. An \<open>async\<close> operation that holds a lock is one atomic step; where the code lets go
  of a lock between two steps, the steps are separate and interleave. Each database or file
  operation has a parameter that says whether it fails.

  \<^bold>\<open>Loops, bounds and fuel.\<close> Loops over data are structural. The loops that could go on (Kahn's
  algorithm, union-find's parent chains, the reader of the event stream) have a termination
  measure or fuel equal to the length of their input, with a lemma that this is enough; the loop
  that splits a reply need not end, so \<open>split_loop\<close> is a partial function, and the property says when it
  does end. The agent's loop ends by its own configured number of rounds. Floating point results are bounded where a
  decision depends on them.

  \<^bold>\<open>Not modelled.\<close> HTTP and sockets (the connections of \<open>skyclaw-channels\<close>, the gateway's server and dashboard); the tools' own effects (browser, shell, files, git, web), of which the
  executor only needs that they are functions of the world; S3 and the tracing set-up; the parsers
  and printers of \<open>serde\<close>, \<open>toml\<close>, \<open>chrono\<close> and \<open>regex\<close>; the ciphers; the command line and the order in
  which \<open>main\<close> wires the parts together. They are third-party code or pure input and output.
\<close>

end
